(* ===== verification/Prelude.thy ===== *)
theory Prelude
  imports Main "HOL-Library.Word" "HOL-Library.Monad_Syntax"
begin

unbundle bit_operations_syntax

text \<open>Shared vocabulary of the development: the machine integer types, fixed-size arrays as
  lists, the first-match scan that most tables of the hypervisor use, and the generic
  lemmas on them.  The value \<^term>\<open>None\<close> of a result of type \<open>'a or_panic\<close> is a Rust panic
  (index out of range, division by zero, arithmetic overflow of the checked build).\<close>

type_synonym u8 = "8 word"
type_synonym u16 = "16 word"
type_synonym u32 = "32 word"
type_synonym u64 = "64 word"

type_synonym 'a or_panic = "'a option"

named_theorems inv_intros \<open>preservation of the component invariants\<close>
named_theorems scan_simps \<open>facts on first-match scans of tables\<close>

section \<open>First-match scans\<close>

text \<open>\<open>first_idx P xs\<close> is the index at which a loop \<open>for i in 0..xs.len() { if P(xs[i]) { ... return } }\<close>
  stops.\<close>

fun first_idx :: "('a \<Rightarrow> bool) \<Rightarrow> 'a list \<Rightarrow> nat option" where
  "first_idx P [] = None"
| "first_idx P (x # xs) = (if P x then Some 0 else map_option Suc (first_idx P xs))"

lemma first_idx_None [scan_simps]: "first_idx P xs = None \<longleftrightarrow> (\<forall>x\<in>set xs. \<not> P x)"
  by (induction xs) auto

lemma first_idx_Some:
  "first_idx P xs = Some i \<longleftrightarrow> i < length xs \<and> P (xs ! i) \<and> (\<forall>j<i. \<not> P (xs ! j))"
proof (induction xs arbitrary: i)
  case (Cons x xs)
  show ?case
    by (cases i) (simp_all add: Cons.IH All_less_Suc2)
qed simp

lemma first_idx_SomeD:
  assumes "first_idx P xs = Some i"
  shows "i < length xs" "P (xs ! i)" "\<And>j. j < i \<Longrightarrow> \<not> P (xs ! j)"
  using assms by (auto simp: first_idx_Some)

lemma first_idx_ex: "x \<in> set xs \<Longrightarrow> P x \<Longrightarrow> \<exists>i. first_idx P xs = Some i"
  using first_idx_None [of P xs] by (cases "first_idx P xs") blast+

lemma first_idx_unique:
  assumes "i < length xs" "P (xs ! i)" "\<And>j. j < length xs \<Longrightarrow> P (xs ! j) \<Longrightarrow> j = i"
  shows "first_idx P xs = Some i"
  unfolding first_idx_Some using assms by (metis less_imp_neq less_trans)

text \<open>For the dispatch on a number of cases.\<close>

lemma if_eqE: "(if P then x else y) = z \<Longrightarrow> (P \<Longrightarrow> x = z \<Longrightarrow> R) \<Longrightarrow> (\<not> P \<Longrightarrow> y = z \<Longrightarrow> R) \<Longrightarrow> R"
  by (simp split: if_splits)

lemma bind_SomeE: "Option.bind x f = Some y \<Longrightarrow> (\<And>v. x = Some v \<Longrightarrow> f v = Some y \<Longrightarrow> R) \<Longrightarrow> R"
  by (auto simp: bind_eq_Some_conv)

lemma case_option_eqE: "(case x of None \<Rightarrow> a | Some v \<Rightarrow> f v) = z \<Longrightarrow>
    (x = None \<Longrightarrow> a = z \<Longrightarrow> R) \<Longrightarrow> (\<And>v. x = Some v \<Longrightarrow> f v = z \<Longrightarrow> R) \<Longrightarrow> R"
  by (cases x) auto

lemma case_sum_eqE: "(case x of Inl a \<Rightarrow> f a | Inr b \<Rightarrow> g b) = z \<Longrightarrow>
    (\<And>a. x = Inl a \<Longrightarrow> f a = z \<Longrightarrow> R) \<Longrightarrow> (\<And>b. x = Inr b \<Longrightarrow> g b = z \<Longrightarrow> R) \<Longrightarrow> R"
  by (cases x) auto

lemma case_prod_eqE: "(case x of (a, b) \<Rightarrow> f a b) = z \<Longrightarrow> (\<And>a b. x = (a, b) \<Longrightarrow> f a b = z \<Longrightarrow> R) \<Longrightarrow> R"
  by (cases x) auto

lemmas branchE = if_eqE bind_SomeE case_option_eqE case_sum_eqE case_prod_eqE

section \<open>Fixed-size arrays\<close>

lemma nth_update_cases:
  "i < length xs \<Longrightarrow> xs[j := v] ! i = (if i = j then v else xs ! i)"
  by (simp add: nth_list_update)

lemma set_update_subset: "x \<in> set (xs[i := v]) \<Longrightarrow> x = v \<or> x \<in> set xs"
  using set_update_subset_insert [of xs i v] by blast

text \<open>For the evaluation of concrete tables.\<close>

lemma replicate_unroll: "replicate (numeral k) x = x # replicate (pred_numeral k) x"
  by (simp add: numeral_eq_Suc)

section \<open>Pages\<close>

text \<open>\<open>page_of a\<close> is the base of the 4KB page that holds the address \<open>a\<close>.\<close>

definition page_of :: "u64 \<Rightarrow> u64" where
  "page_of a = a AND NOT 0xFFF"

definition page_aligned :: "u64 \<Rightarrow> bool" where
  "page_aligned p \<longleftrightarrow> p AND 0xFFF = 0"

lemma unat_add_exact: "unat a + unat b < 2 ^ 64 \<Longrightarrow> unat (a + b) = unat a + unat b" for a b :: u64
  using unat_add_lem [of a b] by simp

lemma unat_mult_exact: "unat a * unat b < 2 ^ 64 \<Longrightarrow> unat (a * b) = unat a * unat b" for a b :: u64
  using unat_mult_lem [of a b] by simp

lemma u64_eq_iff: "x = y \<longleftrightarrow> (\<forall>n<64. bit x n \<longleftrightarrow> bit y n)" for x y :: u64
  by (auto intro: bit_word_eqI)

lemma mask12: "(mask 12 :: u64) = 0xFFF"
  by (simp add: mask_eq_exp_minus_1)

lemma and_not_mask_plus: "(x AND NOT (mask n)) + take_bit n x = x" for x :: "'a::len word"
proof -
  have "x AND NOT (mask n) = push_bit n (drop_bit n x)"
    by (rule bit_word_eqI) (auto simp: bit_simps)
  thus ?thesis by (simp add: bits_ident)
qed

lemma unat_take_bit: "unat (take_bit n x) = unat x mod 2 ^ n" for x :: "'a::len word"
  unfolding unsigned_take_bit_eq by (rule take_bit_eq_mod)

lemma unat_drop_bit: "unat (drop_bit n x) = unat x div 2 ^ n" for x :: "'a::len word"
  unfolding unat_drop_bit_eq by (rule drop_bit_eq_div)

lemma unat_and_not_mask: "unat (x AND NOT (mask n)) = unat x div 2 ^ n * 2 ^ n" for x :: "'a::len word"
proof -
  have "x AND NOT (mask n) = x - take_bit n x"
    using and_not_mask_plus [of x n] by (metis add_diff_cancel_right')
  moreover have "take_bit n x \<le> x"
    by (simp add: word_le_nat_alt unat_take_bit)
  ultimately have "unat (x AND NOT (mask n)) = unat x - unat x mod 2 ^ n"
    by (simp add: unat_sub unat_take_bit)
  thus ?thesis by (metis minus_mod_eq_div_mult)
qed

lemma unat_page_of: "unat (page_of a) = unat a div 4096 * 4096"
  using unat_and_not_mask [of a 12] by (simp add: page_of_def mask12)

lemma page_aligned_iff: "page_aligned p \<longleftrightarrow> 4096 dvd unat p"
proof -
  have "p AND 0xFFF = take_bit 12 p" by (simp add: take_bit_eq_mask mask12)
  hence "page_aligned p \<longleftrightarrow> unat (take_bit 12 p) = 0" by (simp add: page_aligned_def unat_eq_0)
  thus ?thesis by (simp add: unat_take_bit dvd_eq_mod_eq_0)
qed

lemma page_aligned_page_of: "page_aligned p \<longleftrightarrow> page_of p = p"
  by (auto simp: page_aligned_iff word_unat_eq_iff unat_page_of dvd_eq_mod_eq_0 simp flip: minus_mod_eq_div_mult)

lemma page_of_aligned [simp]: "page_aligned (page_of a)"
  by (simp add: page_aligned_iff unat_page_of)

lemma page_of_self: "page_aligned p \<Longrightarrow> page_of p = p"
  by (simp add: page_aligned_page_of)

lemma page_aligned_le: "page_aligned p \<Longrightarrow> unat p + 4096 \<le> 2 ^ 64"
proof -
  assume "page_aligned p"
  then obtain k where k: "unat p = 4096 * k" by (auto simp: page_aligned_iff)
  have "unat p < 2 ^ 64" using unsigned_less [of p] by simp
  hence "k < 2 ^ 52" using k by simp
  thus ?thesis using k by simp
qed

text \<open>Entry \<open>i\<close> of the table page \<open>t\<close>: its address stays in the page, and pages and indices can be
  read back from it.\<close>

definition entry_addr :: "u64 \<Rightarrow> u64 \<Rightarrow> u64" where
  "entry_addr t i = t + 8 * i"

lemma unat_entry_addr:
  "page_aligned t \<Longrightarrow> i < 512 \<Longrightarrow> unat (entry_addr t i) = unat t + 8 * unat i"
proof -
  assume t: "page_aligned t" and "i < 512"
  hence i: "unat i < 512" by (simp add: word_less_nat_alt)
  hence "unat (8 * i) = 8 * unat i" by (simp add: unat_mult_exact)
  moreover have "unat t + 8 * unat i < 2 ^ 64" using page_aligned_le [OF t] i by linarith
  ultimately show ?thesis
    by (simp add: entry_addr_def unat_add_exact)
qed

lemma page_of_entry: "page_aligned t \<Longrightarrow> i < 512 \<Longrightarrow> page_of (entry_addr t i) = t"
proof -
  assume t: "page_aligned t" and i: "i < 512"
  then obtain k where k: "unat t = 4096 * k" by (auto simp: page_aligned_iff)
  have "unat i < 512" using i by (simp add: word_less_nat_alt)
  hence "(unat t + 8 * unat i) div 4096 * 4096 = unat t" by (simp add: k)
  thus ?thesis using t i by (simp add: word_unat_eq_iff unat_page_of unat_entry_addr)
qed

lemma entry_addr_inj:
  assumes "page_aligned s" "page_aligned t" "i < 512" "j < 512" "entry_addr s i = entry_addr t j"
  shows "s = t \<and> i = j"
proof -
  have "s = t" using assms page_of_entry by metis
  moreover have "unat s + 8 * unat i = unat t + 8 * unat j"
    using assms unat_entry_addr by metis
  ultimately show ?thesis by (simp add: word_unat_eq_iff)
qed

end
