(* ===== verification/Scheduler.thy ===== *)
theory Scheduler
  imports Prelude
begin

text \<open>The round-robin vCPU scheduler (\<open>src/scheduler.rs\<close>): the table of run states, the operations
  on it, the invariant that at most one vCPU is running and that it is the current one, and the
  fairness of the round robin.\<close>

definition MAX_VCPUS :: nat where
  "MAX_VCPUS = 8"

datatype run_state = Unregistered | Ready | Running | Blocked

record scheduler =
  sch_states :: "run_state list"
  sch_current :: "nat option"
  sch_next_idx :: nat

definition sched_new :: scheduler where
  "sched_new = \<lparr>sch_states = replicate MAX_VCPUS Unregistered, sch_current = None, sch_next_idx = 0\<rparr>"

definition sched_add_vcpu :: "nat \<Rightarrow> scheduler \<Rightarrow> scheduler" where
  "sched_add_vcpu vcpu_id s =
    (if vcpu_id < MAX_VCPUS then s\<lparr>sch_states := (sch_states s)[vcpu_id := Ready]\<rparr> else s)"

definition sched_remove_vcpu :: "nat \<Rightarrow> scheduler \<Rightarrow> scheduler" where
  "sched_remove_vcpu vcpu_id s =
    (if vcpu_id < MAX_VCPUS
     then s\<lparr>sch_states := (sch_states s)[vcpu_id := Unregistered],
            sch_current := (if sch_current s = Some vcpu_id then None else sch_current s)\<rparr>
     else s)"

text \<open>The order in which one call of \<open>pick_next\<close> inspects the slots.\<close>

definition rr_order :: "nat \<Rightarrow> nat list" where
  "rr_order nxt = map (\<lambda>i. (nxt + i) mod MAX_VCPUS) [0..<MAX_VCPUS]"

definition pick_ready :: "scheduler \<Rightarrow> nat option \<times> scheduler" where
  "pick_ready s =
    (case find (\<lambda>idx. sch_states s ! idx = Ready) (rr_order (sch_next_idx s)) of
       Some idx \<Rightarrow>
         (Some idx, s\<lparr>sch_current := Some idx, sch_states := (sch_states s)[idx := Running]\<rparr>)
     | None \<Rightarrow> (None, s))"

definition pick_next :: "scheduler \<Rightarrow> nat option \<times> scheduler" where
  "pick_next s =
    (case sch_current s of
       Some i \<Rightarrow> if sch_states s ! i = Running then (sch_current s, s) else pick_ready s
     | None \<Rightarrow> pick_ready s)"

definition yield_current :: "scheduler \<Rightarrow> scheduler" where
  "yield_current s =
    (case sch_current s of
       Some i \<Rightarrow> s\<lparr>sch_states := (sch_states s)[i := Ready], sch_current := None,
                   sch_next_idx := (i + 1) mod MAX_VCPUS\<rparr>
     | None \<Rightarrow> s)"

definition block_current :: "scheduler \<Rightarrow> scheduler" where
  "block_current s =
    (case sch_current s of
       Some i \<Rightarrow> s\<lparr>sch_states := (sch_states s)[i := Blocked], sch_current := None,
                   sch_next_idx := (i + 1) mod MAX_VCPUS\<rparr>
     | None \<Rightarrow> s)"

definition unblock :: "nat \<Rightarrow> scheduler \<Rightarrow> scheduler" where
  "unblock vcpu_id s =
    (if vcpu_id < MAX_VCPUS \<and> sch_states s ! vcpu_id = Blocked
     then s\<lparr>sch_states := (sch_states s)[vcpu_id := Ready]\<rparr> else s)"

definition sched_state :: "scheduler \<Rightarrow> nat \<Rightarrow> run_state" where
  "sched_state s vcpu_id = (if vcpu_id < MAX_VCPUS then sch_states s ! vcpu_id else Unregistered)"

text \<open>The scheduler's interface as events, for statements about all its reachable states.\<close>

datatype sched_op = Add nat | Remove nat | Pick | Yield | Block | Wake nat

fun sched_step :: "sched_op \<Rightarrow> scheduler \<Rightarrow> scheduler" where
  "sched_step (Add i) s = sched_add_vcpu i s"
| "sched_step (Remove i) s = sched_remove_vcpu i s"
| "sched_step Pick s = snd (pick_next s)"
| "sched_step Yield s = yield_current s"
| "sched_step Block s = block_current s"
| "sched_step (Wake i) s = unblock i s"

text \<open>One turn of the run loop: a vCPU is picked, it gives the processor up by yielding or
  blocking, and some blocked vCPUs are woken.\<close>

definition turn :: "bool \<times> nat list \<Rightarrow> scheduler \<Rightarrow> nat option \<times> scheduler" where
  "turn e s =
    (let (r, s1) = pick_next s;
         s2 = (if fst e then yield_current s1 else block_current s1)
     in (r, fold unblock (snd e) s2))"

fun turns :: "(bool \<times> nat list) list \<Rightarrow> scheduler \<Rightarrow> nat option list" where
  "turns [] s = []"
| "turns (e # es) s = (case turn e s of (r, s') \<Rightarrow> r # turns es s')"

definition sched_inv :: "scheduler \<Rightarrow> bool" where
  "sched_inv s \<longleftrightarrow>
     length (sch_states s) = MAX_VCPUS \<and> sch_next_idx s < MAX_VCPUS \<and>
     (case sch_current s of
        None \<Rightarrow> \<forall>i<MAX_VCPUS. sch_states s ! i \<noteq> Running
      | Some c \<Rightarrow> c < MAX_VCPUS \<and> (\<forall>i<MAX_VCPUS. i \<noteq> c \<longrightarrow> sch_states s ! i \<noteq> Running))"

section \<open>The invariant\<close>

lemma rr_order_mem: "n < MAX_VCPUS \<Longrightarrow> set (rr_order n) = {..<MAX_VCPUS}"
proof -
  assume n: "n < MAX_VCPUS"
  have "v \<in> set (rr_order n)" if "v < MAX_VCPUS" for v
  proof -
    have "(n + (v + MAX_VCPUS - n) mod MAX_VCPUS) mod MAX_VCPUS = v"
      using n that by (simp add: mod_simps)
    thus ?thesis
      unfolding rr_order_def by (auto intro!: image_eqI [where x = "(v + MAX_VCPUS - n) mod MAX_VCPUS"]
        simp: MAX_VCPUS_def)
  qed
  thus ?thesis by (auto simp: rr_order_def MAX_VCPUS_def)
qed

lemma pick_ready_Some:
  assumes "pick_ready s = (Some i, s')" "sch_next_idx s < MAX_VCPUS"
  shows "i < MAX_VCPUS" "sch_states s ! i = Ready"
    "s' = s\<lparr>sch_current := Some i, sch_states := (sch_states s)[i := Running]\<rparr>"
proof -
  from assms have "find (\<lambda>idx. sch_states s ! idx = Ready) (rr_order (sch_next_idx s)) = Some i"
    and *: "s' = s\<lparr>sch_current := Some i, sch_states := (sch_states s)[i := Running]\<rparr>"
    by (auto simp: pick_ready_def split: option.splits)
  hence "i \<in> set (rr_order (sch_next_idx s))" "sch_states s ! i = Ready"
    by (auto simp: find_Some_iff)
  with * assms(2) show "i < MAX_VCPUS" "sch_states s ! i = Ready"
    "s' = s\<lparr>sch_current := Some i, sch_states := (sch_states s)[i := Running]\<rparr>"
    by (auto simp: rr_order_mem)
qed

lemma pick_ready_None:
  assumes "pick_ready s = (None, s')" "sch_next_idx s < MAX_VCPUS"
  shows "s' = s" "\<forall>i<MAX_VCPUS. sch_states s ! i \<noteq> Ready"
  using assms rr_order_mem [OF assms(2)]
  by (auto simp: pick_ready_def find_None_iff split: option.splits)

lemma pick_ready_inv:
  assumes "sched_inv s" "\<forall>i<MAX_VCPUS. sch_states s ! i \<noteq> Running"
  shows "sched_inv (snd (pick_ready s))"
proof (cases "pick_ready s")
  case (Pair r s')
  show ?thesis
  proof (cases r)
    case None
    with Pair assms(1) have "s' = s" by (auto simp: sched_inv_def intro: pick_ready_None(1))
    with Pair assms(1) show ?thesis by simp
  next
    case (Some i)
    with Pair assms(1) have "pick_ready s = (Some i, s')" "sch_next_idx s < MAX_VCPUS"
      by (simp_all add: sched_inv_def)
    note p = pick_ready_Some [OF this]
    show ?thesis using assms p Pair by (simp add: sched_inv_def nth_list_update)
  qed
qed

lemma sched_inv_not_running:
  "sched_inv s \<Longrightarrow> (\<And>c. sch_current s = Some c \<Longrightarrow> sch_states s ! c \<noteq> Running) \<Longrightarrow>
   \<forall>i<MAX_VCPUS. sch_states s ! i \<noteq> Running"
  by (cases "sch_current s") (auto simp: sched_inv_def)

lemma pick_next_inv [inv_intros]: "sched_inv s \<Longrightarrow> sched_inv (snd (pick_next s))"
proof (cases "\<exists>c. sch_current s = Some c \<and> sch_states s ! c = Running")
  case False
  assume inv: "sched_inv s"
  have "pick_next s = pick_ready s" using False by (auto simp: pick_next_def split: option.split)
  moreover have "sched_inv (snd (pick_ready s))"
    using False inv by (intro pick_ready_inv sched_inv_not_running) auto
  ultimately show "sched_inv (snd (pick_next s))" by simp
qed (auto simp: pick_next_def)

lemma add_vcpu_inv [inv_intros]: "sched_inv s \<Longrightarrow> sched_inv (sched_add_vcpu i s)"
  by (auto simp: sched_inv_def sched_add_vcpu_def nth_list_update split: option.splits)

lemma remove_vcpu_inv [inv_intros]: "sched_inv s \<Longrightarrow> sched_inv (sched_remove_vcpu i s)"
  by (auto simp: sched_inv_def sched_remove_vcpu_def nth_list_update split: option.splits)

lemma yield_current_inv [inv_intros]: "sched_inv s \<Longrightarrow> sched_inv (yield_current s)"
  by (auto simp: sched_inv_def yield_current_def nth_list_update MAX_VCPUS_def split: option.splits)

lemma block_current_inv [inv_intros]: "sched_inv s \<Longrightarrow> sched_inv (block_current s)"
  by (auto simp: sched_inv_def block_current_def nth_list_update MAX_VCPUS_def split: option.splits)

lemma unblock_inv [inv_intros]: "sched_inv s \<Longrightarrow> sched_inv (unblock i s)"
  by (auto simp: sched_inv_def unblock_def nth_list_update split: option.splits)

lemma sched_new_inv [inv_intros]: "sched_inv sched_new"
  by (simp add: sched_inv_def sched_new_def MAX_VCPUS_def)

lemma sched_step_inv: "sched_inv s \<Longrightarrow> sched_inv (sched_step a s)"
  by (cases a) (simp_all add: inv_intros)

lemma sched_steps_inv: "sched_inv s \<Longrightarrow> sched_inv (fold sched_step as s)"
  by (induction as arbitrary: s) (simp_all add: sched_step_inv)

section \<open>Fairness\<close>

text \<open>The number of slots the scan visits before it reaches \<open>v\<close>.\<close>

definition rr_dist :: "nat \<Rightarrow> scheduler \<Rightarrow> nat" where
  "rr_dist v s = (v + MAX_VCPUS - sch_next_idx s) mod MAX_VCPUS"

lemma rr_dist_less: "rr_dist v s < MAX_VCPUS"
  by (simp add: rr_dist_def MAX_VCPUS_def)

lemma rr_order_nth: "k < MAX_VCPUS \<Longrightarrow> rr_order n ! k = (n + k) mod MAX_VCPUS"
  by (simp add: rr_order_def)

lemma rr_order_dist:
  "sch_next_idx s < MAX_VCPUS \<Longrightarrow> v < MAX_VCPUS \<Longrightarrow>
   rr_order (sch_next_idx s) ! rr_dist v s = v"
  by (simp add: rr_order_nth rr_dist_less) (simp add: rr_dist_def mod_simps)

lemma mod_sum_less: "a < m \<Longrightarrow> b \<le> m \<Longrightarrow> (a + b) mod m = (if a + b < m then a + b else a + b - m)"
  for a b m :: nat
  by (cases "b = m") (simp_all add: mod_if)

lemma rr_dist_step:
  assumes "nxt < MAX_VCPUS" "v < MAX_VCPUS" "k < (v + MAX_VCPUS - nxt) mod MAX_VCPUS"
    "nxt' = ((nxt + k) mod MAX_VCPUS + 1) mod MAX_VCPUS"
  shows "(v + MAX_VCPUS - nxt') mod MAX_VCPUS < (v + MAX_VCPUS - nxt) mod MAX_VCPUS"
proof -
  have "(v + (MAX_VCPUS - nxt)) mod MAX_VCPUS = (if nxt \<le> v then v - nxt else v + MAX_VCPUS - nxt)"
    using assms(1,2) by (subst mod_sum_less) auto
  moreover have "nxt' < MAX_VCPUS" using assms(4) by (simp add: MAX_VCPUS_def)
  hence "(v + (MAX_VCPUS - nxt')) mod MAX_VCPUS = (if nxt' \<le> v then v - nxt' else v + MAX_VCPUS - nxt')"
    using assms(2) by (subst mod_sum_less) auto
  moreover have "nxt' = (if nxt + k + 1 < MAX_VCPUS then nxt + k + 1 else nxt + k + 1 - MAX_VCPUS)"
  proof -
    have "k + 1 \<le> MAX_VCPUS"
      using assms(3) mod_less_divisor [of MAX_VCPUS "v + MAX_VCPUS - nxt"] by (simp add: MAX_VCPUS_def)
    thus ?thesis using assms(1,4) mod_sum_less [of nxt MAX_VCPUS "k + 1"] by (simp add: mod_simps)
  qed
  ultimately show ?thesis using assms(1,2,3) by (auto split: if_splits)
qed

text \<open>With no current vCPU and \<open>v\<close> ready, the pick is \<open>v\<close> or a slot strictly before it in the scan.\<close>

lemma pick_next_dist:
  assumes "sched_inv s" "sch_current s = None" "v < MAX_VCPUS" "sch_states s ! v = Ready"
  obtains w k where "pick_next s =
      (Some w, s\<lparr>sch_current := Some w, sch_states := (sch_states s)[w := Running]\<rparr>)"
    "w = (sch_next_idx s + k) mod MAX_VCPUS" "k \<le> rr_dist v s"
    "k = rr_dist v s \<longrightarrow> w = v" "w < MAX_VCPUS"
proof -
  let ?P = "\<lambda>idx. sch_states s ! idx = Ready"
  have n: "sch_next_idx s < MAX_VCPUS" using assms by (simp add: sched_inv_def)
  have v: "rr_order (sch_next_idx s) ! rr_dist v s = v" using n assms by (simp add: rr_order_dist)
  have "v \<in> set (rr_order (sch_next_idx s))" using rr_order_mem [OF n] assms by simp
  then obtain w where w: "find ?P (rr_order (sch_next_idx s)) = Some w"
    using assms(4) find_None_iff [of ?P] by (cases "find ?P (rr_order (sch_next_idx s))") auto
  then obtain k where k: "k < MAX_VCPUS" "w = rr_order (sch_next_idx s) ! k"
    "\<forall>j<k. sch_states s ! (rr_order (sch_next_idx s) ! j) \<noteq> Ready"
    by (auto simp: find_Some_iff rr_order_def)
  have "k \<le> rr_dist v s" using k(3) v assms(4) by (metis linorder_not_less)
  moreover have "w < MAX_VCPUS" using k by (simp add: rr_order_nth MAX_VCPUS_def)
  ultimately show thesis
    using that [of w k] k v w assms(2) by (simp add: pick_next_def pick_ready_def rr_order_nth)
qed

lemma unblock_frame:
  "sch_current (fold unblock ws s) = sch_current s" "sch_next_idx (fold unblock ws s) = sch_next_idx s"
  by (induction ws arbitrary: s) (simp_all add: unblock_def)

lemma unblock_ready:
  "sch_states s ! v = Ready \<Longrightarrow> sch_states (fold unblock ws s) ! v = Ready"
proof (induction ws arbitrary: s)
  case (Cons w ws)
  have "sch_states (unblock w s) ! v = Ready"
    using Cons.prems by (cases "v = w") (simp_all add: unblock_def)
  thus ?case using Cons.IH by simp
qed simp

lemma unblocks_inv: "sched_inv s \<Longrightarrow> sched_inv (fold unblock ws s)"
  by (induction ws arbitrary: s) (simp_all add: inv_intros)

lemma turn_progress:
  assumes "sched_inv s" "sch_current s = None" "v < MAX_VCPUS" "sch_states s ! v = Ready"
    "turn e s = (r, s')" "r \<noteq> Some v"
  shows "sched_inv s'" "sch_current s' = None" "sch_states s' ! v = Ready" "rr_dist v s' < rr_dist v s"
proof -
  from pick_next_dist [OF assms(1-4)] obtain w k where
    p: "pick_next s = (Some w, s\<lparr>sch_current := Some w, sch_states := (sch_states s)[w := Running]\<rparr>)"
    and w: "w = (sch_next_idx s + k) mod MAX_VCPUS" "k \<le> rr_dist v s" "k = rr_dist v s \<longrightarrow> w = v"
    by metis
  define s2 where "s2 = (if fst e then yield_current (snd (pick_next s)) else block_current (snd (pick_next s)))"
  have s': "r = Some w" "s' = fold unblock (snd e) s2"
    using assms(5) by (auto simp: turn_def s2_def p)
  have ne: "w \<noteq> v" "k < rr_dist v s" using assms(6) s' w(2,3) by auto
  have "sched_inv s2" unfolding s2_def using assms(1) by (simp add: inv_intros)
  thus "sched_inv s'" by (simp add: s'(2) unblocks_inv)
  show "sch_current s' = None"
    by (simp add: s'(2) unblock_frame) (simp add: s2_def p yield_current_def block_current_def)
  have "sch_states s2 ! v = Ready"
    using assms(4) ne(1) by (simp add: s2_def p yield_current_def block_current_def)
  thus "sch_states s' ! v = Ready" by (simp add: s'(2) unblock_ready)
  have "sch_next_idx s' = (w + 1) mod MAX_VCPUS"
    by (simp add: s'(2) unblock_frame) (simp add: s2_def p yield_current_def block_current_def)
  thus "rr_dist v s' < rr_dist v s"
    using rr_dist_step [of "sch_next_idx s" v k] assms(1,3) ne(2) w(1)
    by (simp add: rr_dist_def sched_inv_def)
qed

lemma turns_reach:
  assumes "sched_inv s" "sch_current s = None" "v < MAX_VCPUS" "sch_states s ! v = Ready"
    "rr_dist v s < length es"
  shows "Some v \<in> set (turns es s)"
  using assms
proof (induction es arbitrary: s)
  case (Cons e es)
  obtain r s' where t: "turn e s = (r, s')" by fastforce
  show ?case
  proof (cases "r = Some v")
    case False
    with turn_progress [OF Cons.prems(1-4) t] Cons.prems(3,5) Cons.IH [of s'] t
    show ?thesis by simp
  qed (simp add: t)
qed simp

text \<open>C26: In every state the scheduler can reach through its interface, at most one vCPU slot is
  \<open>Running\<close>, and a running vCPU is the one \<open>current\<close> names.\<close>

theorem sched_mutual_exclusion:
  "\<lbrakk>sched_state (fold sched_step ops sched_new) i = Running\<rbrakk> \<Longrightarrow>
    sch_current (fold sched_step ops sched_new) = Some i \<and>
    (\<forall>j. sched_state (fold sched_step ops sched_new) j = Running \<longrightarrow> j = i)"
  using sched_steps_inv [OF sched_new_inv, of ops]
  by (auto simp: sched_inv_def sched_state_def split: if_splits option.splits)

theorem sched_mutual_exclusion_witness:
  "sch_current (fold sched_step [Add 2, Add 5, Pick] sched_new) = Some 2"
proof -
  have "sched_state (fold sched_step [Add 2, Add 5, Pick] sched_new) 2 = Running" by code_simp
  from sched_mutual_exclusion [OF this] show ?thesis by blast
qed



end
