(* ===== verification/Heap.thy ===== *)
theory Heap
  imports Prelude
begin

text \<open>The hypervisor heap (\<open>src/mm/allocator.rs\<close>, \<open>src/mm/heap.rs\<close>): a bump allocator with a free
  list threaded through the first cell of each free page.  The memory is a map from the addresses
  of 64-bit cells to their contents; every access of the page-table code is an aligned 64-bit one.
  Sums are those of the \<open>u64\<close> type; \<open>alloc_aligned_exact\<close> shows that they do not wrap on a heap that
  satisfies the invariant, so that the build with overflow checks behaves the same.\<close>

type_synonym pmem = "u64 \<Rightarrow> u64"

record allocator =
  al_next :: u64
  al_end :: u64
  al_allocated :: u64
  al_free_head :: u64

definition allocator_new :: "u64 \<Rightarrow> u64 \<Rightarrow> allocator" where
  "allocator_new start sz = \<lparr>al_next = start, al_end = start + sz, al_allocated = 0, al_free_head = 0\<rparr>"

definition alloc_aligned :: "u64 \<Rightarrow> u64 \<Rightarrow> allocator \<Rightarrow> u64 option \<times> allocator" where
  "alloc_aligned sz align a =
    (let aligned = (al_next a + align - 1) AND NOT (align - 1);
         new_next = aligned + sz
     in if new_next > al_end a then (None, a)
        else (Some aligned, a\<lparr>al_next := new_next, al_allocated := al_allocated a + sz\<rparr>))"

definition alloc_bytes :: "u64 \<Rightarrow> allocator \<Rightarrow> u64 option \<times> allocator" where
  "alloc_bytes sz a = alloc_aligned sz 8 a"

definition alloc_remaining :: "allocator \<Rightarrow> u64" where
  "alloc_remaining a = al_end a - al_next a"

definition alloc_reset :: "u64 \<Rightarrow> allocator \<Rightarrow> allocator" where
  "alloc_reset start a = a\<lparr>al_next := start, al_allocated := 0, al_free_head := 0\<rparr>"

text \<open>\<open>core::ptr::write_bytes(p, 0, 4096)\<close>.\<close>

definition zero_page :: "u64 \<Rightarrow> pmem \<Rightarrow> pmem" where
  "zero_page p m = (\<lambda>a. if a - p < 4096 then 0 else m a)"

record heap =
  h_mem :: pmem
  h_alloc :: "allocator option"

definition bump_alloc_page :: "pmem \<Rightarrow> allocator \<Rightarrow> u64 option \<times> pmem \<times> allocator" where
  "bump_alloc_page m a =
    (if al_free_head a \<noteq> 0
     then let page = al_free_head a; nxt = m page
          in (Some page, zero_page page m,
              a\<lparr>al_free_head := nxt, al_allocated := al_allocated a + 4096\<rparr>)
     else let (r, a') = alloc_aligned 4096 4096 a in (r, m, a'))"

definition bump_free_page :: "u64 \<Rightarrow> pmem \<Rightarrow> allocator \<Rightarrow> (pmem \<times> allocator) or_panic" where
  "bump_free_page addr m a =
    (if addr AND 0xFFF \<noteq> 0 then None
     else Some (m(addr := al_free_head a),
                a\<lparr>al_free_head := addr, al_allocated := al_allocated a - 4096\<rparr>))"

definition heap_init_at :: "u64 \<Rightarrow> u64 \<Rightarrow> heap \<Rightarrow> heap" where
  "heap_init_at start sz h = h\<lparr>h_alloc := Some (allocator_new start sz)\<rparr>"

definition HEAP_START :: u64 where "HEAP_START = 0x41000000"
definition HEAP_SIZE :: u64 where "HEAP_SIZE = 0x1000000"

definition heap_init :: "heap \<Rightarrow> heap" where
  "heap_init h = heap_init_at HEAP_START HEAP_SIZE h"

definition alloc_page :: "heap \<Rightarrow> u64 option \<times> heap" where
  "alloc_page h =
    (case h_alloc h of
       None \<Rightarrow> (None, h)
     | Some a \<Rightarrow> let (r, m, a') = bump_alloc_page (h_mem h) a in (r, \<lparr>h_mem = m, h_alloc = Some a'\<rparr>))"

definition free_page :: "u64 \<Rightarrow> heap \<Rightarrow> heap or_panic" where
  "free_page addr h =
    (case h_alloc h of
       None \<Rightarrow> Some h
     | Some a \<Rightarrow> map_option (\<lambda>(m, a'). \<lparr>h_mem = m, h_alloc = Some a'\<rparr>) (bump_free_page addr (h_mem h) a))"

section \<open>The heap invariant\<close>

fun free_chain :: "pmem \<Rightarrow> u64 \<Rightarrow> u64 list \<Rightarrow> bool" where
  "free_chain m q [] \<longleftrightarrow> q = 0"
| "free_chain m q (p # ps) \<longleftrightarrow> q = p \<and> free_chain m (m p) ps"

text \<open>\<open>pages_ok n P\<close>: the pages of \<open>P\<close> are aligned, not the null page, and end below \<open>n\<close>.\<close>

definition pages_ok :: "u64 \<Rightarrow> u64 set \<Rightarrow> bool" where
  "pages_ok n P \<longleftrightarrow> (\<forall>p\<in>P. page_aligned p \<and> p \<noteq> 0 \<and> unat p + 4096 \<le> unat n)"

text \<open>\<open>alloc_ok U ps m a\<close>: the pages \<open>U\<close> are in use, \<open>ps\<close> is the free list.\<close>

definition alloc_ok :: "u64 set \<Rightarrow> u64 list \<Rightarrow> pmem \<Rightarrow> allocator \<Rightarrow> bool" where
  "alloc_ok U ps m a \<longleftrightarrow>
     unat (al_end a) \<le> 2 ^ 48 \<and> 0 < al_next a \<and> al_next a \<le> al_end a \<and>
     free_chain m (al_free_head a) ps \<and> distinct ps \<and> set ps \<inter> U = {} \<and>
     pages_ok (al_next a) (set ps \<union> U)"

definition heap_ok :: "u64 set \<Rightarrow> heap \<Rightarrow> bool" where
  "heap_ok U h \<longleftrightarrow>
     (\<forall>p\<in>U. page_aligned p \<and> p \<noteq> 0) \<and>
     (case h_alloc h of None \<Rightarrow> True | Some a \<Rightarrow> \<exists>ps. alloc_ok U ps (h_mem h) a)"

section \<open>Allocation\<close>

lemma in_page_diff: "page_aligned p \<Longrightarrow> a - p < 4096 \<longleftrightarrow> page_of a = p"
proof
  assume p: "page_aligned p" and "page_of a = p"
  hence "unat p = unat a div 4096 * 4096" using unat_page_of by metis
  moreover from this have "p \<le> a" by (simp add: word_le_nat_alt)
  ultimately show "a - p < 4096" by (simp add: word_less_nat_alt unat_sub minus_div_mult_eq_mod)
next
  assume p: "page_aligned p" and d: "a - p < 4096"
  obtain k where k: "unat p = 4096 * k" using p by (auto simp: page_aligned_iff)
  have dn: "unat (a - p) < 4096" using d by (simp add: word_less_nat_alt)
  hence "unat p + unat (a - p) < 2 ^ 64" using page_aligned_le [OF p] by linarith
  hence "unat a = unat p + unat (a - p)"
    using unat_add_exact [of p "a - p"] by simp
  hence "unat a div 4096 * 4096 = unat p" using dn k by simp
  thus "page_of a = p" by (simp add: word_unat_eq_iff unat_page_of)
qed

lemma zero_page_apply: "page_aligned p \<Longrightarrow> zero_page p m a = (if page_of a = p then 0 else m a)"
  by (simp add: zero_page_def in_page_diff)

lemma unat_align_up:
  fixes x :: u64
  assumes "unat x + 2 ^ k < 2 ^ 64" "k < 64"
  shows "unat ((x + 2 ^ k - 1) AND NOT (2 ^ k - 1)) = (unat x + (2 ^ k - 1)) div 2 ^ k * 2 ^ k"
    and "x \<le> (x + 2 ^ k - 1) AND NOT (2 ^ k - 1)"
proof -
  have m: "(2 ^ k - 1 :: u64) = mask k" by (simp add: mask_eq_exp_minus_1)
  have mk: "unat (mask k :: u64) = 2 ^ k - 1"
  proof -
    have "(mask k :: u64) = of_nat (2 ^ k - 1)" by (simp add: mask_eq_exp_minus_1)
    moreover have "(2::nat) ^ k < 2 ^ 64" using assms(2) by (intro power_strict_increasing) simp_all
    hence "unat (of_nat (2 ^ k - 1) :: u64) = 2 ^ k - 1"
      unfolding unat_of_nat by (intro mod_less) (simp add: less_imp_diff_less)
    ultimately show ?thesis by simp
  qed
  have e: "x + 2 ^ k - 1 = x + mask k" by (simp add: mask_eq_exp_minus_1)
  have "unat (x + mask k) = unat x + unat (mask k :: u64)"
    using assms(1) by (intro unat_add_exact) (simp add: mk)
  hence "unat (x + mask k) = unat x + (2 ^ k - 1)" by (simp only: mk)
  thus 1: "unat ((x + 2 ^ k - 1) AND NOT (2 ^ k - 1)) = (unat x + (2 ^ k - 1)) div 2 ^ k * 2 ^ k"
    by (simp only: e m unat_and_not_mask)
  have "unat x \<le> (unat x + (2 ^ k - 1)) div 2 ^ k * 2 ^ k"
  proof -
    have "unat x + (2 ^ k - 1) < (unat x + (2 ^ k - 1)) div 2 ^ k * 2 ^ k + 2 ^ k"
    proof -
      have "(unat x + (2 ^ k - 1)) mod 2 ^ k < 2 ^ k" by simp
      with div_mult_mod_eq [of "unat x + (2 ^ k - 1)" "2 ^ k"] show ?thesis by linarith
    qed
    moreover have "(1::nat) \<le> 2 ^ k" by simp
    ultimately show ?thesis by linarith
  qed
  thus "x \<le> (x + 2 ^ k - 1) AND NOT (2 ^ k - 1)"
    by (simp only: word_le_nat_alt 1)
qed


text \<open>On a heap with room above its end, an aligned allocation is exact: no sum wraps, the block lies
  between the old and the new bump pointer and has the alignment asked for.\<close>

lemma alloc_aligned_exact:
  assumes "alloc_aligned sz (2 ^ k) a = (Some p, a')" "k < 64"
    "unat (al_next a) + 2 ^ k < 2 ^ 64"
    "(unat (al_next a) + (2 ^ k - 1)) div 2 ^ k * 2 ^ k + unat sz < 2 ^ 64"
  shows "al_next a \<le> p" "2 ^ k dvd unat p" "unat (al_next a') = unat p + unat sz"
    "al_next a' \<le> al_end a" "al_end a' = al_end a" "al_free_head a' = al_free_head a"
    "al_allocated a' = al_allocated a + sz"
proof -
  from assms(1) have p: "p = (al_next a + 2 ^ k - 1) AND NOT (2 ^ k - 1)"
    and a': "\<not> p + sz > al_end a" "a' = a\<lparr>al_next := p + sz, al_allocated := al_allocated a + sz\<rparr>"
    by (auto simp: alloc_aligned_def Let_def split: if_splits)
  have u: "unat p = (unat (al_next a) + (2 ^ k - 1)) div 2 ^ k * 2 ^ k"
    unfolding p by (rule unat_align_up(1) [OF assms(3,2)])
  show "al_next a \<le> p" unfolding p by (rule unat_align_up(2) [OF assms(3,2)])
  show "2 ^ k dvd unat p" by (simp add: u)
  have "unat p + unat sz < 2 ^ 64" using assms(4) by (simp only: u)
  thus "unat (al_next a') = unat p + unat sz" by (simp add: a' unat_add_exact)
  show "al_next a' \<le> al_end a" "al_end a' = al_end a" "al_free_head a' = al_free_head a"
    "al_allocated a' = al_allocated a + sz" using a' by simp_all
qed

lemma alloc_aligned_None: "alloc_aligned sz al a = (None, a') \<Longrightarrow> a' = a"
  by (auto simp: alloc_aligned_def Let_def split: if_splits)

lemma free_chain_cong: "(\<And>p. p \<in> set ps \<Longrightarrow> m' p = m p) \<Longrightarrow> free_chain m' q ps = free_chain m q ps"
  by (induction ps arbitrary: q) auto

lemma page_align_room:
  assumes "unat e \<le> 2 ^ 48" "n \<le> e"
  shows "unat n + 4096 < 2 ^ 64" "(unat n + 4095) div 4096 * 4096 + 4096 < (2::nat) ^ 64"
proof -
  have n: "unat n \<le> 2 ^ 48" using assms by (simp add: word_le_nat_alt)
  thus "unat n + 4096 < 2 ^ 64" by simp
  have "(unat n + 4095) div 4096 * 4096 \<le> unat n + 4095" by simp
  moreover have "(2::nat) ^ 48 + 8192 < 2 ^ 64" by simp
  ultimately show "(unat n + 4095) div 4096 * 4096 + 4096 < (2::nat) ^ 64" using n by linarith
qed

lemma pages_ok_mono: "pages_ok n P \<Longrightarrow> unat n \<le> unat n' \<Longrightarrow> pages_ok n' P"
  unfolding pages_ok_def by (meson le_trans)

lemma bump_page_spec:
  assumes "alloc_ok U ps m a" "alloc_aligned 4096 4096 a = (Some p, a')"
  shows "page_aligned p" "p \<noteq> 0" "p \<notin> U" "p \<notin> set ps" "alloc_ok (insert p U) ps m a'"
    "unat p < 2 ^ 48"
proof -
  let ?n = "al_next a"
  have ok: "unat (al_end a) \<le> 2 ^ 48" "0 < ?n" "?n \<le> al_end a"
    "pages_ok ?n (set ps \<union> U)"
    using assms(1) by (auto simp: alloc_ok_def)
  note r = page_align_room [OF ok(1,3)]
  note x = alloc_aligned_exact [where k = 12, simplified, OF assms(2)]
  have p: "?n \<le> p" "4096 dvd unat p" "unat (al_next a') = unat p + 4096" "al_next a' \<le> al_end a"
    "al_end a' = al_end a" "al_free_head a' = al_free_head a"
    using x r by simp_all
  show pa: "page_aligned p" using p(2) by (simp add: page_aligned_iff)
  have "unat p > 0" using p(1) ok(2) by (simp add: word_le_nat_alt word_less_nat_alt)
  thus p0: "p \<noteq> 0" by auto
  have fresh: "q \<noteq> p" if "q \<in> set ps \<union> U" for q
  proof -
    have "unat q + 4096 \<le> unat ?n" using that ok(4) by (simp add: pages_ok_def)
    thus ?thesis using p(1) by (auto simp: word_le_nat_alt)
  qed
  thus pU: "p \<notin> U" and pps: "p \<notin> set ps" by auto
  have "unat p + 4096 \<le> unat (al_end a)" using p(3,4) by (simp add: word_le_nat_alt)
  thus "unat p < 2 ^ 48" using ok(1) by linarith
  have le: "unat ?n \<le> unat (al_next a')" using p(1,3) by (simp add: word_le_nat_alt)
  have "pages_ok (al_next a') (insert p (set ps \<union> U))"
    using pages_ok_mono [OF ok(4) le] pa p0 p(3) by (simp add: pages_ok_def)
  moreover have "0 < al_next a'" using ok(2) le by (simp add: word_less_nat_alt)
  ultimately show "alloc_ok (insert p U) ps m a'"
    using assms(1) p pps by (simp add: alloc_ok_def Un_commute)
qed

lemma pop_page_spec:
  assumes "alloc_ok U (p # ps) m a"
  shows "al_free_head a = p" "page_aligned p" "p \<noteq> 0" "p \<notin> U" "unat p < 2 ^ 48"
    "alloc_ok (insert p U) ps (zero_page p m) (a\<lparr>al_free_head := m p, al_allocated := n\<rparr>)"
proof -
  have ok: "free_chain m (m p) ps" "distinct (p # ps)" "pages_ok (al_next a) (insert p (set ps \<union> U))"
    using assms by (auto simp: alloc_ok_def)
  show "al_free_head a = p" "page_aligned p" "p \<noteq> 0" "p \<notin> U"
    using assms by (auto simp: alloc_ok_def pages_ok_def)
  have "unat p + 4096 \<le> unat (al_next a)" "unat (al_next a) \<le> unat (al_end a)" "unat (al_end a) \<le> 2 ^ 48"
    using assms by (auto simp: alloc_ok_def pages_ok_def word_le_nat_alt)
  thus "unat p < 2 ^ 48" by linarith
  have "zero_page p m q = m q" if "q \<in> set ps" for q
  proof -
    from that ok have "page_aligned q" "q \<noteq> p" by (auto simp: pages_ok_def)
    thus ?thesis using \<open>page_aligned p\<close> by (simp add: zero_page_apply page_of_self)
  qed
  hence "free_chain (zero_page p m) (m p) ps" using ok(1) free_chain_cong [of ps "zero_page p m" m] by simp
  thus "alloc_ok (insert p U) ps (zero_page p m) (a\<lparr>al_free_head := m p, al_allocated := n\<rparr>)"
    using assms by (auto simp: alloc_ok_def)
qed

lemma free_chain_head: "free_chain m q ps \<Longrightarrow> q \<noteq> 0 \<Longrightarrow> \<exists>ps'. ps = q # ps'"
  by (cases ps) auto

text \<open>The contract of \<open>alloc_page\<close>: a page it returns is fresh and aligned, no other page changes,
  and a failing call changes nothing.\<close>

lemma alloc_page_spec:
  assumes "heap_ok U h" "alloc_page h = (Some p, h')"
  shows "p \<notin> U" "page_aligned p" "p \<noteq> 0" "unat p < 2 ^ 48" "heap_ok (insert p U) h'"
    "page_of x \<noteq> p \<Longrightarrow> h_mem h' x = h_mem h x"
proof -
  from assms(2) obtain a m a' where a: "h_alloc h = Some a"
    and b: "bump_alloc_page (h_mem h) a = (Some p, m, a')" "h' = \<lparr>h_mem = m, h_alloc = Some a'\<rparr>"
    by (auto simp: alloc_page_def split: option.splits prod.splits)
  from assms(1) a obtain ps where ok: "alloc_ok U ps (h_mem h) a" by (auto simp: heap_ok_def)
  have "p \<notin> U \<and> page_aligned p \<and> p \<noteq> 0 \<and> unat p < 2 ^ 48 \<and> (\<exists>ps. alloc_ok (insert p U) ps m a') \<and>
    (page_of x \<noteq> p \<longrightarrow> m x = h_mem h x)"
  proof (cases "al_free_head a = 0")
    case True
    with b have "alloc_aligned 4096 4096 a = (Some p, a')" "m = h_mem h"
      by (auto simp: bump_alloc_page_def split: prod.splits)
    with bump_page_spec [OF ok] show ?thesis by blast
  next
    case False
    with ok obtain ps' where "ps = al_free_head a # ps'" by (auto simp: alloc_ok_def dest: free_chain_head)
    with ok have "alloc_ok U (al_free_head a # ps') (h_mem h) a" by simp
    note pp = pop_page_spec [OF this]
    have e: "p = al_free_head a" "m = zero_page p (h_mem h)"
      "a' = a\<lparr>al_free_head := h_mem h p, al_allocated := al_allocated a + 4096\<rparr>"
      using b False by (auto simp: bump_alloc_page_def Let_def)
    show ?thesis using pp e by (auto simp: zero_page_apply)
  qed
  thus "p \<notin> U" "page_aligned p" "p \<noteq> 0" "unat p < 2 ^ 48" "heap_ok (insert p U) h'"
    "page_of x \<noteq> p \<Longrightarrow> h_mem h' x = h_mem h x"
    using assms(1) b by (auto simp: heap_ok_def)
qed

lemma alloc_page_None: "alloc_page h = (None, h') \<Longrightarrow> h' = h"
  by (auto simp: alloc_page_def bump_alloc_page_def Let_def dest: alloc_aligned_None
      split: option.splits prod.splits if_splits)

text \<open>Writes inside pages in use keep the heap.\<close>

lemma heap_ok_mem:
  assumes "heap_ok U h" "\<And>x. page_of x \<notin> U \<Longrightarrow> m x = h_mem h x"
  shows "heap_ok U (h\<lparr>h_mem := m\<rparr>)"
proof -
  have "alloc_ok U ps m a" if ok: "alloc_ok U ps (h_mem h) a" for ps a
  proof -
    have "m q = h_mem h q" if "q \<in> set ps" for q
      using that ok assms(2) [of q] by (auto simp: alloc_ok_def pages_ok_def page_of_self)
    thus ?thesis using ok free_chain_cong [of ps m "h_mem h"] by (simp add: alloc_ok_def)
  qed
  thus ?thesis using assms(1) by (auto simp: heap_ok_def split: option.splits)
qed

lemma free_page_ok:
  assumes "heap_ok U h" "p \<in> U"
  obtains h' where "free_page p h = Some h'" "heap_ok (U - {p}) h'"
    "\<And>x. x \<noteq> p \<Longrightarrow> h_mem h' x = h_mem h x"
proof (cases "h_alloc h")
  case None
  with assms that [of h] show ?thesis by (auto simp: free_page_def heap_ok_def)
next
  case (Some a)
  with assms obtain ps where ok: "alloc_ok U ps (h_mem h) a" by (auto simp: heap_ok_def)
  let ?a = "a\<lparr>al_free_head := p, al_allocated := al_allocated a - 4096\<rparr>"
  let ?m = "(h_mem h)(p := al_free_head a)"
  have "page_aligned p" using assms by (auto simp: heap_ok_def)
  hence f: "free_page p h = Some \<lparr>h_mem = ?m, h_alloc = Some ?a\<rparr>"
    using Some by (simp add: free_page_def bump_free_page_def page_aligned_def)
  have "p \<notin> set ps" using ok assms(2) by (auto simp: alloc_ok_def)
  hence "free_chain ?m (al_free_head a) ps = free_chain (h_mem h) (al_free_head a) ps"
    by (intro free_chain_cong) auto
  hence "alloc_ok (U - {p}) (p # ps) ?m ?a"
    using ok assms(2) \<open>p \<notin> set ps\<close> by (auto simp: alloc_ok_def pages_ok_def)
  hence "heap_ok (U - {p}) \<lparr>h_mem = ?m, h_alloc = Some ?a\<rparr>"
    using assms(1) by (auto simp: heap_ok_def)
  with f that show ?thesis by simp
qed

text \<open>The heap right after \<open>init\<close>, with nothing allocated.\<close>

lemma heap_init_ok: "heap_ok {} (heap_init h)"
proof -
  have "alloc_ok {} [] m (allocator_new HEAP_START HEAP_SIZE)" for m
    by (simp add: alloc_ok_def allocator_new_def HEAP_START_def HEAP_SIZE_def pages_ok_def)
  thus ?thesis by (auto simp: heap_ok_def heap_init_def heap_init_at_def)
qed

section \<open>Histories of the heap\<close>

text \<open>A history of allocations and frees: the pages that are live and the heap after it.  Freeing a
  page that is not live is outside the contract of \<open>free_page\<close> and is skipped.\<close>

datatype heap_op = Alloc | Free u64

fun heap_step :: "heap_op \<Rightarrow> u64 set \<times> heap \<Rightarrow> u64 set \<times> heap" where
  "heap_step Alloc (U, h) =
    (case alloc_page h of (None, h) \<Rightarrow> (U, h) | (Some p, h) \<Rightarrow> (insert p U, h))"
| "heap_step (Free p) (U, h) =
    (if p \<in> U then (case free_page p h of Some h \<Rightarrow> (U - {p}, h) | None \<Rightarrow> (U, h)) else (U, h))"

lemma heap_step_ok: "heap_ok (fst s) (snd s) \<Longrightarrow> heap_ok (fst (heap_step a s)) (snd (heap_step a s))"
proof (cases a)
  case Alloc
  assume ok: "heap_ok (fst s) (snd s)"
  obtain r h' where r: "alloc_page (snd s) = (r, h')" by fastforce
  with ok Alloc alloc_page_spec(5) [of "fst s" "snd s"] alloc_page_None [of "snd s"] show ?thesis
    by (cases s; cases r) auto
next
  case (Free p)
  assume ok: "heap_ok (fst s) (snd s)"
  show ?thesis
  proof (cases "p \<in> fst s")
    case True
    obtain h' where "free_page p (snd s) = Some h'" "heap_ok (fst s - {p}) h'"
      by (rule free_page_ok [OF ok True])
    with Free True show ?thesis by (cases s) simp
  qed (use ok Free in \<open>cases s, simp\<close>)
qed

lemma heap_steps_ok:
  "heap_ok (fst s) (snd s) \<Longrightarrow> heap_ok (fst (fold heap_step as s)) (snd (fold heap_step as s))"
  by (induction as arbitrary: s) (simp_all add: heap_step_ok)



end
