(* ===== verification/Stage2_Tables.thy ===== *)
theory Stage2_Tables
  imports Heap
begin

text \<open>Stage-2 translation tables: the descriptor formats of \<open>src/arch/aarch64/defs.rs\<close> and
  \<open>src/arch/aarch64/mm/mmu.rs\<close>, the index extraction, and an abstract view of a table tree in
  memory.  \<open>walk m r is\<close> follows the table descriptors along the indices \<open>is\<close> from the table \<open>r\<close>;
  \<open>wf_tables\<close> says that the tree is a tree (no table is reached along two paths) whose pages are in
  use.  The lemmas say what a write to one entry does to all the walks.\<close>

section \<open>Descriptor formats\<close>

definition PTE_VALID :: u64 where "PTE_VALID = 1"
definition PTE_TABLE :: u64 where "PTE_TABLE = 2"
definition PTE_ADDR_MASK :: u64 where "PTE_ADDR_MASK = 0x0000FFFFFFFFF000"
definition PAGE_OFFSET_MASK :: u64 where "PAGE_OFFSET_MASK = 0xFFF"
definition PT_INDEX_MASK :: u64 where "PT_INDEX_MASK = 0x1FF"
definition BLOCK_SIZE_2MB :: u64 where "BLOCK_SIZE_2MB = 2 * 1024 * 1024"
definition BLOCK_MASK_2MB :: u64 where "BLOCK_MASK_2MB = BLOCK_SIZE_2MB - 1"
definition PAGE_SIZE_4KB :: u64 where "PAGE_SIZE_4KB = 4096"
definition PAGE_MASK_4KB :: u64 where "PAGE_MASK_4KB = PAGE_SIZE_4KB - 1"
definition PTE_SW_SHIFT :: nat where "PTE_SW_SHIFT = 55"
definition PTE_SW_MASK :: u64 where "PTE_SW_MASK = push_bit PTE_SW_SHIFT 3"
definition S2AP_SHIFT :: nat where "S2AP_SHIFT = 6"
definition S2AP_MASK :: u64 where "S2AP_MASK = push_bit S2AP_SHIFT 3"

lemmas pte_consts =
  PTE_VALID_def PTE_TABLE_def PTE_ADDR_MASK_def PAGE_OFFSET_MASK_def PT_INDEX_MASK_def
  BLOCK_SIZE_2MB_def BLOCK_MASK_2MB_def PAGE_SIZE_4KB_def PAGE_MASK_4KB_def
  PTE_SW_SHIFT_def PTE_SW_MASK_def S2AP_SHIFT_def S2AP_MASK_def

definition pte_is_valid :: "u64 \<Rightarrow> bool" where
  "pte_is_valid e \<longleftrightarrow> e AND PTE_VALID \<noteq> 0"

definition pte_is_table :: "u64 \<Rightarrow> bool" where
  "pte_is_table e \<longleftrightarrow> pte_is_valid e \<and> e AND (PTE_VALID OR PTE_TABLE) = PTE_VALID OR PTE_TABLE"

definition pte_addr :: "u64 \<Rightarrow> u64" where
  "pte_addr e = e AND PTE_ADDR_MASK"

text \<open>\<open>MemoryAttributes\<close> and the entry constructors of \<open>S2PageTableEntry\<close>.\<close>

definition ATTR_NORMAL :: u64 where
  "ATTR_NORMAL = 0xF OR push_bit 4 3 OR push_bit 6 3 OR push_bit 8 1"

definition ATTR_DEVICE :: u64 where
  "ATTR_DEVICE = 0 OR push_bit 4 3 OR push_bit 6 0 OR push_bit 8 1"

definition ATTR_READONLY :: u64 where
  "ATTR_READONLY = 0xF OR push_bit 4 1 OR push_bit 6 3 OR push_bit 8 1"

definition pte_block :: "u64 \<Rightarrow> u64 \<Rightarrow> u64" where
  "pte_block addr attrs = (addr AND PTE_ADDR_MASK) OR PTE_VALID OR push_bit 1 0 OR push_bit 2 attrs"

definition pte_page :: "u64 \<Rightarrow> u64 \<Rightarrow> u64" where
  "pte_page addr attrs = (addr AND PTE_ADDR_MASK) OR PTE_VALID OR PTE_TABLE OR push_bit 2 attrs"

definition pte_table :: "u64 \<Rightarrow> u64" where
  "pte_table next_level_addr = (next_level_addr AND PTE_ADDR_MASK) OR PTE_VALID OR PTE_TABLE"

record stage2_config =
  s2_vttbr :: u64
  s2_vtcr :: u64

definition stage2_config_new :: "u64 \<Rightarrow> u16 \<Rightarrow> stage2_config" where
  "stage2_config_new page_table_addr vmid =
    \<lparr>s2_vttbr = (page_table_addr AND 0x0000FFFFFFFFFFFE) OR push_bit 48 (ucast vmid),
     s2_vtcr = 16 OR push_bit 6 2 OR push_bit 8 1 OR push_bit 10 1 OR push_bit 12 3 OR
               push_bit 14 0 OR push_bit 16 5\<rparr>"

text \<open>The table indices of an IPA.\<close>

definition l0_idx :: "u64 \<Rightarrow> u64" where "l0_idx ipa = drop_bit 39 ipa AND PT_INDEX_MASK"
definition l1_idx :: "u64 \<Rightarrow> u64" where "l1_idx ipa = drop_bit 30 ipa AND PT_INDEX_MASK"
definition l2_idx :: "u64 \<Rightarrow> u64" where "l2_idx ipa = drop_bit 21 ipa AND PT_INDEX_MASK"
definition l3_idx :: "u64 \<Rightarrow> u64" where "l3_idx ipa = drop_bit 12 ipa AND PT_INDEX_MASK"

lemmas idx_defs = l0_idx_def l1_idx_def l2_idx_def l3_idx_def

text \<open>The 4KB page number of a 48-bit IPA as its four indices.\<close>

definition ipa_path :: "u64 \<Rightarrow> u64 list" where
  "ipa_path ipa = [l0_idx ipa, l1_idx ipa, l2_idx ipa]"

definition same_page :: "u64 \<Rightarrow> u64 \<Rightarrow> bool" where
  "same_page x y \<longleftrightarrow> ipa_path x = ipa_path y \<and> l3_idx x = l3_idx y"

section \<open>Descriptor lemmas\<close>

lemma idx_less: "l0_idx ipa < 512" "l1_idx ipa < 512" "l2_idx ipa < 512" "l3_idx ipa < 512"
proof -
  have "x AND PT_INDEX_MASK < 512" for x :: u64
  proof -
    have "x AND PT_INDEX_MASK = take_bit 9 x"
      by (simp add: take_bit_eq_mask PT_INDEX_MASK_def mask_eq_exp_minus_1)
    thus ?thesis by (simp add: word_less_nat_alt unat_take_bit)
  qed
  thus "l0_idx ipa < 512" "l1_idx ipa < 512" "l2_idx ipa < 512" "l3_idx ipa < 512"
    by (simp_all add: idx_defs)
qed

lemma bit_pte_consts:
  "bit PTE_VALID n \<longleftrightarrow> n = 0" "bit PTE_TABLE n \<longleftrightarrow> n = 1"
  "bit PTE_ADDR_MASK n \<longleftrightarrow> 12 \<le> n \<and> n < 48"
  "bit PT_INDEX_MASK n \<longleftrightarrow> n < 9"
  "bit PAGE_OFFSET_MASK n \<longleftrightarrow> n < 12" "bit PAGE_MASK_4KB n \<longleftrightarrow> n < 12"
  "bit BLOCK_MASK_2MB n \<longleftrightarrow> n < 21"
  "bit PTE_SW_MASK n \<longleftrightarrow> n = 55 \<or> n = 56" "bit S2AP_MASK n \<longleftrightarrow> n = 6 \<or> n = 7"
proof -
  have m: "PTE_ADDR_MASK = push_bit 12 (mask 36)" "PT_INDEX_MASK = mask 9" "PAGE_OFFSET_MASK = mask 12"
    "PAGE_MASK_4KB = mask 12" "BLOCK_MASK_2MB = mask 21"
    "PTE_SW_MASK = push_bit 55 (mask 2)" "S2AP_MASK = push_bit 6 (mask 2)"
    "PTE_VALID = mask 1" "PTE_TABLE = push_bit 1 (mask 1)"
    by (simp_all add: pte_consts mask_eq_exp_minus_1)
  show "bit PTE_VALID n \<longleftrightarrow> n = 0" "bit PTE_TABLE n \<longleftrightarrow> n = 1"
    "bit PTE_ADDR_MASK n \<longleftrightarrow> 12 \<le> n \<and> n < 48" "bit PT_INDEX_MASK n \<longleftrightarrow> n < 9"
    "bit PAGE_OFFSET_MASK n \<longleftrightarrow> n < 12" "bit PAGE_MASK_4KB n \<longleftrightarrow> n < 12"
    "bit BLOCK_MASK_2MB n \<longleftrightarrow> n < 21"
    "bit PTE_SW_MASK n \<longleftrightarrow> n = 55 \<or> n = 56" "bit S2AP_MASK n \<longleftrightarrow> n = 6 \<or> n = 7"
    unfolding m by (auto simp: bit_simps)
qed

lemma pte_is_valid_bit: "pte_is_valid e \<longleftrightarrow> bit e 0"
  by (simp add: pte_is_valid_def PTE_VALID_def and_one_eq odd_iff_mod_2_eq_one bit_0)

lemma and_two_bit: "e AND PTE_TABLE \<noteq> 0 \<longleftrightarrow> bit e 1" for e :: u64
  by (auto simp: u64_eq_iff bit_and_iff bit_pte_consts)

lemma valid_table_bits:
  "e AND (PTE_VALID OR PTE_TABLE) = PTE_VALID OR PTE_TABLE \<longleftrightarrow> bit e 0 \<and> bit e 1"
proof
  assume "e AND (PTE_VALID OR PTE_TABLE) = PTE_VALID OR PTE_TABLE"
  hence "bit (e AND (PTE_VALID OR PTE_TABLE)) n = bit (PTE_VALID OR PTE_TABLE) n" for n by simp
  from this [of 0] this [of 1] show "bit e 0 \<and> bit e 1"
    by (simp add: bit_and_iff bit_or_iff bit_pte_consts)
qed (auto simp: u64_eq_iff bit_and_iff bit_or_iff bit_pte_consts)

lemma pte_is_table_bit: "pte_is_table e \<longleftrightarrow> bit e 0 \<and> bit e 1"
  by (simp add: pte_is_table_def pte_is_valid_bit valid_table_bits)

lemma pte_addr_aligned [simp]: "page_aligned (pte_addr e)"
  by (auto simp: page_aligned_def pte_addr_def u64_eq_iff bit_simps bit_pte_consts simp flip: mask12)

text \<open>A table descriptor for a page below \<open>2\<^sup>4\<^sup>8\<close>, as every mapper builds it.\<close>

lemma link_desc:
  assumes "page_aligned p" "unat p < 2 ^ 48"
  shows "pte_is_table (p OR PTE_VALID OR PTE_TABLE)" "pte_addr (p OR PTE_VALID OR PTE_TABLE) = p"
proof -
  have hi: "\<not> bit p n" if "48 \<le> n" for n
  proof -
    have "take_bit 48 p = p" using assms(2) by (simp add: word_unat_eq_iff unat_take_bit)
    thus ?thesis using that by (metis bit_take_bit_iff not_le)
  qed
  have lo: "\<not> bit p n" if "n < 12" for n
  proof -
    have "p AND mask 12 = 0" using assms(1) by (simp add: page_aligned_def mask12)
    hence "\<not> bit (p AND mask 12) n" by simp
    thus ?thesis using that by (simp add: bit_simps)
  qed
  show "pte_is_table (p OR PTE_VALID OR PTE_TABLE)"
    by (simp add: pte_is_table_bit bit_or_iff bit_pte_consts)
  show "pte_addr (p OR PTE_VALID OR PTE_TABLE) = p"
    using hi lo by (auto simp: u64_eq_iff pte_addr_def bit_and_iff bit_or_iff bit_pte_consts) (metis not_le)+
qed

section \<open>Walks\<close>

text \<open>The table that the indices \<open>is\<close> lead to from the table \<open>t\<close>.\<close>

fun walk :: "pmem \<Rightarrow> u64 \<Rightarrow> u64 list \<Rightarrow> u64 option" where
  "walk m t [] = Some t"
| "walk m t (i # is) =
    (let e = m (entry_addr t i) in if pte_is_table e then walk m (pte_addr e) is else None)"

text \<open>One step of a walk from a table.\<close>

definition follow :: "pmem \<Rightarrow> u64 \<Rightarrow> u64 \<Rightarrow> u64 option" where
  "follow m t i = (let e = m (entry_addr t i) in if pte_is_table e then Some (pte_addr e) else None)"

lemma walk_Cons: "walk m t (i # is) = Option.bind (follow m t i) (\<lambda>t'. walk m t' is)"
  by (simp add: follow_def Let_def)

lemma walk_append: "walk m t (p @ q) = Option.bind (walk m t p) (\<lambda>t'. walk m t' q)"
  by (induction p arbitrary: t) (auto simp: Let_def)

lemma walk_snoc: "walk m t (p @ [i]) = Option.bind (walk m t p) (\<lambda>t'. follow m t' i)"
  by (simp add: walk_append walk_Cons del: walk.simps(2))

text \<open>Paths to tables: at most three indices, each in range.\<close>

definition is_path :: "u64 list \<Rightarrow> bool" where
  "is_path p \<longleftrightarrow> length p \<le> 3 \<and> (\<forall>i\<in>set p. i < 512)"

text \<open>The table tree under \<open>r\<close> is a tree of pages of \<open>U\<close>.\<close>

definition wf_tables :: "u64 set \<Rightarrow> pmem \<Rightarrow> u64 \<Rightarrow> bool" where
  "wf_tables U m r \<longleftrightarrow>
     page_aligned r \<and> r \<in> U \<and>
     (\<forall>p t. is_path p \<longrightarrow> walk m r p = Some t \<longrightarrow> t \<in> U) \<and>
     (\<forall>p q t. is_path p \<longrightarrow> is_path q \<longrightarrow> walk m r p = Some t \<longrightarrow> walk m r q = Some t \<longrightarrow> p = q)"

lemma is_path_simps [simp]:
  "is_path []" "is_path (p @ [i]) \<longleftrightarrow> length p \<le> 2 \<and> i < 512 \<and> is_path p"
  by (auto simp: is_path_def)

lemma is_path_ipa: "is_path [l0_idx x]" "is_path [l0_idx x, l1_idx x]" "is_path (ipa_path x)"
  by (simp_all add: is_path_def ipa_path_def idx_less)

lemma walk_aligned: "page_aligned r \<Longrightarrow> walk m r p = Some t \<Longrightarrow> page_aligned t"
  by (cases p rule: rev_cases) (auto simp: walk_snoc follow_def Let_def bind_eq_Some_conv split: if_splits)

lemma wf_tablesD:
  assumes "wf_tables U m r"
  shows "page_aligned r" "r \<in> U"
    "is_path p \<Longrightarrow> walk m r p = Some t \<Longrightarrow> t \<in> U"
    "is_path p \<Longrightarrow> is_path q \<Longrightarrow> walk m r p = Some t \<Longrightarrow> walk m r q = Some t \<Longrightarrow> p = q"
  using assms unfolding wf_tables_def by blast+

text \<open>A memory change that keeps every entry of every table of the tree, except entry \<open>i\<close> of the table
  at \<open>p\<close>, keeps every walk that does not go through that entry.\<close>

lemma walk_frame:
  assumes wf: "wf_tables U m r" and p: "is_path p"
    and same: "\<And>q t j. \<lbrakk>is_path q; walk m r q = Some t; j < 512; (q, j) \<noteq> (p, i)\<rbrakk> \<Longrightarrow>
      m' (entry_addr t j) = m (entry_addr t j)"
    and q: "is_path q" "take (Suc (length p)) q \<noteq> p @ [i]"
  shows "walk m' r q = walk m r q"
  using q
proof (induction q rule: rev_induct)
  case (snoc j q)
  have "take (Suc (length p)) q \<noteq> p @ [i]"
    using snoc.prems by (auto simp: take_Suc_conv_app_nth)
  with snoc have IH: "walk m' r q = walk m r q" by simp
  have "follow m' t j = follow m t j" if t: "walk m r q = Some t" for t
  proof -
    have "(q, j) \<noteq> (p, i)" using snoc.prems(2) by auto
    with same [of q t j] t snoc.prems(1) show ?thesis by (simp add: follow_def)
  qed
  with IH show ?case by (cases "walk m r q") (simp_all add: walk_snoc)
qed simp

lemma walk_upd_frame:
  assumes wf: "wf_tables U m r" and p: "is_path p" "walk m r p = Some t" and i: "i < 512"
    and q: "is_path q" "take (Suc (length p)) q \<noteq> p @ [i]"
  shows "walk (m(entry_addr t i := v)) r q = walk m r q"
proof (rule walk_frame [OF wf p(1) _ q])
  fix q' t' j assume a: "is_path q'" "walk m r q' = Some t'" "j < 512" "(q', j) \<noteq> (p, i)"
  have "entry_addr t' j \<noteq> entry_addr t i"
    using a i p wf_tablesD(1,4) [OF wf] walk_aligned entry_addr_inj by metis
  thus "(m(entry_addr t i := v)) (entry_addr t' j) = m (entry_addr t' j)" by simp
qed

lemma path_through: "take (Suc (length p)) q = p @ [i] \<Longrightarrow> \<exists>q'. q = p @ i # q'"
proof -
  assume "take (Suc (length p)) q = p @ [i]"
  with append_take_drop_id [of "Suc (length p)" q] have "q = p @ i # drop (Suc (length p)) q" by simp
  thus ?thesis by blast
qed

text \<open>Rewriting an entry that is no table descriptor, before and after, or an entry of a last-level
  table, changes no walk.\<close>

lemma walk_write:
  assumes wf: "wf_tables U m r" and p: "is_path p" "walk m r p = Some t" and i: "i < 512"
    and v: "length p = 3 \<or> \<not> pte_is_table (m (entry_addr t i)) \<and> \<not> pte_is_table v"
    and q: "is_path q"
  shows "walk (m(entry_addr t i := v)) r q = walk m r q"
proof (cases "take (Suc (length p)) q = p @ [i]")
  case True
  from path_through [OF True] obtain q' where q': "q = p @ i # q'" by blast
  with q have "length p \<noteq> 3" by (simp add: is_path_def)
  with v have nt: "\<not> pte_is_table (m (entry_addr t i))" "\<not> pte_is_table v" by auto
  have "walk (m(entry_addr t i := v)) r p = walk m r p"
    using walk_upd_frame [OF wf p i p(1)] by simp
  thus ?thesis using nt p by (simp add: q' walk_append)
qed (rule walk_upd_frame [OF wf p i q])

text \<open>Linking a fresh table page \<open>n\<close> into an entry that held no table descriptor adds exactly the path
  to it, as long as the page itself holds no table descriptors.\<close>

lemma walk_link:
  assumes wf: "wf_tables U m r" and p: "is_path p" "length p \<le> 2" "walk m r p = Some t"
    and i: "i < 512" and n: "n \<notin> U" "page_aligned n"
    and old: "\<not> pte_is_table (m (entry_addr t i))"
    and link: "pte_is_table (m' (entry_addr t i))" "pte_addr (m' (entry_addr t i)) = n"
    and frame: "\<And>x. \<lbrakk>page_of x \<noteq> n; x \<noteq> entry_addr t i\<rbrakk> \<Longrightarrow> m' x = m x"
    and empty: "\<And>j. \<lbrakk>length p < 2; j < 512\<rbrakk> \<Longrightarrow> \<not> pte_is_table (m' (entry_addr n j))"
    and q: "is_path q"
  shows "walk m' r q = (if q = p @ [i] then Some n else walk m r q)"
proof -
  have fr: "walk m' r q = walk m r q" if "is_path q" "take (Suc (length p)) q \<noteq> p @ [i]" for q
  proof (rule walk_frame [OF wf p(1) _ that])
    fix q' t' j assume a: "is_path q'" "walk m r q' = Some t'" "j < 512" "(q', j) \<noteq> (p, i)"
    have al: "page_aligned t'" "page_aligned t" using a p wf_tablesD(1) [OF wf] walk_aligned by metis+
    have "entry_addr t' j \<noteq> entry_addr t i"
      using a al i p wf_tablesD(4) [OF wf] entry_addr_inj by metis
    moreover have "page_of (entry_addr t' j) \<noteq> n"
      using a n al wf_tablesD(3) [OF wf] by (metis page_of_entry)
    ultimately show "m' (entry_addr t' j) = m (entry_addr t' j)" by (intro frame) auto
  qed
  show ?thesis
  proof (cases "take (Suc (length p)) q = p @ [i]")
    case True
    from path_through [OF True] obtain q' where q': "q = p @ i # q'" by blast
    have wp: "walk m' r p = Some t" using fr [OF p(1)] p by simp
    show ?thesis
    proof (cases q')
      case Nil
      with q' wp link show ?thesis by (simp add: walk_snoc follow_def Let_def)
    next
      case (Cons j q'')
      with q q' have "length p < 2" "j < 512" by (auto simp: is_path_def)
      with empty Cons q' wp link old p show ?thesis by (simp add: walk_append Let_def)
    qed
  next
    case False
    with fr [OF q] show ?thesis by auto
  qed
qed

lemma wf_tables_link:
  assumes "wf_tables U m r" "n \<notin> U" "p0 = p @ [i]" "is_path p0"
    "\<And>q. is_path q \<Longrightarrow> walk m' r q = (if q = p0 then Some n else walk m r q)"
  shows "wf_tables (insert n U) m' r"
proof -
  note D = wf_tablesD [OF assms(1)]
  show ?thesis
    unfolding wf_tables_def
  proof (intro conjI allI impI)
    show "t \<in> insert n U" if "is_path p" "walk m' r p = Some t" for p t
      using that assms(5) D(3) by (metis insertCI option.inject)
    show "p = q" if "is_path p" "is_path q" "walk m' r p = Some t" "walk m' r q = Some t" for p q t
      using that assms(2,5) D(3,4) by (metis option.inject)
  qed (use D in simp_all)
qed

lemma wf_tables_same:
  assumes "wf_tables U m r" "\<And>q. is_path q \<Longrightarrow> walk m' r q = walk m r q"
  shows "wf_tables U m' r"
  using assms(1) assms(2) unfolding wf_tables_def by metis

declare walk.simps(2) [simp del]

end
