(* ===== verification/Stage2_Walker.thy ===== *)
theory Stage2_Walker
  imports Stage2_Tables
begin

text \<open>The Stage-2 walker that the FF-A proxy uses on the tables of a VM (\<open>src/ffa/stage2_walker.rs\<close>).
  A walker is the address of the L0 table.  TLB maintenance has no effect on the memory and is left
  out; an operation returns the \<open>Result\<close> of the code and the heap after it.

  \<open>s2_desc\<close> is the abstract view of a table tree: the 4KB page descriptor that translates an IPA,
  whether it comes from a page entry or from a block.  The operations are related to it: splitting a
  block keeps it, writing software bits or access permissions changes it at one page only, and
  mapping and unmapping are the update and the removal of one page.\<close>

definition walker_from_vttbr :: "u64 \<Rightarrow> u64" where
  "walker_from_vttbr vttbr = vttbr AND PTE_ADDR_MASK"

definition has_stage2 :: "u64 \<Rightarrow> bool" where
  "has_stage2 l0_table \<longleftrightarrow> l0_table \<noteq> 0"

definition walk_to_leaf_ptr :: "pmem \<Rightarrow> u64 \<Rightarrow> u64 \<Rightarrow> u64 option" where
  "walk_to_leaf_ptr m l0_table ipa =
    (let l0_entry = m (entry_addr l0_table (l0_idx ipa)) in
     if l0_entry AND (PTE_VALID OR PTE_TABLE) \<noteq> PTE_VALID OR PTE_TABLE then None
     else
       let l1_table = l0_entry AND PTE_ADDR_MASK;
           l1_entry = m (entry_addr l1_table (l1_idx ipa)) in
       if l1_entry AND PTE_VALID = 0 then None
       else if l1_entry AND PTE_TABLE = 0 then Some (entry_addr l1_table (l1_idx ipa))
       else
         let l2_table = l1_entry AND PTE_ADDR_MASK;
             l2_ptr = entry_addr l2_table (l2_idx ipa);
             l2_entry = m l2_ptr in
         if l2_entry AND PTE_VALID = 0 then None
         else if l2_entry AND PTE_TABLE = 0 then Some l2_ptr
         else
           let l3_table = l2_entry AND PTE_ADDR_MASK;
               l3_ptr = entry_addr l3_table (l3_idx ipa);
               l3_entry = m l3_ptr in
           if l3_entry AND PTE_VALID = 0 then None else Some l3_ptr)"

definition walk_to_leaf :: "pmem \<Rightarrow> u64 \<Rightarrow> u64 \<Rightarrow> u64 option" where
  "walk_to_leaf m l0_table ipa = map_option m (walk_to_leaf_ptr m l0_table ipa)"

definition walk_to_l3_ptr :: "pmem \<Rightarrow> u64 \<Rightarrow> u64 \<Rightarrow> u64 option" where
  "walk_to_l3_ptr m l0_table ipa =
    (let l0_entry = m (entry_addr l0_table (l0_idx ipa)) in
     if l0_entry AND (PTE_VALID OR PTE_TABLE) \<noteq> PTE_VALID OR PTE_TABLE then None
     else
       let l1_table = l0_entry AND PTE_ADDR_MASK;
           l1_entry = m (entry_addr l1_table (l1_idx ipa)) in
       if l1_entry AND (PTE_VALID OR PTE_TABLE) \<noteq> PTE_VALID OR PTE_TABLE then None
       else
         let l2_table = l1_entry AND PTE_ADDR_MASK;
             l2_entry = m (entry_addr l2_table (l2_idx ipa)) in
         if l2_entry AND (PTE_VALID OR PTE_TABLE) \<noteq> PTE_VALID OR PTE_TABLE then None
         else
           let l3_table = l2_entry AND PTE_ADDR_MASK;
               l3_ptr = entry_addr l3_table (l3_idx ipa);
               l3_entry = m l3_ptr in
           if l3_entry AND PTE_VALID = 0 then None else Some l3_ptr)"

definition sw_bits_of :: "u64 \<Rightarrow> u8" where
  "sw_bits_of pte = ucast (drop_bit PTE_SW_SHIFT pte AND 3)"

definition s2ap_of :: "u64 \<Rightarrow> u8" where
  "s2ap_of pte = ucast (drop_bit S2AP_SHIFT pte AND 3)"

definition with_sw_bits :: "u8 \<Rightarrow> u64 \<Rightarrow> u64" where
  "with_sw_bits bits pte = (pte AND NOT PTE_SW_MASK) OR push_bit PTE_SW_SHIFT (ucast bits AND 3)"

definition with_s2ap :: "u8 \<Rightarrow> u64 \<Rightarrow> u64" where
  "with_s2ap s2ap pte = (pte AND NOT S2AP_MASK) OR push_bit S2AP_SHIFT (ucast s2ap AND 3)"

definition read_sw_bits :: "pmem \<Rightarrow> u64 \<Rightarrow> u64 \<Rightarrow> u8 option" where
  "read_sw_bits m l0_table ipa = map_option sw_bits_of (walk_to_leaf m l0_table ipa)"

definition read_s2ap :: "pmem \<Rightarrow> u64 \<Rightarrow> u64 \<Rightarrow> u8 option" where
  "read_s2ap m l0_table ipa = map_option s2ap_of (walk_to_leaf m l0_table ipa)"

text \<open>\<open>for i in 0..512 { *l3_ptr.add(i) = f(i) }\<close>\<close>

definition fill_table :: "u64 \<Rightarrow> (u64 \<Rightarrow> u64) \<Rightarrow> pmem \<Rightarrow> pmem" where
  "fill_table t f m = fold (\<lambda>i m. m(entry_addr t (of_nat i) := f (of_nat i))) [0..<512] m"

definition block_page :: "u64 \<Rightarrow> u64 \<Rightarrow> u64" where
  "block_page block_entry i =
    (let block_pa = block_entry AND NOT BLOCK_MASK_2MB;
         block_attr_bits = block_entry AND BLOCK_MASK_2MB AND NOT 3;
         block_sw_bits = block_entry AND PTE_SW_MASK;
         pa = block_pa + i * PAGE_SIZE_4KB
     in pa OR block_sw_bits OR block_attr_bits OR PTE_TABLE OR PTE_VALID)"

definition split_2mb_block_at_l2 :: "u64 \<Rightarrow> u64 \<Rightarrow> heap \<Rightarrow> (string + unit) \<times> heap" where
  "split_2mb_block_at_l2 l2_ptr block_entry h =
    (case alloc_page h of
       (None, h) \<Rightarrow> (Inl ''Failed to allocate L3 table for block split'', h)
     | (Some l3, h) \<Rightarrow>
         let m = zero_page l3 (h_mem h);
             m = fill_table l3 (block_page block_entry) m;
             m = m(l2_ptr := 0);
             m = m(l2_ptr := l3 OR PTE_VALID OR PTE_TABLE)
         in (Inr (), h\<lparr>h_mem := m\<rparr>))"

definition split_block_if_needed :: "u64 \<Rightarrow> u64 \<Rightarrow> heap \<Rightarrow> (string + unit) \<times> heap" where
  "split_block_if_needed l0_table ipa h =
    (let m = h_mem h;
         l0_entry = m (entry_addr l0_table (l0_idx ipa)) in
     if l0_entry AND (PTE_VALID OR PTE_TABLE) \<noteq> PTE_VALID OR PTE_TABLE then (Inr (), h)
     else
       let l1_table = l0_entry AND PTE_ADDR_MASK;
           l1_entry = m (entry_addr l1_table (l1_idx ipa)) in
       if l1_entry AND PTE_VALID = 0 \<or> l1_entry AND PTE_TABLE = 0 then (Inr (), h)
       else
         let l2_table = l1_entry AND PTE_ADDR_MASK;
             l2_ptr = entry_addr l2_table (l2_idx ipa);
             l2_entry = m l2_ptr in
         if l2_entry AND PTE_VALID \<noteq> 0 \<and> l2_entry AND PTE_TABLE = 0
         then split_2mb_block_at_l2 l2_ptr l2_entry h
         else (Inr (), h))"

text \<open>The common shape of \<open>write_sw_bits\<close> and \<open>set_s2ap\<close>: split, find the leaf, rewrite it.\<close>

definition update_leaf :: "(u64 \<Rightarrow> u64) \<Rightarrow> u64 \<Rightarrow> u64 \<Rightarrow> heap \<Rightarrow> (string + unit) \<times> heap" where
  "update_leaf f l0_table ipa h =
    (case split_block_if_needed l0_table ipa h of
       (Inl e, h) \<Rightarrow> (Inl e, h)
     | (Inr _, h) \<Rightarrow>
         (case walk_to_leaf_ptr (h_mem h) l0_table ipa of
            None \<Rightarrow> (Inl ''IPA not mapped'', h)
          | Some leaf_ptr \<Rightarrow>
              (Inr (), h\<lparr>h_mem := (h_mem h)(leaf_ptr := f (h_mem h leaf_ptr))\<rparr>)))"

definition write_sw_bits :: "u64 \<Rightarrow> u64 \<Rightarrow> u8 \<Rightarrow> heap \<Rightarrow> (string + unit) \<times> heap" where
  "write_sw_bits l0_table ipa bits h = update_leaf (with_sw_bits bits) l0_table ipa h"

definition set_s2ap :: "u64 \<Rightarrow> u64 \<Rightarrow> u8 \<Rightarrow> heap \<Rightarrow> (string + unit) \<times> heap" where
  "set_s2ap l0_table ipa s2ap h = update_leaf (with_s2ap s2ap) l0_table ipa h"

text \<open>The table that an entry of \<open>map_page\<close> leads to, allocated and linked when the entry is invalid.\<close>

definition get_or_alloc_table :: "string \<Rightarrow> string \<Rightarrow> u64 \<Rightarrow> heap \<Rightarrow> (string + u64) \<times> heap" where
  "get_or_alloc_table alloc_err block_err ptr h =
    (let e = h_mem h ptr in
     if e AND PTE_VALID = 0 then
       (case alloc_page h of
          (None, h) \<Rightarrow> (Inl alloc_err, h)
        | (Some t, h) \<Rightarrow>
            let m = zero_page t (h_mem h);
                m = m(ptr := t OR PTE_VALID OR PTE_TABLE)
            in (Inr t, h\<lparr>h_mem := m\<rparr>))
     else if e AND PTE_TABLE \<noteq> 0 then (Inr (e AND PTE_ADDR_MASK), h)
     else (Inl block_err, h))"

definition page_entry :: "u64 \<Rightarrow> u8 \<Rightarrow> u8 \<Rightarrow> u64" where
  "page_entry ipa s2ap sw_bits =
    (let normal_attrs = push_bit 2 0xF OR push_bit 8 3 OR push_bit 10 1;
         s2ap_bits = push_bit S2AP_SHIFT (ucast s2ap AND 3);
         sw = push_bit PTE_SW_SHIFT (ucast sw_bits AND 3);
         pa = ipa AND NOT PAGE_MASK_4KB
     in pa OR normal_attrs OR s2ap_bits OR sw OR PTE_TABLE OR PTE_VALID)"

text \<open>The first part of \<open>map_page\<close>: from the L0 entry down to the L3 table.\<close>

definition map_page_l3 :: "u64 \<Rightarrow> u64 \<Rightarrow> heap \<Rightarrow> (string + u64) \<times> heap" where
  "map_page_l3 l0_table ipa h =
    (let l0_entry = h_mem h (entry_addr l0_table (l0_idx ipa)) in
     if l0_entry AND (PTE_VALID OR PTE_TABLE) \<noteq> PTE_VALID OR PTE_TABLE
     then (Inl ''L0 entry not a valid table'', h)
     else
       let l1_table = l0_entry AND PTE_ADDR_MASK in
       case get_or_alloc_table ''Failed to allocate L2 table'' ''L1 entry is a 1GB block''
              (entry_addr l1_table (l1_idx ipa)) h of
         (Inl e, h) \<Rightarrow> (Inl e, h)
       | (Inr l2_table, h) \<Rightarrow>
           get_or_alloc_table ''Failed to allocate L3 table'' ''L2 entry is a 2MB block''
             (entry_addr l2_table (l2_idx ipa)) h)"

definition map_page :: "u64 \<Rightarrow> u64 \<Rightarrow> u8 \<Rightarrow> u8 \<Rightarrow> heap \<Rightarrow> (string + unit) \<times> heap" where
  "map_page l0_table ipa s2ap sw_bits h =
    (case map_page_l3 l0_table ipa h of
       (Inl e, h) \<Rightarrow> (Inl e, h)
     | (Inr l3_table, h) \<Rightarrow>
         let l3_ptr = entry_addr l3_table (l3_idx ipa) in
         if h_mem h l3_ptr AND PTE_VALID \<noteq> 0 then (Inl ''L3 entry already mapped'', h)
         else (Inr (), h\<lparr>h_mem := (h_mem h)(l3_ptr := page_entry ipa s2ap sw_bits)\<rparr>))"

definition unmap_page :: "u64 \<Rightarrow> u64 \<Rightarrow> heap \<Rightarrow> (string + unit) \<times> heap" where
  "unmap_page l0_table ipa h =
    (case walk_to_l3_ptr (h_mem h) l0_table ipa of
       None \<Rightarrow> (Inl ''IPA not mapped as 4KB page'', h)
     | Some l3_ptr \<Rightarrow> (Inr (), h\<lparr>h_mem := (h_mem h)(l3_ptr := 0)\<rparr>))"

section \<open>The abstract view\<close>

text \<open>The page descriptor of a 1GB block, which no mapper of the hypervisor creates.\<close>

definition gblock_page :: "u64 \<Rightarrow> u64 \<Rightarrow> u64" where
  "gblock_page e ipa = e OR (ipa AND 0x3FFFF000) OR PTE_TABLE"

text \<open>What a table at level 2 says about an IPA.\<close>

definition l2_desc :: "pmem \<Rightarrow> u64 \<Rightarrow> u64 \<Rightarrow> u64 option" where
  "l2_desc m l2_table ipa =
    (let e = m (entry_addr l2_table (l2_idx ipa)) in
     if \<not> pte_is_valid e then None
     else if \<not> pte_is_table e then Some (block_page e (l3_idx ipa))
     else let d = m (entry_addr (pte_addr e) (l3_idx ipa)) in if pte_is_valid d then Some d else None)"

definition s2_desc :: "pmem \<Rightarrow> u64 \<Rightarrow> u64 \<Rightarrow> u64 option" where
  "s2_desc m r ipa =
    (case walk m r [l0_idx ipa] of
       None \<Rightarrow> None
     | Some t1 \<Rightarrow>
         let e = m (entry_addr t1 (l1_idx ipa)) in
         if \<not> pte_is_valid e then None
         else if \<not> pte_is_table e then Some (gblock_page e ipa)
         else l2_desc m (pte_addr e) ipa)"

section \<open>Conditions of the code\<close>

lemma pte_conds:
  "e AND PTE_VALID = 0 \<longleftrightarrow> \<not> pte_is_valid e"
  "e AND (PTE_VALID OR PTE_TABLE) = PTE_VALID OR PTE_TABLE \<longleftrightarrow> pte_is_table e"
  "e AND PTE_ADDR_MASK = pte_addr e"
  by (simp_all add: pte_is_valid_def pte_is_table_bit valid_table_bits pte_addr_def)

lemma pte_table_cond: "pte_is_valid e \<Longrightarrow> e AND PTE_TABLE = 0 \<longleftrightarrow> \<not> pte_is_table e"
  using and_two_bit [of e] by (auto simp: pte_is_valid_bit pte_is_table_bit)

lemma pte_table_valid: "pte_is_table e \<Longrightarrow> pte_is_valid e"
  by (simp add: pte_is_table_def)

lemma pte_zero [simp]: "\<not> pte_is_valid 0" "\<not> pte_is_table 0"
  by (simp_all add: pte_is_valid_def pte_is_table_def)

lemma page_entry_valid: "pte_is_valid (page_entry ipa a b)"
  by (simp add: page_entry_def pte_is_valid_bit bit_or_iff bit_pte_consts Let_def)

lemma block_page_valid: "pte_is_valid (block_page e i)"
  by (simp add: block_page_def pte_is_valid_bit bit_or_iff bit_pte_consts Let_def)

lemma with_bits_valid:
  "pte_is_valid (with_sw_bits b e) = pte_is_valid e" "pte_is_valid (with_s2ap b e) = pte_is_valid e"
  by (simp_all add: with_sw_bits_def with_s2ap_def pte_is_valid_bit bit_or_iff bit_and_iff bit_not_iff
      bit_push_bit_iff bit_pte_consts PTE_SW_SHIFT_def S2AP_SHIFT_def)

lemma fill_upto_other:
  "(\<And>i. i < n \<Longrightarrow> x \<noteq> entry_addr t (of_nat i)) \<Longrightarrow>
   fold (\<lambda>i m. m(entry_addr t (of_nat i) := f (of_nat i))) [0..<n] m x = m x"
  by (induction n) auto

lemma fill_upto_entry:
  assumes "page_aligned t" "n \<le> 512" "k < n"
  shows "fold (\<lambda>i m. m(entry_addr t (of_nat i) := f (of_nat i))) [0..<n] m (entry_addr t (of_nat k)) =
    f (of_nat k)"
  using assms(2,3)
proof (induction n)
  case (Suc n)
  have "entry_addr t (of_nat k) \<noteq> entry_addr t (of_nat n)" if "k < n"
  proof -
    have u: "unat (of_nat k :: u64) = k" "unat (of_nat n :: u64) = n"
      using Suc.prems by (simp_all add: unat_of_nat)
    have "(of_nat k :: u64) < 512" "(of_nat n :: u64) < 512"
      using u Suc.prems by (simp_all add: word_less_nat_alt)
    thus ?thesis using entry_addr_inj [OF assms(1,1)] u that by (metis nat_neq_iff)
  qed
  with Suc show ?case by (cases "k = n") auto
qed simp

lemma fill_table_entry:
  assumes "page_aligned t" "i < 512"
  shows "fill_table t f m (entry_addr t i) = f i"
  using fill_upto_entry [OF assms(1) order_refl, of "unat i" f m] assms(2)
  by (simp add: fill_table_def word_less_nat_alt)

lemma fill_table_other: "page_aligned t \<Longrightarrow> page_of x \<noteq> t \<Longrightarrow> fill_table t f m x = m x"
  unfolding fill_table_def
proof (rule fill_upto_other)
  fix i :: nat assume t: "page_aligned t" "page_of x \<noteq> t" and "i < 512"
  hence "(of_nat i :: u64) < 512" by (simp add: word_less_nat_alt unat_of_nat)
  thus "x \<noteq> entry_addr t (of_nat i)" using t page_of_entry by metis
qed

lemma zero_page_entry: "page_aligned t \<Longrightarrow> i < 512 \<Longrightarrow> zero_page t m (entry_addr t i) = 0"
  by (simp add: zero_page_apply page_of_entry)

text \<open>An IPA is mapped by a 4KB page entry.\<close>

definition is_page :: "pmem \<Rightarrow> u64 \<Rightarrow> u64 \<Rightarrow> bool" where
  "is_page m r ipa \<longleftrightarrow>
     (case walk m r (ipa_path ipa) of
        None \<Rightarrow> False | Some t3 \<Rightarrow> pte_is_valid (m (entry_addr t3 (l3_idx ipa))))"

section \<open>The abstract view over walks\<close>

definition valid_desc :: "u64 \<Rightarrow> u64 option" where
  "valid_desc d = (if pte_is_valid d then Some d else None)"

lemma s2_desc_walk:
  "s2_desc m r ipa =
    (case walk m r [l0_idx ipa] of
       None \<Rightarrow> None
     | Some t1 \<Rightarrow>
         (case walk m r [l0_idx ipa, l1_idx ipa] of
            None \<Rightarrow> map_option (\<lambda>e. gblock_page e ipa) (valid_desc (m (entry_addr t1 (l1_idx ipa))))
          | Some t2 \<Rightarrow>
              (case walk m r (ipa_path ipa) of
                 None \<Rightarrow> map_option (\<lambda>e. block_page e (l3_idx ipa)) (valid_desc (m (entry_addr t2 (l2_idx ipa))))
               | Some t3 \<Rightarrow> valid_desc (m (entry_addr t3 (l3_idx ipa))))))"
  by (auto simp: s2_desc_def l2_desc_def ipa_path_def valid_desc_def Let_def pte_table_valid
      walk_Cons follow_def)

lemma s2_desc_cong:
  assumes "\<And>q. q \<in> {[l0_idx ipa], [l0_idx ipa, l1_idx ipa], ipa_path ipa} \<Longrightarrow> walk m' r q = walk m r q"
    and "\<And>t. walk m r [l0_idx ipa] = Some t \<Longrightarrow>
      m' (entry_addr t (l1_idx ipa)) = m (entry_addr t (l1_idx ipa))"
    and "\<And>t. walk m r [l0_idx ipa, l1_idx ipa] = Some t \<Longrightarrow>
      m' (entry_addr t (l2_idx ipa)) = m (entry_addr t (l2_idx ipa))"
    and "\<And>t. walk m r (ipa_path ipa) = Some t \<Longrightarrow>
      m' (entry_addr t (l3_idx ipa)) = m (entry_addr t (l3_idx ipa))"
  shows "s2_desc m' r ipa = s2_desc m r ipa"
proof -
  have w: "walk m' r [l0_idx ipa] = walk m r [l0_idx ipa]"
    "walk m' r [l0_idx ipa, l1_idx ipa] = walk m r [l0_idx ipa, l1_idx ipa]"
    "walk m' r (ipa_path ipa) = walk m r (ipa_path ipa)"
    by (rule assms(1), simp)+
  show ?thesis unfolding s2_desc_walk w using assms(2-4) by (simp split: option.split)
qed

lemma walk_prefix:
  assumes "walk m r (ipa_path ipa) = Some t3"
  obtains t1 t2 where "walk m r [l0_idx ipa] = Some t1" "walk m r [l0_idx ipa, l1_idx ipa] = Some t2"
  using assms by (auto simp: ipa_path_def walk_Cons bind_eq_Some_conv)

text \<open>A change below entry \<open>i\<close> of the table at \<open>p\<close> only affects the IPAs whose indices start with
  \<open>p @ [i]\<close>.\<close>

definition full_path :: "u64 \<Rightarrow> u64 list" where
  "full_path ipa = ipa_path ipa @ [l3_idx ipa]"

lemma same_page_full_path: "same_page x y \<longleftrightarrow> full_path x = full_path y"
  by (auto simp: same_page_def full_path_def)

lemma full_path_take:
  "[l0_idx x] = take 1 (full_path x)" "[l0_idx x, l1_idx x] = take 2 (full_path x)"
  "ipa_path x = take 3 (full_path x)"
  by (simp_all add: full_path_def ipa_path_def)

lemma s2_desc_frame:
  assumes w: "\<And>q. is_path q \<Longrightarrow> take (Suc (length p)) q \<noteq> p @ [i] \<Longrightarrow> walk m' r q = walk m r q"
    and e: "\<And>q t j. \<lbrakk>is_path q; walk m r q = Some t; j < 512; (q, j) \<noteq> (p, i)\<rbrakk> \<Longrightarrow>
      m' (entry_addr t j) = m (entry_addr t j)"
    and ne: "take (Suc (length p)) (full_path ipa) \<noteq> p @ [i]"
  shows "s2_desc m' r ipa = s2_desc m r ipa"
proof (rule s2_desc_cong)
  have pre: "take (Suc (length p)) (take k (full_path ipa)) \<noteq> p @ [i]" if "k \<le> 4" for k
  proof (cases "Suc (length p) \<le> k")
    case False
    hence "length (take (Suc (length p)) (take k (full_path ipa))) < length (p @ [i])" by simp
    thus ?thesis by (metis less_irrefl)
  qed (simp add: ne min_def)
  show "walk m' r q = walk m r q" if "q \<in> {[l0_idx ipa], [l0_idx ipa, l1_idx ipa], ipa_path ipa}" for q
    using that pre [of 1] pre [of 2] pre [of 3] w is_path_ipa [of ipa]
    unfolding full_path_take [symmetric] by auto
  have "(q, j) \<noteq> (p, i)" if "q @ [j] = take k (full_path ipa)" "k \<le> 4" for q j k
    using pre [OF that(2)] unfolding that(1) [symmetric] by auto
  from this [of "[l0_idx ipa]" "l1_idx ipa" 2] this [of "[l0_idx ipa, l1_idx ipa]" "l2_idx ipa" 3]
    this [of "ipa_path ipa" "l3_idx ipa" 4]
  have n: "([l0_idx ipa], l1_idx ipa) \<noteq> (p, i)" "([l0_idx ipa, l1_idx ipa], l2_idx ipa) \<noteq> (p, i)"
    "(ipa_path ipa, l3_idx ipa) \<noteq> (p, i)"
    by (simp_all add: full_path_def ipa_path_def)
  show "m' (entry_addr t (l1_idx ipa)) = m (entry_addr t (l1_idx ipa))"
    if "walk m r [l0_idx ipa] = Some t" for t
    by (rule e [OF is_path_ipa(1) that idx_less(2) n(1)])
  show "m' (entry_addr t (l2_idx ipa)) = m (entry_addr t (l2_idx ipa))"
    if "walk m r [l0_idx ipa, l1_idx ipa] = Some t" for t
    by (rule e [OF is_path_ipa(2) that idx_less(3) n(2)])
  show "m' (entry_addr t (l3_idx ipa)) = m (entry_addr t (l3_idx ipa))"
    if "walk m r (ipa_path ipa) = Some t" for t
    by (rule e [OF is_path_ipa(3) that idx_less(4) n(3)])
qed

lemma entry_upd_other:
  assumes "wf_tables T m r" "is_path p" "walk m r p = Some t" "i < 512"
    "is_path q" "walk m r q = Some t'" "j < 512" "(q, j) \<noteq> (p, i)"
  shows "entry_addr t' j \<noteq> entry_addr t i"
  using assms wf_tablesD(1,4) [OF assms(1)] walk_aligned entry_addr_inj by metis

text \<open>Writing a page entry is the update of the view at one page.\<close>

lemma s2_desc_leaf:
  assumes wf: "wf_tables T m r" and t3: "walk m r (ipa_path ipa) = Some t3"
  shows "s2_desc (m(entry_addr t3 (l3_idx ipa) := v)) r ipa' =
    (if same_page ipa' ipa then valid_desc v else s2_desc m r ipa')"
    (is "s2_desc ?m r ipa' = _")
proof -
  have w: "walk ?m r q = walk m r q" if "is_path q" for q
    using walk_write [OF wf is_path_ipa(3) t3 idx_less(4) _ that] by (simp add: ipa_path_def)
  show ?thesis
  proof (cases "same_page ipa' ipa")
    case True
    hence e: "ipa_path ipa' = ipa_path ipa" "l3_idx ipa' = l3_idx ipa" by (simp_all add: same_page_def)
    obtain t1 t2 where "walk m r [l0_idx ipa] = Some t1" "walk m r [l0_idx ipa, l1_idx ipa] = Some t2"
      using walk_prefix [OF t3] .
    with e t3 w is_path_ipa [of ipa]
    have "walk ?m r [l0_idx ipa'] = Some t1" "walk ?m r [l0_idx ipa', l1_idx ipa'] = Some t2"
      "walk ?m r (ipa_path ipa') = Some t3"
      by (simp_all add: ipa_path_def)
    with True e(2) show ?thesis by (simp add: s2_desc_walk)
  next
    case False
    have "s2_desc ?m r ipa' = s2_desc m r ipa'"
    proof (rule s2_desc_frame [where p = "ipa_path ipa" and i = "l3_idx ipa"])
      show "take (Suc (length (ipa_path ipa))) (full_path ipa') \<noteq> ipa_path ipa @ [l3_idx ipa]"
        using False by (simp add: same_page_full_path full_path_def ipa_path_def)
    qed (use w entry_upd_other [OF wf is_path_ipa(3) t3 idx_less(4)] in auto)
    with False show ?thesis by simp
  qed
qed

text \<open>Linking a fresh page of descriptors that says what the old entry said keeps the view.\<close>

lemma s2_desc_link:
  assumes wf: "wf_tables T m r" and p: "is_path p" "walk m r p = Some t" "length p \<in> {1, 2}"
    and i: "i < 512" and n: "n \<notin> T" "page_aligned n"
    and frame: "\<And>x. \<lbrakk>page_of x \<noteq> n; x \<noteq> entry_addr t i\<rbrakk> \<Longrightarrow> m' x = m x"
    and walks: "\<And>q. is_path q \<Longrightarrow> walk m' r q = (if q = p @ [i] then Some n else walk m r q)"
    and old: "\<not> pte_is_table (m (entry_addr t i))"
    and l1: "length p = 1 \<Longrightarrow> \<not> pte_is_valid (m (entry_addr t i)) \<and>
      (\<forall>j<512. \<not> pte_is_valid (m' (entry_addr n j)))"
    and l2: "\<And>j. \<lbrakk>length p = 2; j < 512\<rbrakk> \<Longrightarrow> valid_desc (m' (entry_addr n j)) =
      map_option (\<lambda>e. block_page e j) (valid_desc (m (entry_addr t i)))"
  shows "s2_desc m' r ipa = s2_desc m r ipa"
proof (cases "take (Suc (length p)) (full_path ipa) = p @ [i]")
  case False
  have e: "m' (entry_addr t' j) = m (entry_addr t' j)"
    if "is_path q" "walk m r q = Some t'" "j < 512" "(q, j) \<noteq> (p, i)" for q t' j
  proof (rule frame)
    show "entry_addr t' j \<noteq> entry_addr t i" by (rule entry_upd_other [OF wf p(1,2) i that])
    show "page_of (entry_addr t' j) \<noteq> n"
      using that n wf_tablesD [OF wf] walk_aligned page_of_entry by metis
  qed
  show ?thesis
    by (rule s2_desc_frame [where p = p and i = i]) (use walks e False in auto)
next
  case True
  consider "p = [l0_idx ipa]" "i = l1_idx ipa" | "p = [l0_idx ipa, l1_idx ipa]" "i = l2_idx ipa"
    using True p(3) by (auto simp: full_path_def ipa_path_def append_eq_Cons_conv)
  thus ?thesis
  proof cases
    case 1
    have "walk m' r [l0_idx ipa] = Some t" "walk m' r [l0_idx ipa, l1_idx ipa] = Some n"
      using walks [OF is_path_ipa(1) [of ipa]] walks [OF is_path_ipa(2) [of ipa]] p 1 by simp_all
    moreover have "walk m r [l0_idx ipa, l1_idx ipa] = None" "walk m r (ipa_path ipa) = None"
      using p(2) old 1 by (auto simp: walk_Cons ipa_path_def follow_def Let_def split: if_splits)
    moreover have "walk m' r (ipa_path ipa) = None"
      using walks [OF is_path_ipa(3) [of ipa]] 1 calculation(4) by (simp add: ipa_path_def)
    ultimately show ?thesis
      using l1 1 p by (simp add: s2_desc_walk valid_desc_def idx_less)
  next
    case 2
    have "walk m' r [l0_idx ipa, l1_idx ipa] = Some t" "walk m' r (ipa_path ipa) = Some n"
      "walk m' r [l0_idx ipa] = walk m r [l0_idx ipa]"
      using walks [OF is_path_ipa(1) [of ipa]] walks [OF is_path_ipa(2) [of ipa]]
        walks [OF is_path_ipa(3) [of ipa]] p 2 by (simp_all add: ipa_path_def)
    moreover have "walk m r (ipa_path ipa) = None" "walk m r [l0_idx ipa] \<noteq> None"
      using p(2) old 2 by (auto simp: walk_Cons ipa_path_def follow_def Let_def split: if_splits)
    ultimately show ?thesis
      using l2 2 p by (auto simp: s2_desc_walk idx_less)
  qed
qed

section \<open>Table trees on the heap\<close>

text \<open>No entry of a level-1 table is a 1GB block.\<close>

definition no_gblocks :: "pmem \<Rightarrow> u64 \<Rightarrow> bool" where
  "no_gblocks m r \<longleftrightarrow> (\<forall>i0 i1 t. i0 < 512 \<longrightarrow> i1 < 512 \<longrightarrow> walk m r [i0] = Some t \<longrightarrow>
     pte_is_valid (m (entry_addr t i1)) \<longrightarrow> pte_is_table (m (entry_addr t i1)))"

text \<open>The pages \<open>U\<close> of the heap are in use and \<open>T\<close>, among them, holds the tables under \<open>r\<close>.\<close>

definition s2_ok :: "u64 set \<Rightarrow> u64 set \<Rightarrow> u64 \<Rightarrow> heap \<Rightarrow> bool" where
  "s2_ok U T r h \<longleftrightarrow> heap_ok U h \<and> T \<subseteq> U \<and> wf_tables T (h_mem h) r \<and> no_gblocks (h_mem h) r"

text \<open>A step that keeps the tree well formed, extends it by fresh pages only and writes nothing else.\<close>

definition s2_grows :: "u64 set \<Rightarrow> u64 set \<Rightarrow> u64 \<Rightarrow> heap \<Rightarrow> u64 set \<Rightarrow> heap \<Rightarrow> bool" where
  "s2_grows U T r h T' h' \<longleftrightarrow>
     T \<subseteq> T' \<and> (T' - T) \<inter> U = {} \<and> s2_ok (U \<union> T') T' r h' \<and>
     (\<forall>x. page_of x \<notin> T' \<longrightarrow> h_mem h' x = h_mem h x)"

lemma s2_grows_refl: "s2_ok U T r h \<Longrightarrow> s2_grows U T r h T h"
  by (auto simp: s2_grows_def s2_ok_def Un_absorb2)

lemma s2_grows_trans:
  "s2_grows U T r h T1 h1 \<Longrightarrow> s2_grows (U \<union> T1) T1 r h1 T2 h2 \<Longrightarrow> s2_grows U T r h T2 h2"
  unfolding s2_grows_def by (auto simp: Un_assoc Un_absorb1 subset_iff)

lemma s2_growsD: "s2_grows U T r h T' h' \<Longrightarrow> s2_ok (U \<union> T') T' r h'"
  by (simp add: s2_grows_def)

lemma no_gblocks_upd:
  assumes "no_gblocks m r" "\<And>i0. i0 < 512 \<Longrightarrow> walk m' r [i0] = walk m r [i0]"
    "\<And>i0 i1 t. \<lbrakk>i0 < 512; i1 < 512; walk m r [i0] = Some t\<rbrakk> \<Longrightarrow>
      m' (entry_addr t i1) = m (entry_addr t i1) \<or> pte_is_table (m' (entry_addr t i1))"
  shows "no_gblocks m' r"
  using assms unfolding no_gblocks_def by metis

lemma s2_leaf_grows:
  assumes ok: "s2_ok U T r h" and t3: "walk (h_mem h) r (ipa_path ipa) = Some t3"
  shows "s2_grows U T r h T (h\<lparr>h_mem := (h_mem h)(entry_addr t3 (l3_idx ipa) := v)\<rparr>)"
    (is "s2_grows U T r h T (h\<lparr>h_mem := ?m\<rparr>)")
proof -
  have wf: "wf_tables T (h_mem h) r" and T: "T \<subseteq> U" using ok by (simp_all add: s2_ok_def)
  have w: "walk ?m r q = walk (h_mem h) r q" if "is_path q" for q
    using walk_write [OF wf is_path_ipa(3) t3 idx_less(4) _ that] by (simp add: ipa_path_def)
  have t3T: "t3 \<in> T" "page_aligned t3"
    using wf_tablesD(1,3) [OF wf] t3 is_path_ipa(3) walk_aligned by blast+
  hence pg: "page_of (entry_addr t3 (l3_idx ipa)) \<in> T" by (simp add: page_of_entry idx_less)
  have "heap_ok U (h\<lparr>h_mem := ?m\<rparr>)" using ok pg T by (intro heap_ok_mem) (auto simp: s2_ok_def)
  moreover have "wf_tables T ?m r" using wf_tables_same [OF wf] w by blast
  moreover have "no_gblocks ?m r"
  proof (rule no_gblocks_upd)
    show "no_gblocks (h_mem h) r" using ok by (simp add: s2_ok_def)
    show "walk ?m r [i0] = walk (h_mem h) r [i0]" if "i0 < 512" for i0
      using w that by (simp add: is_path_def)
    show "?m (entry_addr t i1) = h_mem h (entry_addr t i1) \<or> pte_is_table (?m (entry_addr t i1))"
      if "i0 < 512" "i1 < 512" "walk (h_mem h) r [i0] = Some t" for i0 i1 t
      using entry_upd_other [OF wf is_path_ipa(3) t3 idx_less(4) _ that(3,2)] that
      by (simp add: is_path_def ipa_path_def)
  qed
  ultimately show ?thesis
    using pg T by (auto simp: s2_grows_def s2_ok_def Un_absorb2)
qed

text \<open>Linking a freshly allocated table.\<close>

lemma s2_link_grows:
  assumes ok: "s2_ok U T r h" and al: "alloc_page h = (Some n, h1)"
    and p: "is_path p" "walk (h_mem h) r p = Some t" "length p \<in> {1, 2}" and i: "i < 512"
    and old: "\<not> pte_is_table (h_mem h (entry_addr t i))"
    and link: "m' (entry_addr t i) = n OR PTE_VALID OR PTE_TABLE"
    and frame: "\<And>x. \<lbrakk>page_of x \<noteq> n; x \<noteq> entry_addr t i\<rbrakk> \<Longrightarrow> m' x = h_mem h1 x"
    and l1: "length p = 1 \<Longrightarrow> \<not> pte_is_valid (h_mem h (entry_addr t i)) \<and>
      (\<forall>j<512. \<not> pte_is_valid (m' (entry_addr n j)))"
    and l2: "\<And>j. \<lbrakk>length p = 2; j < 512\<rbrakk> \<Longrightarrow> valid_desc (m' (entry_addr n j)) =
      map_option (\<lambda>e. block_page e j) (valid_desc (h_mem h (entry_addr t i)))"
  shows "s2_grows U T r h (insert n T) (h1\<lparr>h_mem := m'\<rparr>)"
    "s2_desc m' r ipa = s2_desc (h_mem h) r ipa" "walk m' r (p @ [i]) = Some n"
    "is_page (h_mem h) r x \<Longrightarrow> is_page m' r x"
    "is_path q \<Longrightarrow> q \<noteq> p @ [i] \<Longrightarrow> walk m' r q = walk (h_mem h) r q"
proof -
  have wf: "wf_tables T (h_mem h) r" and T: "T \<subseteq> U" and hok: "heap_ok U h"
    using ok by (simp_all add: s2_ok_def)
  note a = alloc_page_spec [OF hok al]
  have nT: "n \<notin> T" using a(1) T by blast
  have tT: "t \<in> T" "page_aligned t" using wf_tablesD(1,3) [OF wf] p walk_aligned by blast+
  have fr: "m' x = h_mem h x" if "page_of x \<noteq> n" "x \<noteq> entry_addr t i" for x
    using frame that a(6) by simp
  have tbl: "pte_is_table (m' (entry_addr t i))" "pte_addr (m' (entry_addr t i)) = n"
    using link_desc [OF a(2,4)] link by simp_all
  have w: "walk m' r q = (if q = p @ [i] then Some n else walk (h_mem h) r q)" if "is_path q" for q
  proof (rule walk_link [OF wf p(1) _ p(2) i nT a(2) old tbl fr _ that])
    show "\<not> pte_is_table (m' (entry_addr n j))" if "length p < 2" "j < 512" for j
      using that p(3) l1 pte_table_valid by auto
  qed (use p(3) in auto)
  have pi: "is_path (p @ [i])" using p i by auto
  show "walk m' r (p @ [i]) = Some n" using w [OF pi] by simp
  show "is_path q \<Longrightarrow> q \<noteq> p @ [i] \<Longrightarrow> walk m' r q = walk (h_mem h) r q" by (simp add: w)
  show "is_page m' r x" if "is_page (h_mem h) r x"
  proof -
    from that obtain t3 where t3: "walk (h_mem h) r (ipa_path x) = Some t3"
      "pte_is_valid (h_mem h (entry_addr t3 (l3_idx x)))"
      by (auto simp: is_page_def split: option.splits)
    have np: "ipa_path x \<noteq> p @ [i]"
      using t3(1) p(2) old by (auto simp: walk_snoc follow_def)
    have "t3 \<in> T" "page_aligned t3"
      using wf_tablesD(1,3) [OF wf] t3(1) is_path_ipa(3) walk_aligned by blast+
    hence "page_of (entry_addr t3 (l3_idx x)) \<noteq> n" using nT by (auto simp: page_of_entry idx_less)
    moreover have "entry_addr t3 (l3_idx x) \<noteq> entry_addr t i"
      using p(3) by (intro entry_upd_other [OF wf p(1,2) i is_path_ipa(3) t3(1) idx_less(4)])
        (auto simp: ipa_path_def)
    ultimately show ?thesis using t3 fr w [OF is_path_ipa(3)] np by (simp add: is_page_def)
  qed
  show "s2_desc m' r ipa = s2_desc (h_mem h) r ipa"
    by (rule s2_desc_link [OF wf p i nT a(2) fr w old l1 l2])
  have "heap_ok (insert n U) (h1\<lparr>h_mem := m'\<rparr>)"
  proof (rule heap_ok_mem [OF a(5)])
    fix x assume x: "page_of x \<notin> insert n U"
    hence "x \<noteq> entry_addr t i" using tT T i by (auto simp: page_of_entry)
    with x show "m' x = h_mem h1 x" by (intro frame) auto
  qed
  moreover have "wf_tables (insert n T) m' r"
    by (rule wf_tables_link [OF wf nT refl pi w])
  moreover have "no_gblocks m' r"
  proof (rule no_gblocks_upd)
    show "no_gblocks (h_mem h) r" using ok by (simp add: s2_ok_def)
    show "walk m' r [i0] = walk (h_mem h) r [i0]" if "i0 < 512" for i0
      using w [of "[i0]"] that p(3) by (auto simp: is_path_def)
    show "m' (entry_addr t' i1) = h_mem h (entry_addr t' i1) \<or> pte_is_table (m' (entry_addr t' i1))"
      if "i0 < 512" "i1 < 512" "walk (h_mem h) r [i0] = Some t'" for i0 i1 t'
    proof -
      have "is_path [i0]" using that by (simp add: is_path_def)
      hence "page_of (entry_addr t' i1) \<in> T"
        using that wf_tablesD(1,3) [OF wf] walk_aligned page_of_entry by metis
      hence "page_of (entry_addr t' i1) \<noteq> n" using nT by auto
      thus ?thesis using fr tbl(1) by metis
    qed
  qed
  ultimately show "s2_grows U T r h (insert n T) (h1\<lparr>h_mem := m'\<rparr>)"
    using a(1,6) T fr tT i by (auto simp: s2_grows_def s2_ok_def page_of_entry Un_absorb2 intro!: fr)
qed

text \<open>The two ways the code initialises a fresh table before linking it: all zero, in the place of an
  invalid entry, or with the pages of the block that it replaces.\<close>

lemma s2_link_zero:
  assumes ok: "s2_ok U T r h" and al: "alloc_page h = (Some n, h1)"
    and p: "is_path p" "walk (h_mem h) r p = Some t" "length p \<in> {1, 2}" and i: "i < 512"
    and nv: "\<not> pte_is_valid (h_mem h (entry_addr t i))"
    and m: "m' = (zero_page n (h_mem h1))(entry_addr t i := n OR PTE_VALID OR PTE_TABLE)"
  shows "s2_grows U T r h (insert n T) (h1\<lparr>h_mem := m'\<rparr>)"
    "s2_desc m' r ipa = s2_desc (h_mem h) r ipa" "walk m' r (p @ [i]) = Some n"
    "is_page (h_mem h) r x \<Longrightarrow> is_page m' r x"
    "is_path q \<Longrightarrow> q \<noteq> p @ [i] \<Longrightarrow> walk m' r q = walk (h_mem h) r q"
proof -
  have hok: "heap_ok U h" and wf: "wf_tables T (h_mem h) r" and T: "T \<subseteq> U"
    using ok by (simp_all add: s2_ok_def)
  note a = alloc_page_spec [OF hok al]
  have nt: "\<not> pte_is_table (h_mem h (entry_addr t i))" using nv pte_table_valid by blast
  have "t \<in> T" "page_aligned t" using wf_tablesD(1,3) [OF wf] p walk_aligned by blast+
  hence tn: "entry_addr t i \<noteq> entry_addr n j" if "j < 512" for j
    using that a(1,2) i T entry_addr_inj by blast
  have z: "m' (entry_addr n j) = 0" if "j < 512" for j
    using that tn [OF that] a(2) by (simp add: m zero_page_entry)
  have fr: "m' x = h_mem h1 x" if "page_of x \<noteq> n" "x \<noteq> entry_addr t i" for x
    using that a(2) by (simp add: m zero_page_apply)
  have e: "m' (entry_addr t i) = n OR PTE_VALID OR PTE_TABLE" by (simp add: m)
  note L = s2_link_grows [OF ok al p i nt e fr]
  show "s2_grows U T r h (insert n T) (h1\<lparr>h_mem := m'\<rparr>)"
    "s2_desc m' r ipa = s2_desc (h_mem h) r ipa" "walk m' r (p @ [i]) = Some n"
    "is_page (h_mem h) r x \<Longrightarrow> is_page m' r x"
    "is_path q \<Longrightarrow> q \<noteq> p @ [i] \<Longrightarrow> walk m' r q = walk (h_mem h) r q"
    by (rule L; use nv z in \<open>simp add: valid_desc_def\<close>)+
qed

lemma s2_link_split:
  assumes ok: "s2_ok U T r h" and al: "alloc_page h = (Some n, h1)"
    and p: "is_path p" "walk (h_mem h) r p = Some t" "length p = 2" and i: "i < 512"
    and e: "pte_is_valid (h_mem h (entry_addr t i))" "\<not> pte_is_table (h_mem h (entry_addr t i))"
    and f: "\<And>j. j < 512 \<Longrightarrow> f j = block_page (h_mem h (entry_addr t i)) j"
    and m0: "\<And>x. page_of x \<noteq> n \<Longrightarrow> m0 x = h_mem h1 x"
    and m: "m' = (fill_table n f m0)(entry_addr t i := n OR PTE_VALID OR PTE_TABLE)"
  shows "s2_grows U T r h (insert n T) (h1\<lparr>h_mem := m'\<rparr>)"
    "s2_desc m' r ipa = s2_desc (h_mem h) r ipa" "walk m' r (p @ [i]) = Some n"
    "is_page (h_mem h) r x \<Longrightarrow> is_page m' r x"
    "is_path q \<Longrightarrow> q \<noteq> p @ [i] \<Longrightarrow> walk m' r q = walk (h_mem h) r q"
proof -
  have hok: "heap_ok U h" and wf: "wf_tables T (h_mem h) r" and T: "T \<subseteq> U"
    using ok by (simp_all add: s2_ok_def)
  note a = alloc_page_spec [OF hok al]
  have "t \<in> T" "page_aligned t" using wf_tablesD(1,3) [OF wf] p walk_aligned by blast+
  hence tn: "entry_addr t i \<noteq> entry_addr n j" if "j < 512" for j
    using that a(1,2) i T entry_addr_inj by blast
  have c: "m' (entry_addr n j) = block_page (h_mem h (entry_addr t i)) j" if "j < 512" for j
    using that tn [OF that] a(2) f by (simp add: m fill_table_entry)
  have fr: "m' x = h_mem h1 x" if "page_of x \<noteq> n" "x \<noteq> entry_addr t i" for x
    using that a(2) m0 by (simp add: m fill_table_other)
  have l: "m' (entry_addr t i) = n OR PTE_VALID OR PTE_TABLE" by (simp add: m)
  have p3: "length p \<in> {1, 2}" using p(3) by simp
  note L = s2_link_grows [OF ok al p(1,2) p3 i e(2) l fr]
  show "s2_grows U T r h (insert n T) (h1\<lparr>h_mem := m'\<rparr>)"
    "s2_desc m' r ipa = s2_desc (h_mem h) r ipa" "walk m' r (p @ [i]) = Some n"
    "is_page (h_mem h) r x \<Longrightarrow> is_page m' r x"
    "is_path q \<Longrightarrow> q \<noteq> p @ [i] \<Longrightarrow> walk m' r q = walk (h_mem h) r q"
    by (rule L; use e c p(3) in \<open>simp add: valid_desc_def block_page_valid\<close>)+
qed

section \<open>The operations\<close>

lemma get_or_alloc_table_spec:
  assumes ok: "s2_ok U T r h" and p: "is_path p" "walk (h_mem h) r p = Some t" "length p \<in> {1, 2}"
    and i: "i < 512" and g: "get_or_alloc_table ae be (entry_addr t i) h = (res, h')"
  obtains T' where "s2_grows U T r h T' h'" "\<And>ipa. s2_desc (h_mem h') r ipa = s2_desc (h_mem h) r ipa"
    "\<And>x. is_page (h_mem h) r x \<Longrightarrow> is_page (h_mem h') r x"
    "\<And>t'. res = Inr t' \<Longrightarrow> walk (h_mem h') r (p @ [i]) = Some t'"
proof (cases "pte_is_valid (h_mem h (entry_addr t i))")
  case True
  with g have "h' = h" "res = Inr t' \<Longrightarrow> t' = pte_addr (h_mem h (entry_addr t i)) \<and>
      pte_is_table (h_mem h (entry_addr t i))" for t'
    by (auto simp: get_or_alloc_table_def pte_conds pte_table_cond Let_def split: if_splits)
  with that [of T] s2_grows_refl [OF ok] p show ?thesis by (auto simp: walk_snoc follow_def)
next
  case False
  hence old: "\<not> pte_is_table (h_mem h (entry_addr t i))" using pte_table_valid by blast
  show ?thesis
  proof (cases "alloc_page h")
    case (Pair o1 h1)
    show ?thesis
    proof (cases o1)
      case None
      with Pair alloc_page_None have "h' = h" "\<nexists>t'. res = Inr t'"
        using g False by (auto simp: get_or_alloc_table_def pte_conds)
      with that [of T] s2_grows_refl [OF ok] show ?thesis by auto
    next
      case (Some n)
      define m where "m = (zero_page n (h_mem h1))(entry_addr t i := n OR PTE_VALID OR PTE_TABLE)"
      have r: "res = Inr n" "h' = h1\<lparr>h_mem := m\<rparr>"
        using g False Pair Some by (auto simp: get_or_alloc_table_def pte_conds Let_def m_def)
      note L = s2_link_zero [OF ok Pair [unfolded Some] p i False m_def]
      show ?thesis using that [of "insert n T"] L r by simp
    qed
  qed
qed

lemma map_page_l3_spec:
  assumes ok: "s2_ok U T r h" and mp: "map_page_l3 r ipa h = (res, h')"
  obtains T' where "s2_grows U T r h T' h'" "\<And>ipa. s2_desc (h_mem h') r ipa = s2_desc (h_mem h) r ipa"
    "\<And>x. is_page (h_mem h) r x \<Longrightarrow> is_page (h_mem h') r x"
    "\<And>t3. res = Inr t3 \<Longrightarrow> walk (h_mem h') r (ipa_path ipa) = Some t3"
proof (cases "walk (h_mem h) r [l0_idx ipa]")
  case None
  with mp have "h' = h" "res = Inl ''L0 entry not a valid table''"
    by (auto simp: map_page_l3_def pte_conds walk_Cons follow_def Let_def split: if_splits)
  with that [of T] s2_grows_refl [OF ok] show ?thesis by simp
next
  case (Some t1)
  hence e0: "pte_is_table (h_mem h (entry_addr r (l0_idx ipa)))"
    "pte_addr (h_mem h (entry_addr r (l0_idx ipa))) = t1"
    by (auto simp: walk_Cons follow_def Let_def split: if_splits)
  obtain r1 h1 where g1: "get_or_alloc_table ''Failed to allocate L2 table'' ''L1 entry is a 1GB block''
      (entry_addr t1 (l1_idx ipa)) h = (r1, h1)" by fastforce
  obtain T1 where T1: "s2_grows U T r h T1 h1" "\<And>ipa. s2_desc (h_mem h1) r ipa = s2_desc (h_mem h) r ipa"
    "\<And>x. is_page (h_mem h) r x \<Longrightarrow> is_page (h_mem h1) r x"
    "\<And>t'. r1 = Inr t' \<Longrightarrow> walk (h_mem h1) r ([l0_idx ipa] @ [l1_idx ipa]) = Some t'"
    by (rule get_or_alloc_table_spec [OF ok is_path_ipa(1) Some _ idx_less(2) g1]) simp_all
  show ?thesis
  proof (cases r1)
    case (Inl e)
    with mp g1 e0 have "h' = h1" "res = Inl e" by (auto simp: map_page_l3_def pte_conds)
    with that [OF T1(1) [folded \<open>h' = h1\<close>]] T1(2,3) show ?thesis by simp
  next
    case (Inr t2)
    with mp g1 e0 have g2: "get_or_alloc_table ''Failed to allocate L3 table'' ''L2 entry is a 2MB block''
      (entry_addr t2 (l2_idx ipa)) h1 = (res, h')" by (auto simp: map_page_l3_def pte_conds)
    have w2: "walk (h_mem h1) r [l0_idx ipa, l1_idx ipa] = Some t2" using T1(4) [OF Inr] by simp
    obtain T2 where T2: "s2_grows (U \<union> T1) T1 r h1 T2 h'"
      "\<And>ipa. s2_desc (h_mem h') r ipa = s2_desc (h_mem h1) r ipa"
      "\<And>x. is_page (h_mem h1) r x \<Longrightarrow> is_page (h_mem h') r x"
      "\<And>t'. res = Inr t' \<Longrightarrow> walk (h_mem h') r ([l0_idx ipa, l1_idx ipa] @ [l2_idx ipa]) = Some t'"
      by (rule get_or_alloc_table_spec [OF s2_growsD [OF T1(1)] is_path_ipa(2) w2 _ idx_less(3) g2]) simp_all
    show ?thesis
      by (rule that [OF s2_grows_trans [OF T1(1) T2(1)]]) (use T1 T2 in \<open>simp_all add: ipa_path_def\<close>)
  qed
qed

lemma is_page_leaf:
  assumes wf: "wf_tables T m r" and t3: "walk m r (ipa_path ipa) = Some t3"
  shows "is_page (m(entry_addr t3 (l3_idx ipa) := v)) r y =
    (if same_page y ipa then pte_is_valid v else is_page m r y)"
proof -
  have w: "walk (m(entry_addr t3 (l3_idx ipa) := v)) r (ipa_path y) = walk m r (ipa_path y)"
    using walk_write [OF wf is_path_ipa(3) t3 idx_less(4) _ is_path_ipa(3)] by (simp add: ipa_path_def)
  show ?thesis
  proof (cases "same_page y ipa")
    case True
    thus ?thesis using t3 w by (simp add: is_page_def same_page_def)
  next
    case False
    hence "entry_addr t (l3_idx y) \<noteq> entry_addr t3 (l3_idx ipa)" if "walk m r (ipa_path y) = Some t" for t
      using entry_upd_other [OF wf is_path_ipa(3) t3 idx_less(4) is_path_ipa(3) that idx_less(4)]
      by (auto simp: same_page_def)
    thus ?thesis using False w by (simp add: is_page_def split: option.split)
  qed
qed

text \<open>Mapping a page is the update of the view at that page, and it fails without effect on the view.\<close>

lemma map_page_spec:
  assumes ok: "s2_ok U T r h" and mp: "map_page r ipa s2ap sw h = (res, h')"
  obtains T' where "s2_grows U T r h T' h'" "\<And>x. is_page (h_mem h) r x \<Longrightarrow> is_page (h_mem h') r x"
    "res = Inr () \<Longrightarrow> is_page (h_mem h') r ipa \<and> s2_desc (h_mem h) r ipa = None \<and>
      (\<forall>ipa'. s2_desc (h_mem h') r ipa' =
        (if same_page ipa' ipa then Some (page_entry ipa s2ap sw) else s2_desc (h_mem h) r ipa'))"
    "\<And>e. res = Inl e \<Longrightarrow> \<forall>ipa'. s2_desc (h_mem h') r ipa' = s2_desc (h_mem h) r ipa'"
proof -
  obtain r1 h1 where l3: "map_page_l3 r ipa h = (r1, h1)" by fastforce
  obtain T1 where T1: "s2_grows U T r h T1 h1" "\<And>ipa. s2_desc (h_mem h1) r ipa = s2_desc (h_mem h) r ipa"
    "\<And>x. is_page (h_mem h) r x \<Longrightarrow> is_page (h_mem h1) r x"
    "\<And>t3. r1 = Inr t3 \<Longrightarrow> walk (h_mem h1) r (ipa_path ipa) = Some t3"
    by (rule map_page_l3_spec [OF ok l3]) metis
  consider (fail) e where "res = Inl e" "h' = h1"
    | (map) t3 where "r1 = Inr t3" "\<not> pte_is_valid (h_mem h1 (entry_addr t3 (l3_idx ipa)))" "res = Inr ()"
      "h' = h1\<lparr>h_mem := (h_mem h1)(entry_addr t3 (l3_idx ipa) := page_entry ipa s2ap sw)\<rparr>"
    using mp l3 by (cases r1) (auto simp: map_page_def pte_conds Let_def split: if_splits)
  thus ?thesis
  proof cases
    case fail
    with that [OF T1(1) [folded fail(2)]] T1(2,3) show ?thesis by simp
  next
    case map
    note w3 = T1(4) [OF map(1)]
    have ok1: "s2_ok (U \<union> T1) T1 r h1" using s2_growsD [OF T1(1)] .
    hence wf: "wf_tables T1 (h_mem h1) r" by (simp add: s2_ok_def)
    have g: "s2_grows U T r h T1 h'"
      unfolding map(4) by (rule s2_grows_trans [OF T1(1) s2_leaf_grows [OF ok1 w3]])
    obtain t1 t2 where "walk (h_mem h1) r [l0_idx ipa] = Some t1"
      "walk (h_mem h1) r [l0_idx ipa, l1_idx ipa] = Some t2" using walk_prefix [OF w3] .
    hence "s2_desc (h_mem h1) r ipa = None" using w3 map(2) by (simp add: s2_desc_walk valid_desc_def)
    with that [OF g] map T1(2,3) s2_desc_leaf [OF wf w3] is_page_leaf [OF wf w3]
    show ?thesis by (simp add: valid_desc_def page_entry_valid same_page_def)
  qed
qed

lemma walk_to_l3_ptr_walk:
  "walk_to_l3_ptr m r ipa =
    (case walk m r (ipa_path ipa) of
       None \<Rightarrow> None
     | Some t3 \<Rightarrow> if pte_is_valid (m (entry_addr t3 (l3_idx ipa)))
                  then Some (entry_addr t3 (l3_idx ipa)) else None)"
  by (simp add: walk_to_l3_ptr_def pte_conds ipa_path_def walk_Cons follow_def Let_def)

text \<open>Unmapping a 4KB page removes it from the view; any other IPA is refused.\<close>

lemma unmap_page_spec:
  assumes ok: "s2_ok U T r h" and um: "unmap_page r ipa h = (res, h')"
  shows "s2_grows U T r h T h'"
    "res = Inr () \<Longrightarrow> s2_desc (h_mem h) r ipa \<noteq> None \<and> (\<forall>ipa'. s2_desc (h_mem h') r ipa' =
      (if same_page ipa' ipa then None else s2_desc (h_mem h) r ipa'))"
    "res = Inl e \<Longrightarrow> h' = h"
proof -
  show "res = Inl e \<Longrightarrow> h' = h"
    using um by (auto simp: unmap_page_def split: option.splits)
  have wf: "wf_tables T (h_mem h) r" using ok by (simp add: s2_ok_def)
  have c: "h' = h \<and> res \<noteq> Inr () \<or> (\<exists>t3. walk (h_mem h) r (ipa_path ipa) = Some t3 \<and>
      pte_is_valid (h_mem h (entry_addr t3 (l3_idx ipa))) \<and>
      h' = h\<lparr>h_mem := (h_mem h)(entry_addr t3 (l3_idx ipa) := 0)\<rparr>)"
    using um by (auto simp: unmap_page_def walk_to_l3_ptr_walk split: option.splits if_splits)
  thus "s2_grows U T r h T h'" using s2_grows_refl [OF ok] s2_leaf_grows [OF ok] by blast
  assume "res = Inr ()"
  with c obtain t3 where t3: "walk (h_mem h) r (ipa_path ipa) = Some t3"
      "pte_is_valid (h_mem h (entry_addr t3 (l3_idx ipa)))"
      "h' = h\<lparr>h_mem := (h_mem h)(entry_addr t3 (l3_idx ipa) := 0)\<rparr>" by blast
  obtain t1 t2 where "walk (h_mem h) r [l0_idx ipa] = Some t1"
    "walk (h_mem h) r [l0_idx ipa, l1_idx ipa] = Some t2" using walk_prefix [OF t3(1)] .
  with t3 have "s2_desc (h_mem h) r ipa \<noteq> None" by (simp add: s2_desc_walk valid_desc_def)
  thus "s2_desc (h_mem h) r ipa \<noteq> None \<and> (\<forall>ipa'. s2_desc (h_mem h') r ipa' =
      (if same_page ipa' ipa then None else s2_desc (h_mem h) r ipa'))"
    using s2_desc_leaf [OF wf t3(1)] t3(3) by (simp add: valid_desc_def)
qed

text \<open>Where the walk for an IPA ends.\<close>

lemma split_cases:
  assumes "split_block_if_needed r ipa h = (res, h')"
  obtains (skip) "h' = h" "res = Inr ()"
      "\<And>t2. walk (h_mem h) r [l0_idx ipa, l1_idx ipa] = Some t2 \<Longrightarrow>
        pte_is_valid (h_mem h (entry_addr t2 (l2_idx ipa))) \<Longrightarrow>
        pte_is_table (h_mem h (entry_addr t2 (l2_idx ipa)))"
  | (split) t2 where "walk (h_mem h) r [l0_idx ipa, l1_idx ipa] = Some t2"
      "pte_is_valid (h_mem h (entry_addr t2 (l2_idx ipa)))"
      "\<not> pte_is_table (h_mem h (entry_addr t2 (l2_idx ipa)))"
      "split_2mb_block_at_l2 (entry_addr t2 (l2_idx ipa)) (h_mem h (entry_addr t2 (l2_idx ipa))) h = (res, h')"
proof (cases "walk (h_mem h) r [l0_idx ipa, l1_idx ipa]")
  case None
  hence "h' = h \<and> res = Inr ()"
    using assms by (auto simp: split_block_if_needed_def pte_conds walk_Cons follow_def Let_def
        pte_table_cond split: if_splits)
  with None skip show ?thesis by simp
next
  case (Some t2)
  hence s: "split_block_if_needed r ipa h =
    (let e = h_mem h (entry_addr t2 (l2_idx ipa)) in
     if pte_is_valid e \<and> \<not> pte_is_table e then split_2mb_block_at_l2 (entry_addr t2 (l2_idx ipa)) e h
     else (Inr (), h))"
    by (auto simp: split_block_if_needed_def pte_conds walk_Cons follow_def Let_def pte_table_valid
        pte_table_cond split: if_splits)
  show ?thesis
  proof (cases "pte_is_valid (h_mem h (entry_addr t2 (l2_idx ipa))) \<and>
      \<not> pte_is_table (h_mem h (entry_addr t2 (l2_idx ipa)))")
    case True
    with s assms Some split show ?thesis by (simp add: Let_def)
  next
    case False
    with s assms Some skip show ?thesis by (auto simp: Let_def)
  qed
qed

text \<open>Splitting a 2MB block keeps the whole view, whether or not the allocation succeeds, and leaves
  no block at the IPA when it succeeds.\<close>

lemma split_block_spec:
  assumes ok: "s2_ok U T r h" and sp: "split_block_if_needed r ipa h = (res, h')"
  obtains T' where "s2_grows U T r h T' h'" "\<And>ipa'. s2_desc (h_mem h') r ipa' = s2_desc (h_mem h) r ipa'"
    "\<And>x. is_page (h_mem h) r x \<Longrightarrow> is_page (h_mem h') r x"
    "\<And>t2. \<lbrakk>res = Inr (); walk (h_mem h') r [l0_idx ipa, l1_idx ipa] = Some t2;
      pte_is_valid (h_mem h' (entry_addr t2 (l2_idx ipa)))\<rbrakk> \<Longrightarrow>
      pte_is_table (h_mem h' (entry_addr t2 (l2_idx ipa)))"
  using sp
proof (cases rule: split_cases)
  case skip
  with that [of T] s2_grows_refl [OF ok] show ?thesis by simp
next
  case (split t2)
  let ?a = "entry_addr t2 (l2_idx ipa)" and ?e = "h_mem h (entry_addr t2 (l2_idx ipa))"
  show ?thesis
  proof (cases "alloc_page h")
    case (Pair o1 h1)
    show ?thesis
    proof (cases o1)
      case None
      with Pair split alloc_page_None have "h' = h" "res \<noteq> Inr ()"
        by (auto simp: split_2mb_block_at_l2_def)
      with that [of T] s2_grows_refl [OF ok] show ?thesis by simp
    next
      case (Some n)
      define m where "m = (fill_table n (block_page ?e) (zero_page n (h_mem h1)))
        (?a := n OR PTE_VALID OR PTE_TABLE)"
      have r: "h' = h1\<lparr>h_mem := m\<rparr>"
        using Pair Some split by (auto simp: split_2mb_block_at_l2_def Let_def m_def)
      have "page_aligned n"
        using alloc_page_spec(2) Pair Some ok unfolding s2_ok_def by blast
      hence z: "zero_page n (h_mem h1) x = h_mem h1 x" if "page_of x \<noteq> n" for x
        using that by (simp add: zero_page_apply)
      note L = s2_link_split [OF ok Pair [unfolded Some] is_path_ipa(2) split(1) _ idx_less(3) split(2,3) refl z m_def]
      have w: "walk m r (ipa_path ipa) = Some n" using L(3) by (simp add: ipa_path_def)
      show ?thesis
      proof (rule that [of "insert n T"])
        fix t assume "walk (h_mem h') r [l0_idx ipa, l1_idx ipa] = Some t"
        with w r show "pte_is_table (h_mem h' (entry_addr t (l2_idx ipa)))"
          by (auto simp: ipa_path_def walk_Cons follow_def Let_def bind_eq_Some_conv split: if_splits)
      qed (use L r in simp_all)
    qed
  qed
qed

lemma is_page_desc:
  assumes "walk m r (ipa_path ipa) = Some t3"
  shows "s2_desc m r ipa = valid_desc (m (entry_addr t3 (l3_idx ipa)))"
proof -
  obtain t1 t2 where "walk m r [l0_idx ipa] = Some t1" "walk m r [l0_idx ipa, l1_idx ipa] = Some t2"
    using walk_prefix [OF assms] .
  thus ?thesis using assms by (simp add: s2_desc_walk)
qed

lemma walk_to_leaf_ptr_walk:
  assumes "no_gblocks m r"
  shows "walk_to_leaf_ptr m r ipa =
    (case walk m r [l0_idx ipa, l1_idx ipa] of
       None \<Rightarrow> None
     | Some t2 \<Rightarrow>
         (case walk m r (ipa_path ipa) of
            None \<Rightarrow> if pte_is_valid (m (entry_addr t2 (l2_idx ipa)))
                    then Some (entry_addr t2 (l2_idx ipa)) else None
          | Some t3 \<Rightarrow> if pte_is_valid (m (entry_addr t3 (l3_idx ipa)))
                        then Some (entry_addr t3 (l3_idx ipa)) else None))"
proof (cases "walk m r [l0_idx ipa]")
  case None
  thus ?thesis
    by (auto simp: walk_to_leaf_ptr_def pte_conds walk_Cons follow_def Let_def split: if_splits)
next
  case (Some t1)
  let ?e1 = "m (entry_addr t1 (l1_idx ipa))"
  have "pte_is_valid ?e1 \<Longrightarrow> pte_is_table ?e1"
    using assms Some idx_less unfolding no_gblocks_def by blast
  moreover have t1: "pte_is_table (m (entry_addr r (l0_idx ipa)))"
    "t1 = pte_addr (m (entry_addr r (l0_idx ipa)))"
    using Some by (auto simp: walk_Cons follow_def Let_def split: if_splits)
  ultimately show ?thesis
    by (auto simp: walk_to_leaf_ptr_def pte_conds pte_table_cond pte_table_valid ipa_path_def
        walk_Cons follow_def Let_def)
qed

lemma no_gblocks_l1:
  assumes "no_gblocks m r" "walk m r [l0_idx ipa] = Some t1" "walk m r [l0_idx ipa, l1_idx ipa] = None"
  shows "\<not> pte_is_valid (m (entry_addr t1 (l1_idx ipa)))"
proof
  assume "pte_is_valid (m (entry_addr t1 (l1_idx ipa)))"
  hence "pte_is_table (m (entry_addr t1 (l1_idx ipa)))"
    using assms(1,2) idx_less unfolding no_gblocks_def by blast
  with assms(2,3) show False by (auto simp: walk_Cons follow_def Let_def split: if_splits)
qed

text \<open>Rewriting the leaf of an IPA: one page of the view changes, or nothing does.\<close>

lemma update_leaf_spec:
  assumes ok: "s2_ok U T r h" and up: "update_leaf f r ipa h = (res, h')"
    and f: "\<And>e. pte_is_valid (f e) = pte_is_valid e"
  obtains T' where "s2_grows U T r h T' h'" "\<And>x. is_page (h_mem h) r x \<Longrightarrow> is_page (h_mem h') r x"
    "res = Inr () \<Longrightarrow> is_page (h_mem h') r ipa \<and> (\<exists>d. s2_desc (h_mem h) r ipa = Some d \<and>
      (\<forall>ipa'. s2_desc (h_mem h') r ipa' =
        (if same_page ipa' ipa then Some (f d) else s2_desc (h_mem h) r ipa')))"
    "\<And>e. res = Inl e \<Longrightarrow> \<forall>ipa'. s2_desc (h_mem h') r ipa' = s2_desc (h_mem h) r ipa'"
proof -
  obtain r1 h1 where sp: "split_block_if_needed r ipa h = (r1, h1)" by fastforce
  obtain T1 where T1: "s2_grows U T r h T1 h1" "\<And>ipa'. s2_desc (h_mem h1) r ipa' = s2_desc (h_mem h) r ipa'"
    and pg1: "\<And>x. is_page (h_mem h) r x \<Longrightarrow> is_page (h_mem h1) r x"
    and nb: "\<And>t2. \<lbrakk>r1 = Inr (); walk (h_mem h1) r [l0_idx ipa, l1_idx ipa] = Some t2;
      pte_is_valid (h_mem h1 (entry_addr t2 (l2_idx ipa)))\<rbrakk> \<Longrightarrow>
      pte_is_table (h_mem h1 (entry_addr t2 (l2_idx ipa)))"
    using split_block_spec [OF ok sp] by blast
  have ok1: "s2_ok (U \<union> T1) T1 r h1" using s2_growsD [OF T1(1)] .
  have ng: "no_gblocks (h_mem h1) r" and wf: "wf_tables T1 (h_mem h1) r"
    using ok1 by (simp_all add: s2_ok_def)
  show ?thesis
  proof (cases "walk_to_leaf_ptr (h_mem h1) r ipa")
    case None
    hence "h' = h1" "res \<noteq> Inr ()" using up sp by (auto simp: update_leaf_def split: sum.splits)
    with that [OF T1(1) [folded \<open>h' = h1\<close>]] T1(2) pg1 show ?thesis by simp
  next
    case (Some a)
    show ?thesis
    proof (cases r1)
      case (Inl e)
      hence "h' = h1" "res \<noteq> Inr ()" using up sp by (auto simp: update_leaf_def)
      with that [OF T1(1) [folded \<open>h' = h1\<close>]] T1(2) pg1 show ?thesis by simp
    next
      case (Inr u)
      have r: "res = Inr ()" "h' = h1\<lparr>h_mem := (h_mem h1)(a := f (h_mem h1 a))\<rparr>"
        using up sp Inr Some by (auto simp: update_leaf_def)
      obtain t3 where t3: "walk (h_mem h1) r (ipa_path ipa) = Some t3" "a = entry_addr t3 (l3_idx ipa)"
        "pte_is_valid (h_mem h1 a)"
      proof -
        from Some walk_to_leaf_ptr_walk [OF ng] obtain t2 where
          t2: "walk (h_mem h1) r [l0_idx ipa, l1_idx ipa] = Some t2" by (fastforce split: option.splits)
        have "walk (h_mem h1) r (ipa_path ipa) \<noteq> None"
        proof
          assume n: "walk (h_mem h1) r (ipa_path ipa) = None"
          with Some walk_to_leaf_ptr_walk [OF ng] t2 have "pte_is_valid (h_mem h1 (entry_addr t2 (l2_idx ipa)))"
            by (auto split: if_splits)
          with nb Inr t2 n show False
            by (auto simp: ipa_path_def walk_Cons follow_def Let_def bind_eq_Some_conv split: if_splits)
        qed
        with Some walk_to_leaf_ptr_walk [OF ng] t2 that show thesis by (auto split: if_splits)
      qed
      have d: "s2_desc (h_mem h1) r ipa = Some (h_mem h1 a)"
        using is_page_desc [OF t3(1)] t3 by (simp add: valid_desc_def)
      have g: "s2_grows U T r h T1 h'"
        unfolding r t3(2) by (rule s2_grows_trans [OF T1(1) s2_leaf_grows [OF ok1 t3(1)]])
      have w: "walk (h_mem h') r (ipa_path x) = walk (h_mem h1) r (ipa_path x)" for x
        using walk_write [OF wf is_path_ipa(3) t3(1) idx_less(4) _ is_path_ipa(3)] t3 r
        by (simp add: ipa_path_def)
      hence "is_page (h_mem h') r ipa" using t3 r f by (simp add: is_page_def)
      moreover have "is_page (h_mem h') r x" if "is_page (h_mem h) r x" for x
      proof -
        have "pte_is_valid (h_mem h' y) = pte_is_valid (h_mem h1 y)" for y by (simp add: r(2) f)
        thus ?thesis using pg1 [OF that] unfolding is_page_def w
          by (cases "walk (h_mem h1) r (ipa_path x)") simp_all
      qed
      ultimately show ?thesis
        using that [OF g] r d T1(2) t3 f s2_desc_leaf [OF wf t3(1)] by (simp add: valid_desc_def)
    qed
  qed
qed

section \<open>Software bits and access permissions in the view\<close>

lemma u8_eq_iff: "x = y \<longleftrightarrow> (\<forall>n<8. bit x n \<longleftrightarrow> bit y n)" for x y :: u8
  by (auto intro: bit_word_eqI)

lemma bit_three: "bit (3 :: 'a::len word) n \<longleftrightarrow> n < 2 \<and> n < LENGTH('a)"
proof -
  have e: "(3 :: 'a word) = mask 2" by (simp add: mask_eq_exp_minus_1)
  show ?thesis unfolding e bit_mask_iff by auto
qed

lemma bit_sw_bits: "bit (sw_bits_of d) n \<longleftrightarrow> n < 2 \<and> bit d (55 + n)"
  unfolding sw_bits_of_def PTE_SW_SHIFT_def bit_unsigned_iff bit_and_iff bit_drop_bit_eq bit_three
  by auto

lemma bit_s2ap: "bit (s2ap_of d) n \<longleftrightarrow> n < 2 \<and> bit d (6 + n)"
  unfolding s2ap_of_def S2AP_SHIFT_def bit_unsigned_iff bit_and_iff bit_drop_bit_eq bit_three
  by auto

lemma bit_with_sw:
  "n < 64 \<Longrightarrow> bit (with_sw_bits b d) n \<longleftrightarrow> (if n = 55 \<or> n = 56 then bit b (n - 55) else bit d n)"
  unfolding with_sw_bits_def PTE_SW_SHIFT_def bit_or_iff bit_and_iff bit_not_iff bit_push_bit_iff
    bit_unsigned_iff bit_three bit_pte_consts by auto

lemma bit_with_s2ap:
  "n < 64 \<Longrightarrow> bit (with_s2ap b d) n \<longleftrightarrow> (if n = 6 \<or> n = 7 then bit b (n - 6) else bit d n)"
  unfolding with_s2ap_def S2AP_SHIFT_def bit_or_iff bit_and_iff bit_not_iff bit_push_bit_iff
    bit_unsigned_iff bit_three bit_pte_consts by auto

lemma with_bits_get [simp]:
  "sw_bits_of (with_sw_bits b d) = b AND 3" "s2ap_of (with_s2ap b d) = b AND 3"
  "s2ap_of (with_sw_bits b d) = s2ap_of d" "sw_bits_of (with_s2ap b d) = sw_bits_of d"
  unfolding u8_eq_iff bit_and_iff bit_three
  by (auto simp: bit_sw_bits bit_s2ap bit_with_sw bit_with_s2ap)

text \<open>The base of the block and the index within it do not overlap.\<close>

lemma idx_high_bit: "i < 512 \<Longrightarrow> 9 \<le> n \<Longrightarrow> \<not> bit i n" for i :: u64
proof -
  assume "i < 512" "9 \<le> n"
  moreover from this have "take_bit 9 i = i"
    by (simp add: word_unat_eq_iff unat_take_bit word_less_nat_alt)
  ultimately show "\<not> bit i n" by (metis bit_take_bit_iff not_le)
qed

lemma block_pa_sum:
  assumes "i < 512"
  shows "(e AND NOT BLOCK_MASK_2MB) + i * PAGE_SIZE_4KB = (e AND NOT BLOCK_MASK_2MB) OR push_bit 12 i"
proof -
  have "i * PAGE_SIZE_4KB = push_bit 12 i" by (simp add: PAGE_SIZE_4KB_def push_bit_eq_mult)
  moreover have "(e AND NOT BLOCK_MASK_2MB) AND push_bit 12 i = 0"
    using idx_high_bit [OF assms] by (auto simp: u64_eq_iff bit_and_iff bit_not_iff bit_push_bit_iff bit_pte_consts)
  ultimately show ?thesis by (simp add: disjunctive_add_eq_or)
qed

lemma bit_block_page:
  assumes "i < 512" "n < 64"
  shows "bit (block_page e i) n \<longleftrightarrow> n < 2 \<or> bit e n \<or> 12 \<le> n \<and> bit i (n - 12)"
  using assms(2) unfolding block_page_def Let_def block_pa_sum [OF assms(1)] bit_or_iff bit_and_iff
    bit_not_iff bit_push_bit_iff bit_three bit_pte_consts by auto

lemma block_page_attrs:
  assumes "i < 512"
  shows "sw_bits_of (block_page e i) = sw_bits_of e" "s2ap_of (block_page e i) = s2ap_of e"
  using idx_high_bit [OF assms]
  by (auto simp: u8_eq_iff bit_sw_bits bit_s2ap bit_block_page [OF assms])

text \<open>The readers of the walker read the view.\<close>

lemma walk_to_leaf_view:
  assumes "no_gblocks m r"
  shows "map_option sw_bits_of (walk_to_leaf m r ipa) = map_option sw_bits_of (s2_desc m r ipa)"
    "map_option s2ap_of (walk_to_leaf m r ipa) = map_option s2ap_of (s2_desc m r ipa)"
proof -
  have n: "walk m r [l0_idx ipa] = Some t1 \<Longrightarrow> walk m r [l0_idx ipa, l1_idx ipa] = None \<Longrightarrow>
      valid_desc (m (entry_addr t1 (l1_idx ipa))) = None" for t1
    using no_gblocks_l1 [OF assms] by (simp add: valid_desc_def)
  have z: "walk m r [l0_idx ipa] = None \<Longrightarrow> walk m r [l0_idx ipa, l1_idx ipa] = None"
    by (auto simp: walk_Cons bind_eq_None_conv)
  show "map_option sw_bits_of (walk_to_leaf m r ipa) = map_option sw_bits_of (s2_desc m r ipa)"
    "map_option s2ap_of (walk_to_leaf m r ipa) = map_option s2ap_of (s2_desc m r ipa)"
    using n z by (auto simp: walk_to_leaf_def walk_to_leaf_ptr_walk [OF assms] s2_desc_walk
        valid_desc_def block_page_attrs idx_less split: option.splits)
qed

lemma read_sw_bits_view: "s2_ok U T r h \<Longrightarrow>
    read_sw_bits (h_mem h) r ipa = map_option sw_bits_of (s2_desc (h_mem h) r ipa)"
  by (simp add: read_sw_bits_def walk_to_leaf_view s2_ok_def)

lemma read_s2ap_view: "s2_ok U T r h \<Longrightarrow>
    read_s2ap (h_mem h) r ipa = map_option s2ap_of (s2_desc (h_mem h) r ipa)"
  by (simp add: read_s2ap_def walk_to_leaf_view s2_ok_def)

end
