(* ===== verification/Stage2_Vms.thy ===== *)
theory Stage2_Vms
  imports Stage2_Walker
begin

text \<open>The Stage-2 tables of several VMs on one heap, and the interface through which the FF-A proxy
  changes page attributes.

  \<open>vms_ok rs h\<close> says that the trees under the roots \<open>rs\<close> are well formed on disjoint sets of pages.
  Every operation of the walker on one root keeps it and does not touch the view of another root.
  The locale \<open>page_writer\<close> is the contract of an operation that rewrites the descriptor of one page
  and the locale \<open>page_transition\<close> proves what a loop over a list of pages with two such operations
  does; both are interpreted on the walker's \<open>write_sw_bits\<close> and \<open>set_s2ap\<close>.\<close>

definition vms_ok :: "u64 set \<Rightarrow> heap \<Rightarrow> bool" where
  "vms_ok rs h \<longleftrightarrow> (\<exists>U T. (\<forall>r\<in>rs. s2_ok U (T r) r h) \<and>
     (\<forall>r\<in>rs. \<forall>r'\<in>rs. r \<noteq> r' \<longrightarrow> T r \<inter> T r' = {}))"

text \<open>What one VM's operation leaves alone: the views of the other VMs.\<close>

definition others_kept :: "u64 set \<Rightarrow> u64 \<Rightarrow> heap \<Rightarrow> heap \<Rightarrow> bool" where
  "others_kept rs r h h' \<longleftrightarrow> (\<forall>r'\<in>rs - {r}. \<forall>x. s2_desc (h_mem h') r' x = s2_desc (h_mem h) r' x \<and>
     is_page (h_mem h') r' x = is_page (h_mem h) r' x)"

lemma others_kept_refl: "others_kept rs r h h"
  by (simp add: others_kept_def)

lemma others_kept_trans: "others_kept rs r h h1 \<Longrightarrow> others_kept rs r h1 h2 \<Longrightarrow> others_kept rs r h h2"
  by (simp add: others_kept_def)

text \<open>A tree only depends on the contents of its pages.\<close>

lemma walk_same:
  assumes "wf_tables T m r" "\<And>x. page_of x \<in> T \<Longrightarrow> m' x = m x" "is_path q"
  shows "walk m' r q = walk m r q"
  using assms(3)
proof (induction q rule: rev_induct)
  case (snoc j q)
  hence IH: "walk m' r q = walk m r q" and q: "is_path q" "j < 512" by auto
  have "m' (entry_addr t j) = m (entry_addr t j)" if "walk m r q = Some t" for t
    using that q assms(2) wf_tablesD(1,3) [OF assms(1)] walk_aligned page_of_entry by metis
  with IH show ?case by (cases "walk m r q") (simp_all add: walk_snoc follow_def)
qed simp

lemma tree_same:
  assumes wf: "wf_tables T m r" and m: "\<And>x. page_of x \<in> T \<Longrightarrow> m' x = m x"
  shows "wf_tables T m' r" "s2_desc m' r x = s2_desc m r x" "is_page m' r x = is_page m r x"
    "no_gblocks m r \<Longrightarrow> no_gblocks m' r"
proof -
  have w: "walk m' r q = walk m r q" if "is_path q" for q
    using wf m that by (rule walk_same)
  have e: "m' (entry_addr t j) = m (entry_addr t j)" if "is_path q" "walk m r q = Some t" "j < 512" for q t j
    using that m wf_tablesD(1,3) [OF wf] walk_aligned page_of_entry by metis
  show "wf_tables T m' r" using wf_tables_same [OF wf w] by blast
  show "s2_desc m' r x = s2_desc m r x"
    by (rule s2_desc_cong) (use w e is_path_ipa idx_less in blast)+
  show "is_page m' r x = is_page m r x"
    using e [OF is_path_ipa(3) _ idx_less(4)] by (simp add: is_page_def w is_path_ipa split: option.split)
  show "no_gblocks m' r" if "no_gblocks m r"
  proof (rule no_gblocks_upd [OF that])
    show "walk m' r [i0] = walk m r [i0]" if "i0 < 512" for i0
      using that w by (simp add: is_path_def)
    show "m' (entry_addr t i1) = m (entry_addr t i1) \<or> pte_is_table (m' (entry_addr t i1))"
      if "i0 < 512" "i1 < 512" "walk m r [i0] = Some t" for i0 i1 t
      using e [of "[i0]" t i1] that by (simp add: is_path_def)
  qed
qed

lemma vms_step:
  assumes ok: "vms_ok rs h" and r: "r \<in> rs"
    and step: "\<And>U T. s2_ok U T r h \<Longrightarrow> \<exists>T'. s2_grows U T r h T' h'"
  shows "vms_ok rs h'" "others_kept rs r h h'"
proof -
  from ok obtain U T where s: "\<And>q. q \<in> rs \<Longrightarrow> s2_ok U (T q) q h"
    and dj: "\<And>q q'. \<lbrakk>q \<in> rs; q' \<in> rs; q \<noteq> q'\<rbrakk> \<Longrightarrow> T q \<inter> T q' = {}"
    unfolding vms_ok_def by blast
  from step [OF s [OF r]] obtain T' where g: "s2_grows U (T r) r h T' h'" by blast
  hence h': "heap_ok (U \<union> T') h'" "s2_ok (U \<union> T') T' r h'" by (simp_all add: s2_grows_def s2_ok_def)
  have fr: "T q \<inter> T' = {}" "h_mem h' x = h_mem h x"
    if "q \<in> rs" "q \<noteq> r" "page_of x \<in> T q" for q x
  proof -
    have "T q \<subseteq> U" "T q \<inter> T r = {}" using s dj r that by (auto simp: s2_ok_def)
    thus "T q \<inter> T' = {}" using g by (auto simp: s2_grows_def)
    with that(3) g show "h_mem h' x = h_mem h x" by (auto simp: s2_grows_def)
  qed
  have wf: "wf_tables (T q) (h_mem h) q" "no_gblocks (h_mem h) q" "T q \<subseteq> U" if "q \<in> rs" for q
    using s [OF that] by (simp_all add: s2_ok_def)
  show "others_kept rs r h h'"
    unfolding others_kept_def
  proof (intro ballI allI conjI)
    fix q x assume "q \<in> rs - {r}"
    hence q: "q \<in> rs" "q \<noteq> r" by auto
    show "s2_desc (h_mem h') q x = s2_desc (h_mem h) q x" "is_page (h_mem h') q x = is_page (h_mem h) q x"
      using tree_same(2,3) [OF wf(1) [OF q(1)] fr(2) [OF q]] by blast+
  qed
  have ok': "s2_ok (U \<union> T') ((T(r := T')) q) q h'" if q: "q \<in> rs" for q
  proof (cases "q = r")
    case False
    thus ?thesis
      using tree_same(1,4) [OF wf(1) [OF q] fr(2) [OF q False]] wf [OF q] h'(1) by (auto simp: s2_ok_def)
  qed (use h' in simp)
  have "T q \<inter> T' = {}" if "q \<in> rs" "q \<noteq> r" for q
  proof -
    have "T q \<subseteq> U" "T q \<inter> T r = {}" using s dj r that by (auto simp: s2_ok_def)
    thus ?thesis using g by (auto simp: s2_grows_def)
  qed
  hence "\<forall>q\<in>rs. \<forall>q'\<in>rs. q \<noteq> q' \<longrightarrow> (T(r := T')) q \<inter> (T(r := T')) q' = {}"
    using dj by auto
  with ok' show "vms_ok rs h'" unfolding vms_ok_def by blast
qed

section \<open>Mapping a list of pages with rollback\<close>

text \<open>The loop of the proxy's retrieve handler over the pages of a share: \<open>prev\<close> are the pages mapped
  so far; when a page cannot be mapped they are unmapped again, errors ignored.\<close>

fun map_all :: "(u64 \<Rightarrow> 'h \<Rightarrow> (string + unit) \<times> 'h) \<Rightarrow> (u64 \<Rightarrow> 'h \<Rightarrow> (string + unit) \<times> 'h) \<Rightarrow>
    u64 list \<Rightarrow> u64 list \<Rightarrow> 'h \<Rightarrow> bool \<times> 'h" where
  "map_all mp um prev [] h = (True, h)"
| "map_all mp um prev (x # xs) h =
    (case mp x h of
       (Inr _, h) \<Rightarrow> map_all mp um (prev @ [x]) xs h
     | (Inl _, h) \<Rightarrow> (False, fold (\<lambda>y h. snd (um y h)) prev h))"

fun distinct_pages :: "u64 list \<Rightarrow> bool" where
  "distinct_pages [] \<longleftrightarrow> True"
| "distinct_pages (x # xs) \<longleftrightarrow> (\<forall>y\<in>set xs. \<not> same_page y x) \<and> distinct_pages xs"

lemma same_page_sym: "same_page x y \<longleftrightarrow> same_page y x"
  by (auto simp: same_page_def)

lemma same_page_refl [simp]: "same_page x x"
  by (simp add: same_page_def)

lemma same_page_trans: "same_page x y \<Longrightarrow> same_page y z \<Longrightarrow> same_page x z"
  by (simp add: same_page_def)

lemma distinct_pages_snoc:
  "distinct_pages (xs @ [x]) \<longleftrightarrow> (\<forall>y\<in>set xs. \<not> same_page y x) \<and> distinct_pages xs"
  by (induction xs) (auto simp: same_page_sym)

locale page_mapper =
  fixes ok :: "'h \<Rightarrow> bool"
    and view :: "'h \<Rightarrow> u64 \<Rightarrow> u64 option"
    and ispg :: "'h \<Rightarrow> u64 \<Rightarrow> bool"
    and kept :: "'h \<Rightarrow> 'h \<Rightarrow> bool"
    and mp um :: "u64 \<Rightarrow> 'h \<Rightarrow> (string + unit) \<times> 'h"
    and ent :: "u64 \<Rightarrow> u64"
  assumes mp_ok: "ok h \<Longrightarrow> ok (snd (mp x h))" and um_ok: "ok h \<Longrightarrow> ok (snd (um x h))"
    and mp_kept: "ok h \<Longrightarrow> kept h (snd (mp x h))" and um_kept: "ok h \<Longrightarrow> kept h (snd (um x h))"
    and mp_view: "\<lbrakk>ok h; fst (mp x h) = Inr ()\<rbrakk> \<Longrightarrow>
      view (snd (mp x h)) y = (if same_page y x then Some (ent x) else view h y)"
    and mp_free: "\<lbrakk>ok h; fst (mp x h) = Inr ()\<rbrakk> \<Longrightarrow> same_page y x \<Longrightarrow> view h y = None"
    and mp_err: "\<lbrakk>ok h; fst (mp x h) \<noteq> Inr ()\<rbrakk> \<Longrightarrow> view (snd (mp x h)) y = view h y"
    and mp_ispg: "\<lbrakk>ok h; fst (mp x h) = Inr ()\<rbrakk> \<Longrightarrow> ispg (snd (mp x h)) x"
    and mp_keeps: "\<lbrakk>ok h; ispg h y\<rbrakk> \<Longrightarrow> ispg (snd (mp x h)) y"
    and um_view: "\<lbrakk>ok h; ispg h x\<rbrakk> \<Longrightarrow>
      view (snd (um x h)) y = (if same_page y x then None else view h y)"
    and um_keeps: "\<lbrakk>ok h; ispg h y; \<not> same_page y x\<rbrakk> \<Longrightarrow> ispg (snd (um x h)) y"
    and ispg_view: "\<lbrakk>ok h; ispg h x\<rbrakk> \<Longrightarrow> view h x \<noteq> None"
    and view_page: "\<lbrakk>ok h; same_page x y\<rbrakk> \<Longrightarrow> view h x = view h y"
    and kept_id: "kept h h"
    and kept_comp: "kept h h1 \<Longrightarrow> kept h1 h2 \<Longrightarrow> kept h h2"
begin

text \<open>Unmapping distinct mapped pages removes exactly these.\<close>

lemma unmap_all:
  "\<lbrakk>ok h; distinct_pages xs; \<forall>x\<in>set xs. ispg h x\<rbrakk> \<Longrightarrow>
   ok (fold (\<lambda>y h. snd (um y h)) xs h) \<and> kept h (fold (\<lambda>y h. snd (um y h)) xs h) \<and>
   view (fold (\<lambda>y h. snd (um y h)) xs h) y = (if \<exists>x\<in>set xs. same_page y x then None else view h y)"
proof (induction xs arbitrary: h)
  case (Cons x xs)
  hence p: "ok (snd (um x h))" "distinct_pages xs" "\<forall>z\<in>set xs. ispg (snd (um x h)) z"
    by (auto simp: um_ok intro: um_keeps)
  with Cons.IH [OF p] Cons.prems um_kept [of h x] show ?case
    by (auto simp: um_view intro: kept_comp)
qed (simp add: kept_id)

lemma map_step:
  assumes a: "ok h" "distinct_pages prev" "\<forall>x\<in>set prev. ispg h x" and m: "mp x h = (Inr (), h1)"
  shows "ok h1" "kept h h1" "distinct_pages (prev @ [x])" "\<forall>z\<in>set (prev @ [x]). ispg h1 z"
    "view h1 y = (if same_page y x then Some (ent x) else view h y)" "same_page y x \<Longrightarrow> view h y = None"
proof -
  have f: "fst (mp x h) = Inr ()" using m by simp
  show "ok h1" "kept h h1" using mp_ok [OF a(1), of x] mp_kept [OF a(1), of x] m by simp_all
  have nx: "\<not> same_page z x" if "z \<in> set prev" for z
    using mp_free [OF a(1) f, of z] ispg_view [OF a(1)] a(3) that by metis
  thus "distinct_pages (prev @ [x])" using a by (simp add: distinct_pages_snoc)
  show "\<forall>z\<in>set (prev @ [x]). ispg h1 z"
    using mp_ispg [OF a(1) f] mp_keeps [OF a(1), of _ x] a(3) m by auto
  show "view h1 y = (if same_page y x then Some (ent x) else view h y)"
    using mp_view [OF a(1) f] m by simp
  show "same_page y x \<Longrightarrow> view h y = None" by (rule mp_free [OF a(1) f])
qed

lemma map_fail:
  assumes a: "ok h" "distinct_pages prev" "\<forall>x\<in>set prev. ispg h x" and m: "mp x h = (Inl e, h1)"
  defines "h' \<equiv> fold (\<lambda>y h. snd (um y h)) prev h1"
  shows "ok h' \<and> kept h h' \<and> view h' y = (if \<exists>x\<in>set prev. same_page y x then None else view h y)"
proof -
  have k: "ok h1" "kept h h1" using mp_ok [OF a(1), of x] mp_kept [OF a(1), of x] m by simp_all
  have "\<forall>x\<in>set prev. ispg h1 x" using mp_keeps [OF a(1), of _ x] a(3) m by auto
  note un = unmap_all [OF k(1) a(2) this, of y, folded h'_def]
  have "view h1 y = view h y" using mp_err [OF a(1), of x y] m by simp
  with un kept_comp [OF k(2)] show ?thesis by simp
qed

text \<open>All the pages are mapped, or the view is what it was.\<close>

lemma map_all_spec:
  "\<lbrakk>ok h; distinct_pages prev; \<forall>x\<in>set prev. ispg h x; map_all mp um prev xs h = (b, h')\<rbrakk> \<Longrightarrow>
   ok h' \<and> kept h h' \<and>
   (b \<longrightarrow> (\<forall>y. view h' y = (case find (same_page y) xs of Some x \<Rightarrow> Some (ent x) | None \<Rightarrow> view h y)) \<and>
      (\<forall>x\<in>set xs. view h x = None)) \<and>
   (\<not> b \<longrightarrow> (\<forall>y. view h' y = (if \<exists>x\<in>set prev. same_page y x then None else view h y)))"
proof (induction xs arbitrary: h prev)
  case (Cons x xs)
  obtain r1 h1 where m: "mp x h = (r1, h1)" by fastforce
  show ?case
  proof (cases r1)
    case (Inl e)
    with m Cons.prems(4) have "b = False" "h' = fold (\<lambda>y h. snd (um y h)) prev h1" by auto
    with map_fail [OF Cons.prems(1-3) m [unfolded Inl]] show ?thesis by simp
  next
    case (Inr u)
    have "mp x h = (Inr (), h1)" using m Inr by simp
    note st = map_step [OF Cons.prems(1-3) this]
    have "map_all mp um (prev @ [x]) xs h1 = (b, h')" using Cons.prems(4) m Inr by simp
    note IH = Cons.IH [OF st(1,3,4) this]
    have free: "\<not> same_page z x \<and> view h z = None" if "view h1 z = None" for z
      using that st(5) [of z] by (simp split: if_splits)
    show ?thesis
    proof (intro conjI impI allI ballI)
      show "ok h'" using IH by blast
      show "kept h h'" using IH st(2) kept_comp by blast
      show "view h z = None" if b "z \<in> set (x # xs)" for z
        using that IH free st(6) [OF same_page_refl] by auto
      show "view h' y = (if \<exists>x\<in>set prev. same_page y x then None else view h y)" if "\<not> b" for y
        using IH that st(5,6) [of y] by auto
      show "view h' y = (case find (same_page y) (x # xs) of Some x \<Rightarrow> Some (ent x) | None \<Rightarrow> view h y)"
        if b for y
      proof (cases "same_page y x")
        case True
        have "find (same_page y) xs = None"
          unfolding find_None_iff using IH that free True same_page_sym same_page_trans by metis
        with IH that True st(5) show ?thesis by simp
      next
        case False
        with IH that st(5) show ?thesis by (simp split: option.split)
      qed
    qed
  qed
qed (simp add: kept_id)

text \<open>The mapped pages are distinct, so they can be unmapped again.\<close>

lemma map_all_pages:
  "\<lbrakk>ok h; distinct_pages prev; \<forall>x\<in>set prev. ispg h x; map_all mp um prev xs h = (True, h')\<rbrakk> \<Longrightarrow>
   distinct_pages (prev @ xs) \<and> (\<forall>x\<in>set (prev @ xs). ispg h' x)"
proof (induction xs arbitrary: h prev)
  case (Cons x xs)
  obtain h1 where m: "mp x h = (Inr (), h1)" using Cons.prems(4) by (auto split: sum.splits prod.splits)
  note st = map_step [OF Cons.prems(1-3) m]
  have "map_all mp um (prev @ [x]) xs h1 = (True, h')" using Cons.prems(4) m by simp
  from Cons.IH [OF st(1,3,4) this] show ?case by simp
qed simp

lemma map_unmap_all:
  assumes "ok h" "map_all mp um [] xs h = (True, h')"
  shows "view (fold (\<lambda>y h. snd (um y h)) xs h') y = view h y"
proof -
  have p: "distinct_pages xs" "\<forall>x\<in>set xs. ispg h' x" using map_all_pages [of h "[]" xs h'] assms by simp_all
  have v: "ok h'" "view h' y = (case find (same_page y) xs of Some x \<Rightarrow> Some (ent x) | None \<Rightarrow> view h y)"
    "\<forall>x\<in>set xs. view h x = None"
    using map_all_spec [of h "[]" xs True h'] assms by auto
  have "view h y = None" if "\<exists>x\<in>set xs. same_page y x"
    using that v(3) view_page [OF assms(1)] by metis
  moreover have "find (same_page y) xs = None" if "\<not> (\<exists>x\<in>set xs. same_page y x)"
    using that by (simp add: find_None_iff)
  ultimately show ?thesis using unmap_all [OF v(1) p, of y] v(2) by auto
qed

end

section \<open>The interface of a page attribute\<close>

locale page_writer =
  fixes ok :: "'h \<Rightarrow> bool"
    and view :: "'h \<Rightarrow> u64 \<Rightarrow> u64 option"
    and ispg :: "'h \<Rightarrow> u64 \<Rightarrow> bool"
    and kept :: "'h \<Rightarrow> 'h \<Rightarrow> bool"
    and wr :: "u64 \<Rightarrow> u8 \<Rightarrow> 'h \<Rightarrow> (string + unit) \<times> 'h"
    and tr :: "u8 \<Rightarrow> u64 \<Rightarrow> u64"
  assumes wr_ok: "ok h \<Longrightarrow> ok (snd (wr x b h))"
    and wr_kept: "ok h \<Longrightarrow> kept h (snd (wr x b h))"
    and wr_view: "ok h \<Longrightarrow> fst (wr x b h) = Inr () \<Longrightarrow>
      view (snd (wr x b h)) y = (if same_page y x then map_option (tr b) (view h y) else view h y)"
    and wr_err: "ok h \<Longrightarrow> fst (wr x b h) \<noteq> Inr () \<Longrightarrow> view (snd (wr x b h)) y = view h y"
    and wr_page: "ok h \<Longrightarrow> ispg h x \<Longrightarrow> fst (wr x b h) = Inr ()"
    and wr_ispg: "ok h \<Longrightarrow> ispg h y \<Longrightarrow> ispg (snd (wr x b h)) y"
    and wr_split: "ok h \<Longrightarrow> fst (wr x b h) = Inr () \<Longrightarrow> ispg (snd (wr x b h)) x"
    and tr_idem: "tr b (tr b d) = tr b d"
begin

lemma wr_view_page:
  "ok h \<Longrightarrow> ispg h x \<Longrightarrow>
   view (snd (wr x b h)) y = (if same_page y x then map_option (tr b) (view h y) else view h y)"
  by (rule wr_view) (simp_all add: wr_page)

lemma wr_view_cases:
  "ok h \<Longrightarrow> view (snd (wr x b h)) y = view h y \<or>
   same_page y x \<and> view (snd (wr x b h)) y = map_option (tr b) (view h y)"
  by (cases "fst (wr x b h) = Inr ()") (auto simp: wr_view wr_err)

end

text \<open>Two attributes written on every page of a list, errors ignored, as the loops of the proxy do;
  \<open>writes_ok\<close> says that no error occurs on the way.\<close>

fun writes_ok :: "(u64 \<Rightarrow> u8 \<Rightarrow> 'h \<Rightarrow> (string + unit) \<times> 'h) \<Rightarrow> (u64 \<Rightarrow> u8 \<Rightarrow> 'h \<Rightarrow> (string + unit) \<times> 'h) \<Rightarrow>
    u8 \<Rightarrow> u8 \<Rightarrow> u64 list \<Rightarrow> 'h \<Rightarrow> bool" where
  "writes_ok wr1 wr2 a b [] h \<longleftrightarrow> True"
| "writes_ok wr1 wr2 a b (x # xs) h \<longleftrightarrow> fst (wr1 x a h) = Inr () \<and>
    writes_ok wr1 wr2 a b xs (snd (wr2 x b (snd (wr1 x a h))))"

locale page_transition =
  sw: page_writer ok view ispg kept wr1 tr1 + ap: page_writer ok view ispg kept wr2 tr2
  for ok :: "'h \<Rightarrow> bool" and view ispg kept wr1 tr1 wr2 tr2 +
  assumes tr_comm: "tr1 a (tr2 b d) = tr2 b (tr1 a d)"
    and kept_refl: "kept h h"
    and kept_trans: "kept h h1 \<Longrightarrow> kept h1 h2 \<Longrightarrow> kept h h2"
begin

lemma step_ok: "ok h \<Longrightarrow> ok (snd (wr2 x b (snd (wr1 x a h))))"
  by (simp add: sw.wr_ok ap.wr_ok)

lemma step_ispg: "ok h \<Longrightarrow> ispg h y \<Longrightarrow> ispg (snd (wr2 x b (snd (wr1 x a h)))) y"
  by (simp add: sw.wr_ok sw.wr_ispg ap.wr_ispg)

lemma step_view:
  assumes "ok h" "fst (wr1 x a h) = Inr ()"
  shows "view (snd (wr2 x b (snd (wr1 x a h)))) y =
    (if same_page y x then map_option (\<lambda>d. tr2 b (tr1 a d)) (view h y) else view h y)"
    "ispg (snd (wr2 x b (snd (wr1 x a h)))) x"
proof -
  have p: "ok (snd (wr1 x a h))" "ispg (snd (wr1 x a h)) x" using assms by (simp_all add: sw.wr_ok sw.wr_split)
  thus "view (snd (wr2 x b (snd (wr1 x a h)))) y =
      (if same_page y x then map_option (\<lambda>d. tr2 b (tr1 a d)) (view h y) else view h y)"
    using assms by (simp add: ap.wr_view_page sw.wr_view option.map_comp comp_def)
  show "ispg (snd (wr2 x b (snd (wr1 x a h)))) x" using p by (rule ap.wr_ispg)
qed

text \<open>Pages need no split, so nothing can fail on them.\<close>

lemma writes_ok_pages: "ok h \<Longrightarrow> \<forall>x\<in>set xs. ispg h x \<Longrightarrow> writes_ok wr1 wr2 a b xs h"
  by (induction xs arbitrary: h) (simp_all add: sw.wr_page step_ok step_ispg)

lemma trans_ispg: "ok h \<Longrightarrow> ispg h y \<Longrightarrow> ispg (fold (\<lambda>x h. snd (wr2 x b (snd (wr1 x a h)))) xs h) y"
  by (induction xs arbitrary: h) (simp_all add: step_ok step_ispg)

lemma trans_pages:
  "\<lbrakk>ok h; writes_ok wr1 wr2 a b xs h; x \<in> set xs\<rbrakk> \<Longrightarrow> ispg (fold (\<lambda>x h. snd (wr2 x b (snd (wr1 x a h)))) xs h) x"
  by (induction xs arbitrary: h) (auto simp: step_ok step_view(2) trans_ispg)

lemma trans_ok: "ok h \<Longrightarrow> ok (fold (\<lambda>x h. snd (wr2 x b (snd (wr1 x a h)))) xs h)"
  by (induction xs arbitrary: h) (simp_all add: step_ok)

lemma trans_kept: "ok h \<Longrightarrow> kept h (fold (\<lambda>x h. snd (wr2 x b (snd (wr1 x a h)))) xs h)"
proof (induction xs arbitrary: h)
  case (Cons x xs)
  have "kept h (snd (wr2 x b (snd (wr1 x a h))))"
    using Cons.prems by (meson kept_trans sw.wr_kept sw.wr_ok ap.wr_kept)
  with Cons.IH [OF step_ok [OF Cons.prems]] show ?case by (simp add: kept_trans)
qed (simp add: kept_refl)

lemma trans_view:
  "\<lbrakk>ok h; writes_ok wr1 wr2 a b xs h\<rbrakk> \<Longrightarrow>
   view (fold (\<lambda>x h. snd (wr2 x b (snd (wr1 x a h)))) xs h) y =
     (if \<exists>x\<in>set xs. same_page y x then map_option (\<lambda>d. tr2 b (tr1 a d)) (view h y) else view h y)"
proof (induction xs arbitrary: h)
  case (Cons x xs)
  have idem: "tr2 b (tr1 a (tr2 b (tr1 a d))) = tr2 b (tr1 a d)" for d
    by (simp add: tr_comm sw.tr_idem ap.tr_idem)
  have "writes_ok wr1 wr2 a b xs (snd (wr2 x b (snd (wr1 x a h))))" using Cons.prems by simp
  note IH = Cons.IH [OF step_ok [OF Cons.prems(1)] this]
  show ?case using Cons.prems
    by (simp add: IH step_view option.map_comp comp_def idem)
qed simp

text \<open>Without the assumption that the pages are 4KB pages: a page outside the list keeps its
  descriptor whatever fails.\<close>

lemma trans_view_other:
  "\<lbrakk>ok h; \<forall>x\<in>set xs. \<not> same_page y x\<rbrakk> \<Longrightarrow>
   view (fold (\<lambda>x h. snd (wr2 x b (snd (wr1 x a h)))) xs h) y = view h y"
proof (induction xs arbitrary: h)
  case (Cons x xs)
  have "view (snd (wr2 x b (snd (wr1 x a h)))) y = view h y"
    using Cons.prems sw.wr_view_cases [of h x a y] ap.wr_view_cases [OF sw.wr_ok [OF Cons.prems(1)], of x b x a y]
    by auto
  with Cons show ?case by (simp add: step_ok)
qed simp

end

section \<open>The walker provides the interface\<close>

lemma s2_desc_same_page:
  assumes "s2_ok U T r h" "same_page x y"
  shows "s2_desc (h_mem h) r x = s2_desc (h_mem h) r y"
proof -
  have "\<not> pte_is_valid (h_mem h (entry_addr t1 (l1_idx y)))"
    if "walk (h_mem h) r [l0_idx y] = Some t1" "walk (h_mem h) r [l0_idx y, l1_idx y] = None" for t1
    using no_gblocks_l1 that assms(1) by (auto simp: s2_ok_def)
  with assms(2) show ?thesis
    by (auto simp: s2_desc_walk same_page_def ipa_path_def valid_desc_def split: option.split)
qed

lemma update_leaf_vms:
  assumes ok: "vms_ok rs h" "r \<in> rs" and f: "\<And>e. pte_is_valid (f e) = pte_is_valid e"
  shows "vms_ok rs (snd (update_leaf f r x h))" "others_kept rs r h (snd (update_leaf f r x h))"
    "fst (update_leaf f r x h) = Inr () \<Longrightarrow>
      s2_desc (h_mem (snd (update_leaf f r x h))) r y =
        (if same_page y x then map_option f (s2_desc (h_mem h) r y) else s2_desc (h_mem h) r y) \<and>
      is_page (h_mem (snd (update_leaf f r x h))) r x"
    "fst (update_leaf f r x h) \<noteq> Inr () \<Longrightarrow>
      s2_desc (h_mem (snd (update_leaf f r x h))) r y = s2_desc (h_mem h) r y"
    "is_page (h_mem h) r y \<Longrightarrow> is_page (h_mem (snd (update_leaf f r x h))) r y"
proof -
  obtain res h' where u: "update_leaf f r x h = (res, h')" by fastforce
  have st: "\<exists>T'. s2_grows U T r h T' h'" if "s2_ok U T r h" for U T
    by (rule update_leaf_spec [OF that u f]) blast
  show "vms_ok rs (snd (update_leaf f r x h))" "others_kept rs r h (snd (update_leaf f r x h))"
    using vms_step [OF ok st] by (simp_all add: u)
  from ok obtain U T where s: "s2_ok U T r h" unfolding vms_ok_def by blast
  obtain T' where sp: "\<And>x. is_page (h_mem h) r x \<Longrightarrow> is_page (h_mem h') r x"
    "res = Inr () \<Longrightarrow> is_page (h_mem h') r x \<and> (\<exists>d. s2_desc (h_mem h) r x = Some d \<and>
      (\<forall>y. s2_desc (h_mem h') r y = (if same_page y x then Some (f d) else s2_desc (h_mem h) r y)))"
    "\<And>e. res = Inl e \<Longrightarrow> \<forall>y. s2_desc (h_mem h') r y = s2_desc (h_mem h) r y"
    by (rule update_leaf_spec [OF s u f]) metis
  have same: "s2_desc (h_mem h) r y = s2_desc (h_mem h) r x" if "same_page y x"
    using s that by (rule s2_desc_same_page)
  show "fst (update_leaf f r x h) = Inr () \<Longrightarrow>
      s2_desc (h_mem (snd (update_leaf f r x h))) r y =
        (if same_page y x then map_option f (s2_desc (h_mem h) r y) else s2_desc (h_mem h) r y) \<and>
      is_page (h_mem (snd (update_leaf f r x h))) r x"
    using sp(2) same by (auto simp: u)
  show "fst (update_leaf f r x h) \<noteq> Inr () \<Longrightarrow>
      s2_desc (h_mem (snd (update_leaf f r x h))) r y = s2_desc (h_mem h) r y"
    using sp(3) by (cases res) (auto simp: u)
  show "is_page (h_mem h) r y \<Longrightarrow> is_page (h_mem (snd (update_leaf f r x h))) r y"
    using sp(1) by (simp add: u)
qed

lemma update_leaf_page:
  assumes "s2_ok U T r h" "is_page (h_mem h) r x"
  shows "fst (update_leaf f r x h) = Inr ()"
proof -
  from assms(2) obtain t3 where t3: "walk (h_mem h) r (ipa_path x) = Some t3"
    "pte_is_valid (h_mem h (entry_addr t3 (l3_idx x)))" by (auto simp: is_page_def split: option.splits)
  obtain t1 t2 where t2: "walk (h_mem h) r [l0_idx x, l1_idx x] = Some t2" using walk_prefix [OF t3(1)] .
  have tb: "pte_is_table (h_mem h (entry_addr t2 (l2_idx x)))"
    using t2 t3(1) by (auto simp: ipa_path_def walk_Cons follow_def Let_def bind_eq_Some_conv split: if_splits)
  obtain res h' where s: "split_block_if_needed r x h = (res, h')" by fastforce
  hence "h' = h \<and> res = Inr ()" by (rule split_cases) (use t2 tb in auto)
  moreover have "walk_to_leaf_ptr (h_mem h) r x = Some (entry_addr t3 (l3_idx x))"
    using assms(1) t2 t3 by (simp add: walk_to_leaf_ptr_walk s2_ok_def)
  ultimately show ?thesis using s by (simp add: update_leaf_def)
qed

lemma with_bits_idem:
  "with_sw_bits b (with_sw_bits b d) = with_sw_bits b d" "with_s2ap b (with_s2ap b d) = with_s2ap b d"
  "with_sw_bits a (with_s2ap b d) = with_s2ap b (with_sw_bits a d)"
  by (auto simp: u64_eq_iff bit_with_sw bit_with_s2ap)

interpretation sw_writer: page_writer "\<lambda>h. vms_ok rs h \<and> r \<in> rs" "\<lambda>h. s2_desc (h_mem h) r"
  "\<lambda>h. is_page (h_mem h) r" "others_kept rs r" "write_sw_bits r" with_sw_bits
  for rs r
proof
  fix h x b assume "vms_ok rs h \<and> r \<in> rs" "is_page (h_mem h) r x"
  thus "fst (write_sw_bits r x b h) = Inr ()"
    using update_leaf_page unfolding vms_ok_def write_sw_bits_def by blast
qed (use update_leaf_vms [OF _ _ with_bits_valid(1)] in \<open>auto simp: write_sw_bits_def with_bits_idem\<close>)

interpretation ap_writer: page_writer "\<lambda>h. vms_ok rs h \<and> r \<in> rs" "\<lambda>h. s2_desc (h_mem h) r"
  "\<lambda>h. is_page (h_mem h) r" "others_kept rs r" "set_s2ap r" with_s2ap
  for rs r
proof
  fix h x b assume "vms_ok rs h \<and> r \<in> rs" "is_page (h_mem h) r x"
  thus "fst (set_s2ap r x b h) = Inr ()"
    using update_leaf_page unfolding vms_ok_def set_s2ap_def by blast
qed (use update_leaf_vms [OF _ _ with_bits_valid(2)] in \<open>auto simp: set_s2ap_def with_bits_idem\<close>)

interpretation sw_ap: page_transition "\<lambda>h. vms_ok rs h \<and> r \<in> rs" "\<lambda>h. s2_desc (h_mem h) r"
  "\<lambda>h. is_page (h_mem h) r" "others_kept rs r" "write_sw_bits r" with_sw_bits "set_s2ap r" with_s2ap
  for rs r
  by unfold_locales (auto simp: with_bits_idem others_kept_refl intro: others_kept_trans)


lemma is_page_mapped: "is_page m r x \<Longrightarrow> s2_desc m r x \<noteq> None"
  by (auto simp: is_page_def is_page_desc valid_desc_def split: option.splits)

lemma map_page_vms:
  assumes ok: "vms_ok rs h" "r \<in> rs"
  shows "vms_ok rs (snd (map_page r x a b h))" "others_kept rs r h (snd (map_page r x a b h))"
    "fst (map_page r x a b h) = Inr () \<Longrightarrow>
      s2_desc (h_mem (snd (map_page r x a b h))) r y =
        (if same_page y x then Some (page_entry x a b) else s2_desc (h_mem h) r y) \<and>
      is_page (h_mem (snd (map_page r x a b h))) r x \<and> s2_desc (h_mem h) r x = None"
    "fst (map_page r x a b h) \<noteq> Inr () \<Longrightarrow>
      s2_desc (h_mem (snd (map_page r x a b h))) r y = s2_desc (h_mem h) r y"
    "is_page (h_mem h) r y \<Longrightarrow> is_page (h_mem (snd (map_page r x a b h))) r y"
proof -
  obtain res h' where u: "map_page r x a b h = (res, h')" by fastforce
  have st: "\<exists>T'. s2_grows U T r h T' h'" if "s2_ok U T r h" for U T
    by (rule map_page_spec [OF that u]) blast
  show "vms_ok rs (snd (map_page r x a b h))" "others_kept rs r h (snd (map_page r x a b h))"
    using vms_step [OF ok st] by (simp_all add: u)
  from ok obtain U T where s: "s2_ok U T r h" unfolding vms_ok_def by blast
  obtain T' where sp: "\<And>x. is_page (h_mem h) r x \<Longrightarrow> is_page (h_mem h') r x"
    "res = Inr () \<Longrightarrow> is_page (h_mem h') r x \<and> s2_desc (h_mem h) r x = None \<and>
      (\<forall>y. s2_desc (h_mem h') r y = (if same_page y x then Some (page_entry x a b) else s2_desc (h_mem h) r y))"
    "\<And>e. res = Inl e \<Longrightarrow> \<forall>y. s2_desc (h_mem h') r y = s2_desc (h_mem h) r y"
    by (rule map_page_spec [OF s u]) metis
  show "fst (map_page r x a b h) = Inr () \<Longrightarrow>
      s2_desc (h_mem (snd (map_page r x a b h))) r y =
        (if same_page y x then Some (page_entry x a b) else s2_desc (h_mem h) r y) \<and>
      is_page (h_mem (snd (map_page r x a b h))) r x \<and> s2_desc (h_mem h) r x = None"
    using sp(2) by (simp add: u)
  show "fst (map_page r x a b h) \<noteq> Inr () \<Longrightarrow>
      s2_desc (h_mem (snd (map_page r x a b h))) r y = s2_desc (h_mem h) r y"
    using sp(3) by (cases res) (auto simp: u)
  show "is_page (h_mem h) r y \<Longrightarrow> is_page (h_mem (snd (map_page r x a b h))) r y"
    using sp(1) by (simp add: u)
qed

lemma unmap_page_vms:
  assumes ok: "vms_ok rs h" "r \<in> rs"
  shows "vms_ok rs (snd (unmap_page r x h))" "others_kept rs r h (snd (unmap_page r x h))"
    "is_page (h_mem h) r x \<Longrightarrow> fst (unmap_page r x h) = Inr () \<and>
      s2_desc (h_mem (snd (unmap_page r x h))) r y = (if same_page y x then None else s2_desc (h_mem h) r y)"
    "is_page (h_mem h) r y \<Longrightarrow> \<not> same_page y x \<Longrightarrow> is_page (h_mem (snd (unmap_page r x h))) r y"
proof -
  obtain res h' where u: "unmap_page r x h = (res, h')" by fastforce
  have st: "\<exists>T'. s2_grows U T r h T' h'" if "s2_ok U T r h" for U T
    using unmap_page_spec(1) [OF that u] by blast
  show "vms_ok rs (snd (unmap_page r x h))" "others_kept rs r h (snd (unmap_page r x h))"
    using vms_step [OF ok st] by (simp_all add: u)
  from ok obtain U T where s: "s2_ok U T r h" unfolding vms_ok_def by blast
  hence wf: "wf_tables T (h_mem h) r" by (simp add: s2_ok_def)
  show "is_page (h_mem h) r x \<Longrightarrow> fst (unmap_page r x h) = Inr () \<and>
      s2_desc (h_mem (snd (unmap_page r x h))) r y = (if same_page y x then None else s2_desc (h_mem h) r y)"
  proof -
    assume "is_page (h_mem h) r x"
    hence "res = Inr ()"
      using u by (auto simp: is_page_def unmap_page_def walk_to_l3_ptr_walk split: option.splits)
    thus ?thesis using unmap_page_spec(2) [OF s u] by (simp add: u)
  qed
  show "is_page (h_mem h) r y \<Longrightarrow> \<not> same_page y x \<Longrightarrow> is_page (h_mem (snd (unmap_page r x h))) r y"
    using is_page_leaf [OF wf, of x _ 0 y]
    by (auto simp: unmap_page_def walk_to_l3_ptr_walk split: option.split)
qed

interpretation vm_mapper: page_mapper "\<lambda>h. vms_ok rs h \<and> r \<in> rs" "\<lambda>h. s2_desc (h_mem h) r"
  "\<lambda>h. is_page (h_mem h) r" "others_kept rs r" "\<lambda>x. map_page r x a b" "unmap_page r"
  "\<lambda>x. page_entry x a b"
  for rs r a b
proof
  fix h x y assume ok: "vms_ok rs h \<and> r \<in> rs" and s: "same_page x y"
  then obtain U T where "s2_ok U T r h" unfolding vms_ok_def by blast
  thus "s2_desc (h_mem h) r x = s2_desc (h_mem h) r y" using s by (rule s2_desc_same_page)
next
  fix h x y assume ok: "vms_ok rs h \<and> r \<in> rs" and m: "fst (map_page r x a b h) = Inr ()"
    and s: "same_page y x"
  obtain U T where "s2_ok U T r h" using ok unfolding vms_ok_def by blast
  hence "s2_desc (h_mem h) r y = s2_desc (h_mem h) r x" using s by (rule s2_desc_same_page)
  with ok m map_page_vms(3) show "s2_desc (h_mem h) r y = None" by auto
qed (use map_page_vms unmap_page_vms is_page_mapped in \<open>auto simp: others_kept_refl intro: others_kept_trans\<close>)

end
