(* ===== verification/Ffa_Types.thy ===== *)
theory Ffa_Types
  imports Prelude
begin

text \<open>The constants and data types of the FF-A proxy (\<open>src/ffa/mod.rs\<close>, \<open>memory.rs\<close>, \<open>mailbox.rs\<close>):
  function identifiers, error codes (the two's complement bit pattern of the \<open>i32\<close>), partition
  identifiers, page ownership and the RX/TX mailboxes.\<close>

definition FFA_ERROR :: u64 where "FFA_ERROR = 0x84000060"
definition FFA_SUCCESS_32 :: u64 where "FFA_SUCCESS_32 = 0x84000061"
definition FFA_VERSION :: u64 where "FFA_VERSION = 0x84000063"
definition FFA_FEATURES :: u64 where "FFA_FEATURES = 0x84000064"
definition FFA_RX_RELEASE :: u64 where "FFA_RX_RELEASE = 0x84000065"
definition FFA_RXTX_UNMAP :: u64 where "FFA_RXTX_UNMAP = 0x84000067"
definition FFA_PARTITION_INFO_GET :: u64 where "FFA_PARTITION_INFO_GET = 0x84000068"
definition FFA_ID_GET :: u64 where "FFA_ID_GET = 0x84000069"
definition FFA_MSG_SEND_DIRECT_REQ_32 :: u64 where "FFA_MSG_SEND_DIRECT_REQ_32 = 0x8400006F"
definition FFA_MSG_SEND_DIRECT_RESP_32 :: u64 where "FFA_MSG_SEND_DIRECT_RESP_32 = 0x84000070"
definition FFA_MEM_DONATE_32 :: u64 where "FFA_MEM_DONATE_32 = 0x84000071"
definition FFA_MEM_LEND_32 :: u64 where "FFA_MEM_LEND_32 = 0x84000072"
definition FFA_MEM_SHARE_32 :: u64 where "FFA_MEM_SHARE_32 = 0x84000073"
definition FFA_MEM_RETRIEVE_REQ_32 :: u64 where "FFA_MEM_RETRIEVE_REQ_32 = 0x84000074"
definition FFA_MEM_RETRIEVE_RESP :: u64 where "FFA_MEM_RETRIEVE_RESP = 0x84000075"
definition FFA_MEM_RELINQUISH :: u64 where "FFA_MEM_RELINQUISH = 0x84000076"
definition FFA_MEM_RECLAIM :: u64 where "FFA_MEM_RECLAIM = 0x84000077"
definition FFA_MEM_FRAG_RX :: u64 where "FFA_MEM_FRAG_RX = 0x8400007A"
definition FFA_MEM_FRAG_TX :: u64 where "FFA_MEM_FRAG_TX = 0x8400007B"
definition FFA_INTERRUPT :: u64 where "FFA_INTERRUPT = 0x84000062"
definition FFA_NOTIFICATION_BITMAP_CREATE :: u64 where "FFA_NOTIFICATION_BITMAP_CREATE = 0x8400007D"
definition FFA_NOTIFICATION_BITMAP_DESTROY :: u64 where "FFA_NOTIFICATION_BITMAP_DESTROY = 0x8400007E"
definition FFA_NOTIFICATION_BIND :: u64 where "FFA_NOTIFICATION_BIND = 0x8400007F"
definition FFA_NOTIFICATION_UNBIND :: u64 where "FFA_NOTIFICATION_UNBIND = 0x84000080"
definition FFA_NOTIFICATION_SET :: u64 where "FFA_NOTIFICATION_SET = 0x84000081"
definition FFA_NOTIFICATION_GET :: u64 where "FFA_NOTIFICATION_GET = 0x84000082"
definition FFA_NOTIFICATION_INFO_GET_32 :: u64 where "FFA_NOTIFICATION_INFO_GET_32 = 0x84000083"
definition FFA_SPM_ID_GET :: u64 where "FFA_SPM_ID_GET = 0x84000085"
definition FFA_MSG_SEND2 :: u64 where "FFA_MSG_SEND2 = 0x84000086"
definition FFA_MSG_WAIT :: u64 where "FFA_MSG_WAIT = 0x8400006B"
definition FFA_RUN :: u64 where "FFA_RUN = 0x8400006D"
definition FFA_SUCCESS_64 :: u64 where "FFA_SUCCESS_64 = 0xC4000061"
definition FFA_RXTX_MAP :: u64 where "FFA_RXTX_MAP = 0xC4000066"
definition FFA_MSG_SEND_DIRECT_REQ_64 :: u64 where "FFA_MSG_SEND_DIRECT_REQ_64 = 0xC400006F"
definition FFA_MSG_SEND_DIRECT_RESP_64 :: u64 where "FFA_MSG_SEND_DIRECT_RESP_64 = 0xC4000070"
definition FFA_MEM_DONATE_64 :: u64 where "FFA_MEM_DONATE_64 = 0xC4000071"
definition FFA_MEM_LEND_64 :: u64 where "FFA_MEM_LEND_64 = 0xC4000072"
definition FFA_MEM_SHARE_64 :: u64 where "FFA_MEM_SHARE_64 = 0xC4000073"
definition FFA_MEM_RETRIEVE_REQ_64 :: u64 where "FFA_MEM_RETRIEVE_REQ_64 = 0xC4000074"
definition FFA_NOTIFICATION_INFO_GET_64 :: u64 where "FFA_NOTIFICATION_INFO_GET_64 = 0xC4000083"
definition FFA_VERSION_1_1 :: u32 where "FFA_VERSION_1_1 = 0x00010001"
definition FFA_NOT_SUPPORTED :: u32 where "FFA_NOT_SUPPORTED = - 1"
definition FFA_INVALID_PARAMETERS :: u32 where "FFA_INVALID_PARAMETERS = - 2"
definition FFA_NO_MEMORY :: u32 where "FFA_NO_MEMORY = - 3"
definition FFA_BUSY :: u32 where "FFA_BUSY = - 4"
definition FFA_DENIED :: u32 where "FFA_DENIED = - 6"
definition FFA_ABORTED :: u32 where "FFA_ABORTED = - 7"
definition FFA_NO_DATA :: u32 where "FFA_NO_DATA = - 8"
definition FFA_HOST_ID :: u16 where "FFA_HOST_ID = 0x0000"
definition FFA_SPMC_ID :: u16 where "FFA_SPMC_ID = 0x8000"
definition FFA_FWK_MSG_BIT :: u64 where "FFA_FWK_MSG_BIT = 0x80000000"
definition SPMD_FWK_MSG_FFA_VERSION_REQ :: u64 where "SPMD_FWK_MSG_FFA_VERSION_REQ = 0x8"
definition SPMD_FWK_MSG_FFA_VERSION_RESP :: u64 where "SPMD_FWK_MSG_FFA_VERSION_RESP = 0x9"
definition FFA_MAX_VMS :: nat where "FFA_MAX_VMS = 4"

lemmas ffa_consts = FFA_ERROR_def FFA_SUCCESS_32_def FFA_VERSION_def FFA_FEATURES_def
  FFA_RX_RELEASE_def FFA_RXTX_UNMAP_def FFA_PARTITION_INFO_GET_def FFA_ID_GET_def
  FFA_MSG_SEND_DIRECT_REQ_32_def FFA_MSG_SEND_DIRECT_RESP_32_def FFA_MEM_DONATE_32_def FFA_MEM_LEND_32_def
  FFA_MEM_SHARE_32_def FFA_MEM_RETRIEVE_REQ_32_def FFA_MEM_RETRIEVE_RESP_def FFA_MEM_RELINQUISH_def
  FFA_MEM_RECLAIM_def FFA_MEM_FRAG_RX_def FFA_MEM_FRAG_TX_def FFA_INTERRUPT_def
  FFA_NOTIFICATION_BITMAP_CREATE_def FFA_NOTIFICATION_BITMAP_DESTROY_def FFA_NOTIFICATION_BIND_def FFA_NOTIFICATION_UNBIND_def
  FFA_NOTIFICATION_SET_def FFA_NOTIFICATION_GET_def FFA_NOTIFICATION_INFO_GET_32_def FFA_SPM_ID_GET_def
  FFA_MSG_SEND2_def FFA_MSG_WAIT_def FFA_RUN_def FFA_SUCCESS_64_def
  FFA_RXTX_MAP_def FFA_MSG_SEND_DIRECT_REQ_64_def FFA_MSG_SEND_DIRECT_RESP_64_def FFA_MEM_DONATE_64_def
  FFA_MEM_LEND_64_def FFA_MEM_SHARE_64_def FFA_MEM_RETRIEVE_REQ_64_def FFA_NOTIFICATION_INFO_GET_64_def
  FFA_VERSION_1_1_def FFA_NOT_SUPPORTED_def FFA_INVALID_PARAMETERS_def FFA_NO_MEMORY_def
  FFA_BUSY_def FFA_DENIED_def FFA_ABORTED_def FFA_NO_DATA_def
  FFA_HOST_ID_def FFA_SPMC_ID_def FFA_FWK_MSG_BIT_def SPMD_FWK_MSG_FFA_VERSION_REQ_def
  SPMD_FWK_MSG_FFA_VERSION_RESP_def FFA_MAX_VMS_def

section \<open>Partition identifiers\<close>

definition vm_id_to_partition_id :: "nat \<Rightarrow> u16" where
  "vm_id_to_partition_id vm_id = of_nat (vm_id + 1)"

definition partition_id_to_vm_id :: "u16 \<Rightarrow> nat option" where
  "partition_id_to_vm_id part_id =
    (if part_id \<ge> 1 \<and> unat part_id \<le> FFA_MAX_VMS then Some (unat (part_id - 1)) else None)"

definition is_vm_partition :: "u16 \<Rightarrow> bool" where
  "is_vm_partition part_id \<longleftrightarrow> partition_id_to_vm_id part_id \<noteq> None"

section \<open>Page ownership\<close>

datatype page_ownership = Owned | SharedOwned | SharedBorrowed | Donated

text \<open>The cast \<open>as u8\<close> of the enum.\<close>

fun ownership_bits :: "page_ownership \<Rightarrow> u8" where
  "ownership_bits Owned = 0"
| "ownership_bits SharedOwned = 1"
| "ownership_bits SharedBorrowed = 2"
| "ownership_bits Donated = 3"

definition ownership_from_bits :: "u8 \<Rightarrow> page_ownership" where
  "ownership_from_bits bits =
    (let b = bits AND 3 in
     if b = 0 then Owned else if b = 1 then SharedOwned else if b = 2 then SharedBorrowed else Donated)"

definition validate_page_for_share :: "u8 \<Rightarrow> u32 + unit" where
  "validate_page_for_share sw_bits =
    (case ownership_from_bits sw_bits of Owned \<Rightarrow> Inr () | _ \<Rightarrow> Inl FFA_DENIED)"

section \<open>Mailboxes\<close>

record mailbox =
  mb_tx_ipa :: u64
  mb_rx_ipa :: u64
  mb_page_count :: u32
  mb_mapped :: bool
  mb_rx_held_by_proxy :: bool
  mb_msg_pending :: bool
  mb_msg_sender_id :: u16

definition mailbox_new :: mailbox where
  "mailbox_new = \<lparr>mb_tx_ipa = 0, mb_rx_ipa = 0, mb_page_count = 0, mb_mapped = False,
     mb_rx_held_by_proxy = True, mb_msg_pending = False, mb_msg_sender_id = 0\<rparr>"

text \<open>\<open>MAILBOXES\<close>; the index is checked by an \<open>assert!\<close>.\<close>

definition MAILBOXES :: "mailbox list" where
  "MAILBOXES = replicate FFA_MAX_VMS mailbox_new"

definition get_mailbox :: "mailbox list \<Rightarrow> nat \<Rightarrow> mailbox or_panic" where
  "get_mailbox mbs vm_id = (if vm_id < FFA_MAX_VMS then Some (mbs ! vm_id) else None)"

section \<open>Lemmas\<close>

lemma vm_partition_roundtrip:
  "vm_id < FFA_MAX_VMS \<Longrightarrow> partition_id_to_vm_id (vm_id_to_partition_id vm_id) = Some vm_id"
proof -
  assume "vm_id < FFA_MAX_VMS"
  hence "vm_id = 0 \<or> vm_id = 1 \<or> vm_id = 2 \<or> vm_id = 3" by (simp add: FFA_MAX_VMS_def) arith
  thus ?thesis by (auto simp: partition_id_to_vm_id_def vm_id_to_partition_id_def FFA_MAX_VMS_def)
qed

lemma partition_vm_bounds:
  assumes "partition_id_to_vm_id p = Some v"
  shows "v < FFA_MAX_VMS" "vm_id_to_partition_id v = p"
proof -
  have p: "1 \<le> p" "unat p \<le> 4" "v = unat (p - 1)"
    using assms by (auto simp: partition_id_to_vm_id_def FFA_MAX_VMS_def split: if_splits)
  have v: "v = unat p - 1" "unat p \<ge> 1"
    using p unat_sub [OF p(1)] by (simp_all add: word_le_nat_alt)
  show "v < FFA_MAX_VMS" using v p by (simp add: FFA_MAX_VMS_def)
  show "vm_id_to_partition_id v = p" using v by (simp add: vm_id_to_partition_id_def)
qed

lemma partition_id_inj:
  "v < FFA_MAX_VMS \<Longrightarrow> w < FFA_MAX_VMS \<Longrightarrow> vm_id_to_partition_id v = vm_id_to_partition_id w \<Longrightarrow> v = w"
  using vm_partition_roundtrip by (metis option.inject)

lemma ownership_roundtrip: "ownership_from_bits (ownership_bits s) = s"
  by (cases s) (simp_all add: ownership_from_bits_def)

lemma validate_Owned: "validate_page_for_share sw = Inr () \<longleftrightarrow> sw AND 3 = 0"
  by (simp add: validate_page_for_share_def ownership_from_bits_def Let_def)

end
