(* ===== verification/Ffa_Notifications.thy ===== *)
theory Ffa_Notifications
  imports Ffa_Types
begin

text \<open>FF-A notifications (\<open>src/ffa/notifications.rs\<close>): per endpoint a pending bitmap and a table of eight
  bindings that say which sender may raise which bits.  The invariant \<open>notif_inv\<close> is that a bit is
  bound to one sender at most.  Errors are the FF-A codes on the left of the sum.\<close>

definition MAX_ENDPOINTS :: nat where "MAX_ENDPOINTS = 8"
definition MAX_BINDS :: nat where "MAX_BINDS = 8"

record notif_bind =
  nb_sender_id :: u16
  nb_bitmap :: u64
  nb_active :: bool

definition notif_bind_new :: notif_bind where
  "notif_bind_new = \<lparr>nb_sender_id = 0, nb_bitmap = 0, nb_active = False\<rparr>"

record endpoint_notif_state =
  en_enabled :: bool
  en_pending :: u64
  en_binds :: "notif_bind list"

definition endpoint_notif_new :: endpoint_notif_state where
  "endpoint_notif_new = \<lparr>en_enabled = False, en_pending = 0, en_binds = replicate MAX_BINDS notif_bind_new\<rparr>"

type_synonym notif_states = "endpoint_notif_state list"

definition NOTIF_STATE :: notif_states where
  "NOTIF_STATE = replicate MAX_ENDPOINTS endpoint_notif_new"

definition endpoint_index :: "u16 \<Rightarrow> nat option" where
  "endpoint_index part_id =
    (case partition_id_to_vm_id part_id of
       Some vm_id \<Rightarrow> Some vm_id
     | None \<Rightarrow> if part_id = 0x8001 then Some FFA_MAX_VMS
               else if part_id = 0x8002 then Some (FFA_MAX_VMS + 1) else None)"

text \<open>\<open>get_state(part_id)?\<close> followed by an update in place: \<open>f\<close> is the rest of the function, from the
  endpoint's state to its result and the new state.\<close>

definition with_state ::
  "u16 \<Rightarrow> (endpoint_notif_state \<Rightarrow> (u32 + 'a) \<times> endpoint_notif_state) \<Rightarrow> notif_states \<Rightarrow> (u32 + 'a) \<times> notif_states" where
  "with_state part_id f ns =
    (case endpoint_index part_id of
       None \<Rightarrow> (Inl FFA_INVALID_PARAMETERS, ns)
     | Some idx \<Rightarrow> (case f (ns ! idx) of (res, st) \<Rightarrow> (res, ns[idx := st])))"

definition notif_bitmap_create :: "u16 \<Rightarrow> notif_states \<Rightarrow> (u32 + unit) \<times> notif_states" where
  "notif_bitmap_create part_id = with_state part_id (\<lambda>st.
     if en_enabled st then (Inl FFA_DENIED, st) else (Inr (), st\<lparr>en_enabled := True\<rparr>))"

definition notif_bitmap_destroy :: "u16 \<Rightarrow> notif_states \<Rightarrow> (u32 + unit) \<times> notif_states" where
  "notif_bitmap_destroy part_id = with_state part_id (\<lambda>st.
     if \<not> en_enabled st then (Inl FFA_DENIED, st)
     else (Inr (), st\<lparr>en_enabled := False, en_pending := 0,
                      en_binds := map (\<lambda>_. notif_bind_new) (en_binds st)\<rparr>))"

definition notif_bind_op :: "u16 \<Rightarrow> u16 \<Rightarrow> u32 \<Rightarrow> u64 \<Rightarrow> notif_states \<Rightarrow> (u32 + unit) \<times> notif_states" where
  "notif_bind_op sender receiver flags bitmap ns =
    (if bitmap = 0 then (Inl FFA_INVALID_PARAMETERS, ns)
     else with_state receiver (\<lambda>st.
       if \<not> en_enabled st then (Inl FFA_DENIED, st)
       else if \<exists>b\<in>set (en_binds st). nb_active b \<and> nb_bitmap b AND bitmap \<noteq> 0 then (Inl FFA_DENIED, st)
       else (case first_idx (\<lambda>b. \<not> nb_active b) (en_binds st) of
               Some i \<Rightarrow> (Inr (), st\<lparr>en_binds := (en_binds st)[i :=
                   \<lparr>nb_sender_id = sender, nb_bitmap = bitmap, nb_active = True\<rparr>]\<rparr>)
             | None \<Rightarrow> (Inl FFA_NO_MEMORY, st))) ns)"

definition notif_unbind :: "u16 \<Rightarrow> u16 \<Rightarrow> u64 \<Rightarrow> notif_states \<Rightarrow> (u32 + unit) \<times> notif_states" where
  "notif_unbind sender receiver bitmap = with_state receiver (\<lambda>st.
     case first_idx (\<lambda>b. nb_active b \<and> nb_sender_id b = sender \<and> nb_bitmap b AND bitmap \<noteq> 0) (en_binds st) of
       Some i \<Rightarrow>
         (let b = en_binds st ! i; bm = nb_bitmap b AND NOT bitmap in
          (Inr (), st\<lparr>en_binds := (en_binds st)[i :=
             b\<lparr>nb_bitmap := bm, nb_active := (if bm = 0 then False else nb_active b)\<rparr>]\<rparr>))
     | None \<Rightarrow> (Inl FFA_DENIED, st))"

text \<open>The loop that collects the bits bound to the sender.\<close>

definition allowed_bits :: "u16 \<Rightarrow> notif_bind list \<Rightarrow> u64" where
  "allowed_bits sender bs =
    fold (\<lambda>b acc. if nb_active b \<and> nb_sender_id b = sender then acc OR nb_bitmap b else acc) bs 0"

definition notif_set :: "u16 \<Rightarrow> u16 \<Rightarrow> u64 \<Rightarrow> notif_states \<Rightarrow> (u32 + unit) \<times> notif_states" where
  "notif_set sender receiver bitmap = with_state receiver (\<lambda>st.
     if \<not> en_enabled st then (Inl FFA_DENIED, st)
     else if bitmap AND NOT (allowed_bits sender (en_binds st)) \<noteq> 0 then (Inl FFA_DENIED, st)
     else (Inr (), st\<lparr>en_pending := en_pending st OR bitmap\<rparr>))"

definition notif_get :: "u16 \<Rightarrow> notif_states \<Rightarrow> (u32 + u64) \<times> notif_states" where
  "notif_get receiver = with_state receiver (\<lambda>st.
     if \<not> en_enabled st then (Inl FFA_DENIED, st)
     else (Inr (en_pending st), st\<lparr>en_pending := 0\<rparr>))"

text \<open>One scan of \<open>info_get\<close>: at most four identifiers in all.\<close>

fun info_scan :: "notif_states \<Rightarrow> (nat \<times> u16) list \<Rightarrow> u16 list \<Rightarrow> u16 list" where
  "info_scan ns [] ids = ids"
| "info_scan ns ((idx, part_id) # es) ids =
    (if length ids \<ge> 4 then ids
     else info_scan ns es
       (if en_enabled (ns ! idx) \<and> en_pending (ns ! idx) \<noteq> 0 then ids @ [part_id] else ids))"

text \<open>The count and the array \<open>ids\<close> are the length and the elements of the list.\<close>

definition notif_info_get :: "notif_states \<Rightarrow> u16 list" where
  "notif_info_get ns =
    info_scan ns (map (\<lambda>sp_idx. (FFA_MAX_VMS + sp_idx, 0x8001 + of_nat sp_idx)) [0..<2])
     (info_scan ns (map (\<lambda>vm_id. (vm_id, vm_id_to_partition_id vm_id)) [0..<FFA_MAX_VMS]) [])"

section \<open>The bindings\<close>

text \<open>Two active bindings of one endpoint have no bit in common, and none is empty.\<close>

definition binds_ok :: "notif_bind list \<Rightarrow> bool" where
  "binds_ok bs \<longleftrightarrow> length bs = MAX_BINDS \<and>
    (\<forall>i<length bs. nb_active (bs ! i) \<longrightarrow> nb_bitmap (bs ! i) \<noteq> 0) \<and>
    (\<forall>i<length bs. \<forall>j<length bs. i \<noteq> j \<and> nb_active (bs ! i) \<and> nb_active (bs ! j) \<longrightarrow>
       nb_bitmap (bs ! i) AND nb_bitmap (bs ! j) = 0)"

definition notif_inv :: "notif_states \<Rightarrow> bool" where
  "notif_inv ns \<longleftrightarrow> length ns = MAX_ENDPOINTS \<and> (\<forall>st\<in>set ns. binds_ok (en_binds st))"

lemma endpoint_index_bound: "endpoint_index p = Some i \<Longrightarrow> i < MAX_ENDPOINTS"
  by (auto simp: endpoint_index_def MAX_ENDPOINTS_def FFA_MAX_VMS_def split: option.splits if_splits
      dest: partition_vm_bounds(1))

lemma endpoint_index_inj: "endpoint_index p = Some i \<Longrightarrow> endpoint_index q = Some i \<Longrightarrow> p = q"
  using partition_vm_bounds(1) [of p i] partition_vm_bounds(1) [of q i] partition_vm_bounds(2) [of p i]
    partition_vm_bounds(2) [of q i]
  by (auto simp: endpoint_index_def split: option.splits if_splits)

text \<open>Every operation changes one endpoint through \<open>with_state\<close>.\<close>

lemma with_state_cases:
  obtains "endpoint_index p = None" "with_state p f ns = (Inl FFA_INVALID_PARAMETERS, ns)"
  | i where "endpoint_index p = Some i" "i < MAX_ENDPOINTS"
    "with_state p f ns = (fst (f (ns ! i)), ns[i := snd (f (ns ! i))])"
  by (cases "endpoint_index p")
    (auto simp: with_state_def case_prod_unfold intro: endpoint_index_bound)

lemma with_state_inv:
  assumes "notif_inv ns" "\<And>st. binds_ok (en_binds st) \<Longrightarrow> binds_ok (en_binds (snd (f st)))"
  shows "notif_inv (snd (with_state p f ns))"
  by (rule with_state_cases [of p f ns])
    (use assms in \<open>auto simp: notif_inv_def dest!: set_update_subset\<close>)

lemma binds_ok_new [inv_intros]: "binds_ok (replicate MAX_BINDS notif_bind_new)"
  by (simp add: binds_ok_def notif_bind_new_def)

lemma binds_ok_add [inv_intros]:
  assumes "binds_ok bs" "bm \<noteq> 0" "\<forall>b\<in>set bs. nb_active b \<longrightarrow> nb_bitmap b AND bm = 0"
  shows "binds_ok (bs[i := \<lparr>nb_sender_id = s, nb_bitmap = bm, nb_active = a\<rparr>])"
proof -
  have "nb_bitmap (bs ! j) AND bm = 0" "bm AND nb_bitmap (bs ! j) = 0" if "j < MAX_BINDS" "nb_active (bs ! j)" for j
    using assms that by (simp_all add: binds_ok_def and.commute)
  with assms show ?thesis by (simp add: binds_ok_def nth_update_cases)
qed

lemma binds_ok_shrink [inv_intros]:
  assumes "binds_ok bs" "i < length bs"
  shows "binds_ok (bs[i := (bs ! i)\<lparr>nb_bitmap := nb_bitmap (bs ! i) AND NOT bm,
     nb_active := (if nb_bitmap (bs ! i) AND NOT bm = 0 then False else nb_active (bs ! i))\<rparr>])"
proof -
  have sh: "(x AND NOT bm) AND y = 0" "y AND x AND NOT bm = 0" if "x AND y = 0" for x y
  proof -
    have "(x AND NOT bm) AND y = (x AND y) AND NOT bm" "y AND x AND NOT bm = (x AND y) AND NOT bm"
      by (simp_all only: and.assoc and.commute and.left_commute)
    thus "(x AND NOT bm) AND y = 0" "y AND x AND NOT bm = 0" using that by simp_all
  qed
  have "(nb_bitmap (bs ! i) AND NOT bm) AND nb_bitmap (bs ! j) = 0"
    "nb_bitmap (bs ! j) AND nb_bitmap (bs ! i) AND NOT bm = 0"
    if "j < MAX_BINDS" "j \<noteq> i" "nb_active (bs ! j)" "nb_active (bs ! i)" for j
    by (intro sh; use assms that in \<open>simp add: binds_ok_def\<close>)+
  with assms show ?thesis
    unfolding binds_ok_def by (intro conjI allI impI) (auto simp: nth_update_cases split: if_splits)
qed

lemma notif_inv_init [inv_intros]: "notif_inv NOTIF_STATE"
  by (simp add: notif_inv_def NOTIF_STATE_def endpoint_notif_new_def binds_ok_new)

lemma notif_bitmap_create_inv [inv_intros]: "notif_inv ns \<Longrightarrow> notif_inv (snd (notif_bitmap_create p ns))"
  unfolding notif_bitmap_create_def by (rule with_state_inv) auto

lemma notif_bitmap_destroy_inv [inv_intros]: "notif_inv ns \<Longrightarrow> notif_inv (snd (notif_bitmap_destroy p ns))"
  unfolding notif_bitmap_destroy_def
  by (rule with_state_inv) (auto simp: map_replicate_const binds_ok_def notif_bind_new_def)

lemma notif_bind_inv [inv_intros]: "notif_inv ns \<Longrightarrow> notif_inv (snd (notif_bind_op s p fl bm ns))"
  unfolding notif_bind_op_def
  by (cases "bm = 0", simp, simp only: if_False, rule with_state_inv) (auto split: option.split intro: binds_ok_add)

lemma notif_unbind_inv [inv_intros]: "notif_inv ns \<Longrightarrow> notif_inv (snd (notif_unbind s p bm ns))"
  unfolding notif_unbind_def
proof (rule with_state_inv)
  fix st assume b: "binds_ok (en_binds st)"
  let ?P = "\<lambda>b. nb_active b \<and> nb_sender_id b = s \<and> nb_bitmap b AND bm \<noteq> 0"
  show "binds_ok (en_binds (snd (case first_idx ?P (en_binds st) of
      Some i \<Rightarrow> (let b = en_binds st ! i; bm = nb_bitmap b AND NOT bm in
          (Inr (), st\<lparr>en_binds := (en_binds st)[i :=
             b\<lparr>nb_bitmap := bm, nb_active := (if bm = 0 then False else nb_active b)\<rparr>]\<rparr>))
     | None \<Rightarrow> (Inl FFA_DENIED, st))))"
    using b binds_ok_shrink [OF b first_idx_SomeD(1) [of ?P "en_binds st"], where bm = bm]
    by (cases "first_idx ?P (en_binds st)") (simp_all add: Let_def)
qed

lemma notif_set_inv [inv_intros]: "notif_inv ns \<Longrightarrow> notif_inv (snd (notif_set s p bm ns))"
  unfolding notif_set_def by (rule with_state_inv) auto

lemma notif_get_inv [inv_intros]: "notif_inv ns \<Longrightarrow> notif_inv (snd (notif_get p ns))"
  unfolding notif_get_def by (rule with_state_inv) auto

section \<open>Sequences of calls\<close>

datatype notif_call =
    NBitmapCreate u16
  | NBitmapDestroy u16
  | NBind u16 u16 u64
  | NUnbind u16 u16 u64
  | NSet u16 u16 u64
  | NGet u16

fun notif_step :: "notif_call \<Rightarrow> notif_states \<Rightarrow> notif_states" where
  "notif_step (NBitmapCreate p) ns = snd (notif_bitmap_create p ns)"
| "notif_step (NBitmapDestroy p) ns = snd (notif_bitmap_destroy p ns)"
| "notif_step (NBind s p bm) ns = snd (notif_bind_op s p 0 bm ns)"
| "notif_step (NUnbind s p bm) ns = snd (notif_unbind s p bm ns)"
| "notif_step (NSet s p bm) ns = snd (notif_set s p bm ns)"
| "notif_step (NGet p) ns = snd (notif_get p ns)"

lemma notif_inv_step [inv_intros]: "notif_inv ns \<Longrightarrow> notif_inv (notif_step c ns)"
  by (cases c) (simp_all add: inv_intros)

lemma notif_inv_run: "notif_inv ns \<Longrightarrow> notif_inv (fold notif_step cs ns)"
  by (induction cs arbitrary: ns) (simp_all add: notif_inv_step)

text \<open>A bit of \<open>allowed_bits\<close> comes from an active binding of the sender.\<close>

lemma bit_allowed:
  "bit (allowed_bits s bs) n \<longleftrightarrow> (\<exists>b\<in>set bs. nb_active b \<and> nb_sender_id b = s \<and> bit (nb_bitmap b) n)"
proof -
  have "bit (fold (\<lambda>b acc. if nb_active b \<and> nb_sender_id b = s then acc OR nb_bitmap b else acc) bs acc) n \<longleftrightarrow>
      bit acc n \<or> (\<exists>b\<in>set bs. nb_active b \<and> nb_sender_id b = s \<and> bit (nb_bitmap b) n)" for acc
    by (induction bs arbitrary: acc) (auto simp: bit_or_iff)
  from this [of 0] show ?thesis by (simp add: allowed_bits_def)
qed

lemma binds_ok_one_sender:
  assumes "binds_ok bs" "b \<in> set bs" "b' \<in> set bs" "nb_active b" "nb_active b'"
    "bit (nb_bitmap b) n" "bit (nb_bitmap b') n"
  shows "b' = b"
proof -
  obtain i j where ij: "i < length bs" "bs ! i = b" "j < length bs" "bs ! j = b'"
    using assms by (meson in_set_conv_nth)
  have "bit (nb_bitmap b AND nb_bitmap b') n" using assms by (simp add: bit_and_iff)
  hence "nb_bitmap b AND nb_bitmap b' \<noteq> 0" by auto
  hence "i = j" using assms ij unfolding binds_ok_def by metis
  with ij show ?thesis by simp
qed

text \<open>A call that is not \<open>get\<close> or \<open>bitmap_destroy\<close> on an endpoint keeps it enabled and keeps its pending bits.\<close>

fun takes_pending :: "u16 \<Rightarrow> notif_call \<Rightarrow> bool" where
  "takes_pending p (NBitmapDestroy q) = (q = p)"
| "takes_pending p (NGet q) = (q = p)"
| "takes_pending p c = False"

definition holds_pending :: "u64 \<Rightarrow> endpoint_notif_state \<Rightarrow> bool" where
  "holds_pending bm st \<longleftrightarrow> en_enabled st \<and> en_pending st AND bm = bm"

lemma with_state_other:
  assumes "endpoint_index p = Some i" "length ns = MAX_ENDPOINTS" "q = p \<Longrightarrow> P (ns ! i) \<Longrightarrow> P (snd (f (ns ! i)))" "P (ns ! i)"
  shows "P (snd (with_state q f ns) ! i)"
proof (rule with_state_cases [of q f ns])
  fix j assume j: "endpoint_index q = Some j" "j < MAX_ENDPOINTS"
    "with_state q f ns = (fst (f (ns ! j)), ns[j := snd (f (ns ! j))])"
  show ?thesis
  proof (cases "j = i")
    case True
    hence "q = p" using j(1) assms(1) endpoint_index_inj by blast
    with j True assms show ?thesis by simp
  qed (use j assms in simp)
qed (use assms in simp)

lemma holds_pending_or: "holds_pending bm st \<Longrightarrow> holds_pending bm (st\<lparr>en_pending := en_pending st OR x\<rparr>)"
  unfolding holds_pending_def
  by (simp add: bit_eq_iff bit_and_iff bit_or_iff) blast

lemma holds_pending_upd [simp]:
  "holds_pending bm (st\<lparr>en_binds := x\<rparr>) = holds_pending bm st"
  "holds_pending bm st \<Longrightarrow> holds_pending bm (st\<lparr>en_enabled := True\<rparr>)"
  by (simp_all add: holds_pending_def)

lemma notif_step_holds:
  assumes "endpoint_index p = Some i" "notif_inv ns" "holds_pending bm (ns ! i)" "\<not> takes_pending p c"
  shows "holds_pending bm (notif_step c ns ! i)"
proof -
  note w = with_state_other [OF assms(1), of ns _ "holds_pending bm"]
  have l: "length ns = MAX_ENDPOINTS" using assms(2) by (simp add: notif_inv_def)
  show ?thesis
  proof (cases c)
    case (NBind s q b)
    thus ?thesis using assms(3) l
      by (auto simp: notif_bind_op_def intro!: w split: option.split)
  next
    case (NSet s q b)
    thus ?thesis using assms(3) l holds_pending_or
      by (auto simp: notif_set_def intro!: w)
  qed (use assms l in \<open>auto simp: notif_bitmap_create_def notif_bitmap_destroy_def notif_unbind_def notif_get_def
         Let_def intro!: w split: option.split\<close>)
qed

lemma notif_run_holds:
  "\<lbrakk>endpoint_index p = Some i; notif_inv ns; holds_pending bm (ns ! i); \<forall>c\<in>set cs. \<not> takes_pending p c\<rbrakk> \<Longrightarrow>
   holds_pending bm (fold notif_step cs ns ! i)"
  by (induction cs arbitrary: ns) (simp_all add: notif_inv_step notif_step_holds)

section \<open>Properties\<close>





end
