(* ===== verification/Ffa_Shares.thy ===== *)
theory Ffa_Shares
  imports Ffa_Types
begin

text \<open>The records of memory shares (\<open>src/ffa/stub_spmc.rs\<close>): a table of sixteen slots and the handle
  counter.  The abstract view \<open>shares_view\<close> is a partial map from handles to records; every operation
  of the table is an update of that map, which is what the interpretation of the locale \<open>share_table\<close>
  on the model's operations says.\<close>

record stub_partition =
  stp_id :: u16
  stp_uuid :: "u32 list"
  stp_exec_ctx_count :: u16
  stp_properties :: u32

definition STUB_PARTITIONS :: "stub_partition list" where
  "STUB_PARTITIONS =
    [\<lparr>stp_id = 0x8001, stp_uuid = [0x12345678, 0x9ABCDEF0, 0x11112222, 0x33334444],
      stp_exec_ctx_count = 1, stp_properties = 1\<rparr>,
     \<lparr>stp_id = 0x8002, stp_uuid = [0x87654321, 0x0FEDCBA9, 0x55556666, 0x77778888],
      stp_exec_ctx_count = 1, stp_properties = 1\<rparr>]"

definition MAX_SHARE_RANGES :: nat where "MAX_SHARE_RANGES = 4"
definition MAX_SHARES :: nat where "MAX_SHARES = 16"

record share_record =
  sr_handle :: u64
  sr_sender_id :: u16
  sr_receiver_id :: u16
  sr_ranges :: "(u64 \<times> u32) list"
  sr_range_count :: nat
  sr_total_page_count :: u32
  sr_active :: bool
  sr_is_lend :: bool
  sr_retrieved :: bool

definition share_empty :: share_record where
  "share_empty = \<lparr>sr_handle = 0, sr_sender_id = 0, sr_receiver_id = 0,
     sr_ranges = replicate MAX_SHARE_RANGES (0, 0), sr_range_count = 0, sr_total_page_count = 0,
     sr_active = False, sr_is_lend = False, sr_retrieved = False\<rparr>"

text \<open>\<open>NEXT_HANDLE\<close> and \<open>SHARE_RECORDS\<close>\<close>

record shares =
  ss_next_handle :: u64
  ss_records :: "share_record list"

definition SHARES_INIT :: shares where
  "SHARES_INIT = \<lparr>ss_next_handle = 1, ss_records = replicate MAX_SHARES share_empty\<rparr>"

definition alloc_handle :: "shares \<Rightarrow> u64 \<times> shares" where
  "alloc_handle s = (ss_next_handle s, s\<lparr>ss_next_handle := ss_next_handle s + 1\<rparr>)"

text \<open>The first four ranges, padded with \<open>(0, 0)\<close>.\<close>

definition stored_ranges :: "(u64 \<times> u32) list \<Rightarrow> (u64 \<times> u32) list" where
  "stored_ranges rs =
    (let count = min (length rs) MAX_SHARE_RANGES in take count rs @ replicate (MAX_SHARE_RANGES - count) (0, 0))"

definition record_share ::
  "u16 \<Rightarrow> u16 \<Rightarrow> (u64 \<times> u32) list \<Rightarrow> u32 \<Rightarrow> bool \<Rightarrow> shares \<Rightarrow> u64 option \<times> shares" where
  "record_share sender_id receiver_id rs total_page_count is_lend s =
    (case alloc_handle s of (h, s) \<Rightarrow>
       (case first_idx (\<lambda>r. \<not> sr_active r) (ss_records s) of
          Some i \<Rightarrow>
            (Some h, s\<lparr>ss_records := (ss_records s)[i :=
               \<lparr>sr_handle = h, sr_sender_id = sender_id, sr_receiver_id = receiver_id,
                sr_ranges = stored_ranges rs, sr_range_count = min (length rs) MAX_SHARE_RANGES,
                sr_total_page_count = total_page_count, sr_active = True, sr_is_lend = is_lend,
                sr_retrieved = False\<rparr>]\<rparr>)
        | None \<Rightarrow> (None, s)))"

text \<open>\<open>lookup_share_full\<close>; the record stands for the \<open>ShareInfoFull\<close> copied from it.\<close>

definition lookup_share_full :: "u64 \<Rightarrow> shares \<Rightarrow> share_record option" where
  "lookup_share_full h s =
    map_option (\<lambda>i. ss_records s ! i) (first_idx (\<lambda>r. sr_active r \<and> sr_handle r = h) (ss_records s))"

text \<open>A scan that updates the first record satisfying \<open>P\<close> and reports whether there is one.\<close>

definition update_first :: "(share_record \<Rightarrow> bool) \<Rightarrow> (share_record \<Rightarrow> share_record) \<Rightarrow> shares \<Rightarrow> bool \<times> shares" where
  "update_first P f s =
    (case first_idx P (ss_records s) of
       Some i \<Rightarrow> (True, s\<lparr>ss_records := (ss_records s)[i := f (ss_records s ! i)]\<rparr>)
     | None \<Rightarrow> (False, s))"

definition mark_retrieved :: "u64 \<Rightarrow> shares \<Rightarrow> bool \<times> shares" where
  "mark_retrieved h = update_first (\<lambda>r. sr_active r \<and> sr_handle r = h \<and> \<not> sr_retrieved r)
     (\<lambda>r. r\<lparr>sr_retrieved := True\<rparr>)"

definition mark_relinquished :: "u64 \<Rightarrow> shares \<Rightarrow> bool \<times> shares" where
  "mark_relinquished h = update_first (\<lambda>r. sr_active r \<and> sr_handle r = h \<and> sr_retrieved r)
     (\<lambda>r. r\<lparr>sr_retrieved := False\<rparr>)"

definition reclaim_share :: "u64 \<Rightarrow> shares \<Rightarrow> bool \<times> shares" where
  "reclaim_share h = update_first (\<lambda>r. sr_active r \<and> sr_handle r = h) (\<lambda>r. r\<lparr>sr_active := False\<rparr>)"

definition is_valid_sp :: "u16 \<Rightarrow> bool" where
  "is_valid_sp part_id \<longleftrightarrow> (\<exists>sp\<in>set STUB_PARTITIONS. stp_id sp = part_id)"

definition partition_count :: nat where
  "partition_count = length STUB_PARTITIONS"

definition is_valid_receiver :: "u16 \<Rightarrow> bool" where
  "is_valid_receiver part_id \<longleftrightarrow> is_vm_partition part_id \<or> is_valid_sp part_id"

section \<open>The table as a map\<close>

text \<open>Handles of active records are distinct and below the counter.  The counter has 64 bits: \<open>shares_room\<close>
  says that it has not reached its end.\<close>

definition shares_ok :: "shares \<Rightarrow> bool" where
  "shares_ok s \<longleftrightarrow> length (ss_records s) = MAX_SHARES \<and>
    (\<forall>i<MAX_SHARES. sr_active (ss_records s ! i) \<longrightarrow>
       sr_handle (ss_records s ! i) < ss_next_handle s \<and> length (sr_ranges (ss_records s ! i)) = MAX_SHARE_RANGES \<and>
       sr_range_count (ss_records s ! i) \<le> MAX_SHARE_RANGES) \<and>
    (\<forall>i<MAX_SHARES. \<forall>j<MAX_SHARES. i \<noteq> j \<and> sr_active (ss_records s ! i) \<and> sr_active (ss_records s ! j) \<longrightarrow>
       sr_handle (ss_records s ! i) \<noteq> sr_handle (ss_records s ! j))"

definition shares_room :: "shares \<Rightarrow> bool" where
  "shares_room s \<longleftrightarrow> ss_next_handle s < ss_next_handle s + 1"

abbreviation shares_view :: "shares \<Rightarrow> u64 \<Rightarrow> share_record option" where
  "shares_view s h \<equiv> lookup_share_full h s"

lemma shares_ok_init: "shares_ok SHARES_INIT"
  by (simp add: shares_ok_def SHARES_INIT_def share_empty_def)

lemma lookup_iff:
  assumes "shares_ok s"
  shows "lookup_share_full h s = Some r \<longleftrightarrow>
    (\<exists>i<MAX_SHARES. ss_records s ! i = r \<and> sr_active r \<and> sr_handle r = h)"
proof
  assume "lookup_share_full h s = Some r"
  then obtain i where "first_idx (\<lambda>r. sr_active r \<and> sr_handle r = h) (ss_records s) = Some i" "r = ss_records s ! i"
    by (auto simp: lookup_share_full_def)
  with first_idx_SomeD(1,2) [OF this(1)] assms
  show "\<exists>i<MAX_SHARES. ss_records s ! i = r \<and> sr_active r \<and> sr_handle r = h"
    by (auto simp: shares_ok_def)
next
  assume "\<exists>i<MAX_SHARES. ss_records s ! i = r \<and> sr_active r \<and> sr_handle r = h"
  then obtain i where i: "i < MAX_SHARES" "ss_records s ! i = r" "sr_active r" "sr_handle r = h" by blast
  have "first_idx (\<lambda>r. sr_active r \<and> sr_handle r = h) (ss_records s) = Some i"
    by (rule first_idx_unique) (use i assms in \<open>auto simp: shares_ok_def\<close>)
  thus "lookup_share_full h s = Some r" using i by (simp add: lookup_share_full_def)
qed

text \<open>An update in place of one record is an update of the map.\<close>

lemma shares_ok_update:
  assumes "shares_ok s" "i < MAX_SHARES" "sr_handle r = sr_handle (ss_records s ! i)"
    "sr_ranges r = sr_ranges (ss_records s ! i)" "sr_range_count r = sr_range_count (ss_records s ! i)"
    "sr_active (ss_records s ! i)"
  shows "shares_ok (s\<lparr>ss_records := (ss_records s)[i := r]\<rparr>)"
  using assms unfolding shares_ok_def by (simp add: nth_update_cases)

lemma lookup_update:
  assumes "shares_ok s" "i < MAX_SHARES" "sr_active (ss_records s ! i)"
    "sr_handle r = sr_handle (ss_records s ! i)" "sr_ranges r = sr_ranges (ss_records s ! i)"
    "sr_range_count r = sr_range_count (ss_records s ! i)"
  shows "lookup_share_full h (s\<lparr>ss_records := (ss_records s)[i := r]\<rparr>) =
    (if h = sr_handle r then if sr_active r then Some r else None else lookup_share_full h s)" (is "?l = ?r")
proof -
  note ok = shares_ok_update [OF assms(1,2,4,5,6,3)]
  have len: "length (ss_records s) = MAX_SHARES" using assms(1) by (simp add: shares_ok_def)
  have un: "j = i" if "j < MAX_SHARES" "sr_active (ss_records s ! j)"
    "sr_handle (ss_records s ! j) = sr_handle (ss_records s ! i)" for j
    using assms that unfolding shares_ok_def by metis
  have "?l = Some x \<longleftrightarrow> ?r = Some x" for x
  proof -
    have "?l = Some x \<longleftrightarrow> (\<exists>j<MAX_SHARES. (if j = i then r else ss_records s ! j) = x \<and> sr_active x \<and> sr_handle x = h)"
      using lookup_iff [OF ok, of h x] len by (auto simp: nth_update_cases cong: conj_cong)
    also have "\<dots> \<longleftrightarrow> (if h = sr_handle r then sr_active r \<and> x = r
        else \<exists>j<MAX_SHARES. ss_records s ! j = x \<and> sr_active x \<and> sr_handle x = h)"
    proof (cases "h = sr_handle r")
      case True
      thus ?thesis using assms(2,4) un by (simp, metis)
    next
      case False
      thus ?thesis using assms(4) by (simp, metis)
    qed
    also have "\<dots> \<longleftrightarrow> ?r = Some x" by (auto simp: lookup_iff [OF assms(1)])
    finally show ?thesis .
  qed
  thus ?thesis by (metis option.exhaust_sel option.distinct(1))
qed

lemma update_first_view:
  assumes ok: "shares_ok s" and u: "update_first P f s = (b, s')"
    and P: "\<And>r. P r \<Longrightarrow> sr_active r \<and> sr_handle r = h"
    and f: "\<And>r. sr_handle (f r) = sr_handle r \<and> sr_ranges (f r) = sr_ranges r \<and> sr_range_count (f r) = sr_range_count r"
  shows "shares_ok s'" "b \<longleftrightarrow> (\<exists>r. lookup_share_full h s = Some r \<and> P r)" "ss_next_handle s' = ss_next_handle s"
    "lookup_share_full h' s' = (if h' = h \<and> b
       then (case lookup_share_full h s of Some r \<Rightarrow> if sr_active (f r) then Some (f r) else None | None \<Rightarrow> None)
       else lookup_share_full h' s)"
proof -
  have len: "length (ss_records s) = MAX_SHARES" using ok by (simp add: shares_ok_def)
  have "shares_ok s' \<and> (b \<longleftrightarrow> (\<exists>r. lookup_share_full h s = Some r \<and> P r)) \<and> ss_next_handle s' = ss_next_handle s \<and>
    lookup_share_full h' s' = (if h' = h \<and> b
       then (case lookup_share_full h s of Some r \<Rightarrow> if sr_active (f r) then Some (f r) else None | None \<Rightarrow> None)
       else lookup_share_full h' s)"
  proof (cases "first_idx P (ss_records s)")
    case None
    hence "\<not> P r" if "lookup_share_full h s = Some r" for r
      using that len by (auto simp: first_idx_None lookup_iff [OF ok])
    thus ?thesis using u None ok by (auto simp: update_first_def)
  next
    case (Some i)
    note fi = first_idx_SomeD(1,2) [OF Some]
    have i: "i < MAX_SHARES" "sr_active (ss_records s ! i)" "sr_handle (ss_records s ! i) = h"
      using fi P len by auto
    have lk: "lookup_share_full h s = Some (ss_records s ! i)" using i lookup_iff [OF ok] by blast
    have s': "b" "s' = s\<lparr>ss_records := (ss_records s)[i := f (ss_records s ! i)]\<rparr>"
      using u Some by (simp_all add: update_first_def)
    show ?thesis unfolding s'(2)
      using shares_ok_update [OF ok i(1), of "f (ss_records s ! i)"]
        lookup_update [OF ok i(1,2), of "f (ss_records s ! i)" h'] f i lk fi s' by auto
  qed
  thus "shares_ok s'" "b \<longleftrightarrow> (\<exists>r. lookup_share_full h s = Some r \<and> P r)" "ss_next_handle s' = ss_next_handle s"
    "lookup_share_full h' s' = (if h' = h \<and> b
       then (case lookup_share_full h s of Some r \<Rightarrow> if sr_active (f r) then Some (f r) else None | None \<Rightarrow> None)
       else lookup_share_full h' s)"
    by blast+
qed

lemma lookupD: "lookup_share_full h s = Some r \<Longrightarrow> sr_active r \<and> sr_handle r = h"
  by (auto simp: lookup_share_full_def dest: first_idx_SomeD(2))

lemma lookup_fresh: "shares_ok s \<Longrightarrow> ss_next_handle s \<le> h \<Longrightarrow> lookup_share_full h s = None"
  using lookup_iff [of s h] unfolding shares_ok_def by (metis leD not_None_eq)

text \<open>The record that \<open>record_share\<close> makes.\<close>

definition new_share :: "u64 \<Rightarrow> u16 \<Rightarrow> u16 \<Rightarrow> (u64 \<times> u32) list \<Rightarrow> u32 \<Rightarrow> bool \<Rightarrow> share_record" where
  "new_share h snd_id rcv rs n lend =
    \<lparr>sr_handle = h, sr_sender_id = snd_id, sr_receiver_id = rcv, sr_ranges = stored_ranges rs,
     sr_range_count = min (length rs) MAX_SHARE_RANGES, sr_total_page_count = n, sr_active = True,
     sr_is_lend = lend, sr_retrieved = False\<rparr>"

lemma length_stored [simp]: "length (stored_ranges rs) = MAX_SHARE_RANGES"
  by (simp add: stored_ranges_def Let_def)

lemma record_share_spec:
  assumes ok: "shares_ok s" and room: "shares_room s" and r: "record_share a b rs n l s = (res, s')"
  shows "shares_ok s'"
    "res = None \<Longrightarrow> lookup_share_full h' s' = lookup_share_full h' s"
    "res = Some h \<Longrightarrow> h = ss_next_handle s \<and> lookup_share_full h s = None \<and>
       lookup_share_full h' s' = (if h' = h then Some (new_share h a b rs n l) else lookup_share_full h' s)"
proof -
  define s1 where "s1 = s\<lparr>ss_next_handle := ss_next_handle s + 1\<rparr>"
  have lt: "ss_next_handle s < ss_next_handle s + 1" using room by (simp add: shares_room_def)
  have len: "length (ss_records s) = MAX_SHARES" using ok by (simp add: shares_ok_def)
  have ok1: "shares_ok s1" using ok lt less_trans unfolding shares_ok_def s1_def by auto
  have lk1: "lookup_share_full k s1 = lookup_share_full k s" for k
    by (simp add: s1_def lookup_share_full_def)
  have fr: "sr_active (ss_records s ! i) \<Longrightarrow> i < MAX_SHARES \<Longrightarrow> sr_handle (ss_records s ! i) \<noteq> ss_next_handle s" for i
    using ok unfolding shares_ok_def by auto
  have "shares_ok s' \<and> (res = None \<longrightarrow> lookup_share_full h' s' = lookup_share_full h' s) \<and>
    (res = Some h \<longrightarrow> h = ss_next_handle s \<and> lookup_share_full h s = None \<and>
       lookup_share_full h' s' = (if h' = h then Some (new_share h a b rs n l) else lookup_share_full h' s))"
  proof (cases "first_idx (\<lambda>r. \<not> sr_active r) (ss_records s)")
    case None
    thus ?thesis using r ok1 lk1 by (auto simp: record_share_def alloc_handle_def s1_def)
  next
    case (Some i)
    note fi = first_idx_SomeD(1,2) [OF Some]
    let ?r = "new_share (ss_next_handle s) a b rs n l"
    have s': "res = Some (ss_next_handle s)" "s' = s1\<lparr>ss_records := (ss_records s)[i := ?r]\<rparr>"
      using r Some by (auto simp: record_share_def alloc_handle_def s1_def new_share_def)
    have rec: "ss_records s' ! j = (if j = i then ?r else ss_records s ! j)" if "j < MAX_SHARES" for j
      using that len by (simp add: s' nth_update_cases)
    have ok': "shares_ok s'"
      unfolding shares_ok_def using ok1 fr fr [THEN not_sym] fi rec len lt
      by (auto simp: s' shares_ok_def s1_def new_share_def nth_update_cases)
    have "lookup_share_full h' s' = Some x \<longleftrightarrow>
        (if h' = ss_next_handle s then x = ?r else lookup_share_full h' s = Some x)" for x
    proof -
      have "lookup_share_full h' s' = Some x \<longleftrightarrow>
          (\<exists>j<MAX_SHARES. (if j = i then ?r else ss_records s ! j) = x \<and> sr_active x \<and> sr_handle x = h')"
        using rec by (auto simp: lookup_iff [OF ok'] cong: conj_cong)
      also have "\<dots> \<longleftrightarrow> (if h' = ss_next_handle s then x = ?r else lookup_share_full h' s = Some x)"
      proof (cases "h' = ss_next_handle s")
        case True
        thus ?thesis using fr fi len by (auto simp: new_share_def)
      next
        case False
        thus ?thesis unfolding lookup_iff [OF ok] using fi by (auto simp: new_share_def)
      qed
      finally show ?thesis .
    qed
    hence "lookup_share_full h' s' = (if h' = ss_next_handle s then Some ?r else lookup_share_full h' s)"
      by (metis option.exhaust_sel option.distinct(1))
    thus ?thesis using s'(1) ok' lookup_fresh [OF ok] by auto
  qed
  thus "shares_ok s'" "res = None \<Longrightarrow> lookup_share_full h' s' = lookup_share_full h' s"
    "res = Some h \<Longrightarrow> h = ss_next_handle s \<and> lookup_share_full h s = None \<and>
       lookup_share_full h' s' = (if h' = h then Some (new_share h a b rs n l) else lookup_share_full h' s)"
    by blast+
qed

section \<open>The interface of the share table\<close>

text \<open>What the proxy relies on: the table is a map from handles to records, a new handle is unused, and
  each operation changes the record of its own handle.\<close>

locale share_table =
  fixes ok room :: "'s \<Rightarrow> bool"
    and view :: "'s \<Rightarrow> u64 \<Rightarrow> share_record option"
    and rcd :: "u16 \<Rightarrow> u16 \<Rightarrow> (u64 \<times> u32) list \<Rightarrow> u32 \<Rightarrow> bool \<Rightarrow> 's \<Rightarrow> u64 option \<times> 's"
    and retr relq recl :: "u64 \<Rightarrow> 's \<Rightarrow> bool \<times> 's"
  assumes rcd_ok: "ok s \<Longrightarrow> room s \<Longrightarrow> ok (snd (rcd a b rs n l s))"
    and rcd_None: "\<lbrakk>ok s; room s; rcd a b rs n l s = (None, s')\<rbrakk> \<Longrightarrow> view s' = view s"
    and rcd_Some: "\<lbrakk>ok s; room s; rcd a b rs n l s = (Some h, s')\<rbrakk> \<Longrightarrow>
      view s h = None \<and> view s' = (view s)(h \<mapsto> new_share h a b rs n l)"
    and retr_ok: "ok s \<Longrightarrow> ok (snd (retr h s))" and relq_ok: "ok s \<Longrightarrow> ok (snd (relq h s))"
    and recl_ok: "ok s \<Longrightarrow> ok (snd (recl h s))"
    and retr_view: "ok s \<Longrightarrow> view (snd (retr h s)) =
      (view s)(h := map_option (\<lambda>r. r\<lparr>sr_retrieved := True\<rparr>) (view s h))"
    and relq_view: "ok s \<Longrightarrow> view (snd (relq h s)) =
      (view s)(h := map_option (\<lambda>r. r\<lparr>sr_retrieved := False\<rparr>) (view s h))"
    and recl_view: "ok s \<Longrightarrow> view (snd (recl h s)) = (view s)(h := None)"
begin

text \<open>A share that was recorded, retrieved, relinquished and reclaimed leaves no trace.\<close>

lemma lifecycle:
  assumes "ok s" "room s" "rcd a b rs n l s = (Some h, s1)"
  shows "view (snd (retr h s1)) h = Some ((new_share h a b rs n l)\<lparr>sr_retrieved := True\<rparr>)"
    "view (snd (relq h (snd (retr h s1)))) h = Some (new_share h a b rs n l)"
    "view (snd (recl h (snd (relq h (snd (retr h s1)))))) = view s"
proof -
  have s1: "ok s1" "view s h = None" "view s1 = (view s)(h \<mapsto> new_share h a b rs n l)"
    using rcd_ok [OF assms(1,2), of a b rs n l] rcd_Some [OF assms] assms(3) by simp_all
  thus "view (snd (retr h s1)) h = Some ((new_share h a b rs n l)\<lparr>sr_retrieved := True\<rparr>)"
    "view (snd (relq h (snd (retr h s1)))) h = Some (new_share h a b rs n l)"
    "view (snd (recl h (snd (relq h (snd (retr h s1)))))) = view s"
    by (simp_all add: retr_view relq_view recl_view retr_ok relq_ok new_share_def fun_eq_iff)
qed

end

lemma shares_record_same: "sr_retrieved r = b \<Longrightarrow> r\<lparr>sr_retrieved := b\<rparr> = r" for r :: share_record
  by simp

interpretation stub_shares: share_table shares_ok shares_room shares_view record_share
  mark_retrieved mark_relinquished reclaim_share
proof
  fix s a b rs n l assume s: "shares_ok s" "shares_room s"
  obtain res s' where r: "record_share a b rs n l s = (res, s')" by fastforce
  show "shares_ok (snd (record_share a b rs n l s))" using record_share_spec(1) [OF s r] r by simp
next
  fix s a b rs n l s' assume "shares_ok s" "shares_room s" "record_share a b rs n l s = (None, s')"
  from record_share_spec(2) [OF this] show "shares_view s' = shares_view s" by (simp add: fun_eq_iff)
next
  fix s a b rs n l h s' assume "shares_ok s" "shares_room s" "record_share a b rs n l s = (Some h, s')"
  from record_share_spec(3) [OF this] show "shares_view s h = None \<and> shares_view s' = (shares_view s)(h \<mapsto> new_share h a b rs n l)"
    by (simp add: fun_eq_iff)
next
  fix s h assume ok: "shares_ok s"
  note u = update_first_view [OF ok, where h = h, OF prod.collapse [symmetric]]
  show "shares_ok (snd (mark_retrieved h s))" "shares_ok (snd (mark_relinquished h s))"
    "shares_ok (snd (reclaim_share h s))"
    unfolding mark_retrieved_def mark_relinquished_def reclaim_share_def by (rule u(1); simp)+
  show "shares_view (snd (mark_retrieved h s)) = (shares_view s)(h := map_option (\<lambda>r. r\<lparr>sr_retrieved := True\<rparr>) (shares_view s h))"
    unfolding mark_retrieved_def fun_eq_iff
    by (subst u(4), simp, simp, subst u(2), simp, simp)
      (auto simp: dest: lookupD split: option.split)
  show "shares_view (snd (mark_relinquished h s)) = (shares_view s)(h := map_option (\<lambda>r. r\<lparr>sr_retrieved := False\<rparr>) (shares_view s h))"
    unfolding mark_relinquished_def fun_eq_iff
    by (subst u(4), simp, simp, subst u(2), simp, simp)
      (auto simp: dest: lookupD split: option.split)
  show "shares_view (snd (reclaim_share h s)) = (shares_view s)(h := None)"
    unfolding reclaim_share_def fun_eq_iff
    by (subst u(4), simp, simp, subst u(2), simp, simp)
      (auto simp: dest: lookupD split: option.split)
qed

end
