(* ===== verification/Guest_Memory.thy ===== *)
theory Guest_Memory
  imports Prelude
begin

text \<open>Guest memory as bytes, with the little-endian accesses that the code makes through raw pointers
  (\<open>read_unaligned\<close>, \<open>write_unaligned\<close>, \<open>read_volatile\<close>, \<open>copy_nonoverlapping\<close>).  Addresses wrap at
  64 bits, as pointer arithmetic does.\<close>

type_synonym gmem = "u64 \<Rightarrow> u8"

definition get_bytes :: "gmem \<Rightarrow> u64 \<Rightarrow> nat \<Rightarrow> u8 list" where
  "get_bytes m a n = map (\<lambda>i. m (a + of_nat i)) [0..<n]"

fun put_bytes :: "gmem \<Rightarrow> u64 \<Rightarrow> u8 list \<Rightarrow> gmem" where
  "put_bytes m a [] = m"
| "put_bytes m a (b # bs) = (put_bytes m (a + 1) bs)(a := b)"

definition to_le :: "nat \<Rightarrow> 'a::len word \<Rightarrow> u8 list" where
  "to_le n v = map (\<lambda>i. ucast (drop_bit (8 * i) v)) [0..<n]"

primrec of_le :: "u8 list \<Rightarrow> 'a::len word" where
  "of_le [] = 0"
| "of_le (b # bs) = ucast b OR push_bit 8 (of_le bs)"

definition rd16 :: "gmem \<Rightarrow> u64 \<Rightarrow> u16" where "rd16 m a = of_le (get_bytes m a 2)"
definition rd32 :: "gmem \<Rightarrow> u64 \<Rightarrow> u32" where "rd32 m a = of_le (get_bytes m a 4)"
definition rd64 :: "gmem \<Rightarrow> u64 \<Rightarrow> u64" where "rd64 m a = of_le (get_bytes m a 8)"

definition wr16 :: "gmem \<Rightarrow> u64 \<Rightarrow> u16 \<Rightarrow> gmem" where "wr16 m a v = put_bytes m a (to_le 2 v)"
definition wr32 :: "gmem \<Rightarrow> u64 \<Rightarrow> u32 \<Rightarrow> gmem" where "wr32 m a v = put_bytes m a (to_le 4 v)"
definition wr64 :: "gmem \<Rightarrow> u64 \<Rightarrow> u64 \<Rightarrow> gmem" where "wr64 m a v = put_bytes m a (to_le 8 v)"

definition fill_bytes :: "gmem \<Rightarrow> u64 \<Rightarrow> u8 \<Rightarrow> nat \<Rightarrow> gmem" where
  "fill_bytes m a v n = put_bytes m a (replicate n v)"

text \<open>\<open>copy_nonoverlapping(src, dst, n)\<close>\<close>

definition copy_bytes :: "gmem \<Rightarrow> u64 \<Rightarrow> u64 \<Rightarrow> nat \<Rightarrow> gmem" where
  "copy_bytes m src dst n = put_bytes m dst (get_bytes m src n)"

section \<open>Encoding\<close>

lemma length_to_le [simp]: "length (to_le n v) = n"
  by (simp add: to_le_def)

lemma length_get_bytes [simp]: "length (get_bytes m a n) = n"
  by (simp add: get_bytes_def)

lemma bit_of_le:
  "bit (of_le bs :: 'a::len word) k \<longleftrightarrow> k < LENGTH('a) \<and> k div 8 < length bs \<and> bit (bs ! (k div 8)) (k mod 8)"
proof (induction bs arbitrary: k)
  case (Cons b bs)
  show ?case
  proof (cases "k < 8")
    case True
    thus ?thesis by (auto simp: bit_or_iff bit_push_bit_iff bit_unsigned_iff)
  next
    case False
    hence "\<not> bit b k" by (metis bit_imp_le_length len_bit0 len_num1 mult_2 not_less numeral_Bit0 one_add_one)
    moreover have "k div 8 = Suc ((k - 8) div 8)" "k mod 8 = (k - 8) mod 8"
      using False by (simp_all add: le_div_geq le_mod_geq)
    ultimately show ?thesis
      using False by (auto simp: bit_or_iff bit_push_bit_iff bit_unsigned_iff Cons.IH)
  qed
qed simp

lemma of_le_to_le: "LENGTH('a) \<le> 8 * n \<Longrightarrow> of_le (to_le n v) = (v :: 'a::len word)"
proof (rule bit_word_eqI)
  fix k assume n: "LENGTH('a) \<le> 8 * n" and k: "k < LENGTH('a)"
  hence "k div 8 < n" by simp
  thus "bit (of_le (to_le n v) :: 'a word) k = bit v k"
    using k by (simp add: bit_of_le to_le_def bit_unsigned_iff bit_drop_bit_eq)
qed

section \<open>Reading what was written\<close>

lemma put_bytes_apply:
  "length bs \<le> 2 ^ 63 \<Longrightarrow>
   put_bytes m a bs x = (if unat (x - a) < length bs then bs ! unat (x - a) else m x)"
proof (induction bs arbitrary: a)
  case (Cons b bs)
  show ?case
  proof (cases "x = a")
    case False
    hence "x - a \<noteq> 0" by simp
    hence u: "unat (x - a) = Suc (unat (x - (a + 1)))"
      using unat_minus_one [of "x - a"] unat_gt_0 [of "x - a"] by (simp add: diff_diff_eq)
    show ?thesis using Cons False by (simp add: u)
  qed simp
qed simp

lemma get_put_same: "length bs = n \<Longrightarrow> n \<le> 2 ^ 63 \<Longrightarrow> get_bytes (put_bytes m a bs) a n = bs"
  by (rule nth_equalityI) (simp_all add: get_bytes_def put_bytes_apply unat_of_nat)

text \<open>Accesses at disjoint offsets of one buffer do not interfere.\<close>

lemma off_diff:
  assumes "o1 < 2 ^ 62" "o2 < 2 ^ 62"
  shows "unat (buf + of_nat o2 - (buf + of_nat o1) :: u64) =
    (if o1 \<le> o2 then o2 - o1 else 2 ^ 64 + o2 - o1)"
proof (cases "o1 \<le> o2")
  case True
  hence "buf + of_nat o2 - (buf + of_nat o1) = (of_nat (o2 - o1) :: u64)" by (simp add: of_nat_diff)
  moreover have "unat (of_nat (o2 - o1) :: u64) = o2 - o1"
    using assms by (subst unat_of_nat) simp
  ultimately show ?thesis using True by simp
next
  case False
  have "(of_nat (2 ^ 64 + o2 - o1) :: u64) = of_nat (2 ^ 64) + of_nat o2 - of_nat o1"
    using assms by (subst of_nat_diff) (simp_all)
  moreover have "(of_nat (2 ^ 64) :: u64) = 0" by simp
  ultimately have "buf + of_nat o2 - (buf + of_nat o1) = (of_nat (2 ^ 64 + o2 - o1) :: u64)" by simp
  moreover have "unat (of_nat (2 ^ 64 + o2 - o1) :: u64) = 2 ^ 64 + o2 - o1"
    using False assms by (subst unat_of_nat) simp
  ultimately show ?thesis using False by simp
qed

lemma get_put_off:
  assumes "o2 + n \<le> o1 \<or> o1 + length bs \<le> o2" "o1 + length bs < 2 ^ 61" "o2 + n < 2 ^ 61"
  shows "get_bytes (put_bytes m (buf + of_nat o1) bs) (buf + of_nat o2) n = get_bytes m (buf + of_nat o2) n"
proof -
  have "put_bytes m (buf + of_nat o1) bs (buf + of_nat o2 + of_nat i) = m (buf + of_nat o2 + of_nat i)"
    if "i < n" for i
  proof -
    have "buf + of_nat o2 + of_nat i = buf + of_nat (o2 + i)" by simp
    moreover have "\<not> unat (buf + of_nat (o2 + i) - (buf + of_nat o1)) < length bs"
      using that assms off_diff [of o1 "o2 + i" buf] by auto
    moreover have "length bs \<le> 2 ^ 63" using assms by simp
    ultimately show ?thesis by (metis put_bytes_apply)
  qed
  thus ?thesis by (simp add: get_bytes_def)
qed

lemma rd_wr_same:
  "rd16 (wr16 m a v) a = v" "rd32 (wr32 m a w) a = w" "rd64 (wr64 m a x) a = x"
  by (simp_all add: rd16_def wr16_def rd32_def wr32_def rd64_def wr64_def get_put_same of_le_to_le)
end
