(* ===== verification/Ffa_Descriptors.thy ===== *)
theory Ffa_Descriptors
  imports Guest_Memory Ffa_Types
begin

text \<open>Memory region descriptors of FF-A v1.1 (\<open>src/ffa/descriptors.rs\<close>): the parser that reads a
  descriptor from the TX buffer and the builder of test descriptors, on byte memory.  The array
  \<open>ranges\<close> with its \<open>range_count\<close> is the list of its first \<open>range_count\<close> elements, the only ones read.\<close>

definition MAX_ADDR_RANGES :: nat where "MAX_ADDR_RANGES = 16"

text \<open>\<open>size_of\<close> of the packed structs\<close>

definition sizeof_mem_region :: nat where "sizeof_mem_region = 2 + 2 + 4 + 4 + 8 + 8 + 4 + 4 + 4 + 4"
definition sizeof_mem_access_desc :: nat where "sizeof_mem_access_desc = 2 + 1 + 1 + 4 + 8"
definition sizeof_composite :: nat where "sizeof_composite = 4 + 4 + 8"
definition sizeof_addr_range :: nat where "sizeof_addr_range = 8 + 4 + 4"

lemmas sizeof_defs = sizeof_mem_region_def sizeof_mem_access_desc_def sizeof_composite_def sizeof_addr_range_def

record parsed_mem_region =
  pm_sender_id :: u16
  pm_receiver_id :: u16
  pm_flags :: u32
  pm_ranges :: "(u64 \<times> u32) list"
  pm_total_page_count :: u32

text \<open>The loop over \<open>n\<close> range descriptors, the first at offset \<open>range_off\<close>.\<close>

fun parse_ranges :: "gmem \<Rightarrow> u64 \<Rightarrow> nat \<Rightarrow> nat \<Rightarrow> nat \<Rightarrow> u32 + (u64 \<times> u32) list" where
  "parse_ranges m tx_ptr tot range_off 0 = Inr []"
| "parse_ranges m tx_ptr tot range_off (Suc n) =
    (if range_off + sizeof_addr_range > tot then Inl FFA_INVALID_PARAMETERS
     else let range_ptr = tx_ptr + of_nat range_off;
              address = rd64 m range_ptr;
              page_count = rd32 m (range_ptr + 8) in
          if address AND 0xFFF \<noteq> 0 then Inl FFA_INVALID_PARAMETERS
          else (case parse_ranges m tx_ptr tot (range_off + sizeof_addr_range) n of
                  Inl e \<Rightarrow> Inl e
                | Inr rs \<Rightarrow> Inr ((address, page_count) # rs)))"

definition parse_mem_region :: "gmem \<Rightarrow> u64 \<Rightarrow> u32 \<Rightarrow> u32 + parsed_mem_region" where
  "parse_mem_region m tx_ptr total_length =
    (let tot = unat total_length in
     if tot < sizeof_mem_region then Inl FFA_INVALID_PARAMETERS
     else let sender_id = rd16 m tx_ptr;
              flags = rd32 m (tx_ptr + 8);
              receiver_count = rd32 m (tx_ptr + 32);
              receivers_offset = rd32 m (tx_ptr + 36) in
     if receiver_count = 0 \<or> receiver_count > 1 then Inl FFA_INVALID_PARAMETERS
     else let access_offset = unat receivers_offset;
              access_end = access_offset + sizeof_mem_access_desc in
     if access_end > tot then Inl FFA_INVALID_PARAMETERS
     else let access_ptr = tx_ptr + of_nat access_offset;
              receiver_id = rd16 m access_ptr;
              composite_offset = rd32 m (access_ptr + 4);
              comp_offset = unat composite_offset;
              comp_end = comp_offset + sizeof_composite in
     if comp_end > tot then Inl FFA_INVALID_PARAMETERS
     else let comp_ptr = tx_ptr + of_nat comp_offset;
              total_page_count = rd32 m comp_ptr;
              address_range_count = rd32 m (comp_ptr + 4) in
     if address_range_count = 0 then Inl FFA_INVALID_PARAMETERS
     else let count = min (unat address_range_count) MAX_ADDR_RANGES in
     case parse_ranges m tx_ptr tot comp_end count of
       Inl e \<Rightarrow> Inl e
     | Inr rs \<Rightarrow> Inr \<lparr>pm_sender_id = sender_id, pm_receiver_id = receiver_id, pm_flags = flags,
                      pm_ranges = rs, pm_total_page_count = total_page_count\<rparr>)"

text \<open>\<open>build_test_descriptor\<close>; the loop that writes the ranges.\<close>

fun write_ranges :: "gmem \<Rightarrow> u64 \<Rightarrow> nat \<Rightarrow> (u64 \<times> u32) list \<Rightarrow> gmem" where
  "write_ranges m buf off [] = m"
| "write_ranges m buf off ((addr, count) # rs) =
    write_ranges (wr32 (wr64 m (buf + of_nat off) addr) (buf + of_nat off + 8) count) buf (off + 16) rs"

definition build_test_descriptor :: "gmem \<Rightarrow> u64 \<Rightarrow> u16 \<Rightarrow> u16 \<Rightarrow> (u64 \<times> u32) list \<Rightarrow> u32 \<times> gmem" where
  "build_test_descriptor m buf sender_id receiver_id rs =
    (let m = fill_bytes m buf 0 128;
         m = wr16 m buf sender_id;
         m = wr32 m (buf + 32) 1;
         m = wr32 m (buf + 36) 48;
         m = wr16 m (buf + 48) receiver_id;
         m = wr32 m (buf + 48 + 4) 64;
         m = wr32 m (buf + 64) (sum_list (map snd rs));
         m = wr32 m (buf + 64 + 4) (of_nat (length rs));
         m = write_ranges m buf 80 rs in
     (of_nat (80 + length rs * 16), m))"

section \<open>The parser reads what the builder wrote\<close>

text \<open>Reads and writes at constant offsets of one buffer.\<close>

lemma get_put_num:
  "\<lbrakk>numeral b + n \<le> (numeral a :: nat) \<or> numeral a + length bs \<le> (numeral b :: nat);
    numeral a + length bs < (2 ^ 61 :: nat); numeral b + n < (2 ^ 61 :: nat)\<rbrakk> \<Longrightarrow>
   get_bytes (put_bytes m (buf + numeral a) bs) (buf + numeral b) n = get_bytes m (buf + numeral b) n"
  using get_put_off [of "numeral b" n "numeral a" bs m buf] by simp

lemma get_put_num_base:
  "\<lbrakk>n \<le> (numeral a :: nat); numeral a + length bs < (2 ^ 61 :: nat); n < (2 ^ 61 :: nat)\<rbrakk> \<Longrightarrow>
   get_bytes (put_bytes m (buf + numeral a) bs) buf n = get_bytes m buf n"
  using get_put_off [of 0 n "numeral a" bs m buf] by simp

lemma get_put_base_num:
  "\<lbrakk>length bs \<le> (numeral b :: nat); length bs < (2 ^ 61 :: nat); numeral b + n < (2 ^ 61 :: nat)\<rbrakk> \<Longrightarrow>
   get_bytes (put_bytes m buf bs) (buf + numeral b) n = get_bytes m (buf + numeral b) n"
  using get_put_off [of "numeral b" n 0 bs m buf] by simp

lemma get_fill: "numeral b + n \<le> N \<Longrightarrow> N < 2 ^ 61 \<Longrightarrow>
   get_bytes (put_bytes m buf (replicate N v)) (buf + numeral b) n = replicate n v"
proof (rule nth_equalityI)
  fix i assume a: "numeral b + n \<le> N" "N < 2 ^ 61"
    "i < length (get_bytes (put_bytes m buf (replicate N v)) (buf + numeral b) n)"
  hence i: "numeral b + i < (2 ^ 62 :: nat)" "numeral b + i < N" "i < n" by simp_all
  have "buf + numeral b + of_nat i - buf = (of_nat (numeral b + i) :: u64)" by simp
  moreover have "unat (of_nat (numeral b + i) :: u64) = numeral b + i"
    using i(1) by (subst unat_of_nat) simp
  ultimately have "unat (buf + numeral b + of_nat i - buf) = numeral b + i" by simp
  thus "get_bytes (put_bytes m buf (replicate N v)) (buf + numeral b) n ! i = replicate n v ! i"
    using i a by (simp add: get_bytes_def put_bytes_apply)
qed simp

lemma write_ranges_frame:
  "o2 + n \<le> off \<Longrightarrow> off + 16 * length rs < 2 ^ 60 \<Longrightarrow>
   get_bytes (write_ranges m buf off rs) (buf + of_nat o2) n = get_bytes m (buf + of_nat o2) n"
proof (induction rs arbitrary: m off)
  case (Cons r rs)
  obtain addr count where r: "r = (addr, count)" by fastforce
  have "get_bytes (put_bytes (put_bytes m (buf + of_nat off) (to_le 8 addr)) (buf + of_nat (off + 8)) (to_le 4 count))
      (buf + of_nat o2) n = get_bytes m (buf + of_nat o2) n"
    using Cons.prems by (subst get_put_off, simp, simp, simp, subst get_put_off) simp_all
  moreover have "buf + of_nat off + 8 = buf + of_nat (off + 8)" by simp
  ultimately show ?case
    using Cons.prems Cons.IH [of "off + 16" "wr32 (wr64 m (buf + of_nat off) addr) (buf + of_nat off + 8) count"]
    by (simp only: r write_ranges.simps wr32_def wr64_def) simp
qed simp

lemma parse_written_ranges:
  "\<lbrakk>n \<le> length rs; \<forall>(a, c)\<in>set (take n rs). a AND 0xFFF = 0; off + 16 * length rs \<le> tot; tot < 2 ^ 60\<rbrakk> \<Longrightarrow>
   parse_ranges (write_ranges m buf off rs) buf tot off n = Inr (take n rs)"
proof (induction rs arbitrary: m off n)
  case (Cons r rs)
  obtain addr count where r: "r = (addr, count)" by fastforce
  show ?case
  proof (cases n)
    case (Suc k)
    let ?m1 = "wr32 (wr64 m (buf + of_nat off) addr) (buf + of_nat off + 8) count"
    have e8: "buf + of_nat off + 8 = buf + of_nat (off + 8)" by simp
    have fr: "get_bytes (write_ranges ?m1 buf (off + 16) rs) (buf + of_nat o2) k' = get_bytes ?m1 (buf + of_nat o2) k'"
      if "o2 + k' \<le> off + 16" for o2 k'
      using that Cons.prems by (intro write_ranges_frame) simp_all
    have "get_bytes ?m1 (buf + of_nat off) 8 = to_le 8 addr"
      unfolding wr32_def wr64_def e8 using Cons.prems by (subst get_put_off) (simp_all add: get_put_same)
    moreover have "get_bytes ?m1 (buf + of_nat (off + 8)) 4 = to_le 4 count"
      unfolding wr32_def e8 by (rule get_put_same) simp_all
    ultimately have g: "get_bytes (write_ranges ?m1 buf (off + 16) rs) (buf + of_nat off) 8 = to_le 8 addr"
      "get_bytes (write_ranges ?m1 buf (off + 16) rs) (buf + of_nat (off + 8)) 4 = to_le 4 count"
      by ((subst fr; simp only: add_le_cancel_left add.assoc; simp)+)
    hence rd: "rd64 (write_ranges ?m1 buf (off + 16) rs) (buf + of_nat off) = addr"
      "rd32 (write_ranges ?m1 buf (off + 16) rs) (buf + of_nat off + 8) = count"
      by (simp_all only: rd64_def rd32_def e8) (simp_all add: of_le_to_le)
    have "parse_ranges (write_ranges ?m1 buf (off + 16) rs) buf tot (off + 16) k = Inr (take k rs)"
      by (rule Cons.IH) (use Cons.prems Suc in auto)
    thus ?thesis using Cons.prems Suc r rd by (simp add: sizeof_addr_range_def Let_def)
  qed simp
qed simp

lemma of_le_zeros: "of_le (replicate n 0) = 0"
  by (induction n) simp_all

text \<open>The fields of the header after the builder has run.\<close>

lemma built_header:
  assumes "build_test_descriptor m buf s r rs = (len, m')" "length rs < 2 ^ 27"
  shows "rd16 m' buf = s" "rd32 m' (buf + 8) = 0" "rd32 m' (buf + 32) = 1" "rd32 m' (buf + 36) = 48"
    "rd16 m' (buf + 48) = r" "rd32 m' (buf + 48 + 4) = 64" "rd32 m' (buf + 64) = sum_list (map snd rs)"
    "rd32 m' (buf + 64 + 4) = of_nat (length rs)"
proof -
  have fr: "get_bytes (write_ranges m1 buf 80 rs) (buf + numeral b) n = get_bytes m1 (buf + numeral b) n"
    if "numeral b + n \<le> (80 :: nat)" for m1 b n
    using write_ranges_frame [of "numeral b" n 80 rs m1 buf] that assms(2) by simp
  have fr0: "get_bytes (write_ranges m1 buf 80 rs) buf n = get_bytes m1 buf n" if "n \<le> 80" for m1 n
    using write_ranges_frame [of 0 n 80 rs m1 buf] that assms(2) by simp
  note rules = rd16_def rd32_def wr16_def wr32_def fill_bytes_def fr fr0 get_put_num get_put_num_base
    get_put_base_num get_put_same of_le_to_le get_fill of_le_zeros
  have m': "m' = write_ranges (wr32 (wr32 (wr32 (wr16 (wr32 (wr32 (wr16 (fill_bytes m buf 0 128) buf s) (buf + 32) 1)
      (buf + 36) 48) (buf + 48) r) (buf + 52) 64) (buf + 64) (sum_list (map snd rs))) (buf + 68) (of_nat (length rs))) buf 80 rs"
    using assms(1) by (simp add: build_test_descriptor_def Let_def add.assoc)
  show "rd16 m' buf = s" unfolding m' by (simp add: rules)
  show "rd32 m' (buf + 8) = 0" unfolding m' by (simp add: rules)
  show "rd32 m' (buf + 32) = 1" unfolding m' by (simp add: rules)
  show "rd32 m' (buf + 36) = 48" unfolding m' by (simp add: rules)
  show "rd16 m' (buf + 48) = r" unfolding m' by (simp add: rules)
  show "rd32 m' (buf + 48 + 4) = 64" unfolding m' by (simp add: rules add.assoc)
  show "rd32 m' (buf + 64) = sum_list (map snd rs)" unfolding m' by (simp add: rules)
  show "rd32 m' (buf + 64 + 4) = of_nat (length rs)" unfolding m' by (simp add: rules add.assoc)
qed

lemma built_ranges:
  assumes "build_test_descriptor m buf s r rs = (len, m')"
  shows "\<exists>m1. m' = write_ranges m1 buf 80 rs" "len = of_nat (80 + length rs * 16)"
  using assms by (auto simp: build_test_descriptor_def Let_def)

lemma parse_built:
  assumes "build_test_descriptor m buf s r rs = (len, m')" "rs \<noteq> []" "length rs < 2 ^ 27"
    "\<forall>(a, c)\<in>set (take 16 rs). a AND 0xFFF = 0"
  shows "parse_mem_region m' buf len = Inr \<lparr>pm_sender_id = s, pm_receiver_id = r, pm_flags = 0,
    pm_ranges = take 16 rs, pm_total_page_count = sum_list (map snd rs)\<rparr>"
proof -
  note h = built_header [OF assms(1,3)]
  obtain m1 where m1: "m' = write_ranges m1 buf 80 rs" using built_ranges [OF assms(1)] by blast
  have n: "unat (of_nat (length rs) :: u32) = length rs" using assms(3) by (subst unat_of_nat) simp
  hence nz: "(of_nat (length rs) :: u32) \<noteq> 0" using assms(2) by (metis length_0_conv unat_0)
  have l: "unat len = 80 + length rs * 16"
    unfolding built_ranges(2) [OF assms(1)] using assms(3) by (subst unat_of_nat) simp
  have "parse_ranges m' buf (unat len) 80 (min (length rs) 16) = Inr (take (min (length rs) 16) rs)"
    unfolding m1 by (rule parse_written_ranges) (use assms l in \<open>auto simp: min_def\<close>)
  moreover have "take (min (length rs) 16) rs = take 16 rs" by (simp add: min_def)
  ultimately show ?thesis
    using l h n nz by (simp add: parse_mem_region_def sizeof_defs MAX_ADDR_RANGES_def Let_def)
qed

text \<open>C34: The parser reads back what the builder wrote: sender, receiver and the ranges in their order.
  Of more than sixteen ranges it returns the first sixteen, with the page count of all of them.\<close>

theorem descriptor_roundtrip:
  assumes "build_test_descriptor m buf s r rs = (len, m')" "rs \<noteq> []" "length rs < 2 ^ 27"
    "\<forall>(a, c)\<in>set (take 16 rs). a AND 0xFFF = 0"
  shows "parse_mem_region m' buf len = Inr \<lparr>pm_sender_id = s, pm_receiver_id = r, pm_flags = 0,
    pm_ranges = take 16 rs, pm_total_page_count = sum_list (map snd rs)\<rparr>"
  using assms by (rule parse_built)

theorem descriptor_roundtrip_witness:
  "parse_mem_region (snd (build_test_descriptor (\<lambda>_. 7) 0x48001000 1 0x8001 [(0x50000000, 2), (0x50010000, 1)]))
     0x48001000 112 = Inr \<lparr>pm_sender_id = 1, pm_receiver_id = 0x8001, pm_flags = 0,
       pm_ranges = [(0x50000000, 2), (0x50010000, 1)], pm_total_page_count = 3\<rparr>"
proof -
  have "fst (build_test_descriptor (\<lambda>_. 7) 0x48001000 1 0x8001 [(0x50000000, 2), (0x50010000, 1)]) = 112"
    by (simp add: build_test_descriptor_def Let_def)
  hence "build_test_descriptor (\<lambda>_. 7) 0x48001000 1 0x8001 [(0x50000000, 2), (0x50010000, 1)] =
    (112, snd (build_test_descriptor (\<lambda>_. 7) 0x48001000 1 0x8001 [(0x50000000, 2), (0x50010000, 1)]))"
    by (metis prod.collapse)
  from descriptor_roundtrip [OF this] show ?thesis by simp
qed

end
