(* ===== verification/Ffa_Proxy.thy ===== *)
theory Ffa_Proxy
  imports Stage2_Vms Ffa_Notifications Ffa_Shares Ffa_Descriptors
begin

text \<open>The FF-A proxy (\<open>src/ffa/proxy.rs\<close>): the handlers of the FF-A calls of a guest and their dispatch.
  A handler maps the guest's registers and the proxy's state to new ones; \<^term>\<open>None\<close> is a panic.  All
  handlers return \<open>true\<close> (continue the guest), which is left out.  The secure world behind an SMC is the
  parameter \<open>env_smc8\<close>: it answers in eight registers and may write memory (the proxy's RX buffer).\<close>

type_synonym gp_regs = "nat \<Rightarrow> u64"

record ffa_env =
  env_linux_guest :: bool
  env_tfa_boot :: bool
  env_smc8 :: "gp_regs \<Rightarrow> gmem \<Rightarrow> gp_regs \<times> gmem"
  env_proxy_tx :: u64
  env_proxy_rx :: u64

record ffa_state =
  fs_heap :: heap
  fs_mem :: gmem
  fs_mailboxes :: "mailbox list"
  fs_notif :: notif_states
  fs_shares :: shares
  fs_spmc_present :: bool
  fs_rxtx_registered :: bool
  fs_vm_id :: nat
  fs_vttbr :: u64
  fs_per_vm_vttbr :: "u64 list"

type_synonym ffa_handler = "gp_regs \<Rightarrow> ffa_state \<Rightarrow> (gp_regs \<times> ffa_state) or_panic"

definition ffa_error :: "u32 \<Rightarrow> gp_regs \<Rightarrow> gp_regs" where
  "ffa_error error_code r = r(0 := FFA_ERROR, 2 := ucast error_code)"

definition S2AP_NONE :: u64 where "S2AP_NONE = push_bit S2AP_SHIFT 0"
definition S2AP_RO :: u64 where "S2AP_RO = push_bit S2AP_SHIFT 1"
definition S2AP_RW :: u64 where "S2AP_RW = push_bit S2AP_SHIFT 3"

text \<open>\<open>(S2AP_x >> S2AP_SHIFT) as u8\<close>\<close>

definition s2ap_field :: "u64 \<Rightarrow> u8" where
  "s2ap_field x = ucast (drop_bit S2AP_SHIFT x)"

definition GUEST_LOAD_ADDR :: u64 where "GUEST_LOAD_ADDR = 0x48000000"
definition LINUX_MEM_SIZE :: u64 where "LINUX_MEM_SIZE = 1024 * 1024 * 1024"

definition is_guest_ram :: "u64 \<Rightarrow> u64 \<Rightarrow> bool" where
  "is_guest_ram ipa len =
    (let ram_start = GUEST_LOAD_ADDR; ram_size = LINUX_MEM_SIZE in
     ipa \<ge> ram_start \<and> len \<le> ram_size \<and> ipa \<le> ram_start + ram_size - len)"

section \<open>Forwarding to the secure world\<close>

text \<open>\<open>forward_smc8(x0, ..., x7)\<close>\<close>

definition smc_args :: "u64 list \<Rightarrow> gp_regs" where
  "smc_args xs = (\<lambda>i. if i < length xs then xs ! i else 0)"

definition forward_smc8 :: "ffa_env \<Rightarrow> u64 list \<Rightarrow> ffa_state \<Rightarrow> gp_regs \<times> ffa_state" where
  "forward_smc8 env xs s =
    (case env_smc8 env (smc_args xs) (fs_mem s) of (res, m) \<Rightarrow> (res, s\<lparr>fs_mem := m\<rparr>))"

definition probe_spmc :: "ffa_env \<Rightarrow> ffa_state \<Rightarrow> bool \<times> ffa_state" where
  "probe_spmc env s =
    (case forward_smc8 env [0x84000000, 0, 0, 0, 0, 0, 0, 0] s of (res, s) \<Rightarrow>
       (if res 0 = 0xFFFFFFFFFFFFFFFF \<or> res 0 = 0xFFFFFFFF then (False, s) else (False, s)))"

definition ffa_init :: "ffa_env \<Rightarrow> ffa_state \<Rightarrow> ffa_state" where
  "ffa_init env s =
    (if env_tfa_boot env then
       (let s = s\<lparr>fs_spmc_present := True\<rparr> in
        case forward_smc8 env [FFA_RXTX_MAP, env_proxy_tx env, env_proxy_rx env, 1, 0, 0, 0, 0] s of (res, s) \<Rightarrow>
          if res 0 = FFA_SUCCESS_32 then s\<lparr>fs_rxtx_registered := True\<rparr> else s)
     else
       (case probe_spmc env s of (b, s) \<Rightarrow> if b then s\<lparr>fs_spmc_present := True\<rparr> else s))"

definition forward_ffa_to_spmc :: "ffa_env \<Rightarrow> ffa_handler" where
  "forward_ffa_to_spmc env r s =
    (case forward_smc8 env (map r [0..<8]) s of (res, s) \<Rightarrow>
       Some (\<lambda>i. if i < 8 then res i else r i, s))"

section \<open>Handlers answered locally\<close>

definition handle_version :: ffa_handler where
  "handle_version r s = Some (r(0 := ucast FFA_VERSION_1_1), s)"

definition handle_id_get :: ffa_handler where
  "handle_id_get r s = Some (r(0 := FFA_SUCCESS_32, 2 := ucast (vm_id_to_partition_id (fs_vm_id s))), s)"

definition supported_fids :: "u64 list" where
  "supported_fids =
    [FFA_VERSION, FFA_ID_GET, FFA_FEATURES, FFA_RXTX_MAP, FFA_RXTX_UNMAP, FFA_RX_RELEASE,
     FFA_PARTITION_INFO_GET, FFA_MSG_SEND_DIRECT_REQ_32, FFA_MSG_SEND_DIRECT_REQ_64,
     FFA_MEM_SHARE_32, FFA_MEM_SHARE_64, FFA_MEM_LEND_32, FFA_MEM_LEND_64, FFA_MEM_RECLAIM,
     FFA_MEM_RETRIEVE_REQ_32, FFA_MEM_RETRIEVE_REQ_64, FFA_MEM_RELINQUISH, FFA_SPM_ID_GET, FFA_RUN,
     FFA_NOTIFICATION_BITMAP_CREATE, FFA_NOTIFICATION_BITMAP_DESTROY, FFA_NOTIFICATION_BIND,
     FFA_NOTIFICATION_UNBIND, FFA_NOTIFICATION_SET, FFA_NOTIFICATION_GET,
     FFA_NOTIFICATION_INFO_GET_32, FFA_NOTIFICATION_INFO_GET_64, FFA_MSG_SEND2, FFA_MSG_WAIT]"

definition handle_features :: ffa_handler where
  "handle_features r s =
    (let queried_fid = r 1 in
     if queried_fid \<in> set supported_fids then Some (r(0 := FFA_SUCCESS_32, 2 := 0), s)
     else Some (ffa_error FFA_NOT_SUPPORTED r, s))"

text \<open>\<open>*mailbox::get_mailbox(vm_id) = mb\<close>\<close>

definition set_mailbox :: "nat \<Rightarrow> mailbox \<Rightarrow> ffa_state \<Rightarrow> ffa_state" where
  "set_mailbox vm_id mb s = s\<lparr>fs_mailboxes := (fs_mailboxes s)[vm_id := mb]\<rparr>"

definition handle_rxtx_map :: "ffa_env \<Rightarrow> ffa_handler" where
  "handle_rxtx_map env r s =
    (let tx_ipa = r 1; rx_ipa = r 2; page_count = (ucast (r 3) :: u32) in
     if tx_ipa AND 0xFFF \<noteq> 0 \<or> rx_ipa AND 0xFFF \<noteq> 0 \<or> page_count = 0 \<or> page_count > 1
     then Some (ffa_error FFA_INVALID_PARAMETERS r, s)
     else if env_linux_guest env \<and>
       (let buf_size = ucast page_count * 4096 in
        \<not> is_guest_ram tx_ipa buf_size \<or> \<not> is_guest_ram rx_ipa buf_size)
     then Some (ffa_error FFA_INVALID_PARAMETERS r, s)
     else do {
       mbox \<leftarrow> get_mailbox (fs_mailboxes s) (fs_vm_id s);
       if mb_mapped mbox then Some (ffa_error FFA_DENIED r, s)
       else Some (r(0 := FFA_SUCCESS_32),
         set_mailbox (fs_vm_id s) (mbox\<lparr>mb_tx_ipa := tx_ipa, mb_rx_ipa := rx_ipa, mb_page_count := page_count,
           mb_mapped := True, mb_rx_held_by_proxy := True\<rparr>) s)
     })"

definition handle_rxtx_unmap :: ffa_handler where
  "handle_rxtx_unmap r s = do {
     mbox \<leftarrow> get_mailbox (fs_mailboxes s) (fs_vm_id s);
     if \<not> mb_mapped mbox then Some (ffa_error FFA_DENIED r, s)
     else Some (r(0 := FFA_SUCCESS_32), set_mailbox (fs_vm_id s) mailbox_new s)
   }"

definition handle_rx_release :: ffa_handler where
  "handle_rx_release r s = do {
     mbox \<leftarrow> get_mailbox (fs_mailboxes s) (fs_vm_id s);
     if \<not> mb_mapped mbox then Some (ffa_error FFA_DENIED r, s)
     else Some (r(0 := FFA_SUCCESS_32),
       set_mailbox (fs_vm_id s) (mbox\<lparr>mb_rx_held_by_proxy := True, mb_msg_pending := False\<rparr>) s)
   }"

section \<open>Partition discovery and direct messages\<close>

text \<open>The loop that writes one 8-byte descriptor per stub partition.\<close>

fun write_partitions :: "gmem \<Rightarrow> u64 \<Rightarrow> stub_partition list \<Rightarrow> gmem" where
  "write_partitions m p [] = m"
| "write_partitions m p (sp # sps) =
    write_partitions (wr32 (wr16 (wr16 m p (stp_id sp)) (p + 2) (stp_exec_ctx_count sp)) (p + 4) (stp_properties sp))
      (p + 8) sps"

text \<open>The branch that asks the SPMC; \<open>count * 24\<close> is a \<open>usize\<close> product.\<close>

definition partition_info_from_spmc :: "ffa_env \<Rightarrow> mailbox \<Rightarrow> ffa_handler" where
  "partition_info_from_spmc env mbox r s =
    (if \<not> fs_rxtx_registered s then Some (ffa_error FFA_DENIED r, s)
     else case forward_smc8 env [FFA_PARTITION_INFO_GET, r 1, r 2, r 3, r 4, 0, 0, 0] s of (result, s) \<Rightarrow>
       if result 0 \<noteq> FFA_SUCCESS_32 then Some (r(0 := result 0, 2 := result 2), s)
       else let count = unat (result 2); bytes = count * 24;
                max_bytes = min 4096 (unat (mb_page_count mbox) * 4096) in
         if bytes \<ge> 2 ^ 64 then None
         else if bytes > max_bytes then Some (ffa_error FFA_NO_MEMORY r, s)
         else let s = s\<lparr>fs_mem := copy_bytes (fs_mem s) (env_proxy_rx env) (mb_rx_ipa mbox) bytes\<rparr> in
           case forward_smc8 env [FFA_RX_RELEASE, 0, 0, 0, 0, 0, 0, 0] s of (release_result, s) \<Rightarrow>
             Some (r(0 := FFA_SUCCESS_32, 2 := of_nat count),
               set_mailbox (fs_vm_id s) (mbox\<lparr>mb_rx_held_by_proxy := False\<rparr>) s))"

definition handle_partition_info_get :: "ffa_env \<Rightarrow> ffa_handler" where
  "handle_partition_info_get env r s = do {
     mbox \<leftarrow> get_mailbox (fs_mailboxes s) (fs_vm_id s);
     if \<not> mb_mapped mbox then Some (ffa_error FFA_DENIED r, s)
     else if \<not> mb_rx_held_by_proxy mbox then Some (ffa_error FFA_BUSY r, s)
     else if env_tfa_boot env \<and> fs_spmc_present s then partition_info_from_spmc env mbox r s
     else Some (r(0 := FFA_SUCCESS_32, 2 := of_nat partition_count),
       set_mailbox (fs_vm_id s) (mbox\<lparr>mb_rx_held_by_proxy := False\<rparr>)
         (s\<lparr>fs_mem := write_partitions (fs_mem s) (mb_rx_ipa mbox) STUB_PARTITIONS\<rparr>))
   }"

definition handle_msg_send_direct_req :: "ffa_env \<Rightarrow> ffa_handler" where
  "handle_msg_send_direct_req env r s =
    (let sender = (ucast (drop_bit 16 (r 1) AND 0xFFFF) :: u16); receiver = (ucast (r 1 AND 0xFFFF) :: u16) in
     if sender \<noteq> vm_id_to_partition_id (fs_vm_id s) then Some (ffa_error FFA_INVALID_PARAMETERS r, s)
     else if fs_spmc_present s \<and> receiver \<ge> FFA_SPMC_ID then forward_ffa_to_spmc env r s
     else if \<not> is_valid_sp receiver then Some (ffa_error FFA_INVALID_PARAMETERS r, s)
     else let is_64bit = (r 0 = FFA_MSG_SEND_DIRECT_REQ_64) in
       Some (r(0 := if is_64bit then FFA_MSG_SEND_DIRECT_RESP_64 else FFA_MSG_SEND_DIRECT_RESP_32,
               1 := push_bit 16 (ucast receiver) OR ucast sender,
               3 := r 3, 4 := r 4, 5 := r 5, 6 := r 6, 7 := r 7), s))"

section \<open>Memory sharing\<close>

text \<open>The pages of a list of ranges, in the order of the nested loops.\<close>

definition range_pages :: "(u64 \<times> u32) list \<Rightarrow> u64 list" where
  "range_pages rs = concat (map (\<lambda>(base_ipa, page_count).
     map (\<lambda>p. base_ipa + of_nat p * PAGE_SIZE_4KB) [0..<unat page_count]) rs)"

fun validate_pages :: "pmem \<Rightarrow> u64 \<Rightarrow> u64 list \<Rightarrow> u32 + unit" where
  "validate_pages m l0 [] = Inr ()"
| "validate_pages m l0 (ipa # ipas) =
    (case read_sw_bits m l0 ipa of
       Some sw \<Rightarrow> (case validate_page_for_share sw of
                     Inl code \<Rightarrow> Inl code
                   | Inr _ \<Rightarrow> validate_pages m l0 ipas)
     | None \<Rightarrow> Inl FFA_DENIED)"

definition transition_pages :: "u64 \<Rightarrow> u8 \<Rightarrow> u8 \<Rightarrow> u64 list \<Rightarrow> heap \<Rightarrow> heap" where
  "transition_pages l0 sw ap ipas h =
    fold (\<lambda>ipa h. snd (set_s2ap l0 ipa ap (snd (write_sw_bits l0 ipa sw h)))) ipas h"

definition parse_share_descriptor ::
  "gmem \<Rightarrow> gp_regs \<Rightarrow> mailbox \<Rightarrow> u32 + (u16 \<times> u16 \<times> (u64 \<times> u32) list \<times> u32)" where
  "parse_share_descriptor m r mbox =
    (let total_length = (ucast (r 1) :: u32); fragment_length = (ucast (r 2) :: u32) in
     if total_length \<noteq> fragment_length \<or> total_length = 0 then Inl FFA_INVALID_PARAMETERS
     else case parse_mem_region m (mb_tx_ipa mbox) total_length of
       Inl e \<Rightarrow> Inl e
     | Inr p \<Rightarrow> Inr (pm_sender_id p, pm_receiver_id p, pm_ranges p, pm_total_page_count p))"

text \<open>The choice between the descriptor in the TX buffer and the registers.\<close>

definition share_request :: "gmem \<Rightarrow> gp_regs \<Rightarrow> mailbox \<Rightarrow> u32 + (u16 \<times> u16 \<times> (u64 \<times> u32) list \<times> u32)" where
  "share_request m r mbox =
    (if mb_mapped mbox then parse_share_descriptor m r mbox
     else let base_ipa = r 3; page_count = (ucast (r 4) :: u32); receiver_id = (ucast (r 5) :: u16) in
       if page_count = 0 then Inl FFA_INVALID_PARAMETERS
       else Inr (0, receiver_id, [(base_ipa, page_count)], page_count))"

text \<open>The part under \<open>linux_guest\<close>: check all pages, then change all of them.\<close>

definition share_pages :: "ffa_env \<Rightarrow> bool \<Rightarrow> (u64 \<times> u32) list \<Rightarrow> ffa_state \<Rightarrow> u32 + ffa_state" where
  "share_pages env is_lend rs s =
    (let l0 = walker_from_vttbr (fs_vttbr s) in
     if env_linux_guest env \<and> has_stage2 l0 then
       (case validate_pages (h_mem (fs_heap s)) l0 (range_pages rs) of
          Inl code \<Rightarrow> Inl code
        | Inr _ \<Rightarrow>
            Inr (s\<lparr>fs_heap := transition_pages l0 (ownership_bits SharedOwned)
              (if is_lend then s2ap_field S2AP_NONE else s2ap_field S2AP_RO) (range_pages rs) (fs_heap s)\<rparr>))
     else Inr s)"

definition handle_mem_share_or_lend :: "ffa_env \<Rightarrow> bool \<Rightarrow> ffa_handler" where
  "handle_mem_share_or_lend env is_lend r s = do {
     mbox \<leftarrow> get_mailbox (fs_mailboxes s) (fs_vm_id s);
     case share_request (fs_mem s) r mbox of
       Inl code \<Rightarrow> Some (ffa_error code r, s)
     | Inr (sender_id_from_desc, receiver_id, rs, total_page_count) \<Rightarrow>
         let expected_sender = vm_id_to_partition_id (fs_vm_id s) in
         if \<not> is_valid_receiver receiver_id then Some (ffa_error FFA_INVALID_PARAMETERS r, s)
         else if sender_id_from_desc \<noteq> 0 \<and> sender_id_from_desc \<noteq> expected_sender
         then Some (ffa_error FFA_INVALID_PARAMETERS r, s)
         else case share_pages env is_lend rs s of
           Inl code \<Rightarrow> Some (ffa_error code r, s)
         | Inr s \<Rightarrow>
             (case record_share expected_sender receiver_id rs total_page_count is_lend (fs_shares s) of
                (Some h, sh) \<Rightarrow>
                  Some (r(0 := FFA_SUCCESS_32, 2 := h AND 0xFFFFFFFF, 3 := drop_bit 32 h), s\<lparr>fs_shares := sh\<rparr>)
              | (None, sh) \<Rightarrow> Some (ffa_error FFA_NO_MEMORY r, s\<lparr>fs_shares := sh\<rparr>))
   }"

definition handle_mem_share :: "ffa_env \<Rightarrow> ffa_handler" where
  "handle_mem_share env = handle_mem_share_or_lend env False"

definition handle_mem_lend :: "ffa_env \<Rightarrow> ffa_handler" where
  "handle_mem_lend env = handle_mem_share_or_lend env True"

text \<open>The handle in the registers \<open>x1\<close> (low half) and \<open>x2\<close> (high half).\<close>

definition reg_handle :: "gp_regs \<Rightarrow> u64" where
  "reg_handle r = (r 1 AND 0xFFFFFFFF) OR push_bit 32 (r 2 AND 0xFFFFFFFF)"

text \<open>The ranges that a record really holds: \<open>info.ranges[..info.range_count]\<close>.\<close>

definition share_ranges :: "share_record \<Rightarrow> (u64 \<times> u32) list" where
  "share_ranges info = take (sr_range_count info) (sr_ranges info)"

definition handle_mem_reclaim :: "ffa_env \<Rightarrow> ffa_handler" where
  "handle_mem_reclaim env r s =
    (let h = reg_handle r in
     case lookup_share_full h (fs_shares s) of
       None \<Rightarrow> Some (ffa_error FFA_INVALID_PARAMETERS r, s)
     | Some info \<Rightarrow>
         if sr_retrieved info then Some (ffa_error FFA_DENIED r, s)
         else let l0 = walker_from_vttbr (fs_vttbr s);
                  s = (if env_linux_guest env \<and> has_stage2 l0
                       then s\<lparr>fs_heap := transition_pages l0 (ownership_bits Owned) (s2ap_field S2AP_RW)
                              (range_pages (share_ranges info)) (fs_heap s)\<rparr>
                       else s) in
           Some (r(0 := FFA_SUCCESS_32), s\<lparr>fs_shares := snd (reclaim_share h (fs_shares s))\<rparr>))"

text \<open>The receiver's root table, from \<open>PER_VM_VTTBR\<close>; the index is bounds-checked.\<close>

definition receiver_root :: "u16 \<Rightarrow> ffa_state \<Rightarrow> u64 or_panic" where
  "receiver_root receiver_id s = do {
     recv_vm_id \<leftarrow> partition_id_to_vm_id receiver_id;
     if recv_vm_id < length (fs_per_vm_vttbr s) then Some (fs_per_vm_vttbr s ! recv_vm_id) else None
   }"

definition retrieve_pages :: "ffa_env \<Rightarrow> share_record \<Rightarrow> ffa_state \<Rightarrow> (bool \<times> ffa_state) or_panic" where
  "retrieve_pages env info s =
    (if is_vm_partition (sr_receiver_id info) \<and> env_linux_guest env then do {
       l0_pa \<leftarrow> receiver_root (sr_receiver_id info) s;
       if l0_pa \<noteq> 0 then
         (case map_all (\<lambda>ipa. map_page l0_pa ipa (s2ap_field S2AP_RW) (ownership_bits SharedBorrowed))
             (unmap_page l0_pa) [] (range_pages (share_ranges info)) (fs_heap s) of
            (ok, h) \<Rightarrow> Some (ok, s\<lparr>fs_heap := h\<rparr>))
       else Some (True, s)
     }
     else Some (True, s))"

definition handle_mem_retrieve_req :: "ffa_env \<Rightarrow> ffa_handler" where
  "handle_mem_retrieve_req env r s =
    (let h = reg_handle r in
     case lookup_share_full h (fs_shares s) of
       None \<Rightarrow> Some (ffa_error FFA_INVALID_PARAMETERS r, s)
     | Some info \<Rightarrow>
         if vm_id_to_partition_id (fs_vm_id s) \<noteq> sr_receiver_id info then Some (ffa_error FFA_DENIED r, s)
         else if sr_retrieved info then Some (ffa_error FFA_DENIED r, s)
         else do {
           (ok, s) \<leftarrow> retrieve_pages env info s;
           if \<not> ok then Some (ffa_error FFA_DENIED r, s)
           else Some (r(0 := FFA_MEM_RETRIEVE_RESP, 1 := 0, 2 := h AND 0xFFFFFFFF, 3 := drop_bit 32 h),
             s\<lparr>fs_shares := snd (mark_retrieved h (fs_shares s))\<rparr>)
         })"

definition relinquish_pages :: "ffa_env \<Rightarrow> share_record \<Rightarrow> ffa_state \<Rightarrow> ffa_state or_panic" where
  "relinquish_pages env info s =
    (if is_vm_partition (sr_receiver_id info) \<and> env_linux_guest env then do {
       l0_pa \<leftarrow> receiver_root (sr_receiver_id info) s;
       if l0_pa \<noteq> 0
       then Some (s\<lparr>fs_heap := fold (\<lambda>ipa h. snd (unmap_page l0_pa ipa h)) (range_pages (share_ranges info)) (fs_heap s)\<rparr>)
       else Some s
     }
     else Some s)"

definition handle_mem_relinquish :: "ffa_env \<Rightarrow> ffa_handler" where
  "handle_mem_relinquish env r s =
    (let h = reg_handle r in
     case lookup_share_full h (fs_shares s) of
       None \<Rightarrow> Some (ffa_error FFA_INVALID_PARAMETERS r, s)
     | Some info \<Rightarrow>
         if vm_id_to_partition_id (fs_vm_id s) \<noteq> sr_receiver_id info then Some (ffa_error FFA_DENIED r, s)
         else if \<not> sr_retrieved info then Some (ffa_error FFA_DENIED r, s)
         else do {
           s \<leftarrow> relinquish_pages env info s;
           Some (r(0 := FFA_SUCCESS_32), s\<lparr>fs_shares := snd (mark_relinquished h (fs_shares s))\<rparr>)
         })"

section \<open>Supplemental calls, notifications and indirect messages\<close>

definition handle_spm_id_get :: ffa_handler where
  "handle_spm_id_get r s = Some (r(0 := FFA_SUCCESS_32, 2 := ucast FFA_SPMC_ID), s)"

definition handle_run :: "ffa_env \<Rightarrow> ffa_handler" where
  "handle_run env r s =
    (if fs_spmc_present s then forward_ffa_to_spmc env r s else Some (ffa_error FFA_NOT_SUPPORTED r, s))"

text \<open>The common end of the notification handlers that return \<open>Result<(), i32>\<close>.\<close>

definition notif_result :: "gp_regs \<Rightarrow> ffa_state \<Rightarrow> (u32 + unit) \<times> notif_states \<Rightarrow> (gp_regs \<times> ffa_state) or_panic" where
  "notif_result r s res =
    (case res of
       (Inr _, ns) \<Rightarrow> Some (r(0 := FFA_SUCCESS_32), s\<lparr>fs_notif := ns\<rparr>)
     | (Inl code, ns) \<Rightarrow> Some (ffa_error code r, s\<lparr>fs_notif := ns\<rparr>))"

definition reg_sender :: "gp_regs \<Rightarrow> u16" where
  "reg_sender r = ucast (drop_bit 16 (r 1) AND 0xFFFF)"

definition reg_receiver :: "gp_regs \<Rightarrow> u16" where
  "reg_receiver r = ucast (r 1 AND 0xFFFF)"

definition reg_bitmap :: "gp_regs \<Rightarrow> u64" where
  "reg_bitmap r = r 3 OR push_bit 32 (r 4)"

definition handle_notification_bitmap_create :: ffa_handler where
  "handle_notification_bitmap_create r s = notif_result r s (notif_bitmap_create (ucast (r 1)) (fs_notif s))"

definition handle_notification_bitmap_destroy :: ffa_handler where
  "handle_notification_bitmap_destroy r s = notif_result r s (notif_bitmap_destroy (ucast (r 1)) (fs_notif s))"

definition handle_notification_bind :: ffa_handler where
  "handle_notification_bind r s =
    notif_result r s (notif_bind_op (reg_sender r) (reg_receiver r) (ucast (r 2)) (reg_bitmap r) (fs_notif s))"

definition handle_notification_unbind :: ffa_handler where
  "handle_notification_unbind r s =
    notif_result r s (notif_unbind (reg_sender r) (reg_receiver r) (reg_bitmap r) (fs_notif s))"

definition handle_notification_set :: ffa_handler where
  "handle_notification_set r s =
    notif_result r s (notif_set (reg_sender r) (reg_receiver r) (reg_bitmap r) (fs_notif s))"

definition handle_notification_get :: ffa_handler where
  "handle_notification_get r s =
    (case notif_get (ucast (r 1)) (fs_notif s) of
       (Inr pending, ns) \<Rightarrow>
         Some (r(0 := FFA_SUCCESS_32, 2 := pending, 3 := 0, 4 := 0, 5 := 0), s\<lparr>fs_notif := ns\<rparr>)
     | (Inl code, ns) \<Rightarrow> Some (ffa_error code r, s\<lparr>fs_notif := ns\<rparr>))"

fun pack_ids :: "u16 list \<Rightarrow> nat \<Rightarrow> u64 \<Rightarrow> u64" where
  "pack_ids [] i packed = packed"
| "pack_ids (p # ps) i packed = pack_ids ps (i + 1) (packed OR push_bit (i * 16) (ucast p))"

definition handle_notification_info_get :: ffa_handler where
  "handle_notification_info_get r s =
    (let ids = notif_info_get (fs_notif s); count = length ids in
     if count = 0 then Some (ffa_error FFA_NO_DATA r, s)
     else Some (r(0 := FFA_SUCCESS_32, 2 := of_nat count, 3 := pack_ids (take (min count 4) ids) 0 0), s))"

text \<open>\<open>(8 + msg_size) as usize\<close> is a \<open>u32\<close> sum, which panics on overflow in a checked build.\<close>

definition handle_msg_send2 :: ffa_handler where
  "handle_msg_send2 r s = do {
     let vm_id = fs_vm_id s;
     sender_mbox \<leftarrow> get_mailbox (fs_mailboxes s) vm_id;
     if \<not> mb_mapped sender_mbox then Some (ffa_error FFA_DENIED r, s)
     else let tx_ipa = mb_tx_ipa sender_mbox;
              msg_sender_id = rd16 (fs_mem s) tx_ipa;
              msg_receiver_id = rd16 (fs_mem s) (tx_ipa + 2);
              msg_size = rd32 (fs_mem s) (tx_ipa + 4) in
       if msg_sender_id \<noteq> vm_id_to_partition_id vm_id then Some (ffa_error FFA_INVALID_PARAMETERS r, s)
       else case partition_id_to_vm_id msg_receiver_id of
         None \<Rightarrow> Some (ffa_error FFA_INVALID_PARAMETERS r, s)
       | Some recv_vm_id \<Rightarrow> do {
           recv_mbox \<leftarrow> get_mailbox (fs_mailboxes s) recv_vm_id;
           if \<not> mb_mapped recv_mbox then Some (ffa_error FFA_DENIED r, s)
           else if \<not> mb_rx_held_by_proxy recv_mbox then Some (ffa_error FFA_BUSY r, s)
           else if mb_msg_pending recv_mbox then Some (ffa_error FFA_BUSY r, s)
           else if 8 + unat msg_size \<ge> 2 ^ 32 then None
           else let copy_len = min (8 + unat msg_size) 4096 in
             Some (r(0 := FFA_SUCCESS_32),
               set_mailbox recv_vm_id (recv_mbox\<lparr>mb_msg_pending := True, mb_msg_sender_id := msg_sender_id,
                   mb_rx_held_by_proxy := False\<rparr>)
                 (s\<lparr>fs_mem := copy_bytes (fs_mem s) tx_ipa (mb_rx_ipa recv_mbox) copy_len\<rparr>))
         }
   }"

definition handle_msg_wait :: ffa_handler where
  "handle_msg_wait r s = do {
     mbox \<leftarrow> get_mailbox (fs_mailboxes s) (fs_vm_id s);
     if \<not> mb_mapped mbox then Some (ffa_error FFA_DENIED r, s)
     else if mb_msg_pending mbox then Some (r(0 := FFA_SUCCESS_32, 1 := ucast (mb_msg_sender_id mbox)), s)
     else Some (ffa_error FFA_NO_DATA r, s)
   }"

section \<open>Dispatch\<close>

definition handle_ffa_call :: "ffa_env \<Rightarrow> ffa_handler" where
  "handle_ffa_call env r s =
    (let fid = r 0 in
     if fid = FFA_VERSION then handle_version r s
     else if fid = FFA_ID_GET then handle_id_get r s
     else if fid = FFA_FEATURES then handle_features r s
     else if fid = FFA_RXTX_MAP then handle_rxtx_map env r s
     else if fid = FFA_RXTX_UNMAP then handle_rxtx_unmap r s
     else if fid = FFA_RX_RELEASE then handle_rx_release r s
     else if fid = FFA_PARTITION_INFO_GET then handle_partition_info_get env r s
     else if fid = FFA_MSG_SEND_DIRECT_REQ_32 \<or> fid = FFA_MSG_SEND_DIRECT_REQ_64 then handle_msg_send_direct_req env r s
     else if fid = FFA_MEM_SHARE_32 \<or> fid = FFA_MEM_SHARE_64 then handle_mem_share env r s
     else if fid = FFA_MEM_LEND_32 \<or> fid = FFA_MEM_LEND_64 then handle_mem_lend env r s
     else if fid = FFA_MEM_RECLAIM then handle_mem_reclaim env r s
     else if fid = FFA_MEM_RETRIEVE_REQ_32 \<or> fid = FFA_MEM_RETRIEVE_REQ_64 then handle_mem_retrieve_req env r s
     else if fid = FFA_MEM_RELINQUISH then handle_mem_relinquish env r s
     else if fid = FFA_MEM_DONATE_32 \<or> fid = FFA_MEM_DONATE_64 then Some (ffa_error FFA_NOT_SUPPORTED r, s)
     else if fid = FFA_SPM_ID_GET then handle_spm_id_get r s
     else if fid = FFA_RUN then handle_run env r s
     else if fid = FFA_NOTIFICATION_BITMAP_CREATE then handle_notification_bitmap_create r s
     else if fid = FFA_NOTIFICATION_BITMAP_DESTROY then handle_notification_bitmap_destroy r s
     else if fid = FFA_NOTIFICATION_BIND then handle_notification_bind r s
     else if fid = FFA_NOTIFICATION_UNBIND then handle_notification_unbind r s
     else if fid = FFA_NOTIFICATION_SET then handle_notification_set r s
     else if fid = FFA_NOTIFICATION_GET then handle_notification_get r s
     else if fid = FFA_NOTIFICATION_INFO_GET_32 \<or> fid = FFA_NOTIFICATION_INFO_GET_64 then handle_notification_info_get r s
     else if fid = FFA_MSG_SEND2 then handle_msg_send2 r s
     else if fid = FFA_MSG_WAIT then handle_msg_wait r s
     else if fs_spmc_present s then forward_ffa_to_spmc env r s
     else Some (ffa_error FFA_NOT_SUPPORTED r, s))"

end
