(* ===== verification/Ffa_Proxy_Lemmas.thy ===== *)
theory Ffa_Proxy_Lemmas
  imports Ffa_Proxy
begin

text \<open>What the handlers of the proxy do to its state: most of them leave the page tables and the share
  records alone (\<open>light_step\<close>), the four memory handlers change the tables of one VM and one record.\<close>

section \<open>Handlers that leave page tables and share records alone\<close>

definition light_step :: "ffa_state \<Rightarrow> ffa_state \<Rightarrow> bool" where
  "light_step s s' \<longleftrightarrow> fs_heap s' = fs_heap s \<and> fs_shares s' = fs_shares s \<and> fs_vm_id s' = fs_vm_id s \<and>
    fs_vttbr s' = fs_vttbr s \<and> fs_per_vm_vttbr s' = fs_per_vm_vttbr s \<and>
    length (fs_mailboxes s') = length (fs_mailboxes s) \<and> (notif_inv (fs_notif s) \<longrightarrow> notif_inv (fs_notif s'))"

named_theorems light_steps \<open>handlers that make light steps\<close>

lemma light_refl [simp]: "light_step s s"
  by (simp add: light_step_def)

lemma light_mailbox [simp]: "light_step s (set_mailbox v mb s') \<longleftrightarrow> light_step s s'"
  by (simp add: light_step_def set_mailbox_def)

lemma light_mem [simp]: "light_step s (s'\<lparr>fs_mem := m\<rparr>) \<longleftrightarrow> light_step s s'"
  by (simp add: light_step_def)

lemma light_smc [simp]: "light_step s (snd (forward_smc8 env xs s1)) \<longleftrightarrow> light_step s s1"
  by (simp add: forward_smc8_def split: prod.splits)

lemma forward_light [light_steps]: "forward_ffa_to_spmc env r s = Some (r', s') \<Longrightarrow> light_step s s'"
  by (auto simp: forward_ffa_to_spmc_def case_prod_unfold)

lemma local_light [light_steps]:
  "handle_version r s = Some (r', s') \<Longrightarrow> light_step s s'"
  "handle_id_get r s = Some (r', s') \<Longrightarrow> light_step s s'"
  "handle_features r s = Some (r', s') \<Longrightarrow> light_step s s'"
  "handle_spm_id_get r s = Some (r', s') \<Longrightarrow> light_step s s'"
  by (auto simp: handle_version_def handle_id_get_def handle_features_def handle_spm_id_get_def Let_def
      split: if_splits)

lemma mailbox_light [light_steps]:
  "handle_rxtx_map env r s = Some (r', s') \<Longrightarrow> light_step s s'"
  "handle_rxtx_unmap r s = Some (r', s') \<Longrightarrow> light_step s s'"
  "handle_rx_release r s = Some (r', s') \<Longrightarrow> light_step s s'"
  "handle_msg_wait r s = Some (r', s') \<Longrightarrow> light_step s s'"
  by (auto simp: handle_rxtx_map_def handle_rxtx_unmap_def handle_rx_release_def handle_msg_wait_def
      Let_def bind_eq_Some_conv split: if_splits)

lemma info_from_spmc_light: "partition_info_from_spmc env mb r s = Some (r', s') \<Longrightarrow> light_step s s'"
  by (auto simp: partition_info_from_spmc_def Let_def case_prod_unfold split: if_splits)

lemma info_light [light_steps]: "handle_partition_info_get env r s = Some (r', s') \<Longrightarrow> light_step s s'"
  by (auto simp: handle_partition_info_get_def bind_eq_Some_conv split: if_splits dest: info_from_spmc_light)

lemma run_light [light_steps]: "handle_run env r s = Some (r', s') \<Longrightarrow> light_step s s'"
  by (auto simp: handle_run_def split: if_splits dest: forward_light)

lemma direct_light [light_steps]: "handle_msg_send_direct_req env r s = Some (r', s') \<Longrightarrow> light_step s s'"
  unfolding handle_msg_send_direct_req_def Let_def by (elim if_eqE) (simp_all add: forward_light)

lemma send2_light [light_steps]: "handle_msg_send2 r s = Some (r', s') \<Longrightarrow> light_step s s'"
  unfolding handle_msg_send2_def Let_def by (elim branchE) auto

lemma notif_result_light:
  "notif_result r s res = Some (r', s') \<Longrightarrow> (notif_inv (fs_notif s) \<Longrightarrow> notif_inv (snd res)) \<Longrightarrow> light_step s s'"
  by (auto simp: notif_result_def light_step_def split: prod.splits sum.splits)

lemma notification_light [light_steps]:
  "handle_notification_bitmap_create r s = Some (r', s') \<Longrightarrow> light_step s s'"
  "handle_notification_bitmap_destroy r s = Some (r', s') \<Longrightarrow> light_step s s'"
  "handle_notification_bind r s = Some (r', s') \<Longrightarrow> light_step s s'"
  "handle_notification_unbind r s = Some (r', s') \<Longrightarrow> light_step s s'"
  "handle_notification_set r s = Some (r', s') \<Longrightarrow> light_step s s'"
  by (auto simp: handle_notification_bitmap_create_def handle_notification_bitmap_destroy_def
      handle_notification_bind_def handle_notification_unbind_def handle_notification_set_def
      elim!: notif_result_light intro: inv_intros)

lemma notification_get_light [light_steps]:
  "handle_notification_get r s = Some (r', s') \<Longrightarrow> light_step s s'"
  "handle_notification_info_get r s = Some (r', s') \<Longrightarrow> light_step s s'"
  using notif_get_inv [of "fs_notif s" "ucast (r 1)"]
  by (auto simp: handle_notification_get_def handle_notification_info_get_def light_step_def Let_def
      split: prod.splits sum.splits if_splits)

text \<open>Every call is a light step or one of the four memory operations.\<close>

lemma ffa_call_cases:
  assumes "handle_ffa_call env r s = Some (r', s')"
  obtains (light) "light_step s s'"
  | (share) lend where "handle_mem_share_or_lend env lend r s = Some (r', s')"
  | (reclaim) "handle_mem_reclaim env r s = Some (r', s')"
  | (retrieve) "handle_mem_retrieve_req env r s = Some (r', s')"
  | (relinquish) "handle_mem_relinquish env r s = Some (r', s')"
proof -
  have e: "light_step s s'" if "Some (ffa_error c r, s) = Some (r', s')" for c using that by simp
  have "light_step s s' \<or> (\<exists>lend. handle_mem_share_or_lend env lend r s = Some (r', s')) \<or>
      handle_mem_reclaim env r s = Some (r', s') \<or> handle_mem_retrieve_req env r s = Some (r', s') \<or>
      handle_mem_relinquish env r s = Some (r', s')"
    using assms unfolding handle_ffa_call_def Let_def handle_mem_share_def handle_mem_lend_def
    by (elim if_eqE) ((rule disjI1, erule light_steps) | (rule disjI1, erule e) | blast)+
  with that show ?thesis by blast
qed

end
