(* ===== verification/Stage2_Mapper.thy ===== *)
theory Stage2_Mapper
  imports Stage2_Vms
begin

text \<open>The mapper that builds the Stage-2 tables of a VM (\<open>DynamicIdentityMapper\<close> of
  \<open>src/arch/aarch64/mm/mmu.rs\<close>).  It creates the L0 and L1 tables, maps regions by 2MB blocks and
  maps and unmaps single pages, splitting a block on demand.  Its operations are related to the same
  abstract view \<open>s2_desc\<close> as the walker's.\<close>

datatype memory_attribute = AttrNormal | AttrDevice | AttrReadOnly

record dyn_mapper =
  dm_l0_table :: u64
  dm_l1_table :: u64
  dm_l2_tables :: "u64 list"
  dm_l2_count :: nat

definition mapper_attr_bits :: "memory_attribute \<Rightarrow> u64" where
  "mapper_attr_bits attr =
    (case attr of
       AttrNormal \<Rightarrow> push_bit 2 0xF OR push_bit 6 3 OR push_bit 8 3 OR push_bit 10 1
     | AttrDevice \<Rightarrow> push_bit 2 0 OR push_bit 6 3 OR push_bit 8 0 OR push_bit 10 1
     | AttrReadOnly \<Rightarrow> push_bit 2 0xF OR push_bit 6 1 OR push_bit 8 3 OR push_bit 10 1)"

definition make_block_entry :: "u64 \<Rightarrow> memory_attribute \<Rightarrow> u64" where
  "make_block_entry pa attr = (pa AND NOT BLOCK_MASK_2MB) OR mapper_attr_bits attr OR PTE_VALID"

definition make_page_entry :: "u64 \<Rightarrow> memory_attribute \<Rightarrow> u64" where
  "make_page_entry pa attr = (pa AND NOT PAGE_MASK_4KB) OR mapper_attr_bits attr OR PTE_TABLE OR PTE_VALID"

text \<open>\<open>new()\<close>; \<^term>\<open>None\<close> is the panic of \<open>expect\<close>.\<close>

definition mapper_new :: "heap \<Rightarrow> (dyn_mapper \<times> heap) or_panic" where
  "mapper_new h =
    (case alloc_page h of
       (None, h) \<Rightarrow> None
     | (Some l0, h) \<Rightarrow>
         (case alloc_page h of
            (None, h) \<Rightarrow> None
          | (Some l1, h) \<Rightarrow>
              let m = zero_page l0 (h_mem h);
                  m = zero_page l1 m;
                  m = m(l0 := l1 OR (PTE_VALID OR PTE_TABLE))
              in Some (\<lparr>dm_l0_table = l0, dm_l1_table = l1, dm_l2_tables = replicate 4 0, dm_l2_count = 0\<rparr>,
                       h\<lparr>h_mem := m\<rparr>)))"

definition get_or_create_l2 :: "dyn_mapper \<Rightarrow> u64 \<Rightarrow> heap \<Rightarrow> (string + u64) \<times> dyn_mapper \<times> heap" where
  "get_or_create_l2 d i h =
    (let l1_entry = h_mem h (entry_addr (dm_l1_table d) i) in
     if l1_entry AND (PTE_VALID OR PTE_TABLE) = PTE_VALID OR PTE_TABLE
     then (Inr (l1_entry AND NOT PAGE_OFFSET_MASK), d, h)
     else if dm_l2_count d \<ge> 4 then (Inl ''Too many L2 tables'', d, h)
     else
       case alloc_page h of
         (None, h) \<Rightarrow> (Inl ''Failed to allocate L2 table'', d, h)
       | (Some l2, h) \<Rightarrow>
           let m = zero_page l2 (h_mem h);
               d = d\<lparr>dm_l2_tables := (dm_l2_tables d)[dm_l2_count d := l2], dm_l2_count := dm_l2_count d + 1\<rparr>;
               m = m(entry_addr (dm_l1_table d) i := l2 OR (PTE_VALID OR PTE_TABLE))
           in (Inr l2, d, h\<lparr>h_mem := m\<rparr>))"

definition map_block :: "dyn_mapper \<Rightarrow> u64 \<Rightarrow> memory_attribute \<Rightarrow> heap \<Rightarrow> (string + unit) \<times> dyn_mapper \<times> heap" where
  "map_block d current_ipa attr h =
    (case get_or_create_l2 d (l1_idx current_ipa) h of
       (Inl e, d, h) \<Rightarrow> (Inl e, d, h)
     | (Inr l2_table, d, h) \<Rightarrow>
         (Inr (), d, h\<lparr>h_mem := (h_mem h)(entry_addr l2_table (l2_idx current_ipa) :=
            make_block_entry current_ipa attr)\<rparr>))"

text \<open>The loop of \<open>map_region\<close>: \<open>n\<close> blocks remain, the first at offset \<open>off\<close>.\<close>

fun map_blocks :: "nat \<Rightarrow> u64 \<Rightarrow> dyn_mapper \<Rightarrow> u64 \<Rightarrow> memory_attribute \<Rightarrow> heap \<Rightarrow>
    (string + unit) \<times> dyn_mapper \<times> heap" where
  "map_blocks 0 off d ipa attr h = (Inr (), d, h)"
| "map_blocks (Suc n) off d ipa attr h =
    (case map_block d (ipa + off) attr h of
       (Inl e, d, h) \<Rightarrow> (Inl e, d, h)
     | (Inr _, d, h) \<Rightarrow> map_blocks n (off + BLOCK_SIZE_2MB) d ipa attr h)"

definition num_blocks :: "u64 \<Rightarrow> nat" where
  "num_blocks sz = (unat sz + (unat BLOCK_SIZE_2MB - 1)) div unat BLOCK_SIZE_2MB"

definition map_region :: "dyn_mapper \<Rightarrow> u64 \<Rightarrow> u64 \<Rightarrow> memory_attribute \<Rightarrow> heap \<Rightarrow>
    (string + unit) \<times> dyn_mapper \<times> heap" where
  "map_region d ipa sz attr h = map_blocks (num_blocks sz) 0 d ipa attr h"

definition mapper_block_page :: "u64 \<Rightarrow> u64 \<Rightarrow> u64" where
  "mapper_block_page block_entry i =
    (let block_pa = block_entry AND NOT BLOCK_MASK_2MB;
         block_attr_bits = block_entry AND BLOCK_MASK_2MB AND NOT 3;
         pa = block_pa + i * PAGE_SIZE_4KB
     in pa OR block_attr_bits OR PTE_TABLE OR PTE_VALID)"

definition split_2mb_block :: "u64 \<Rightarrow> u64 \<Rightarrow> u64 \<Rightarrow> heap \<Rightarrow> (string + u64) \<times> heap" where
  "split_2mb_block l2_table i block_entry h =
    (case alloc_page h of
       (None, h) \<Rightarrow> (Inl ''Failed to allocate L3 table for split'', h)
     | (Some l3, h) \<Rightarrow>
         let m = fill_table l3 (mapper_block_page block_entry) (h_mem h);
             m = m(entry_addr l2_table i := 0);
             m = m(entry_addr l2_table i := l3 OR PTE_VALID OR PTE_TABLE)
         in (Inr l3, h\<lparr>h_mem := m\<rparr>))"

definition mapper_l3 :: "bool \<Rightarrow> u64 \<Rightarrow> u64 \<Rightarrow> heap \<Rightarrow> (string + u64) \<times> heap" where
  "mapper_l3 create l2_table i h =
    (let l2_entry = h_mem h (entry_addr l2_table i) in
     if l2_entry AND PTE_VALID \<noteq> 0 \<and> l2_entry AND PTE_TABLE = 0
     then split_2mb_block l2_table i l2_entry h
     else if l2_entry AND (PTE_VALID OR PTE_TABLE) = PTE_VALID OR PTE_TABLE
     then (Inr (l2_entry AND PTE_ADDR_MASK), h)
     else if \<not> create then (Inl ''L2 entry not valid'', h)
     else
       case alloc_page h of
         (None, h) \<Rightarrow> (Inl ''Failed to allocate L3 table'', h)
       | (Some l3, h) \<Rightarrow>
           let m = zero_page l3 (h_mem h);
               m = m(entry_addr l2_table i := l3 OR PTE_VALID OR PTE_TABLE)
           in (Inr l3, h\<lparr>h_mem := m\<rparr>))"

definition map_4kb_page :: "dyn_mapper \<Rightarrow> u64 \<Rightarrow> memory_attribute \<Rightarrow> heap \<Rightarrow>
    (string + unit) \<times> dyn_mapper \<times> heap" where
  "map_4kb_page d ipa attr h =
    (case get_or_create_l2 d (l1_idx ipa) h of
       (Inl e, d, h) \<Rightarrow> (Inl e, d, h)
     | (Inr l2_table, d, h) \<Rightarrow>
         (case mapper_l3 True l2_table (l2_idx ipa) h of
            (Inl e, h) \<Rightarrow> (Inl e, d, h)
          | (Inr l3_table, h) \<Rightarrow>
              (Inr (), d, h\<lparr>h_mem := (h_mem h)(entry_addr l3_table (l3_idx ipa) :=
                 make_page_entry (ipa AND NOT PAGE_MASK_4KB) attr)\<rparr>)))"

definition unmap_4kb_page :: "dyn_mapper \<Rightarrow> u64 \<Rightarrow> heap \<Rightarrow> (string + unit) \<times> heap" where
  "unmap_4kb_page d ipa h =
    (let l1_entry = h_mem h (entry_addr (dm_l1_table d) (l1_idx ipa)) in
     if l1_entry AND (PTE_VALID OR PTE_TABLE) \<noteq> PTE_VALID OR PTE_TABLE then (Inl ''L1 entry not valid'', h)
     else
       case mapper_l3 False (l1_entry AND PTE_ADDR_MASK) (l2_idx ipa) h of
         (Inl e, h) \<Rightarrow> (Inl e, h)
       | (Inr l3_table, h) \<Rightarrow> (Inr (), h\<lparr>h_mem := (h_mem h)(entry_addr l3_table (l3_idx ipa) := 0)\<rparr>))"

definition mapper_write_sw_bits :: "dyn_mapper \<Rightarrow> u64 \<Rightarrow> u8 \<Rightarrow> heap \<Rightarrow> (string + unit) \<times> heap" where
  "mapper_write_sw_bits d ipa bits h =
    (case walk_to_leaf_ptr (h_mem h) (dm_l0_table d) ipa of
       None \<Rightarrow> (Inl ''IPA not mapped'', h)
     | Some leaf_ptr \<Rightarrow>
         (Inr (), h\<lparr>h_mem := (h_mem h)(leaf_ptr := with_sw_bits bits (h_mem h leaf_ptr))\<rparr>))"

section \<open>The invariant\<close>

text \<open>The mapper owns a tree whose only L1 table hangs at entry 0 of the L0 table; an L1 entry carries
  no bits outside the address field.\<close>

definition l1_clean :: "pmem \<Rightarrow> u64 \<Rightarrow> bool" where
  "l1_clean m t \<longleftrightarrow> (\<forall>i<512. pte_is_table (m (entry_addr t i)) \<longrightarrow>
     m (entry_addr t i) AND NOT PAGE_OFFSET_MASK = pte_addr (m (entry_addr t i)))"

definition mapper_ok :: "u64 set \<Rightarrow> u64 set \<Rightarrow> dyn_mapper \<Rightarrow> heap \<Rightarrow> bool" where
  "mapper_ok U T d h \<longleftrightarrow>
     s2_ok U T (dm_l0_table d) h \<and> walk (h_mem h) (dm_l0_table d) [0] = Some (dm_l1_table d) \<and>
     l1_clean (h_mem h) (dm_l1_table d) \<and> length (dm_l2_tables d) = 4 \<and> dm_l2_count d \<le> 4"

lemma link_desc_clean:
  assumes "page_aligned p" "unat p < 2 ^ 48"
  shows "(p OR PTE_VALID OR PTE_TABLE) AND NOT PAGE_OFFSET_MASK = pte_addr (p OR PTE_VALID OR PTE_TABLE)"
proof -
  have "p AND NOT PAGE_OFFSET_MASK = p"
    using page_of_self [OF assms(1)] by (simp add: page_of_def PAGE_OFFSET_MASK_def)
  moreover have "PTE_VALID AND NOT PAGE_OFFSET_MASK = 0" "PTE_TABLE AND NOT PAGE_OFFSET_MASK = 0"
    by (simp_all add: pte_consts)
  ultimately have "(p OR PTE_VALID OR PTE_TABLE) AND NOT PAGE_OFFSET_MASK = p"
    by (simp add: bit.conj_disj_distrib2)
  thus ?thesis using link_desc(2) [OF assms] by simp
qed

text \<open>A fresh mapper: two tables and no mapping.\<close>

lemma mapper_new_walk:
  assumes "page_aligned l0" "page_aligned l1" "l0 \<noteq> l1" "unat l1 < 2 ^ 48" "is_path p"
    and m: "m = (zero_page l1 (zero_page l0 m0))(l0 := l1 OR PTE_VALID OR PTE_TABLE)"
  shows "walk m l0 p = (if p = [] then Some l0 else if p = [0] then Some l1 else None)"
proof -
  have e00: "entry_addr l0 0 = l0" by (simp add: entry_addr_def)
  have e0: "m (entry_addr l0 i) = (if i = 0 then l1 OR PTE_VALID OR PTE_TABLE else 0)" if "i < 512" for i
    using that entry_addr_inj [OF assms(1,1) that, of 0] assms(1,2,3) e00
    by (auto simp: m zero_page_apply page_of_entry)
  have "entry_addr l1 i \<noteq> l0" if "i < 512" for i
    using that entry_addr_inj [OF assms(2,1) that, of 0] assms(3) e00 by auto
  hence e1: "m (entry_addr l1 i) = 0" if "i < 512" for i
    using that assms(2) by (simp add: m zero_page_entry)
  show ?thesis
  proof (cases p)
    case (Cons i q)
    hence i: "i < 512" using assms(5) by (simp add: is_path_def)
    show ?thesis
    proof (cases "i = 0")
      case True
      show ?thesis
      proof (cases q)
        case (Cons j q')
        hence "j < 512" using assms(5) \<open>p = i # q\<close> by (simp add: is_path_def)
        thus ?thesis using Cons \<open>p = i # q\<close> True i e0 e1 link_desc [OF assms(2,4)]
          by (simp add: walk_Cons follow_def)
      qed (use Cons True i e0 link_desc [OF assms(2,4)] in \<open>simp add: walk_Cons follow_def\<close>)
    qed (use Cons i e0 in \<open>simp add: walk_Cons follow_def\<close>)
  qed simp
qed

lemma mapper_new_spec:
  assumes hok: "heap_ok U h" and nw: "mapper_new h = Some (d, h')"
  obtains l0 l1 where "dm_l0_table d = l0" "l0 \<notin> U" "l1 \<notin> U"
    "mapper_ok (insert l1 (insert l0 U)) {l0, l1} d h'" "\<And>x. s2_desc (h_mem h') l0 x = None"
    "\<And>x. page_of x \<notin> {l0, l1} \<Longrightarrow> h_mem h' x = h_mem h x"
proof -
  obtain o0 h1 o1 h2 where a0: "alloc_page h = (o0, h1)" "alloc_page h1 = (o1, h2)" by fastforce
  then obtain l0 l1 where "o0 = Some l0" "o1 = Some l1"
    using nw by (cases o0; cases o1) (simp_all add: mapper_new_def)
  with a0 have a: "alloc_page h = (Some l0, h1)" "alloc_page h1 = (Some l1, h2)" by simp_all
  define m where "m = (zero_page l1 (zero_page l0 (h_mem h2)))(l0 := l1 OR PTE_VALID OR PTE_TABLE)"
  have "mapper_new h = Some (\<lparr>dm_l0_table = l0, dm_l1_table = l1, dm_l2_tables = replicate 4 0,
      dm_l2_count = 0\<rparr>, h2\<lparr>h_mem := m\<rparr>)"
    by (simp add: mapper_new_def a m_def)
  hence d: "d = \<lparr>dm_l0_table = l0, dm_l1_table = l1, dm_l2_tables = replicate 4 0, dm_l2_count = 0\<rparr>"
    "h' = h2\<lparr>h_mem := m\<rparr>"
    using nw by (metis option.inject prod.inject)+
  note s0 = alloc_page_spec [OF hok a(1)]
  note s1 = alloc_page_spec [OF s0(5) a(2)]
  have ne: "l0 \<noteq> l1" using s1(1) by auto
  have w: "walk m l0 p = (if p = [] then Some l0 else if p = [0] then Some l1 else None)" if "is_path p" for p
    by (rule mapper_new_walk [OF s0(2) s1(2) ne s1(4) that m_def])
  have "m x = h_mem h2 x" if "page_of x \<notin> insert l1 (insert l0 U)" for x
    using that s0(2) s1(2) by (auto simp: m_def zero_page_apply page_of_self)
  hence "heap_ok (insert l1 (insert l0 U)) h'" using heap_ok_mem [OF s1(5)] d(2) by simp
  moreover have "wf_tables {l0, l1} m l0"
    unfolding wf_tables_def using s0(2) ne w by (auto split: if_splits)
  moreover have z: "\<not> pte_is_valid (m (entry_addr l1 i))" if "i < 512" for i
  proof -
    have "entry_addr l1 i \<noteq> l0" using page_of_entry [OF s1(2) that] s0(2) ne page_of_self by metis
    thus ?thesis using that s1(2) by (simp add: m_def zero_page_entry)
  qed
  moreover have "walk m l0 [0] = Some l1" using w [of "[0]"] by (simp add: is_path_def)
  moreover have "no_gblocks m l0" unfolding no_gblocks_def
    using w z by (auto simp: is_path_def split: if_splits)
  moreover have "l1_clean m l1" unfolding l1_clean_def using z pte_table_valid by blast
  ultimately have "mapper_ok (insert l1 (insert l0 U)) {l0, l1} d h'"
    by (simp add: mapper_ok_def s2_ok_def d)
  moreover have "s2_desc m l0 x = None" for x
    using w is_path_ipa [of x] z [OF idx_less(2)]
    by (auto simp: s2_desc_walk valid_desc_def ipa_path_def split: option.split)
  moreover have "m x = h_mem h x" if "page_of x \<notin> {l0, l1}" for x
    using that s0(2) s0(6) [of x] s1(2) s1(6) [of x] by (auto simp: m_def zero_page_apply page_of_self)
  ultimately show ?thesis using that [of l0 l1] d s0(1) s1(1) by auto
qed

section \<open>Operations\<close>

lemma mapper_block_page_eq: "i < 512 \<Longrightarrow> mapper_block_page e i = block_page e i"
proof -
  assume i: "i < 512"
  have "bit (mapper_block_page e i) n = bit (block_page e i) n" if "n < 64" for n
    using that unfolding bit_block_page [OF i that] mapper_block_page_def Let_def block_pa_sum [OF i]
      bit_or_iff bit_and_iff bit_not_iff bit_push_bit_iff bit_three bit_pte_consts
    by auto
  thus ?thesis by (simp add: u64_eq_iff)
qed

text \<open>A step that extends the mapper's tree and keeps the L1 table clean.\<close>

lemma get_or_create_l2_spec:
  assumes ok: "mapper_ok U T d h" and i: "i < 512" and g: "get_or_create_l2 d i h = (res, d', h')"
  obtains T' where "s2_grows U T (dm_l0_table d) h T' h'" "mapper_ok (U \<union> T') T' d' h'"
    "dm_l0_table d' = dm_l0_table d"
    "\<And>x. s2_desc (h_mem h') (dm_l0_table d) x = s2_desc (h_mem h) (dm_l0_table d) x"
    "\<And>t. res = Inr t \<Longrightarrow> walk (h_mem h') (dm_l0_table d) [0, i] = Some t"
proof -
  let ?r = "dm_l0_table d" and ?t = "dm_l1_table d"
  let ?e = "h_mem h (entry_addr ?t i)"
  have s2: "s2_ok U T ?r h" and w0: "walk (h_mem h) ?r [0] = Some ?t" and cl: "l1_clean (h_mem h) ?t"
    and l2: "length (dm_l2_tables d) = 4" "dm_l2_count d \<le> 4"
    using ok by (simp_all add: mapper_ok_def)
  have Z: "0 < (512 :: u64)" "is_path [0]" by (simp_all add: is_path_def)
  have wf: "wf_tables T (h_mem h) ?r" and ng: "no_gblocks (h_mem h) ?r" and hok: "heap_ok U h" and T: "T \<subseteq> U"
    using s2 by (simp_all add: s2_ok_def)
  note done1 = that [of T]
  have refl: "s2_grows U T ?r h T h" "mapper_ok (U \<union> T) T d h"
    using s2_grows_refl [OF s2] ok T by (simp_all add: Un_absorb2)
  show thesis
  proof (cases "pte_is_table ?e")
    case True
    with g cl i have "h' = h" "d' = d" "res = Inr (pte_addr ?e)"
      by (auto simp: get_or_create_l2_def pte_conds l1_clean_def)
    moreover have "walk (h_mem h) ?r [0, i] = Some (pte_addr ?e)"
      using walk_snoc [of "h_mem h" ?r "[0]" i] w0 True by (simp add: follow_def)
    ultimately show thesis using done1 refl by simp
  next
    case nt: False
    obtain o1 h1 where al: "alloc_page h = (o1, h1)" by fastforce
    show thesis
    proof (cases "dm_l2_count d \<ge> 4 \<or> o1 = None")
      case True
      with g nt al alloc_page_None [of h h1] have "h' = h" "d' = d" "\<nexists>t. res = Inr t"
        by (auto simp: get_or_create_l2_def pte_conds split: if_splits)
      thus thesis using done1 refl by simp
    next
      case False
      then obtain n where n: "alloc_page h = (Some n, h1)" "dm_l2_count d < 4" using al by auto
      define m where "m = (zero_page n (h_mem h1))(entry_addr ?t i := n OR PTE_VALID OR PTE_TABLE)"
      have r: "res = Inr n" "h' = h1\<lparr>h_mem := m\<rparr>"
        "d' = d\<lparr>dm_l2_tables := (dm_l2_tables d)[dm_l2_count d := n], dm_l2_count := dm_l2_count d + 1\<rparr>"
        using g nt n by (simp_all add: get_or_create_l2_def pte_conds m_def Let_def)
      note a = alloc_page_spec [OF hok n(1)]
      have tT: "?t \<in> T" "page_aligned ?t" using wf_tablesD(1,3) [OF wf] w0 Z walk_aligned by blast+
      have nv: "\<not> pte_is_valid ?e" using ng w0 Z i nt unfolding no_gblocks_def by blast
      have L': "s2_grows U T ?r h (insert n T) (h1\<lparr>h_mem := m\<rparr>)" "walk m ?r ([0] @ [i]) = Some n"
        "\<And>x. s2_desc m ?r x = s2_desc (h_mem h) ?r x" "walk m ?r [0] = walk (h_mem h) ?r [0]"
        using s2_link_zero [OF s2 n(1) Z(2) w0 _ i nv m_def] Z by simp_all
      have "l1_clean m ?t"
        unfolding l1_clean_def
      proof (intro allI impI)
        fix j assume j: "j < 512" "pte_is_table (m (entry_addr ?t j))"
        show "m (entry_addr ?t j) AND NOT PAGE_OFFSET_MASK = pte_addr (m (entry_addr ?t j))"
        proof (cases "j = i")
          case False
          hence "entry_addr ?t j \<noteq> entry_addr ?t i" using entry_addr_inj [OF tT(2,2) j(1) i] by blast
          moreover have "page_of (entry_addr ?t j) \<noteq> n" using tT j a(1) T by (auto simp: page_of_entry)
          ultimately have "m (entry_addr ?t j) = h_mem h (entry_addr ?t j)"
            using a(2,6) by (simp add: m_def zero_page_apply)
          thus ?thesis using cl j unfolding l1_clean_def by auto
        qed (use link_desc_clean [OF a(2,4)] in \<open>simp add: m_def\<close>)
      qed
      hence "mapper_ok (U \<union> insert n T) (insert n T) d' h'"
        using s2_growsD [OF L'(1)] L'(4) w0 l2 n(2) r by (simp add: mapper_ok_def)
      thus thesis using that [of "insert n T"] L' r by simp
    qed
  qed
qed

lemma mapper_ok_step:
  assumes ok: "mapper_ok U T d h" and g: "s2_grows U T (dm_l0_table d) h T' h'"
    and w: "walk (h_mem h') (dm_l0_table d) [0] = walk (h_mem h) (dm_l0_table d) [0]"
    and e: "\<And>j. j < 512 \<Longrightarrow> h_mem h' (entry_addr (dm_l1_table d) j) = h_mem h (entry_addr (dm_l1_table d) j)"
  shows "mapper_ok (U \<union> T') T' d h'"
  using assms s2_growsD [OF g] by (simp add: mapper_ok_def l1_clean_def)

lemma mapper_l1_entry:
  assumes ok: "mapper_ok U T d h" and j: "j < 512"
    and q: "is_path q" "walk (h_mem h) (dm_l0_table d) q = Some t" "length q \<ge> 2" "i < 512"
  shows "entry_addr (dm_l1_table d) j \<noteq> entry_addr t i" "dm_l1_table d \<in> T"
    "page_of (entry_addr (dm_l1_table d) j) = dm_l1_table d"
proof -
  have wf: "wf_tables T (h_mem h) (dm_l0_table d)" and w0: "walk (h_mem h) (dm_l0_table d) [0] = Some (dm_l1_table d)"
    using ok by (simp_all add: mapper_ok_def s2_ok_def)
  have Z: "is_path [0]" by (simp add: is_path_def)
  show "entry_addr (dm_l1_table d) j \<noteq> entry_addr t i"
    by (rule entry_upd_other [OF wf q(1,2,4) Z w0 j]) (use q(3) in auto)
  show "dm_l1_table d \<in> T" using wf_tablesD(3) [OF wf Z w0] .
  show "page_of (entry_addr (dm_l1_table d) j) = dm_l1_table d"
    using walk_aligned [OF wf_tablesD(1) [OF wf] w0] j by (simp add: page_of_entry)
qed

lemma mapper_link_ok:
  assumes ok: "mapper_ok U T d h" and al: "alloc_page h = (Some n, h1)"
    and q: "is_path q" "walk (h_mem h) (dm_l0_table d) q = Some t" "length q \<ge> 2" "i < 512"
    and gr: "s2_grows U T (dm_l0_table d) h (insert n T) (h1\<lparr>h_mem := m\<rparr>)"
    and w: "walk m (dm_l0_table d) [0] = walk (h_mem h) (dm_l0_table d) [0]"
    and fr: "\<And>x. page_of x \<noteq> n \<Longrightarrow> x \<noteq> entry_addr t i \<Longrightarrow> m x = h_mem h1 x"
  shows "mapper_ok (U \<union> insert n T) (insert n T) d (h1\<lparr>h_mem := m\<rparr>)"
proof (rule mapper_ok_step [OF ok gr])
  have hok: "heap_ok U h" and T: "T \<subseteq> U" using ok by (simp_all add: mapper_ok_def s2_ok_def)
  note a = alloc_page_spec [OF hok al]
  fix j :: u64 assume "j < 512"
  note e = mapper_l1_entry [OF ok this q]
  have "page_of (entry_addr (dm_l1_table d) j) \<noteq> n" using e(2,3) T a(1) by auto
  thus "h_mem (h1\<lparr>h_mem := m\<rparr>) (entry_addr (dm_l1_table d) j) = h_mem h (entry_addr (dm_l1_table d) j)"
    using fr e(1) a(6) by simp
qed (use w in simp)

lemma mapper_l3_spec:
  assumes ok: "mapper_ok U T d h" and i: "i1 < 512" "i2 < 512"
    and w2: "walk (h_mem h) (dm_l0_table d) [0, i1] = Some t2"
    and g: "mapper_l3 c t2 i2 h = (res, h')"
  obtains T' where "s2_grows U T (dm_l0_table d) h T' h'" "mapper_ok (U \<union> T') T' d h'"
    "\<And>x. s2_desc (h_mem h') (dm_l0_table d) x = s2_desc (h_mem h) (dm_l0_table d) x"
    "\<And>t. res = Inr t \<Longrightarrow> walk (h_mem h') (dm_l0_table d) [0, i1, i2] = Some t"
proof -
  let ?r = "dm_l0_table d" and ?e = "h_mem h (entry_addr t2 i2)"
  have s2: "s2_ok U T ?r h" and hok: "heap_ok U h" using ok by (simp_all add: mapper_ok_def s2_ok_def)
  have P: "is_path [0, i1]" "is_path [0]" using i by (simp_all add: is_path_def)
  have keep: "s2_grows U T ?r h T h" "mapper_ok (U \<union> T) T d h"
    using s2_grows_refl [OF s2] ok s2 by (simp_all add: Un_absorb2 s2_ok_def)
  obtain o1 h1 where al: "alloc_page h = (o1, h1)" by fastforce
  note [simp] = pte_conds pte_table_cond
  consider (tab) "pte_is_table ?e" "h' = h" "res = Inr (pte_addr ?e)"
    | (fail) "h' = h" "\<nexists>t. res = Inr t"
    | (zero) n where "\<not> pte_is_valid ?e" "o1 = Some n" "res = Inr n"
        "h' = h1\<lparr>h_mem := (zero_page n (h_mem h1))(entry_addr t2 i2 := n OR PTE_VALID OR PTE_TABLE)\<rparr>"
    | (split) n where "pte_is_valid ?e" "\<not> pte_is_table ?e" "o1 = Some n" "res = Inr n"
        "h' = h1\<lparr>h_mem := (fill_table n (mapper_block_page ?e) (h_mem h1))
           (entry_addr t2 i2 := n OR PTE_VALID OR PTE_TABLE)\<rparr>"
    using g al alloc_page_None [of h h1] pte_table_valid [of ?e]
    by (cases o1; cases "pte_is_table ?e"; cases "pte_is_valid ?e")
      (auto simp: mapper_l3_def split_2mb_block_def Let_def split: if_splits)
  thus thesis
  proof cases
    case tab
    moreover have "walk (h_mem h) ?r [0, i1, i2] = Some (pte_addr ?e)"
      using walk_snoc [of "h_mem h" ?r "[0, i1]" i2] w2 tab(1) by (simp add: follow_def)
    ultimately show thesis using that [of T] keep by simp
  next
    case fail
    thus thesis using that [of T] keep by simp
  next
    case (zero n)
    define m where "m = (zero_page n (h_mem h1))(entry_addr t2 i2 := n OR PTE_VALID OR PTE_TABLE)"
    have al': "alloc_page h = (Some n, h1)" using al zero(2) by simp
    note a = alloc_page_spec [OF hok al']
    note L = s2_link_zero [OF s2 al' P(1) w2 _ i(2) zero(1) m_def, simplified]
    have "mapper_ok (U \<union> insert n T) (insert n T) d (h1\<lparr>h_mem := m\<rparr>)"
      by (rule mapper_link_ok [OF ok al' P(1) w2 _ i(2) L(1)])
        (use L(5) [OF P(2)] a(2) in \<open>simp_all add: m_def zero_page_apply\<close>)
    thus thesis using that [of "insert n T"] L zero(3,4) by (simp add: m_def)
  next
    case (split n)
    define m where "m = (fill_table n (mapper_block_page ?e) (h_mem h1))
        (entry_addr t2 i2 := n OR PTE_VALID OR PTE_TABLE)"
    have al': "alloc_page h = (Some n, h1)" using al split(3) by simp
    note a = alloc_page_spec [OF hok al']
    note L = s2_link_split [OF s2 al' P(1) w2 _ i(2) split(1,2) mapper_block_page_eq refl m_def, simplified]
    have "mapper_ok (U \<union> insert n T) (insert n T) d (h1\<lparr>h_mem := m\<rparr>)"
      by (rule mapper_link_ok [OF ok al' P(1) w2 _ i(2) L(1)])
        (use L(5) [OF P(2)] a(2) in \<open>simp_all add: m_def fill_table_other\<close>)
    thus thesis using that [of "insert n T"] L split(4,5) by (simp add: m_def)
  qed
qed

text \<open>A leaf write below the mapper's tables.\<close>

lemma mapper_leaf:
  assumes ok: "mapper_ok U T d h" and x: "l0_idx ipa = 0"
    and w3: "walk (h_mem h) (dm_l0_table d) [0, l1_idx ipa, l2_idx ipa] = Some t3"
    and h': "h' = h\<lparr>h_mem := (h_mem h)(entry_addr t3 (l3_idx ipa) := v)\<rparr>"
  shows "s2_grows U T (dm_l0_table d) h T h'" "mapper_ok U T d h'"
    "s2_desc (h_mem h') (dm_l0_table d) y =
      (if same_page y ipa then valid_desc v else s2_desc (h_mem h) (dm_l0_table d) y)"
proof -
  have s2: "s2_ok U T (dm_l0_table d) h" and wf: "wf_tables T (h_mem h) (dm_l0_table d)" and T: "T \<subseteq> U"
    using ok by (simp_all add: mapper_ok_def s2_ok_def)
  have w: "walk (h_mem h) (dm_l0_table d) (ipa_path ipa) = Some t3" using w3 x by (simp add: ipa_path_def)
  show g: "s2_grows U T (dm_l0_table d) h T h'" unfolding h' by (rule s2_leaf_grows [OF s2 w])
  show "s2_desc (h_mem h') (dm_l0_table d) y =
      (if same_page y ipa then valid_desc v else s2_desc (h_mem h) (dm_l0_table d) y)"
    using s2_desc_leaf [OF wf w] by (simp add: h')
  have "mapper_ok (U \<union> T) T d h'"
  proof (rule mapper_ok_step [OF ok g])
    show "walk (h_mem h') (dm_l0_table d) [0] = walk (h_mem h) (dm_l0_table d) [0]"
      using walk_write [OF wf is_path_ipa(3) w idx_less(4), where v = v and q = "[0]"]
      by (simp add: h' is_path_def ipa_path_def)
    show "h_mem h' (entry_addr (dm_l1_table d) j) = h_mem h (entry_addr (dm_l1_table d) j)" if "j < 512" for j
      using mapper_l1_entry(1) [OF ok that is_path_ipa(3) w _ idx_less(4)] by (simp add: h' ipa_path_def)
  qed
  thus "mapper_ok U T d h'" using T by (simp add: Un_absorb2)
qed

text \<open>\<open>map_4kb_page\<close> is the update of the view at one page; it splits a block without changing what
  the rest of the block maps to, and on an error the view is unchanged.\<close>

lemma map_4kb_page_spec:
  assumes ok: "mapper_ok U T d h" and x: "l0_idx ipa = 0" and mp: "map_4kb_page d ipa attr h = (res, d', h')"
  obtains T' where "s2_grows U T (dm_l0_table d) h T' h'" "mapper_ok (U \<union> T') T' d' h'"
    "dm_l0_table d' = dm_l0_table d"
    "res = Inr () \<Longrightarrow> \<forall>y. s2_desc (h_mem h') (dm_l0_table d) y =
      (if same_page y ipa then Some (make_page_entry (ipa AND NOT PAGE_MASK_4KB) attr)
       else s2_desc (h_mem h) (dm_l0_table d) y)"
    "\<And>e. res = Inl e \<Longrightarrow> \<forall>y. s2_desc (h_mem h') (dm_l0_table d) y = s2_desc (h_mem h) (dm_l0_table d) y"
proof -
  obtain r1 d1 h1 where g1: "get_or_create_l2 d (l1_idx ipa) h = (r1, d1, h1)" by (metis prod_cases3)
  obtain T1 where T1: "s2_grows U T (dm_l0_table d) h T1 h1" "mapper_ok (U \<union> T1) T1 d1 h1"
    "dm_l0_table d1 = dm_l0_table d"
    "\<And>x. s2_desc (h_mem h1) (dm_l0_table d) x = s2_desc (h_mem h) (dm_l0_table d) x"
    "\<And>t. r1 = Inr t \<Longrightarrow> walk (h_mem h1) (dm_l0_table d) [0, l1_idx ipa] = Some t"
    by (rule get_or_create_l2_spec [OF ok idx_less(2) g1]) metis
  show thesis
  proof (cases r1)
    case (Inl e)
    with mp g1 have "d' = d1" "h' = h1" "res = Inl e" by (simp_all add: map_4kb_page_def)
    thus thesis using that [of T1] T1 by simp
  next
    case (Inr t2)
    obtain r2 h2 where g2: "mapper_l3 True t2 (l2_idx ipa) h1 = (r2, h2)" by fastforce
    have w2: "walk (h_mem h1) (dm_l0_table d1) [0, l1_idx ipa] = Some t2" using T1(3,5) Inr by simp
    obtain T2 where T2: "s2_grows (U \<union> T1) T1 (dm_l0_table d1) h1 T2 h2" "mapper_ok (U \<union> T1 \<union> T2) T2 d1 h2"
      "\<And>x. s2_desc (h_mem h2) (dm_l0_table d1) x = s2_desc (h_mem h1) (dm_l0_table d1) x"
      "\<And>t. r2 = Inr t \<Longrightarrow> walk (h_mem h2) (dm_l0_table d1) [0, l1_idx ipa, l2_idx ipa] = Some t"
      by (rule mapper_l3_spec [OF T1(2) idx_less(2,3) w2 g2]) metis
    have T12: "T1 \<subseteq> T2" using T2(1) by (simp add: s2_grows_def)
    hence ok2: "mapper_ok (U \<union> T2) T2 d1 h2" using T2(2) by (simp add: Un_assoc Un_absorb1)
    have gr: "s2_grows U T (dm_l0_table d) h T2 h2"
      using s2_grows_trans [OF T1(1)] T2(1) T1(3) by simp
    show thesis
    proof (cases r2)
      case (Inl e)
      with mp g1 g2 Inr have "d' = d1" "h' = h2" "res = Inl e" by (simp_all add: map_4kb_page_def)
      thus thesis using that [of T2] gr ok2 T1(3,4) T2(3) by simp
    next
      case (Inr t3)
      let ?v = "make_page_entry (ipa AND NOT PAGE_MASK_4KB) attr"
      have r: "d' = d1" "res = Inr ()" "h' = h2\<lparr>h_mem := (h_mem h2)(entry_addr t3 (l3_idx ipa) := ?v)\<rparr>"
        using mp g1 g2 Inr \<open>r1 = Inr t2\<close> by (simp_all add: map_4kb_page_def)
      note lf = mapper_leaf [OF ok2 x T2(4) [OF Inr] r(3)]
      have "pte_is_valid ?v" by (simp add: make_page_entry_def pte_is_valid_bit bit_or_iff bit_pte_consts)
      moreover have "s2_grows U T (dm_l0_table d) h T2 h'" using s2_grows_trans [OF gr] lf(1) T1(3) by simp
      ultimately show thesis
        using that [of T2] lf(2,3) r(1,2) T1(3,4) T2(3) by (simp add: valid_desc_def)
    qed
  qed
qed

lemma unmap_4kb_page_spec:
  assumes ok: "mapper_ok U T d h" and x: "l0_idx ipa = 0" and um: "unmap_4kb_page d ipa h = (res, h')"
  obtains T' where "s2_grows U T (dm_l0_table d) h T' h'" "mapper_ok (U \<union> T') T' d h'"
    "res = Inr () \<Longrightarrow> \<forall>y. s2_desc (h_mem h') (dm_l0_table d) y =
      (if same_page y ipa then None else s2_desc (h_mem h) (dm_l0_table d) y)"
    "\<And>e. res = Inl e \<Longrightarrow> \<forall>y. s2_desc (h_mem h') (dm_l0_table d) y = s2_desc (h_mem h) (dm_l0_table d) y"
proof -
  let ?e = "h_mem h (entry_addr (dm_l1_table d) (l1_idx ipa))"
  have s2: "s2_ok U T (dm_l0_table d) h" and T: "T \<subseteq> U"
    and w0: "walk (h_mem h) (dm_l0_table d) [0] = Some (dm_l1_table d)"
    using ok by (simp_all add: mapper_ok_def s2_ok_def)
  show thesis
  proof (cases "pte_is_table ?e")
    case False
    with um have "h' = h" "res = Inl ''L1 entry not valid''" by (simp_all add: unmap_4kb_page_def pte_conds)
    thus thesis using that [of T] ok s2_grows_refl [OF s2] T by (simp add: Un_absorb2)
  next
    case True
    have w2: "walk (h_mem h) (dm_l0_table d) [0, l1_idx ipa] = Some (pte_addr ?e)"
      using walk_snoc [of "h_mem h" "dm_l0_table d" "[0]" "l1_idx ipa"] w0 True by (simp add: follow_def)
    obtain r2 h2 where g2: "mapper_l3 False (pte_addr ?e) (l2_idx ipa) h = (r2, h2)" by fastforce
    obtain T2 where T2: "s2_grows U T (dm_l0_table d) h T2 h2" "mapper_ok (U \<union> T2) T2 d h2"
      "\<And>x. s2_desc (h_mem h2) (dm_l0_table d) x = s2_desc (h_mem h) (dm_l0_table d) x"
      "\<And>t. r2 = Inr t \<Longrightarrow> walk (h_mem h2) (dm_l0_table d) [0, l1_idx ipa, l2_idx ipa] = Some t"
      by (rule mapper_l3_spec [OF ok idx_less(2,3) w2 g2]) metis
    show thesis
    proof (cases r2)
      case (Inl e)
      with um g2 True have "h' = h2" "res = Inl e" by (simp_all add: unmap_4kb_page_def pte_conds)
      thus thesis using that [of T2] T2 by simp
    next
      case (Inr t3)
      have r: "res = Inr ()" "h' = h2\<lparr>h_mem := (h_mem h2)(entry_addr t3 (l3_idx ipa) := 0)\<rparr>"
        using um g2 True Inr by (simp_all add: unmap_4kb_page_def pte_conds)
      note lf = mapper_leaf [OF T2(2) x T2(4) [OF Inr] r(2)]
      show thesis
        using that [of T2] s2_grows_trans [OF T2(1) lf(1)] lf(2,3) r(1) T2(3) by (simp add: valid_desc_def)
    qed
  qed
qed

section \<open>Mapping regions\<close>

lemma walk_cut:
  assumes wf: "wf_tables T m r" and p: "is_path p" "walk m r p = Some t" "length p = 2" and i: "i < 512"
    and v: "\<not> pte_is_table v" and q: "is_path q"
  shows "walk (m(entry_addr t i := v)) r q = (if q = p @ [i] then None else walk m r q)"
proof (cases "take (Suc (length p)) q = p @ [i]")
  case True
  from path_through [OF True] obtain q' where q': "q = p @ i # q'" by blast
  hence "q = p @ [i]" using q p(3) by (simp add: is_path_def)
  moreover have "walk (m(entry_addr t i := v)) r p = walk m r p"
    using walk_upd_frame [OF wf p(1,2) i p(1)] by simp
  ultimately show ?thesis using v p(2) by (simp add: walk_snoc follow_def)
next
  case False
  hence "q \<noteq> p @ [i]" by auto
  with walk_upd_frame [OF wf p(1,2) i q False] show ?thesis by simp
qed

text \<open>Writing a block descriptor into an L2 table.\<close>

lemma s2_block_write:
  assumes ok: "s2_ok U T r h" and w2: "walk (h_mem h) r [l0_idx ipa, l1_idx ipa] = Some t2"
    and v: "pte_is_valid v" "\<not> pte_is_table v"
    and h': "h' = h\<lparr>h_mem := (h_mem h)(entry_addr t2 (l2_idx ipa) := v)\<rparr>"
  shows "s2_grows U T r h T h'"
    "s2_desc (h_mem h') r y = (if ipa_path y = ipa_path ipa then Some (block_page v (l3_idx y))
       else s2_desc (h_mem h) r y)"
    "is_path q \<Longrightarrow> q \<noteq> ipa_path ipa \<Longrightarrow> walk (h_mem h') r q = walk (h_mem h) r q"
proof -
  let ?m = "(h_mem h)(entry_addr t2 (l2_idx ipa) := v)"
  have wf: "wf_tables T (h_mem h) r" and T: "T \<subseteq> U" and ng: "no_gblocks (h_mem h) r"
    using ok by (simp_all add: s2_ok_def)
  have w: "walk ?m r q = (if q = ipa_path ipa then None else walk (h_mem h) r q)" if "is_path q" for q
    using walk_cut [OF wf is_path_ipa(2) w2 _ idx_less(3) v(2) that] by (simp add: ipa_path_def)
  show "is_path q \<Longrightarrow> q \<noteq> ipa_path ipa \<Longrightarrow> walk (h_mem h') r q = walk (h_mem h) r q"
    using w by (simp add: h')
  have other: "entry_addr t j \<noteq> entry_addr t2 (l2_idx ipa)"
    if "is_path q" "walk (h_mem h) r q = Some t" "j < 512" "(q, j) \<noteq> ([l0_idx ipa, l1_idx ipa], l2_idx ipa)" for q t j
    by (rule entry_upd_other [OF wf is_path_ipa(2) w2 idx_less(3) that])
  have t2T: "t2 \<in> T" "page_aligned t2" using wf_tablesD(1,3) [OF wf] w2 is_path_ipa(2) walk_aligned by blast+
  hence pg: "page_of (entry_addr t2 (l2_idx ipa)) \<in> T" by (simp add: page_of_entry idx_less)
  have "wf_tables T ?m r" unfolding wf_tables_def
    using wf_tablesD [OF wf] w by (metis option.distinct(1))
  moreover have "heap_ok U (h\<lparr>h_mem := ?m\<rparr>)" using ok pg T by (intro heap_ok_mem) (auto simp: s2_ok_def)
  moreover have "no_gblocks ?m r"
  proof (rule no_gblocks_upd [OF ng])
    show "walk ?m r [i0] = walk (h_mem h) r [i0]" if "i0 < 512" for i0
      using w [of "[i0]"] that by (simp add: is_path_def ipa_path_def)
    show "?m (entry_addr t i1) = h_mem h (entry_addr t i1) \<or> pte_is_table (?m (entry_addr t i1))"
      if "i0 < 512" "i1 < 512" "walk (h_mem h) r [i0] = Some t" for i0 i1 t
      using other [of "[i0]" t i1] that by (simp add: is_path_def)
  qed
  ultimately show "s2_grows U T r h T h'"
    using pg T by (auto simp: h' s2_grows_def s2_ok_def Un_absorb2)
  show "s2_desc (h_mem h') r y = (if ipa_path y = ipa_path ipa then Some (block_page v (l3_idx y))
       else s2_desc (h_mem h) r y)"
  proof (cases "ipa_path y = ipa_path ipa")
    case True
    hence e: "l0_idx y = l0_idx ipa" "l1_idx y = l1_idx ipa" "l2_idx y = l2_idx ipa" by (simp_all add: ipa_path_def)
    obtain t1 where t1: "walk (h_mem h) r [l0_idx ipa] = Some t1" using w2 by (auto simp: walk_Cons bind_eq_Some_conv)
    have "walk ?m r [l0_idx y] = Some t1" "walk ?m r [l0_idx y, l1_idx y] = Some t2" "walk ?m r (ipa_path y) = None"
      using w is_path_ipa [of ipa] t1 w2 True e by (simp_all add: ipa_path_def)
    thus ?thesis using True e v(1) by (simp add: h' s2_desc_walk valid_desc_def)
  next
    case False
    have "s2_desc ?m r y = s2_desc (h_mem h) r y"
    proof (rule s2_desc_frame [where p = "[l0_idx ipa, l1_idx ipa]" and i = "l2_idx ipa"])
      show "take (Suc (length [l0_idx ipa, l1_idx ipa])) (full_path y) \<noteq> [l0_idx ipa, l1_idx ipa] @ [l2_idx ipa]"
        using False by (simp add: full_path_def ipa_path_def)
      show "walk ?m r q = walk (h_mem h) r q"
        if "is_path q" "take (Suc (length [l0_idx ipa, l1_idx ipa])) q \<noteq> [l0_idx ipa, l1_idx ipa] @ [l2_idx ipa]" for q
        using w [OF that(1)] that(2) by (auto simp: ipa_path_def)
    qed (use other in simp)
    with False show ?thesis by (simp add: h')
  qed
qed

lemma block_entry_block: "pte_is_valid (make_block_entry pa attr)" "\<not> pte_is_table (make_block_entry pa attr)"
  by (cases attr; simp add: make_block_entry_def mapper_attr_bits_def pte_is_valid_bit pte_is_table_bit
      bit_or_iff bit_and_iff bit_not_iff bit_push_bit_iff bit_pte_consts)+

lemma map_block_spec:
  assumes ok: "mapper_ok U T d h" and x: "l0_idx ipa = 0" and mb: "map_block d ipa attr h = (res, d', h')"
  obtains T' where "s2_grows U T (dm_l0_table d) h T' h'" "mapper_ok (U \<union> T') T' d' h'"
    "dm_l0_table d' = dm_l0_table d"
    "res = Inr () \<Longrightarrow> \<forall>y. s2_desc (h_mem h') (dm_l0_table d) y =
      (if ipa_path y = ipa_path ipa then Some (block_page (make_block_entry ipa attr) (l3_idx y))
       else s2_desc (h_mem h) (dm_l0_table d) y)"
    "\<And>e. res = Inl e \<Longrightarrow> \<forall>y. s2_desc (h_mem h') (dm_l0_table d) y = s2_desc (h_mem h) (dm_l0_table d) y"
proof -
  obtain r1 d1 h1 where g1: "get_or_create_l2 d (l1_idx ipa) h = (r1, d1, h1)" by (metis prod_cases3)
  obtain T1 where T1: "s2_grows U T (dm_l0_table d) h T1 h1" "mapper_ok (U \<union> T1) T1 d1 h1"
    "dm_l0_table d1 = dm_l0_table d"
    "\<And>x. s2_desc (h_mem h1) (dm_l0_table d) x = s2_desc (h_mem h) (dm_l0_table d) x"
    "\<And>t. r1 = Inr t \<Longrightarrow> walk (h_mem h1) (dm_l0_table d) [0, l1_idx ipa] = Some t"
    by (rule get_or_create_l2_spec [OF ok idx_less(2) g1]) metis
  show thesis
  proof (cases r1)
    case (Inl e)
    with mb g1 have "d' = d1" "h' = h1" "res = Inl e" by (simp_all add: map_block_def)
    thus thesis using that [of T1] T1 by simp
  next
    case (Inr t2)
    have r: "res = Inr ()" "d' = d1"
      "h' = h1\<lparr>h_mem := (h_mem h1)(entry_addr t2 (l2_idx ipa) := make_block_entry ipa attr)\<rparr>"
      using mb g1 Inr by (simp_all add: map_block_def)
    have w2: "walk (h_mem h1) (dm_l0_table d) [l0_idx ipa, l1_idx ipa] = Some t2" using T1(5) [OF Inr] x by simp
    have s2: "s2_ok (U \<union> T1) T1 (dm_l0_table d) h1" using s2_growsD [OF T1(1)] .
    note B = s2_block_write [OF s2 w2 block_entry_block r(3)]
    have w2': "walk (h_mem h1) (dm_l0_table d1) [l0_idx ipa, l1_idx ipa] = Some t2" using w2 T1(3) by simp
    have "mapper_ok (U \<union> T1 \<union> T1) T1 d1 h'"
    proof (rule mapper_ok_step [OF T1(2)])
      show "s2_grows (U \<union> T1) T1 (dm_l0_table d1) h1 T1 h'" using B(1) T1(3) by simp
      show "walk (h_mem h') (dm_l0_table d1) [0] = walk (h_mem h1) (dm_l0_table d1) [0]"
        using B(3) [of "[0]"] T1(3) by (simp add: is_path_def ipa_path_def)
      show "h_mem h' (entry_addr (dm_l1_table d1) j) = h_mem h1 (entry_addr (dm_l1_table d1) j)" if "j < 512" for j
        using mapper_l1_entry(1) [OF T1(2) that is_path_ipa(2) w2' _ idx_less(3)] by (simp add: r(3))
    qed
    moreover have "s2_grows U T (dm_l0_table d) h T1 h'" by (rule s2_grows_trans [OF T1(1) B(1)])
    ultimately show thesis using that [of T1] B(2) r(1,2) T1(3,4) by (simp add: Un_assoc)
  qed
qed

text \<open>The 2MB block number of an IPA below \<open>2\<^sup>3\<^sup>9\<close>, the range that the L1 table covers.\<close>

lemma bit_idx:
  "bit (l0_idx x) n \<longleftrightarrow> n < 9 \<and> bit x (39 + n)" "bit (l1_idx x) n \<longleftrightarrow> n < 9 \<and> bit x (30 + n)"
  "bit (l2_idx x) n \<longleftrightarrow> n < 9 \<and> bit x (21 + n)" "bit (l3_idx x) n \<longleftrightarrow> n < 9 \<and> bit x (12 + n)"
  by (auto simp: idx_defs bit_and_iff bit_drop_bit_eq bit_pte_consts)

lemma less_pow_bits: "unat (x :: u64) < 2 ^ k \<Longrightarrow> k \<le> n \<Longrightarrow> \<not> bit x n"
proof -
  assume "unat x < 2 ^ k" "k \<le> n"
  moreover from this have "take_bit k x = x" by (simp add: word_unat_eq_iff unat_take_bit)
  ultimately show "\<not> bit x n" by (metis bit_take_bit_iff not_le)
qed

lemma l0_idx_low: "unat x < 2 ^ 39 \<Longrightarrow> l0_idx x = 0"
  using less_pow_bits [of x 39] by (auto simp: u64_eq_iff bit_idx)

lemma same_block_iff:
  assumes "unat x < 2 ^ 39" "unat y < 2 ^ 39"
  shows "ipa_path x = ipa_path y \<longleftrightarrow> unat x div 2 ^ 21 = unat y div 2 ^ 21"
proof -
  have "ipa_path x = ipa_path y \<longleftrightarrow> drop_bit 21 x = drop_bit 21 y"
  proof
    assume "ipa_path x = ipa_path y"
    hence b: "bit (l1_idx x) n = bit (l1_idx y) n" "bit (l2_idx x) n = bit (l2_idx y) n" for n
      by (simp_all add: ipa_path_def)
    have "bit x (21 + n) = bit y (21 + n)" for n
    proof -
      consider "n < 9" | "9 \<le> n" "n < 18" | "18 \<le> n" by linarith
      thus ?thesis
      proof cases
        case 1 thus ?thesis using b(2) [of n] by (simp add: bit_idx)
      next
        case 2
        hence "n - 9 < 9" by simp
        with 2 show ?thesis using b(1) [of "n - 9"] by (simp add: bit_idx)
      next
        case 3 thus ?thesis using less_pow_bits [OF assms(1)] less_pow_bits [OF assms(2)] by simp
      qed
    qed
    thus "drop_bit 21 x = drop_bit 21 y" by (simp add: u64_eq_iff bit_drop_bit_eq)
  next
    assume "drop_bit 21 x = drop_bit 21 y"
    hence b: "bit (drop_bit 21 x) n = bit (drop_bit 21 y) n" for n by simp
    have "bit x (30 + n) = bit y (30 + n)" "bit x (21 + n) = bit y (21 + n)" for n
      using b [of "9 + n"] b [of n] by (simp_all add: bit_drop_bit_eq)
    thus "ipa_path x = ipa_path y"
      using assms by (simp add: ipa_path_def l0_idx_low u64_eq_iff bit_idx)
  qed
  also have "\<dots> \<longleftrightarrow> unat (drop_bit 21 x) = unat (drop_bit 21 y)" by (simp add: word_unat_eq_iff)
  also have "\<dots> \<longleftrightarrow> unat x div 2 ^ 21 = unat y div 2 ^ 21" by (simp only: unat_drop_bit)
  finally show ?thesis .
qed

text \<open>The block descriptor of an IPA translates each of its pages to itself.\<close>

lemma block_entry_same:
  assumes "drop_bit 21 x = drop_bit 21 y"
  shows "make_block_entry x attr = make_block_entry y attr"
proof -
  have "bit x n = bit y n" if "21 \<le> n" for n
  proof -
    have "bit (drop_bit 21 x) (n - 21) = bit (drop_bit 21 y) (n - 21)" using assms by simp
    thus ?thesis using that by (simp add: bit_drop_bit_eq)
  qed
  hence "x AND NOT BLOCK_MASK_2MB = y AND NOT BLOCK_MASK_2MB"
    by (auto simp: u64_eq_iff bit_and_iff bit_not_iff bit_pte_consts)
  thus ?thesis by (simp add: make_block_entry_def)
qed

lemma attr_bits_low: "12 \<le> n \<Longrightarrow> \<not> bit (mapper_attr_bits attr) n"
proof -
  have "unat (mapper_attr_bits attr) < 2 ^ 12" by (cases attr) (simp_all add: mapper_attr_bits_def)
  thus "12 \<le> n \<Longrightarrow> \<not> bit (mapper_attr_bits attr) n" by (rule less_pow_bits)
qed

lemma identity_pa:
  assumes "unat y < 2 ^ 48"
  shows "pte_addr (block_page (make_block_entry y attr) (l3_idx y)) = page_of y"
proof -
  have n: "(0xFFF :: u64) = PAGE_OFFSET_MASK" by (simp add: PAGE_OFFSET_MASK_def)
  show ?thesis
    unfolding u64_eq_iff page_of_def pte_addr_def n
    using attr_bits_low [of _ attr] less_pow_bits [OF assms]
    by (auto simp: bit_and_iff bit_not_iff bit_or_iff bit_pte_consts bit_block_page idx_less bit_idx
        make_block_entry_def) (meson not_less)
qed

lemma map_blocks_spec:
  assumes "mapper_ok U T d h" "2 ^ 21 dvd unat ipa" "2 ^ 21 dvd unat off"
    "unat ipa + unat off + n * 2 ^ 21 \<le> 2 ^ 39" "map_blocks n off d ipa attr h = (Inr (), d', h')"
  shows "\<exists>T'. s2_grows U T (dm_l0_table d) h T' h' \<and> mapper_ok (U \<union> T') T' d' h' \<and>
    dm_l0_table d' = dm_l0_table d \<and>
    (\<forall>y. unat y < 2 ^ 39 \<longrightarrow> s2_desc (h_mem h') (dm_l0_table d) y =
      (if unat ipa + unat off \<le> unat y \<and> unat y < unat ipa + unat off + n * 2 ^ 21
       then Some (block_page (make_block_entry y attr) (l3_idx y))
       else s2_desc (h_mem h) (dm_l0_table d) y))"
  using assms
proof (induction n arbitrary: off d h U T)
  case 0
  hence s2: "s2_ok U T (dm_l0_table d) h" and "T \<subseteq> U" by (simp_all add: mapper_ok_def s2_ok_def)
  with 0 s2_grows_refl [OF s2] show ?case by (intro exI [of _ T]) (auto simp: Un_absorb2)
next
  case (Suc n)
  let ?x = "ipa + off"
  have x: "unat ?x = unat ipa + unat off" using Suc.prems(4) by (simp add: unat_add_exact)
  hence x39: "unat ?x < 2 ^ 39" using Suc.prems(4) by simp
  have off': "unat (off + BLOCK_SIZE_2MB) = unat off + 2 ^ 21"
    using Suc.prems(4) by (simp add: unat_add_exact BLOCK_SIZE_2MB_def)
  obtain r1 d1 h1 where mb: "map_block d ?x attr h = (r1, d1, h1)" by (metis prod_cases3)
  with Suc.prems(5) have r1: "r1 = Inr ()"
    and rec: "map_blocks n (off + BLOCK_SIZE_2MB) d1 ipa attr h1 = (Inr (), d', h')"
    by (auto split: sum.splits)
  obtain T1 where T1: "s2_grows U T (dm_l0_table d) h T1 h1" "mapper_ok (U \<union> T1) T1 d1 h1"
    "dm_l0_table d1 = dm_l0_table d"
    "\<forall>y. s2_desc (h_mem h1) (dm_l0_table d) y =
      (if ipa_path y = ipa_path ?x then Some (block_page (make_block_entry ?x attr) (l3_idx y))
       else s2_desc (h_mem h) (dm_l0_table d) y)"
    by (rule map_block_spec [OF Suc.prems(1) l0_idx_low [OF x39] mb]) (use r1 in metis)
  have pr: "2 ^ 21 dvd unat (off + BLOCK_SIZE_2MB)"
    "unat ipa + unat (off + BLOCK_SIZE_2MB) + n * 2 ^ 21 \<le> 2 ^ 39"
    using Suc.prems(3,4) by (simp_all add: off')
  obtain T2 where T2: "s2_grows (U \<union> T1) T1 (dm_l0_table d1) h1 T2 h'" "mapper_ok (U \<union> T1 \<union> T2) T2 d' h'"
    "dm_l0_table d' = dm_l0_table d1"
    "\<forall>y. unat y < 2 ^ 39 \<longrightarrow> s2_desc (h_mem h') (dm_l0_table d1) y =
      (if unat ipa + unat (off + BLOCK_SIZE_2MB) \<le> unat y \<and>
          unat y < unat ipa + unat (off + BLOCK_SIZE_2MB) + n * 2 ^ 21
       then Some (block_page (make_block_entry y attr) (l3_idx y))
       else s2_desc (h_mem h1) (dm_l0_table d1) y)"
    using Suc.IH [OF T1(2) Suc.prems(2) pr rec] by blast
  obtain k where k: "unat ipa + unat off = 2 ^ 21 * k"
    using Suc.prems(2,3) dvd_add by blast
  have blk: "ipa_path y = ipa_path ?x \<longleftrightarrow> unat ipa + unat off \<le> unat y \<and> unat y < unat ipa + unat off + 2 ^ 21"
    if "unat y < 2 ^ 39" for y
    unfolding same_block_iff [OF that x39] x k by (auto simp: div_nat_eqI dividend_less_times_div)
  have ent: "make_block_entry ?x attr = make_block_entry y attr" if "ipa_path y = ipa_path ?x" "unat y < 2 ^ 39" for y
    using that same_block_iff [OF that(2) x39]
    by (intro block_entry_same) (simp only: word_unat_eq_iff unat_drop_bit)
  have "U \<union> T1 \<union> T2 = U \<union> T2" using T2(1) by (auto simp: s2_grows_def)
  moreover have "s2_grows U T (dm_l0_table d) h T2 h'" using s2_grows_trans [OF T1(1)] T2(1) T1(3) by simp
  moreover have "s2_desc (h_mem h') (dm_l0_table d) y =
      (if unat ipa + unat off \<le> unat y \<and> unat y < unat ipa + unat off + Suc n * 2 ^ 21
       then Some (block_page (make_block_entry y attr) (l3_idx y))
       else s2_desc (h_mem h) (dm_l0_table d) y)" if "unat y < 2 ^ 39" for y
    using T2(4) T1(3,4) that blk [OF that] ent [of y] by (auto simp: off')
  ultimately show ?case using T2 T1(3) by (intro exI [of _ T2]) simp
qed

end
