(* ===== verification/Stage2_Props.thy ===== *)
theory Stage2_Props
  imports Stage2_Mapper
begin

text \<open>The properties of the Stage-2 tables, stated over the abstract view \<open>s2_desc\<close>, and a boot-time
  state on which their hypotheses are shown to hold.\<close>

section \<open>Properties\<close>

text \<open>The state right after boot: a zeroed memory, the heap of \<open>heap::init\<close> and the first mapper.\<close>

definition boot_heap :: heap where
  "boot_heap = heap_init \<lparr>h_mem = \<lambda>_. 0, h_alloc = None\<rparr>"

definition boot_mapper :: "dyn_mapper \<times> heap" where
  "boot_mapper = the (mapper_new boot_heap)"

lemmas boot_simps = boot_heap_def heap_init_def heap_init_at_def allocator_new_def HEAP_START_def
  HEAP_SIZE_def alloc_page_def bump_alloc_page_def alloc_aligned_def Let_def

lemma boot_alloc: "alloc_page boot_heap = (Some 0x41000000, \<lparr>h_mem = \<lambda>_. 0,
    h_alloc = Some \<lparr>al_next = 0x41001000, al_end = 0x42000000, al_allocated = 4096, al_free_head = 0\<rparr>\<rparr>)"
  by (simp add: boot_simps)

lemma boot_mapper_new: "mapper_new boot_heap = Some boot_mapper"
  by (simp add: boot_mapper_def mapper_new_def boot_alloc) (simp add: boot_simps)

lemma boot_mapper_state:
  "fst boot_mapper = \<lparr>dm_l0_table = 0x41000000, dm_l1_table = 0x41001000, dm_l2_tables = replicate 4 0, dm_l2_count = 0\<rparr>"
  "h_alloc (snd boot_mapper) =
    Some \<lparr>al_next = 0x41002000, al_end = 0x42000000, al_allocated = 8192, al_free_head = 0\<rparr>"
  "h_mem (snd boot_mapper) = (\<lambda>x. if x = 0x41000000 then 0x41001003 else 0)"
  by (simp_all add: boot_mapper_def mapper_new_def boot_alloc)
    (simp_all add: boot_simps zero_page_def pte_consts fun_eq_iff)

lemma boot_mapper_ok: "mapper_ok {0x41001000, 0x41000000} {0x41000000, 0x41001000} (fst boot_mapper) (snd boot_mapper)"
proof -
  have hok: "heap_ok {} boot_heap" unfolding boot_heap_def by (rule heap_init_ok)
  have nw: "mapper_new boot_heap = Some (fst boot_mapper, snd boot_mapper)" by (simp add: boot_mapper_new)
  obtain l0 l1 where l: "dm_l0_table (fst boot_mapper) = l0"
    "mapper_ok (insert l1 (insert l0 {})) {l0, l1} (fst boot_mapper) (snd boot_mapper)"
    by (rule mapper_new_spec [OF hok nw]) metis
  have "walk (h_mem (snd boot_mapper)) l0 [0] = Some (dm_l1_table (fst boot_mapper))" "is_path [0]"
    "wf_tables {l0, l1} (h_mem (snd boot_mapper)) l0"
    using l by (simp_all add: mapper_ok_def s2_ok_def is_path_def)
  hence "dm_l1_table (fst boot_mapper) \<in> {l0, l1}" using wf_tablesD(3) by blast
  with l show ?thesis by (auto simp: boot_mapper_state)
qed

lemma boot_alloc2: "alloc_page (snd boot_mapper) = (Some 0x41002000, (snd boot_mapper)\<lparr>h_alloc :=
      Some \<lparr>al_next = 0x41003000, al_end = 0x42000000, al_allocated = 12288, al_free_head = 0\<rparr>\<rparr>)"
  by (simp add: alloc_page_def boot_mapper_state bump_alloc_page_def alloc_aligned_def Let_def)

lemma boot_map_page: "\<exists>h'. map_page 0x41000000 0x50000000 3 sw (snd boot_mapper) = (Inr (), h')"
proof -
  have "fst (map_page 0x41000000 0x50000000 3 sw (snd boot_mapper)) = Inr ()"
    by (simp add: map_page_def map_page_l3_def get_or_alloc_table_def boot_mapper_state pte_consts boot_alloc2
        entry_addr_def idx_defs zero_page_def Let_def alloc_page_def bump_alloc_page_def alloc_aligned_def)
  thus ?thesis by (metis prod.collapse)
qed

lemma block_entry_s2ap: "s2ap_of (make_block_entry y attr) = (if attr = AttrReadOnly then 1 else 3)"
proof -
  have "s2ap_of (make_block_entry y attr) = s2ap_of (mapper_attr_bits attr)"
    by (auto simp: u8_eq_iff bit_s2ap make_block_entry_def bit_or_iff bit_and_iff bit_not_iff bit_pte_consts)
  thus ?thesis by (cases attr) (simp_all add: s2ap_of_def mapper_attr_bits_def S2AP_SHIFT_def)
qed

text \<open>\<open>map_region\<close> builds an identity mapping: when it succeeds on a 2MB-aligned region below
  \<open>2\<^sup>3\<^sup>9\<close>, every address of the region translates to its own page with the access permissions of
  the attribute, and the translation of every address outside the blocks of the region is kept.\<close>

lemma map_region_identity:
  assumes "mapper_ok U T d h" "2 ^ 21 dvd unat ipa" "unat ipa + num_blocks sz * 2 ^ 21 \<le> 2 ^ 39"
    "map_region d ipa sz attr h = (Inr (), d', h')"
  shows "(\<forall>y. unat ipa \<le> unat y \<and> unat y < unat ipa + unat sz \<longrightarrow>
      (\<exists>e. s2_desc (h_mem h') (dm_l0_table d) y = Some e \<and> pte_addr e = page_of y \<and>
           s2ap_of e = (if attr = AttrReadOnly then 1 else 3))) \<and>
    (\<forall>y. unat y < 2 ^ 39 \<and> \<not> (unat ipa \<le> unat y \<and> unat y < unat ipa + num_blocks sz * 2 ^ 21) \<longrightarrow>
      s2_desc (h_mem h') (dm_l0_table d) y = s2_desc (h_mem h) (dm_l0_table d) y)"
proof -
  let ?n = "num_blocks sz"
  have sz: "unat sz \<le> ?n * 2 ^ 21"
    unfolding num_blocks_def BLOCK_SIZE_2MB_def using dividend_less_times_div [of "2 ^ 21" "unat sz + (2 ^ 21 - 1)"]
    by simp
  have "map_blocks ?n 0 d ipa attr h = (Inr (), d', h')" using assms(4) by (simp add: map_region_def)
  from map_blocks_spec [OF assms(1,2) _ _ this] assms(3)
  have v: "s2_desc (h_mem h') (dm_l0_table d) y =
      (if unat ipa \<le> unat y \<and> unat y < unat ipa + ?n * 2 ^ 21
       then Some (block_page (make_block_entry y attr) (l3_idx y))
       else s2_desc (h_mem h) (dm_l0_table d) y)" if "unat y < 2 ^ 39" for y
    using that by auto
  have ap: "s2ap_of (block_page (make_block_entry y attr) (l3_idx y)) = (if attr = AttrReadOnly then 1 else 3)" for y
    by (simp add: block_page_attrs idx_less block_entry_s2ap)
  show ?thesis
  proof (intro conjI allI impI)
    fix y :: u64 assume y: "unat ipa \<le> unat y \<and> unat y < unat ipa + unat sz"
    hence "unat y < 2 ^ 39" using sz assms(3) by linarith
    moreover from this have "unat y < 2 ^ 48" by simp
    ultimately show "\<exists>e. s2_desc (h_mem h') (dm_l0_table d) y = Some e \<and> pte_addr e = page_of y \<and>
        s2ap_of e = (if attr = AttrReadOnly then 1 else 3)"
      using v y sz ap identity_pa by auto
  qed (use v in auto)
qed

lemma boot_map_region:
  "\<exists>d' h'. map_region (fst boot_mapper) 0x48000000 0x200000 AttrNormal (snd boot_mapper) = (Inr (), d', h')"
proof -
  have n: "num_blocks 0x200000 = 1" by (simp add: num_blocks_def BLOCK_SIZE_2MB_def)
  show ?thesis
    by (simp add: map_region_def n map_block_def get_or_create_l2_def boot_mapper_state boot_alloc2 pte_consts
        entry_addr_def idx_defs split: prod.split)
qed

lemma boot_vms_ok: "vms_ok {0x41000000} (snd boot_mapper)"
  using boot_mapper_ok unfolding vms_ok_def mapper_ok_def boot_mapper_state by auto

text \<open>C6: \<open>map_page\<close> refines the update of the VM's translation at one page: on success the page was
  unmapped before and now translates to the descriptor asked for, on any error the whole translation
  is kept, and the tables of every other VM are untouched.\<close>

theorem map_page_refines:
  assumes "vms_ok rs h" "r \<in> rs" "map_page r ipa s2ap sw h = (res, h')"
  shows "vms_ok rs h' \<and> others_kept rs r h h' \<and>
    (\<forall>y. s2_desc (h_mem h') r y =
      (if res = Inr () \<and> same_page y ipa then Some (page_entry ipa s2ap sw) else s2_desc (h_mem h) r y)) \<and>
    (res = Inr () \<longrightarrow> s2_desc (h_mem h) r ipa = None)"
  using map_page_vms [OF assms(1,2), where x = ipa and a = s2ap and b = sw] assms(3)
  by (cases "res = Inr ()") auto

theorem map_page_refines_witness:
  "\<exists>h'. map_page 0x41000000 0x50000000 3 2 (snd boot_mapper) = (Inr (), h') \<and>
     s2_desc (h_mem h') 0x41000000 0x50000000 = Some (page_entry 0x50000000 3 2)"
proof -
  obtain h' where m: "map_page 0x41000000 0x50000000 3 2 (snd boot_mapper) = (Inr (), h')"
    using boot_map_page by blast
  from map_page_refines [OF boot_vms_ok _ m] m show ?thesis by simp
qed

text \<open>Unmapping undoes mapping: after a successful \<open>map_page\<close> the page can be unmapped, and the
  VM's translation is what it was before.\<close>

lemma map_unmap_roundtrip:
  assumes "vms_ok rs h" "r \<in> rs" "map_page r ipa s2ap sw h = (Inr (), h1)"
  shows "\<exists>h2. unmap_page r ipa h1 = (Inr (), h2) \<and> (\<forall>y. s2_desc (h_mem h2) r y = s2_desc (h_mem h) r y)"
proof -
  note m = map_page_vms [OF assms(1,2), where x = ipa and a = s2ap and b = sw, unfolded assms(3), simplified]
  note u = unmap_page_vms(3) [OF m(1) assms(2)]
  obtain h2 where h2: "unmap_page r ipa h1 = (Inr (), h2)" using u m(3) by (metis prod.collapse)
  obtain U T where "s2_ok U T r h" using assms(1,2) unfolding vms_ok_def by blast
  hence "same_page y ipa \<Longrightarrow> s2_desc (h_mem h) r y = None" for y
    using s2_desc_same_page m(3) by metis
  hence "s2_desc (h_mem h2) r y = s2_desc (h_mem h) r y" for y
    using u [of ipa y] m(3) h2 by (cases "same_page y ipa") auto
  with h2 show ?thesis by blast
qed

text \<open>Changing the software bits of a page changes that page only: on success the page reads back
  the new bits with its access permissions and address kept, even when a 2MB block had to be split
  for it; every other page of the VM keeps its descriptor; on failure all of them do.\<close>

lemma write_sw_bits_one_page:
  assumes "vms_ok rs h" "r \<in> rs" "write_sw_bits r ipa bits h = (res, h')"
  shows "vms_ok rs h' \<and> others_kept rs r h h' \<and>
    (res = Inr () \<longrightarrow> read_sw_bits (h_mem h') r ipa = Some (bits AND 3) \<and>
       read_s2ap (h_mem h') r ipa = read_s2ap (h_mem h) r ipa) \<and>
    (\<forall>y. \<not> (res = Inr () \<and> same_page y ipa) \<longrightarrow> s2_desc (h_mem h') r y = s2_desc (h_mem h) r y)"
proof -
  have ok: "vms_ok rs h \<and> r \<in> rs" using assms by blast
  have v: "vms_ok rs h'" "others_kept rs r h h'"
    using sw_writer.wr_ok [OF ok, of ipa bits] sw_writer.wr_kept [OF ok, of ipa bits] assms(3) by simp_all
  obtain U T U' T' where s: "s2_ok U T r h" "s2_ok U' T' r h'"
    using ok v(1) unfolding vms_ok_def by blast
  have "s2_desc (h_mem h') r y = s2_desc (h_mem h) r y" if "\<not> (res = Inr () \<and> same_page y ipa)" for y
    using that sw_writer.wr_view_cases [OF ok, of ipa bits y] sw_writer.wr_err [OF ok, of ipa bits y] assms(3) by auto
  moreover have "read_sw_bits (h_mem h') r ipa = Some (bits AND 3) \<and>
       read_s2ap (h_mem h') r ipa = read_s2ap (h_mem h) r ipa" if "res = Inr ()"
  proof -
    have "is_page (h_mem h') r ipa" using sw_writer.wr_split [OF ok, of ipa bits] assms(3) that by simp
    hence "s2_desc (h_mem h') r ipa \<noteq> None" by (rule is_page_mapped)
    moreover have "s2_desc (h_mem h') r ipa = map_option (with_sw_bits bits) (s2_desc (h_mem h) r ipa)"
      using sw_writer.wr_view [OF ok, of ipa bits ipa] assms(3) that by simp
    ultimately show ?thesis
      by (auto simp: read_sw_bits_view [OF s(2)] read_s2ap_view [OF s(2)] read_s2ap_view [OF s(1)])
  qed
  ultimately show ?thesis using v by blast
qed



text \<open>\<open>map_4kb_page\<close> of the boot-time mapper is the update of the translation at one page, to the
  page itself, whatever the page was mapped by before; on an error nothing changes.\<close>

lemma map_4kb_page_refines:
  assumes "mapper_ok U T d h" "unat ipa < 2 ^ 39" "map_4kb_page d ipa attr h = (res, d', h')"
  shows "(\<exists>U' T'. mapper_ok U' T' d' h') \<and> dm_l0_table d' = dm_l0_table d \<and>
    (\<forall>y. s2_desc (h_mem h') (dm_l0_table d) y =
      (if res = Inr () \<and> same_page y ipa then Some (make_page_entry (page_of ipa) attr)
       else s2_desc (h_mem h) (dm_l0_table d) y))"
proof -
  obtain T' where "mapper_ok (U \<union> T') T' d' h'" "dm_l0_table d' = dm_l0_table d"
    "res = Inr () \<Longrightarrow> \<forall>y. s2_desc (h_mem h') (dm_l0_table d) y =
      (if same_page y ipa then Some (make_page_entry (ipa AND NOT PAGE_MASK_4KB) attr)
       else s2_desc (h_mem h) (dm_l0_table d) y)"
    "\<And>e. res = Inl e \<Longrightarrow> \<forall>y. s2_desc (h_mem h') (dm_l0_table d) y = s2_desc (h_mem h) (dm_l0_table d) y"
    by (rule map_4kb_page_spec [OF assms(1) l0_idx_low [OF assms(2)] assms(3)]) metis
  moreover have "ipa AND NOT PAGE_MASK_4KB = page_of ipa"
    by (simp add: page_of_def PAGE_MASK_4KB_def PAGE_SIZE_4KB_def)
  ultimately show ?thesis by (cases res) auto
qed

end
