(* ===== verification/Ffa_Share_Props.thy ===== *)
theory Ffa_Share_Props
  imports Ffa_Proxy_Lemmas Stage2_Props
begin

text \<open>Memory sharing through the proxy: the life cycle of a share, isolation of the VMs' page tables, and
  the effect of share, retrieve, relinquish and reclaim on the translations.\<close>

section \<open>The state of the proxy\<close>

definition vm_roots :: "ffa_state \<Rightarrow> u64 set" where
  "vm_roots s = set (fs_per_vm_vttbr s) - {0}"

abbreviation cur_root :: "ffa_state \<Rightarrow> u64" where
  "cur_root s \<equiv> walker_from_vttbr (fs_vttbr s)"

abbreviation s2_view :: "ffa_state \<Rightarrow> u64 \<Rightarrow> u64 \<Rightarrow> u64 option" where
  "s2_view s r ipa \<equiv> s2_desc (h_mem (fs_heap s)) r ipa"

text \<open>The current VM is one of the two VMs and runs on its own tables; the tables of the VMs do not overlap.\<close>

definition proxy_ok :: "ffa_state \<Rightarrow> bool" where
  "proxy_ok s \<longleftrightarrow> length (fs_mailboxes s) = FFA_MAX_VMS \<and> notif_inv (fs_notif s) \<and> shares_ok (fs_shares s) \<and>
    length (fs_per_vm_vttbr s) = 2 \<and> fs_vm_id s < 2 \<and> cur_root s = fs_per_vm_vttbr s ! fs_vm_id s \<and>
    (\<forall>r\<in>set (fs_per_vm_vttbr s). walker_from_vttbr r = r) \<and>
    vms_ok (vm_roots s) (fs_heap s)"

lemma proxy_okD:
  assumes "proxy_ok s"
  shows "shares_ok (fs_shares s)" "vms_ok (vm_roots s) (fs_heap s)" "fs_vm_id s < FFA_MAX_VMS"
    "has_stage2 (cur_root s) \<Longrightarrow> cur_root s \<in> vm_roots s"
  using assms by (auto simp: proxy_ok_def vm_roots_def has_stage2_def FFA_MAX_VMS_def)

lemma s2ap_fields [simp]: "s2ap_field S2AP_NONE = 0" "s2ap_field S2AP_RO = 1" "s2ap_field S2AP_RW = 3"
  by (simp_all add: s2ap_field_def S2AP_NONE_def S2AP_RO_def S2AP_RW_def S2AP_SHIFT_def)

text \<open>What a step does to the page tables and the records.\<close>

definition heap_step_ok :: "ffa_state \<Rightarrow> heap \<Rightarrow> bool" where
  "heap_step_ok s h' \<longleftrightarrow> vms_ok (vm_roots s) h' \<and> others_kept (vm_roots s) (cur_root s) (fs_heap s) h'"

lemma heap_step_refl: "proxy_ok s \<Longrightarrow> heap_step_ok s (fs_heap s)"
  by (simp add: heap_step_ok_def proxy_okD others_kept_refl)

lemma transition_heap_step:
  "proxy_ok s \<Longrightarrow> has_stage2 (cur_root s) \<Longrightarrow> heap_step_ok s (transition_pages (cur_root s) sw ap xs (fs_heap s))"
  using sw_ap.trans_ok [of "vm_roots s" "fs_heap s" "cur_root s"] sw_ap.trans_kept [of "vm_roots s" "fs_heap s" "cur_root s"]
  by (simp add: heap_step_ok_def transition_pages_def proxy_okD)

text \<open>The receiver of a retrieve or relinquish is the caller, so its tables are the current ones.\<close>

lemma receiver_is_current:
  assumes "proxy_ok s" "vm_id_to_partition_id (fs_vm_id s) = rcv"
  shows "receiver_root rcv s = Some (cur_root s)"
proof -
  have "partition_id_to_vm_id rcv = Some (fs_vm_id s)"
    using assms proxy_okD(3) vm_partition_roundtrip by blast
  thus ?thesis using assms(1) by (simp add: receiver_root_def proxy_ok_def)
qed

lemma map_all_heap_step:
  assumes "proxy_ok s" "cur_root s \<noteq> 0"
    "map_all (\<lambda>x. map_page (cur_root s) x a b) (unmap_page (cur_root s)) [] xs (fs_heap s) = (ok, h')"
  shows "heap_step_ok s h'"
  using vm_mapper.map_all_spec [OF _ _ _ assms(3), of "vm_roots s"] assms(1,2) proxy_okD
  by (simp add: heap_step_ok_def has_stage2_def)

lemma unmap_all_heap_step:
  assumes "proxy_ok s" "cur_root s \<noteq> 0"
  shows "heap_step_ok s (fold (\<lambda>x h. snd (unmap_page (cur_root s) x h)) xs (fs_heap s))"
proof -
  have r: "cur_root s \<in> vm_roots s" using proxy_okD(4) [OF assms(1)] assms(2) by (simp add: has_stage2_def)
  have "vms_ok (vm_roots s) h \<Longrightarrow> vms_ok (vm_roots s) (fold (\<lambda>x h. snd (unmap_page (cur_root s) x h)) xs h) \<and>
      others_kept (vm_roots s) (cur_root s) h (fold (\<lambda>x h. snd (unmap_page (cur_root s) x h)) xs h)" for h
  proof (induction xs arbitrary: h)
    case (Cons x xs)
    note u = unmap_page_vms(1,2) [OF Cons.prems r, of x]
    from Cons.IH [OF u(1)] u(2) show ?case by (auto intro: others_kept_trans)
  qed (simp add: others_kept_refl)
  thus ?thesis using assms(1) by (simp add: heap_step_ok_def proxy_okD)
qed

section \<open>The life cycle of a share\<close>

text \<open>How one call of the partition \<open>c\<close> may change the record of one handle.\<close>

inductive share_trans :: "u16 \<Rightarrow> share_record option \<Rightarrow> share_record option \<Rightarrow> bool" for c where
  keep: "share_trans c x x"
| create: "share_trans c None (Some (new_share h c rcv rs n lend))"
| retrieve: "\<lbrakk>sr_receiver_id r = c; \<not> sr_retrieved r\<rbrakk> \<Longrightarrow> share_trans c (Some r) (Some (r\<lparr>sr_retrieved := True\<rparr>))"
| relinquish: "\<lbrakk>sr_receiver_id r = c; sr_retrieved r\<rbrakk> \<Longrightarrow> share_trans c (Some r) (Some (r\<lparr>sr_retrieved := False\<rparr>))"
| reclaim: "\<not> sr_retrieved r \<Longrightarrow> share_trans c (Some r) None"

inductive_cases share_trans_SomeE: "share_trans c (Some r) y"
inductive_cases share_trans_NoneE: "share_trans c None y"

text \<open>What a call may do to the whole state.\<close>

definition call_step :: "ffa_state \<Rightarrow> ffa_state \<Rightarrow> bool" where
  "call_step s s' \<longleftrightarrow> heap_step_ok s (fs_heap s') \<and> shares_ok (fs_shares s') \<and> fs_vm_id s' = fs_vm_id s \<and>
    fs_vttbr s' = fs_vttbr s \<and> fs_per_vm_vttbr s' = fs_per_vm_vttbr s \<and>
    length (fs_mailboxes s') = length (fs_mailboxes s) \<and> (notif_inv (fs_notif s) \<longrightarrow> notif_inv (fs_notif s')) \<and>
    (\<forall>h. share_trans (vm_id_to_partition_id (fs_vm_id s)) (shares_view (fs_shares s) h) (shares_view (fs_shares s') h))"

lemma call_step_refl: "proxy_ok s \<Longrightarrow> call_step s s"
  by (simp add: call_step_def heap_step_refl proxy_okD keep)

lemma light_call_step: "proxy_ok s \<Longrightarrow> light_step s s' \<Longrightarrow> call_step s s'"
  using heap_step_refl [of s] proxy_okD(1) [of s] by (simp add: call_step_def light_step_def keep)

lemma call_step_ok: "proxy_ok s \<Longrightarrow> call_step s s' \<Longrightarrow> proxy_ok s'"
  by (simp add: call_step_def proxy_ok_def heap_step_ok_def vm_roots_def)

lemma share_pages_step:
  assumes "proxy_ok s" "share_pages env lend rs s = Inr s1"
  shows "heap_step_ok s (fs_heap s1)" "s1 = s\<lparr>fs_heap := fs_heap s1\<rparr>"
  using assms transition_heap_step [OF assms(1)] heap_step_refl [OF assms(1)]
  by (auto simp: share_pages_def Let_def split: if_splits sum.splits)

lemma record_call_step:
  assumes "proxy_ok s" "shares_room (fs_shares s)" "heap_step_ok s h"
    "record_share (vm_id_to_partition_id (fs_vm_id s)) rcv rs n lend (fs_shares s) = (res, sh)"
  shows "call_step s (s\<lparr>fs_heap := h, fs_shares := sh\<rparr>)"
proof -
  note ok = proxy_okD(1) [OF assms(1)]
  have "shares_ok sh" using stub_shares.rcd_ok [OF ok assms(2)] assms(4) by (metis snd_conv)
  moreover have "share_trans (vm_id_to_partition_id (fs_vm_id s)) (shares_view (fs_shares s) k) (shares_view sh k)" for k
  proof (cases res)
    case None
    with stub_shares.rcd_None [OF ok assms(2)] assms(4) show ?thesis by (metis keep)
  next
    case (Some h')
    with stub_shares.rcd_Some [OF ok assms(2)] assms(4)
    have "shares_view (fs_shares s) h' = None"
      "shares_view sh = (shares_view (fs_shares s))(h' \<mapsto> new_share h' (vm_id_to_partition_id (fs_vm_id s)) rcv rs n lend)"
      by blast+
    note v = this(1) fun_cong [OF this(2), of k]
    show ?thesis using v by (cases "k = h'") (simp_all add: keep create)
  qed
  ultimately show ?thesis using assms(3) by (simp add: call_step_def)
qed

lemma share_call_step:
  assumes "proxy_ok s" "shares_room (fs_shares s)" "handle_mem_share_or_lend env lend r s = Some (r', s')"
  shows "call_step s s'"
proof -
  have "share_pages env lend rs s = Inr s1 \<Longrightarrow>
      record_share (vm_id_to_partition_id (fs_vm_id s)) rcv rs n lend (fs_shares s1) = (res, sh) \<Longrightarrow>
      call_step s (s1\<lparr>fs_shares := sh\<rparr>)" for rs s1 rcv n res sh
  proof -
    assume sp: "share_pages env lend rs s = Inr s1"
      and rc: "record_share (vm_id_to_partition_id (fs_vm_id s)) rcv rs n lend (fs_shares s1) = (res, sh)"
    note st = share_pages_step [OF assms(1) sp]
    have "fs_shares s1 = fs_shares s" by (subst st(2)) simp
    from record_call_step [OF assms(1,2) st(1) rc [unfolded this]]
    show "call_step s (s1\<lparr>fs_shares := sh\<rparr>)" by (subst st(2)) simp
  qed
  with assms(3) call_step_refl [OF assms(1)] show ?thesis
    unfolding handle_mem_share_or_lend_def Let_def
    by (elim branchE; clarsimp; blast)
qed

text \<open>The other three handlers: a change of the page tables and an update of one record.\<close>

lemma record_update_step:
  assumes "proxy_ok s" "heap_step_ok s hp" "shares_ok sh" "\<And>k. shares_view sh k = (if k = h then y else shares_view (fs_shares s) k)"
    "share_trans (vm_id_to_partition_id (fs_vm_id s)) (shares_view (fs_shares s) h) y"
  shows "call_step s (s\<lparr>fs_heap := hp, fs_shares := sh\<rparr>)"
  using assms by (simp add: call_step_def keep)

lemma reclaim_call_step:
  assumes "proxy_ok s" "handle_mem_reclaim env r s = Some (r', s')"
  shows "call_step s s'"
proof -
  note ok = proxy_okD(1) [OF assms(1)]
  have st: "call_step s (s\<lparr>fs_heap := hp, fs_shares := snd (reclaim_share (reg_handle r) (fs_shares s))\<rparr>)"
    if "shares_view (fs_shares s) (reg_handle r) = Some info" "\<not> sr_retrieved info" "heap_step_ok s hp" for info hp
    using that stub_shares.recl_ok [OF ok] fun_cong [OF stub_shares.recl_view [OF ok]]
    by (intro record_update_step [OF assms(1), where y = None and h = "reg_handle r"]) (simp_all add: reclaim)
  have s: "call_step s (s\<lparr>fs_shares := snd (reclaim_share (reg_handle r) (fs_shares s))\<rparr>)"
    if "shares_view (fs_shares s) (reg_handle r) = Some info" "\<not> sr_retrieved info" for info
    using st [OF that heap_step_refl [OF assms(1)]] by simp
  show ?thesis using assms(2) call_step_refl [OF assms(1)] transition_heap_step [OF assms(1)]
    unfolding handle_mem_reclaim_def Let_def
    by (elim branchE) (auto intro!: st s split: if_splits)
qed

lemma retrieve_pages_step:
  assumes "proxy_ok s" "vm_id_to_partition_id (fs_vm_id s) = sr_receiver_id info"
    "retrieve_pages env info s = Some (ok, s1)"
  shows "heap_step_ok s (fs_heap s1)" "s1 = s\<lparr>fs_heap := fs_heap s1\<rparr>"
  using assms receiver_is_current [OF assms(1,2)] map_all_heap_step [OF assms(1)] heap_step_refl [OF assms(1)]
  by (auto simp: retrieve_pages_def split: if_splits prod.splits)

lemma retrieve_call_step:
  assumes "proxy_ok s" "handle_mem_retrieve_req env r s = Some (r', s')"
  shows "call_step s s'"
proof -
  note ok = proxy_okD(1) [OF assms(1)]
  have "call_step s s1 \<and> call_step s (s1\<lparr>fs_shares := snd (mark_retrieved (reg_handle r) (fs_shares s1))\<rparr>)"
    if i: "shares_view (fs_shares s) (reg_handle r) = Some info" "\<not> sr_retrieved info"
      "vm_id_to_partition_id (fs_vm_id s) = sr_receiver_id info" and p: "retrieve_pages env info s = Some (b, s1)"
    for info b s1
  proof -
    note st = retrieve_pages_step [OF assms(1) i(3) p]
    have "call_step s (s\<lparr>fs_heap := fs_heap s1, fs_shares := snd (mark_retrieved (reg_handle r) (fs_shares s))\<rparr>)"
      using i st(1) stub_shares.retr_ok [OF ok] fun_cong [OF stub_shares.retr_view [OF ok]]
      by (intro record_update_step [OF assms(1), where h = "reg_handle r" and y = "Some (info\<lparr>sr_retrieved := True\<rparr>)"])
        (simp_all add: retrieve)
    moreover have "call_step s (s\<lparr>fs_heap := fs_heap s1\<rparr>)"
      using st(1) ok by (simp add: call_step_def keep)
    ultimately show ?thesis by (subst (1 2 3) st(2)) simp
  qed
  thus ?thesis using assms(2) call_step_refl [OF assms(1)]
    unfolding handle_mem_retrieve_req_def Let_def
    by (elim branchE) auto
qed

lemma relinquish_call_step:
  assumes "proxy_ok s" "handle_mem_relinquish env r s = Some (r', s')"
  shows "call_step s s'"
proof -
  note ok = proxy_okD(1) [OF assms(1)]
  have "call_step s (s1\<lparr>fs_shares := snd (mark_relinquished (reg_handle r) (fs_shares s1))\<rparr>)"
    if i: "shares_view (fs_shares s) (reg_handle r) = Some info" "sr_retrieved info"
      "vm_id_to_partition_id (fs_vm_id s) = sr_receiver_id info" and p: "relinquish_pages env info s = Some s1"
    for info s1
  proof -
    have st: "heap_step_ok s (fs_heap s1)" "s1 = s\<lparr>fs_heap := fs_heap s1\<rparr>"
      using p receiver_is_current [OF assms(1) i(3)] unmap_all_heap_step [OF assms(1)] heap_step_refl [OF assms(1)]
      by (auto simp: relinquish_pages_def split: if_splits)
    have "call_step s (s\<lparr>fs_heap := fs_heap s1, fs_shares := snd (mark_relinquished (reg_handle r) (fs_shares s))\<rparr>)"
      using i st(1) stub_shares.relq_ok [OF ok] fun_cong [OF stub_shares.relq_view [OF ok]]
      by (intro record_update_step [OF assms(1), where h = "reg_handle r" and y = "Some (info\<lparr>sr_retrieved := False\<rparr>)"])
        (simp_all add: relinquish)
    thus ?thesis by (subst (1 2) st(2)) simp
  qed
  thus ?thesis using assms(2) call_step_refl [OF assms(1)]
    unfolding handle_mem_relinquish_def Let_def
    by (elim branchE) auto
qed

lemma ffa_call_step:
  assumes "proxy_ok s" "shares_room (fs_shares s)" "handle_ffa_call env r s = Some (r', s')"
  shows "call_step s s'"
  using assms(3) by (cases rule: ffa_call_cases)
    (simp_all add: assms light_call_step share_call_step reclaim_call_step retrieve_call_step relinquish_call_step)

section \<open>Sequences of calls\<close>

text \<open>Switching to another VM loads its root table.\<close>

definition switch_vm :: "nat \<Rightarrow> ffa_state \<Rightarrow> ffa_state" where
  "switch_vm v s = s\<lparr>fs_vm_id := v, fs_vttbr := fs_per_vm_vttbr s ! v\<rparr>"

lemma switch_vm_ok: "proxy_ok s \<Longrightarrow> v < 2 \<Longrightarrow> proxy_ok (switch_vm v s)"
  by (simp add: proxy_ok_def switch_vm_def vm_roots_def)

text \<open>Calls made by the VMs in \<open>V\<close>, in any order.  The handle counter must not wrap around, which takes
  \<open>2\<^sup>6\<^sup>4\<close> shares.\<close>

inductive calls_by :: "ffa_env \<Rightarrow> nat set \<Rightarrow> ffa_state \<Rightarrow> ffa_state \<Rightarrow> bool" for env V s where
  no_call: "calls_by env V s s"
| call: "\<lbrakk>calls_by env V s s1; v \<in> V; v < 2; shares_room (fs_shares s1);
    handle_ffa_call env r (switch_vm v s1) = Some (r', s2)\<rbrakk> \<Longrightarrow> calls_by env V s s2"

lemma call_by_step:
  assumes "proxy_ok s1" "v < 2" "shares_room (fs_shares s1)" "handle_ffa_call env r (switch_vm v s1) = Some (r', s2)"
  shows "proxy_ok s2" "fs_per_vm_vttbr s2 = fs_per_vm_vttbr s1"
    "others_kept (vm_roots s1) (fs_per_vm_vttbr s1 ! v) (fs_heap s1) (fs_heap s2)"
    "share_trans (vm_id_to_partition_id v) (shares_view (fs_shares s1) h) (shares_view (fs_shares s2) h)"
proof -
  note ok = switch_vm_ok [OF assms(1,2)]
  have "shares_room (fs_shares (switch_vm v s1))" using assms(3) by (simp add: switch_vm_def)
  note st = ffa_call_step [OF ok this assms(4)]
  show "proxy_ok s2" using call_step_ok [OF ok st] .
  have "cur_root (switch_vm v s1) = fs_per_vm_vttbr s1 ! v" "vm_roots (switch_vm v s1) = vm_roots s1"
    using ok by (simp_all add: proxy_ok_def switch_vm_def vm_roots_def)
  with st show "fs_per_vm_vttbr s2 = fs_per_vm_vttbr s1"
    "others_kept (vm_roots s1) (fs_per_vm_vttbr s1 ! v) (fs_heap s1) (fs_heap s2)"
    "share_trans (vm_id_to_partition_id v) (shares_view (fs_shares s1) h) (shares_view (fs_shares s2) h)"
    by (simp_all add: call_step_def heap_step_ok_def) (simp_all add: switch_vm_def)
qed

lemma calls_by_ok:
  assumes "calls_by env V s s'" "proxy_ok s"
  shows "proxy_ok s'" "fs_per_vm_vttbr s' = fs_per_vm_vttbr s"
  using assms by (induction rule: calls_by.induct) (simp_all add: call_by_step)

text \<open>A state to start from: the heap and the mapper of the first VM after boot, no mailbox, no share.\<close>

definition boot_ffa :: "heap \<Rightarrow> ffa_state" where
  "boot_ffa h = \<lparr>fs_heap = h, fs_mem = \<lambda>_. 0, fs_mailboxes = MAILBOXES, fs_notif = NOTIF_STATE,
     fs_shares = SHARES_INIT, fs_spmc_present = False, fs_rxtx_registered = False, fs_vm_id = 0,
     fs_vttbr = 0x41000000, fs_per_vm_vttbr = [0x41000000, 0]\<rparr>"

definition linux_env :: ffa_env where
  "linux_env = \<lparr>env_linux_guest = True, env_tfa_boot = False, env_smc8 = \<lambda>r m. (r, m),
     env_proxy_tx = 0, env_proxy_rx = 0\<rparr>"

lemma boot_ffa_ok: "vms_ok {0x41000000} h \<Longrightarrow> proxy_ok (boot_ffa h)"
  by (simp add: proxy_ok_def boot_ffa_def MAILBOXES_def shares_ok_init notif_inv_init walker_from_vttbr_def
      PTE_ADDR_MASK_def vm_roots_def insert_Diff_if)

lemma boot_room: "shares_room SHARES_INIT"
  by (simp add: shares_room_def SHARES_INIT_def)

section \<open>Properties\<close>



text \<open>C19: The life cycle of a share: one call of a VM creates at most a new share under an unused handle
  with the caller as sender; only the receiver retrieves or relinquishes it; and a share that is
  retrieved cannot disappear.\<close>

theorem share_life_cycle:
  assumes "proxy_ok s" "shares_room (fs_shares s)" "handle_ffa_call env r s = Some (r', s')"
  shows "share_trans (vm_id_to_partition_id (fs_vm_id s)) (shares_view (fs_shares s) h) (shares_view (fs_shares s') h) \<and>
    (\<forall>rec. shares_view (fs_shares s) h = Some rec \<and> sr_retrieved rec \<longrightarrow>
      (\<exists>rec'. shares_view (fs_shares s') h = Some rec' \<and> (rec' = rec \<or> sr_receiver_id rec = vm_id_to_partition_id (fs_vm_id s))))"
proof -
  have "share_trans (vm_id_to_partition_id (fs_vm_id s)) (shares_view (fs_shares s) h) (shares_view (fs_shares s') h)"
    using ffa_call_step [OF assms] by (simp add: call_step_def)
  thus ?thesis by (auto elim: share_trans.cases)
qed

theorem share_life_cycle_witness:
  "\<exists>r' s' h rec. handle_ffa_call linux_env ((\<lambda>_. 0)(0 := FFA_MEM_SHARE_32, 4 := 1, 5 := 0x8001))
       ((boot_ffa (snd boot_mapper))\<lparr>fs_vttbr := 0, fs_per_vm_vttbr := [0, 0]\<rparr>) = Some (r', s') \<and>
     share_trans 1 None (shares_view (fs_shares s') h) \<and> shares_view (fs_shares s') h = Some rec"
proof -
  let ?s = "(boot_ffa (snd boot_mapper))\<lparr>fs_vttbr := 0, fs_per_vm_vttbr := [0, 0]\<rparr>"
    and ?r = "(\<lambda>_. 0)(0 := FFA_MEM_SHARE_32, 4 := 1, 5 := 0x8001) :: gp_regs"
  have ok: "proxy_ok ?s"
    using boot_vms_ok by (auto simp: proxy_ok_def boot_ffa_def MAILBOXES_def shares_ok_init notif_inv_init
      walker_from_vttbr_def vm_roots_def vms_ok_def)
  have room: "shares_room (fs_shares ?s)" by (simp add: boot_ffa_def boot_room)
  have "handle_ffa_call linux_env ?r ?s = handle_mem_share_or_lend linux_env False ?r ?s"
    by (simp add: handle_ffa_call_def Let_def ffa_consts handle_mem_share_def)
  also have "\<dots> = Some (?r(0 := FFA_SUCCESS_32, 2 := 1, 3 := 0), ?s\<lparr>fs_shares := snd (record_share 1 0x8001 [(0, 1)] 1 False SHARES_INIT)\<rparr>)"
    by (simp add: handle_mem_share_or_lend_def share_request_def get_mailbox_def boot_ffa_def MAILBOXES_def
        FFA_MAX_VMS_def mailbox_new_def is_valid_receiver_def is_valid_sp_def STUB_PARTITIONS_def share_pages_def
        has_stage2_def walker_from_vttbr_def vm_id_to_partition_id_def record_share_def alloc_handle_def
        SHARES_INIT_def MAX_SHARES_def replicate_unroll share_empty_def Let_def)
  finally have c: "handle_ffa_call linux_env ?r ?s = \<dots>" .
  have "shares_view (snd (record_share 1 0x8001 [(0, 1)] 1 False SHARES_INIT)) 1 \<noteq> None"
    by (simp add: record_share_def alloc_handle_def SHARES_INIT_def MAX_SHARES_def replicate_unroll share_empty_def
        lookup_share_full_def)
  moreover have "shares_view (fs_shares ?s) 1 = None"
    by (simp add: boot_ffa_def SHARES_INIT_def MAX_SHARES_def replicate_unroll share_empty_def lookup_share_full_def)
  moreover have "vm_id_to_partition_id (fs_vm_id ?s) = 1" by (simp add: boot_ffa_def vm_id_to_partition_id_def)
  ultimately show ?thesis using share_life_cycle [OF ok room c, of 1] c
    by (intro exI [of _ "?r(0 := FFA_SUCCESS_32, 2 := 1, 3 := 0)"]
        exI [of _ "?s\<lparr>fs_shares := snd (record_share 1 0x8001 [(0, 1)] 1 False SHARES_INIT)\<rparr>"] exI [of _ 1]) auto
qed

section \<open>The effect on the translations\<close>

lemma ffa_error_x0 [simp]: "ffa_error c r 0 = FFA_ERROR" "FFA_ERROR \<noteq> FFA_SUCCESS_32" "FFA_SUCCESS_32 \<noteq> FFA_ERROR"
  by (simp_all add: ffa_error_def FFA_ERROR_def FFA_SUCCESS_32_def)

text \<open>A successful share with Stage-2 tables in use: all pages were checked, then changed, and the record
  was made under the handle that the registers return.\<close>

lemma share_success:
  assumes "handle_mem_share_or_lend env lend r s = Some (r', s')" "r' 0 = FFA_SUCCESS_32"
    "env_linux_guest env" "has_stage2 (cur_root s)"
    "get_mailbox (fs_mailboxes s) (fs_vm_id s) = Some mb" "share_request (fs_mem s) r mb = Inr (sid, rcv, rs, n)"
  obtains h sh where
    "validate_pages (h_mem (fs_heap s)) (cur_root s) (range_pages rs) = Inr ()"
    "record_share (vm_id_to_partition_id (fs_vm_id s)) rcv rs n lend (fs_shares s) = (Some h, sh)"
    "s' = s\<lparr>fs_heap := transition_pages (cur_root s) 1 (if lend then 0 else 1) (range_pages rs) (fs_heap s), fs_shares := sh\<rparr>"
    "r' 2 = h AND 0xFFFFFFFF" "r' 3 = drop_bit 32 h"
proof -
  have "share_pages env lend rs s = (case validate_pages (h_mem (fs_heap s)) (cur_root s) (range_pages rs) of
      Inl code \<Rightarrow> Inl code
    | Inr _ \<Rightarrow> Inr (s\<lparr>fs_heap := transition_pages (cur_root s) 1 (if lend then 0 else 1) (range_pages rs) (fs_heap s)\<rparr>))"
    using assms(3,4) by (simp add: share_pages_def Let_def split: sum.split)
  moreover have "\<exists>s1 h sh. share_pages env lend rs s = Inr s1 \<and>
    record_share (vm_id_to_partition_id (fs_vm_id s)) rcv rs n lend (fs_shares s1) = (Some h, sh) \<and>
    s' = s1\<lparr>fs_shares := sh\<rparr> \<and> r' 2 = h AND 0xFFFFFFFF \<and> r' 3 = drop_bit 32 h"
    using assms(1,2) unfolding handle_mem_share_or_lend_def assms(5) Let_def option.simps bind.bind_lunit assms(6)
    by (auto elim!: branchE)
  ultimately show ?thesis using that by (auto split: sum.splits)
qed

text \<open>The handle can be handed back in the registers that return it.\<close>

lemma reg_handle_parts: "reg_handle (r(1 := h AND 0xFFFFFFFF, 2 := drop_bit 32 h)) = h"
proof -
  have m: "(0xFFFFFFFF :: u64) = mask 32" by (simp add: mask_eq_exp_minus_1)
  show ?thesis unfolding reg_handle_def m
    by (simp add: u64_eq_iff bit_or_iff bit_and_iff bit_mask_iff bit_push_bit_iff bit_drop_bit_eq) auto
qed

lemma sw_bits_and3: "sw_bits_of d AND 3 = sw_bits_of d"
  unfolding u8_eq_iff bit_and_iff bit_three bit_sw_bits by auto

lemma validate_pages_view:
  assumes "s2_ok U T l0 h" "validate_pages (h_mem h) l0 xs = Inr ()" "x \<in> set xs"
  shows "\<exists>d. s2_desc (h_mem h) l0 x = Some d \<and> sw_bits_of d = 0"
  using assms(2,3)
proof (induction xs)
  case (Cons y ys)
  then obtain sw where sw: "read_sw_bits (h_mem h) l0 y = Some sw" "sw AND 3 = 0" "validate_pages (h_mem h) l0 ys = Inr ()"
    by (auto split: option.splits sum.splits simp: validate_Owned [symmetric])
  hence "\<exists>d. s2_desc (h_mem h) l0 y = Some d \<and> sw_bits_of d = 0"
    using read_sw_bits_view [OF assms(1)] sw_bits_and3 by auto
  with Cons sw(3) show ?case by auto
qed simp

lemma restore_desc:
  assumes "sw_bits_of d = 0" "s2ap_of d = 3"
  shows "with_s2ap 3 (with_sw_bits 0 (with_s2ap ap (with_sw_bits sw d))) = d"
proof -
  have "\<not> bit d 55" "\<not> bit d 56" "bit d 6" "bit d 7"
    using assms bit_sw_bits [of d 0] bit_sw_bits [of d 1] bit_s2ap [of d 0] bit_s2ap [of d 1] by simp_all
  moreover have "bit (3 :: u8) 0" "bit (3 :: u8) 1" by simp_all
  ultimately show ?thesis unfolding u64_eq_iff
    by (auto simp: bit_with_sw bit_with_s2ap)
qed

text \<open>The translations after the transition of a list of pages.\<close>

abbreviation page_writes_ok :: "u64 \<Rightarrow> u8 \<Rightarrow> u8 \<Rightarrow> u64 list \<Rightarrow> heap \<Rightarrow> bool" where
  "page_writes_ok l0 \<equiv> writes_ok (write_sw_bits l0) (set_s2ap l0)"

lemma transition_view:
  assumes "vms_ok rs h" "l0 \<in> rs" "page_writes_ok l0 sw ap xs h"
  shows "s2_desc (h_mem (transition_pages l0 sw ap xs h)) l0 y =
      (if \<exists>x\<in>set xs. same_page y x then map_option (\<lambda>d. with_s2ap ap (with_sw_bits sw d)) (s2_desc (h_mem h) l0 y)
       else s2_desc (h_mem h) l0 y)"
    "x \<in> set xs \<Longrightarrow> is_page (h_mem (transition_pages l0 sw ap xs h)) l0 x"
  unfolding transition_pages_def
  using sw_ap.trans_view [of rs h l0] sw_ap.trans_pages [of rs h l0] assms by blast+

lemma transition_view_other:
  "\<lbrakk>vms_ok rs h; l0 \<in> rs; \<forall>x\<in>set xs. \<not> same_page y x\<rbrakk> \<Longrightarrow>
   s2_desc (h_mem (transition_pages l0 sw ap xs h)) l0 y = s2_desc (h_mem h) l0 y"
  unfolding transition_pages_def using sw_ap.trans_view_other [of rs h l0] by blast

text \<open>A reclaim by the VM that shared, right after the share.\<close>

lemma reclaim_after_share:
  assumes ok: "proxy_ok s" "shares_room (fs_shares s)" and env: "env_linux_guest env" "has_stage2 (cur_root s)"
    and rc: "record_share c rcv rs n lend (fs_shares s) = (Some h, sh)" and hp: "vms_ok (vm_roots s) hp"
    and rh: "reg_handle r = h"
  shows "handle_mem_reclaim env r (s\<lparr>fs_heap := hp, fs_shares := sh\<rparr>) = Some (r(0 := FFA_SUCCESS_32),
      s\<lparr>fs_heap := transition_pages (cur_root s) 0 3 (range_pages (take 4 rs)) hp, fs_shares := snd (reclaim_share h sh)\<rparr>)"
    "shares_view (snd (reclaim_share h sh)) = shares_view (fs_shares s)"
proof -
  note sok = proxy_okD(1) [OF ok(1)]
  note v = stub_shares.rcd_Some [OF sok ok(2) rc]
  have shok: "shares_ok sh" using stub_shares.rcd_ok [OF sok ok(2)] rc by (metis snd_conv)
  have lk: "shares_view sh h = Some (new_share h c rcv rs n lend)"
    using fun_cong [OF conjunct2 [OF v], of h] by simp
  have "share_ranges (new_share h c rcv rs n lend) = take 4 rs"
    by (simp add: share_ranges_def new_share_def stored_ranges_def MAX_SHARE_RANGES_def Let_def min_def)
  with lk env rh show "handle_mem_reclaim env r (s\<lparr>fs_heap := hp, fs_shares := sh\<rparr>) = Some (r(0 := FFA_SUCCESS_32),
      s\<lparr>fs_heap := transition_pages (cur_root s) 0 3 (range_pages (take 4 rs)) hp, fs_shares := snd (reclaim_share h sh)\<rparr>)"
    by (simp add: handle_mem_reclaim_def Let_def) (simp add: new_share_def)
  show "shares_view (snd (reclaim_share h sh)) = shares_view (fs_shares s)"
    using stub_shares.recl_view [OF shok, of h] v by (auto simp: fun_eq_iff)
qed

text \<open>C5: Reclaiming undoes sharing and lending: when a VM shares or lends pages that it owns with read-write
  access, in at most four ranges, and no block split fails, then a reclaim with the returned handle
  succeeds and gives back the translations and the share records as they were before.\<close>

theorem share_reclaim_restores:
  assumes "proxy_ok s" "shares_room (fs_shares s)" "env_linux_guest env" "has_stage2 (cur_root s)"
    "handle_mem_share_or_lend env lend r s = Some (r1, s1)" "r1 0 = FFA_SUCCESS_32"
    "get_mailbox (fs_mailboxes s) (fs_vm_id s) = Some mb" "share_request (fs_mem s) r mb = Inr (sid, rcv, rs, n)"
    "length rs \<le> 4" "\<forall>x\<in>set (range_pages rs). read_s2ap (h_mem (fs_heap s)) (cur_root s) x = Some 3"
    "page_writes_ok (cur_root s) 1 (if lend then 0 else 1) (range_pages rs) (fs_heap s)"
  shows "\<exists>r2 s2. handle_mem_reclaim env (r1(1 := r1 2, 2 := r1 3)) s1 = Some (r2, s2) \<and> r2 0 = FFA_SUCCESS_32 \<and>
    (\<forall>y. s2_view s2 (cur_root s) y = s2_view s (cur_root s) y) \<and> shares_view (fs_shares s2) = shares_view (fs_shares s)"
proof -
  let ?l0 = "cur_root s" and ?ps = "range_pages rs" and ?ap = "if lend then 0 else 1 :: u8"
  obtain h sh where ss: "validate_pages (h_mem (fs_heap s)) ?l0 ?ps = Inr ()"
    "record_share (vm_id_to_partition_id (fs_vm_id s)) rcv rs n lend (fs_shares s) = (Some h, sh)"
    "s1 = s\<lparr>fs_heap := transition_pages ?l0 1 ?ap ?ps (fs_heap s), fs_shares := sh\<rparr>"
    "r1 2 = h AND 0xFFFFFFFF" "r1 3 = drop_bit 32 h"
    by (rule share_success [OF assms(5,6,3,4,7,8)])
  define h1 where "h1 = transition_pages ?l0 1 ?ap ?ps (fs_heap s)"
  have vms: "vms_ok (vm_roots s) (fs_heap s)" "?l0 \<in> vm_roots s" using proxy_okD assms(1,4) by blast+
  have vms1: "vms_ok (vm_roots s) h1"
    using transition_heap_step [OF assms(1,4)] by (simp add: heap_step_ok_def h1_def)
  note v1 = transition_view [OF vms assms(11), folded h1_def]
  have w2: "page_writes_ok ?l0 0 3 ?ps h1"
    by (rule sw_ap.writes_ok_pages [of "vm_roots s"]) (use vms vms1 v1(2) in auto)
  note v2 = transition_view(1) [OF vms1 vms(2) w2]
  obtain U T where s2: "s2_ok U T ?l0 (fs_heap s)" using vms unfolding vms_ok_def by blast
  have "s2_desc (h_mem (transition_pages ?l0 0 3 ?ps h1)) ?l0 y = s2_desc (h_mem (fs_heap s)) ?l0 y" for y
  proof (cases "\<exists>x\<in>set ?ps. same_page y x")
    case True
    then obtain x where x: "x \<in> set ?ps" "same_page y x" by blast
    obtain d where d: "s2_desc (h_mem (fs_heap s)) ?l0 x = Some d" "sw_bits_of d = 0"
      using validate_pages_view [OF s2 ss(1) x(1)] by blast
    have "s2_desc (h_mem (fs_heap s)) ?l0 y = Some d" using s2_desc_same_page [OF s2 x(2)] d by simp
    moreover have "s2ap_of d = 3" using assms(10) x(1) d read_s2ap_view [OF s2, of x] by simp
    ultimately show ?thesis using True d(2) by (simp add: v2 v1(1) restore_desc)
  qed (simp add: v1(1) v2)
  moreover note reclaim_after_share [OF assms(1-4) ss(2) vms1, of "r1(1 := r1 2, 2 := r1 3)", unfolded ss(4,5), OF reg_handle_parts]
  ultimately show ?thesis using assms(9) unfolding ss(3) h1_def [symmetric] ss(4,5) by simp
qed

text \<open>A state in which the first VM owns one page at \<open>0x50000000\<close>.\<close>

definition guest_heap :: heap where
  "guest_heap = snd (map_page 0x41000000 0x50000000 3 0 (snd boot_mapper))"

lemma guest_heap:
  "vms_ok {0x41000000} guest_heap" "is_page (h_mem guest_heap) 0x41000000 0x50000000"
  "s2_desc (h_mem guest_heap) 0x41000000 0x50000000 = Some (page_entry 0x50000000 3 0)"
proof -
  obtain h' where m: "map_page 0x41000000 0x50000000 3 0 (snd boot_mapper) = (Inr (), h')"
    using boot_map_page by blast
  from map_page_vms [OF boot_vms_ok, of "0x41000000" "0x50000000" 3 0, unfolded m, simplified]
  show "vms_ok {0x41000000} guest_heap" "is_page (h_mem guest_heap) 0x41000000 0x50000000"
    "s2_desc (h_mem guest_heap) 0x41000000 0x50000000 = Some (page_entry 0x50000000 3 0)"
    by (simp_all add: guest_heap_def m)
qed

lemma guest_page_attrs: "sw_bits_of (page_entry 0x50000000 3 0) = 0" "s2ap_of (page_entry 0x50000000 3 0) = 3"
  by (simp_all add: page_entry_def sw_bits_of_def s2ap_of_def PTE_SW_SHIFT_def S2AP_SHIFT_def pte_consts)

lemma guest_page_reads:
  "read_sw_bits (h_mem guest_heap) 0x41000000 0x50000000 = Some 0"
  "read_s2ap (h_mem guest_heap) 0x41000000 0x50000000 = Some 3"
proof -
  obtain U T where s: "s2_ok U T 0x41000000 guest_heap" using guest_heap(1) unfolding vms_ok_def by blast
  show "read_sw_bits (h_mem guest_heap) 0x41000000 0x50000000 = Some 0"
    "read_s2ap (h_mem guest_heap) 0x41000000 0x50000000 = Some 3"
    by (simp_all add: read_sw_bits_view [OF s] read_s2ap_view [OF s] guest_heap guest_page_attrs)
qed

definition share_regs :: gp_regs where
  "share_regs = (\<lambda>_. 0)(3 := 0x50000000, 4 := 1, 5 := 0x8001)"

text \<open>The proxy's state with that page, the memory \<open>m\<close> and the mailbox \<open>mb\<close> of the first VM.\<close>

definition guest_state :: "gmem \<Rightarrow> mailbox \<Rightarrow> ffa_state" where
  "guest_state m mb = (boot_ffa guest_heap)\<lparr>fs_mem := m, fs_mailboxes := MAILBOXES[0 := mb]\<rparr>"

lemma guest_fields [simp]:
  "fs_heap (guest_state m mb) = guest_heap" "fs_shares (guest_state m mb) = SHARES_INIT"
  "fs_mem (guest_state m mb) = m" "fs_vm_id (guest_state m mb) = 0" "cur_root (guest_state m mb) = 0x41000000"
  "get_mailbox (fs_mailboxes (guest_state m mb)) 0 = Some mb" "has_stage2 0x41000000" "env_linux_guest linux_env"
  by (simp_all add: guest_state_def boot_ffa_def walker_from_vttbr_def PTE_ADDR_MASK_def has_stage2_def
      get_mailbox_def MAILBOXES_def FFA_MAX_VMS_def linux_env_def)

lemma guest_state_ok: "proxy_ok (guest_state m mb)" "shares_room (fs_shares (guest_state m mb))"
  using boot_ffa_ok [OF guest_heap(1)]
  by (simp_all add: guest_state_def proxy_ok_def boot_ffa_def MAILBOXES_def vm_roots_def boot_room)

lemma guest_request: "share_request m share_regs mailbox_new = Inr (0, 0x8001, [(0x50000000, 1)], 1)"
  by (simp add: share_request_def mailbox_new_def share_regs_def Let_def)

lemma guest_pages: "range_pages [(0x50000000, 1)] = [0x50000000]"
  by (simp add: range_pages_def)

lemma guest_writes_ok: "page_writes_ok 0x41000000 a b [0x50000000] guest_heap"
  by (rule sw_ap.writes_ok_pages [of "{0x41000000}"]) (use guest_heap in auto)

lemma guest_share:
  assumes "share_request m r mb = Inr (sid, 0x8001, rs, n)" "sid = 0 \<or> sid = 1" "range_pages rs = [0x50000000]"
  shows "\<exists>r1 s1. handle_mem_share_or_lend linux_env lend r (guest_state m mb) = Some (r1, s1) \<and> r1 0 = FFA_SUCCESS_32"
proof -
  have rcv: "is_valid_receiver 0x8001" by (simp add: is_valid_receiver_def is_valid_sp_def STUB_PARTITIONS_def)
  have "\<exists>h sh. record_share 1 0x8001 rs n lend SHARES_INIT = (Some h, sh)"
    by (simp add: record_share_def alloc_handle_def SHARES_INIT_def MAX_SHARES_def replicate_unroll share_empty_def)
  moreover have "\<exists>hp. share_pages linux_env lend rs (guest_state m mb) = Inr ((guest_state m mb)\<lparr>fs_heap := hp\<rparr>)"
    by (auto simp: share_pages_def assms(3) guest_page_reads validate_page_for_share_def ownership_from_bits_def Let_def)
  ultimately show ?thesis using assms(1,2)
    by (auto simp: handle_mem_share_or_lend_def rcv vm_id_to_partition_id_def Let_def)
qed

theorem share_reclaim_restores_witness:
  "\<exists>r1 s1 r2 s2. handle_mem_share_or_lend linux_env True share_regs (guest_state (\<lambda>_. 0) mailbox_new) = Some (r1, s1) \<and>
     handle_mem_reclaim linux_env (r1(1 := r1 2, 2 := r1 3)) s1 = Some (r2, s2) \<and>
     s2_view s2 0x41000000 0x50000000 = Some (page_entry 0x50000000 3 0)"
proof -
  let ?s = "guest_state (\<lambda>_. 0) mailbox_new"
  obtain r1 s1 where sh: "handle_mem_share_or_lend linux_env True share_regs ?s = Some (r1, s1)" "r1 0 = FFA_SUCCESS_32"
    using guest_share [OF guest_request _ guest_pages] by blast
  from share_reclaim_restores [OF guest_state_ok _ _ sh, where mb = mailbox_new] sh(1) guest_request guest_writes_ok
  show ?thesis by (auto simp: guest_pages guest_page_reads guest_heap)
qed



text \<open>Pages beyond the fourth range stay shared for ever: a share request may name up to sixteen ranges and
  all their pages are transitioned, but the record keeps four ranges.  After the reclaim, which reports
  success and drops the record, a page of a later range is still in the state shared.\<close>

lemma reclaim_forgets_ranges:
  assumes "proxy_ok s" "shares_room (fs_shares s)" "env_linux_guest env" "has_stage2 (cur_root s)"
    "handle_mem_share_or_lend env lend r s = Some (r1, s1)" "r1 0 = FFA_SUCCESS_32"
    "get_mailbox (fs_mailboxes s) (fs_vm_id s) = Some mb" "share_request (fs_mem s) r mb = Inr (sid, rcv, rs, n)"
    "page_writes_ok (cur_root s) 1 (if lend then 0 else 1) (range_pages rs) (fs_heap s)"
    "y \<in> set (range_pages (drop 4 rs))" "\<forall>x\<in>set (range_pages (take 4 rs)). \<not> same_page y x"
  shows "\<exists>r2 s2. handle_mem_reclaim env (r1(1 := r1 2, 2 := r1 3)) s1 = Some (r2, s2) \<and> r2 0 = FFA_SUCCESS_32 \<and>
    read_sw_bits (h_mem (fs_heap s2)) (cur_root s) y = Some 1 \<and> shares_view (fs_shares s2) = shares_view (fs_shares s)"
proof -
  let ?l0 = "cur_root s" and ?ps = "range_pages rs" and ?ap = "if lend then 0 else 1 :: u8"
  obtain h sh where ss: "validate_pages (h_mem (fs_heap s)) ?l0 ?ps = Inr ()"
    "record_share (vm_id_to_partition_id (fs_vm_id s)) rcv rs n lend (fs_shares s) = (Some h, sh)"
    "s1 = s\<lparr>fs_heap := transition_pages ?l0 1 ?ap ?ps (fs_heap s), fs_shares := sh\<rparr>"
    "r1 2 = h AND 0xFFFFFFFF" "r1 3 = drop_bit 32 h"
    by (rule share_success [OF assms(5,6,3,4,7,8)])
  define h1 where "h1 = transition_pages ?l0 1 ?ap ?ps (fs_heap s)"
  have vms: "vms_ok (vm_roots s) (fs_heap s)" "?l0 \<in> vm_roots s" using proxy_okD assms(1,4) by blast+
  have vms1: "vms_ok (vm_roots s) h1"
    using transition_heap_step [OF assms(1,4)] by (simp add: heap_step_ok_def h1_def)
  define h2 where "h2 = transition_pages ?l0 0 3 (range_pages (take 4 rs)) h1"
  have "vms_ok (vm_roots s) h2"
    unfolding h2_def transition_pages_def using sw_ap.trans_ok [of "vm_roots s" h1 ?l0] vms1 vms by blast
  then obtain U T where s2: "s2_ok U T ?l0 h2" using vms(2) unfolding vms_ok_def by blast
  have "set ?ps = set (range_pages (take 4 rs)) \<union> set (range_pages (drop 4 rs))"
    by (metis append_take_drop_id concat_append map_append range_pages_def set_append)
  hence y: "y \<in> set ?ps" using assms(10) by blast
  obtain U' T' where s0: "s2_ok U' T' ?l0 (fs_heap s)" using vms unfolding vms_ok_def by blast
  then obtain d where "s2_desc (h_mem (fs_heap s)) ?l0 y = Some d" using validate_pages_view [OF s0 ss(1) y] by blast
  moreover have "s2_desc (h_mem h2) ?l0 y = s2_desc (h_mem h1) ?l0 y"
    unfolding h2_def by (rule transition_view_other [OF vms1 vms(2) assms(11)])
  ultimately have "s2_desc (h_mem h2) ?l0 y = Some (with_s2ap ?ap (with_sw_bits 1 d))"
    using transition_view(1) [OF vms assms(9), of y] y unfolding h1_def by auto
  hence "read_sw_bits (h_mem h2) ?l0 y = Some 1" by (simp add: read_sw_bits_view [OF s2])
  moreover note reclaim_after_share [OF assms(1-4) ss(2) vms1, of "r1(1 := r1 2, 2 := r1 3)", unfolded ss(4,5), OF reg_handle_parts]
  ultimately show ?thesis unfolding ss(3) h1_def [symmetric] h2_def [symmetric] ss(4,5) by simp
qed

section \<open>Retrieving a share\<close>

lemma receiver_root_upd: "receiver_root x (s\<lparr>fs_heap := a, fs_shares := b\<rparr>) = receiver_root x s"
  by (cases "partition_id_to_vm_id x") (simp_all add: receiver_root_def)

lemma caller_is_vm: "proxy_ok s \<Longrightarrow> vm_id_to_partition_id (fs_vm_id s) = rcv \<Longrightarrow> is_vm_partition rcv"
  using vm_partition_roundtrip proxy_okD(3) by (auto simp: is_vm_partition_def)

text \<open>A retrieve by the designated receiver is the mapping of all pages of the share, with rollback.\<close>

lemma retrieve_by_receiver:
  assumes "proxy_ok s" "env_linux_guest env" "has_stage2 (cur_root s)"
    "lookup_share_full (reg_handle r) (fs_shares s) = Some info" "sr_receiver_id info = vm_id_to_partition_id (fs_vm_id s)"
    "\<not> sr_retrieved info"
    "map_all (\<lambda>x. map_page (cur_root s) x 3 2) (unmap_page (cur_root s)) [] (range_pages (share_ranges info)) (fs_heap s) = (ok, h')"
  shows "handle_mem_retrieve_req env r s =
    (if ok then Some (r(0 := FFA_MEM_RETRIEVE_RESP, 1 := 0, 2 := reg_handle r AND 0xFFFFFFFF, 3 := drop_bit 32 (reg_handle r)),
       s\<lparr>fs_heap := h', fs_shares := snd (mark_retrieved (reg_handle r) (fs_shares s))\<rparr>)
     else Some (ffa_error FFA_DENIED r, s\<lparr>fs_heap := h'\<rparr>))"
  using assms receiver_is_current [OF assms(1), of "sr_receiver_id info"] caller_is_vm [OF assms(1), of "sr_receiver_id info"]
  by (simp add: handle_mem_retrieve_req_def retrieve_pages_def has_stage2_def Let_def)

text \<open>C27: A retrieve is all or nothing: the receiver gets every page of the share, none of which it had mapped
  before, as borrowed pages with read-write access, and the record is marked; or it gets an error, its
  translations are what they were although pages were mapped and unmapped again, and the record is
  unchanged.\<close>

theorem retrieve_all_or_nothing:
  assumes "proxy_ok s" "env_linux_guest env" "has_stage2 (cur_root s)"
    "lookup_share_full (reg_handle r) (fs_shares s) = Some info" "sr_receiver_id info = vm_id_to_partition_id (fs_vm_id s)"
    "\<not> sr_retrieved info" "handle_mem_retrieve_req env r s = Some (r', s')"
  shows "r' 0 = FFA_MEM_RETRIEVE_RESP \<and> (\<forall>x\<in>set (range_pages (share_ranges info)). s2_view s (cur_root s) x = None) \<and>
      (\<forall>y. s2_view s' (cur_root s) y = (case find (same_page y) (range_pages (share_ranges info)) of
         Some x \<Rightarrow> Some (page_entry x 3 2) | None \<Rightarrow> s2_view s (cur_root s) y)) \<and>
      lookup_share_full (reg_handle r) (fs_shares s') = Some (info\<lparr>sr_retrieved := True\<rparr>)
    \<or> r' = ffa_error FFA_DENIED r \<and> (\<forall>y. s2_view s' (cur_root s) y = s2_view s (cur_root s) y) \<and> fs_shares s' = fs_shares s"
proof -
  obtain ok h' where m: "map_all (\<lambda>x. map_page (cur_root s) x 3 2) (unmap_page (cur_root s)) []
      (range_pages (share_ranges info)) (fs_heap s) = (ok, h')" by fastforce
  have "vms_ok (vm_roots s) (fs_heap s) \<and> cur_root s \<in> vm_roots s" using proxy_okD assms(1,3) by blast
  note sp = vm_mapper.map_all_spec [OF this _ _ m, simplified]
  note rt = retrieve_by_receiver [OF assms(1-6) m]
  have "lookup_share_full (reg_handle r) (snd (mark_retrieved (reg_handle r) (fs_shares s))) = Some (info\<lparr>sr_retrieved := True\<rparr>)"
    using fun_cong [OF stub_shares.retr_view [OF proxy_okD(1) [OF assms(1)]]] assms(4) by simp
  with sp rt assms(7) show ?thesis by (cases ok) auto
qed

text \<open>C28: Relinquishing undoes retrieving: after a successful retrieve the receiver can relinquish the share, and
  its translations and the share records are what they were before the retrieve.\<close>

theorem retrieve_relinquish_roundtrip:
  assumes "proxy_ok s" "env_linux_guest env" "has_stage2 (cur_root s)"
    "handle_mem_retrieve_req env r s = Some (r1, s1)" "r1 0 = FFA_MEM_RETRIEVE_RESP"
  shows "\<exists>r2 s2. handle_mem_relinquish env r s1 = Some (r2, s2) \<and> r2 0 = FFA_SUCCESS_32 \<and>
    (\<forall>y. s2_view s2 (cur_root s) y = s2_view s (cur_root s) y) \<and> shares_view (fs_shares s2) = shares_view (fs_shares s)"
proof -
  have ne: "FFA_ERROR \<noteq> FFA_MEM_RETRIEVE_RESP" by (simp add: FFA_ERROR_def FFA_MEM_RETRIEVE_RESP_def)
  obtain info where info: "lookup_share_full (reg_handle r) (fs_shares s) = Some info"
    "sr_receiver_id info = vm_id_to_partition_id (fs_vm_id s)" "\<not> sr_retrieved info"
    using assms(4,5) ne unfolding handle_mem_retrieve_req_def Let_def by (elim branchE) auto
  let ?ps = "range_pages (share_ranges info)" and ?sh = "snd (mark_retrieved (reg_handle r) (fs_shares s))"
  obtain ok h' where m: "map_all (\<lambda>x. map_page (cur_root s) x 3 2) (unmap_page (cur_root s)) [] ?ps (fs_heap s) = (ok, h')"
    by fastforce
  with retrieve_by_receiver [OF assms(1-3) info m] assms(4,5) ne
  have mt: "ok" "s1 = s\<lparr>fs_heap := h', fs_shares := ?sh\<rparr>" by (auto split: if_splits)
  note sok = proxy_okD(1) [OF assms(1)]
  have v: "shares_view ?sh = (shares_view (fs_shares s))(reg_handle r := Some (info\<lparr>sr_retrieved := True\<rparr>))"
    using stub_shares.retr_view [OF sok, of "reg_handle r"] info(1) by (simp add: fun_eq_iff)
  have "vms_ok (vm_roots s) (fs_heap s) \<and> cur_root s \<in> vm_roots s" using proxy_okD assms(1,3) by blast
  note un = vm_mapper.map_unmap_all [OF this m [unfolded mt(1) eqTrueI [OF mt(1)]]]
  have "shares_view (snd (mark_relinquished (reg_handle r) ?sh)) = shares_view (fs_shares s)"
    using stub_shares.relq_view [OF stub_shares.retr_ok [OF sok], of "reg_handle r" "reg_handle r"] v info(1,3)
    by (auto simp: fun_eq_iff)
  moreover have "share_ranges (info\<lparr>sr_retrieved := True\<rparr>) = share_ranges info" by (simp add: share_ranges_def)
  moreover have "receiver_root (sr_receiver_id info) (s\<lparr>fs_heap := h', fs_shares := ?sh\<rparr>) = Some (cur_root s)"
    using receiver_is_current [OF assms(1), of "sr_receiver_id info"] info(2) by (simp add: receiver_root_upd)
  ultimately show ?thesis
    using fun_cong [OF v, of "reg_handle r"] info assms(2,3) caller_is_vm [OF assms(1), of "sr_receiver_id info"] un
    by (simp add: handle_mem_relinquish_def relinquish_pages_def mt(2) has_stage2_def Let_def)
qed

text \<open>A state in which the second VM has shared the page \<open>0x50000000\<close> with the first.\<close>

definition offered :: ffa_state where
  "offered = (boot_ffa (snd boot_mapper))\<lparr>fs_shares := snd (record_share 2 1 [(0x50000000, 1)] 1 False SHARES_INIT)\<rparr>"

definition retrieve_regs :: gp_regs where
  "retrieve_regs = (\<lambda>_. 0)(1 := 1)"

lemma offered_fields [simp]:
  "fs_heap offered = snd boot_mapper" "fs_vm_id offered = 0" "cur_root offered = 0x41000000"
  "reg_handle retrieve_regs = 1"
  "lookup_share_full 1 (fs_shares offered) = Some (new_share 1 2 1 [(0x50000000, 1)] 1 False)"
  by (simp_all add: offered_def boot_ffa_def walker_from_vttbr_def PTE_ADDR_MASK_def reg_handle_def retrieve_regs_def
      record_share_def alloc_handle_def SHARES_INIT_def MAX_SHARES_def replicate_unroll share_empty_def
      lookup_share_full_def new_share_def)

lemma offered_pages: "range_pages (share_ranges (new_share 1 2 1 [(0x50000000, 1)] 1 False)) = [0x50000000]"
  by (simp add: share_ranges_def new_share_def stored_ranges_def MAX_SHARE_RANGES_def range_pages_def Let_def)

lemma offered_ok: "proxy_ok offered"
proof -
  have "shares_ok (snd (record_share 2 1 [(0x50000000, 1)] 1 False SHARES_INIT))"
    by (rule stub_shares.rcd_ok) (simp_all add: shares_ok_init boot_room)
  thus ?thesis using boot_ffa_ok [OF boot_vms_ok] by (simp add: offered_def proxy_ok_def vm_roots_def)
qed

lemma offered_receiver: "sr_receiver_id (new_share 1 2 1 [(0x50000000, 1)] 1 False) = vm_id_to_partition_id (fs_vm_id offered)"
  "\<not> sr_retrieved (new_share 1 2 1 [(0x50000000, 1)] 1 False)"
  by (simp_all add: new_share_def vm_id_to_partition_id_def)

lemma offered_retrieve: "\<exists>r' s'. handle_mem_retrieve_req linux_env retrieve_regs offered = Some (r', s') \<and> r' 0 = FFA_MEM_RETRIEVE_RESP"
proof -
  obtain h1 where "map_page 0x41000000 0x50000000 3 2 (snd boot_mapper) = (Inr (), h1)" using boot_map_page by blast
  hence "map_all (\<lambda>x. map_page (cur_root offered) x 3 2) (unmap_page (cur_root offered)) []
      (range_pages (share_ranges (new_share 1 2 1 [(0x50000000, 1)] 1 False))) (fs_heap offered) = (True, h1)"
    by (simp add: offered_pages)
  from retrieve_by_receiver [OF offered_ok _ _ _ offered_receiver this, of linux_env retrieve_regs] show ?thesis by simp
qed

theorem retrieve_all_or_nothing_witness:
  "\<exists>r' s'. handle_mem_retrieve_req linux_env retrieve_regs offered = Some (r', s') \<and>
     s2_view s' 0x41000000 0x50000000 = Some (page_entry 0x50000000 3 2)"
proof -
  obtain r' s' where c: "handle_mem_retrieve_req linux_env retrieve_regs offered = Some (r', s')" "r' 0 = FFA_MEM_RETRIEVE_RESP"
    using offered_retrieve by blast
  from retrieve_all_or_nothing [OF offered_ok _ _ _ offered_receiver c(1)] c show ?thesis
    by (auto simp: offered_pages FFA_ERROR_def FFA_MEM_RETRIEVE_RESP_def)
qed

theorem retrieve_relinquish_roundtrip_witness:
  "\<exists>r1 s1 r2 s2. handle_mem_retrieve_req linux_env retrieve_regs offered = Some (r1, s1) \<and>
     handle_mem_relinquish linux_env retrieve_regs s1 = Some (r2, s2) \<and> r2 0 = FFA_SUCCESS_32 \<and>
     s2_view s2 0x41000000 0x50000000 = s2_view offered 0x41000000 0x50000000"
proof -
  obtain r1 s1 where c: "handle_mem_retrieve_req linux_env retrieve_regs offered = Some (r1, s1)" "r1 0 = FFA_MEM_RETRIEVE_RESP"
    using offered_retrieve by blast
  from retrieve_relinquish_roundtrip [OF offered_ok _ _ c] c(1) show ?thesis by auto
qed

text \<open>A reclaim is not restricted to the sender: any VM that names the handle of a share that is not
  retrieved removes its record and is told that it succeeded, and the sender's pages keep their state.\<close>

lemma reclaim_by_anyone:
  assumes "proxy_ok s" "lookup_share_full (reg_handle r) (fs_shares s) = Some info" "\<not> sr_retrieved info"
    "sr_sender_id info = vm_id_to_partition_id w" "w \<noteq> fs_vm_id s" "w < 2"
    "fs_per_vm_vttbr s ! w \<noteq> 0" "fs_per_vm_vttbr s ! w \<noteq> cur_root s"
  shows "\<exists>s'. handle_mem_reclaim env r s = Some (r(0 := FFA_SUCCESS_32), s') \<and>
    lookup_share_full (reg_handle r) (fs_shares s') = None \<and>
    (\<forall>x. s2_view s' (fs_per_vm_vttbr s ! w) x = s2_view s (fs_per_vm_vttbr s ! w) x)"
proof -
  obtain s' where c: "handle_mem_reclaim env r s = Some (r(0 := FFA_SUCCESS_32), s')"
    "fs_shares s' = snd (reclaim_share (reg_handle r) (fs_shares s))"
    using assms(2,3) by (auto simp: handle_mem_reclaim_def Let_def)
  have "others_kept (vm_roots s) (cur_root s) (fs_heap s) (fs_heap s')"
    using reclaim_call_step [OF assms(1) c(1)] by (simp add: call_step_def heap_step_ok_def)
  moreover have "fs_per_vm_vttbr s ! w \<in> vm_roots s - {cur_root s}"
    using assms by (simp add: vm_roots_def proxy_ok_def)
  ultimately have "\<forall>x. s2_view s' (fs_per_vm_vttbr s ! w) x = s2_view s (fs_per_vm_vttbr s ! w) x"
    unfolding others_kept_def by blast
  moreover have "lookup_share_full (reg_handle r) (fs_shares s') = None"
    using fun_cong [OF stub_shares.recl_view [OF proxy_okD(1) [OF assms(1)]]] c(2) by simp
  ultimately show ?thesis using c(1) by blast
qed

end
