(* ===== verification/Ffa_Call_Props.thy ===== *)
theory Ffa_Call_Props
  imports Ffa_Share_Props
begin

text \<open>Properties of the FF-A interface as the guest sees it: what \<open>FFA_FEATURES\<close> promises, and indirect
  messages from one VM's TX buffer to another's RX buffer.\<close>

section \<open>Supported functions\<close>

text \<open>\<open>FFA_FEATURES\<close> tells the truth: a function that it reports as not supported is answered with the error
  NOT_SUPPORTED when no SPMC is present, and the call changes nothing.\<close>

lemma features_truthful:
  assumes "handle_features q s = Some (ffa_error FFA_NOT_SUPPORTED q, s)" "r 0 = q 1" "\<not> fs_spmc_present s"
  shows "handle_ffa_call env r s = Some (ffa_error FFA_NOT_SUPPORTED r, s)"
proof -
  have "(q(0 := FFA_SUCCESS_32, 2 := 0)) 0 \<noteq> ffa_error FFA_NOT_SUPPORTED q 0" by simp
  hence "q(0 := FFA_SUCCESS_32, 2 := 0) \<noteq> ffa_error FFA_NOT_SUPPORTED q" by metis
  hence "r 0 \<notin> set supported_fids"
    using assms(1,2) by (auto simp: handle_features_def Let_def split: if_splits)
  thus ?thesis using assms(3) by (simp add: supported_fids_def handle_ffa_call_def Let_def)
qed

section \<open>Indirect messages\<close>

lemma get_bytes_copy:
  assumes "n \<le> 2 ^ 63"
  shows "get_bytes (copy_bytes m src dst n) dst n = get_bytes m src n"
  unfolding copy_bytes_def by (rule get_put_same) (use assms in simp_all)


text \<open>Two VMs with mailboxes; the first sends a message of \<open>sz\<close> bytes to the second.\<close>

definition msg_mem :: "u32 \<Rightarrow> gmem" where
  "msg_mem sz = wr32 (wr16 (wr16 (\<lambda>_. 7) 0x48001000 1) 0x48001002 2) 0x48001004 sz"

definition msg_state :: "u32 \<Rightarrow> ffa_state" where
  "msg_state sz = (boot_ffa (snd boot_mapper))\<lparr>fs_mem := msg_mem sz, fs_mailboxes :=
     [mailbox_new\<lparr>mb_mapped := True, mb_tx_ipa := 0x48001000, mb_rx_ipa := 0x48002000\<rparr>,
      mailbox_new\<lparr>mb_mapped := True, mb_tx_ipa := 0x68001000, mb_rx_ipa := 0x68002000\<rparr>, mailbox_new, mailbox_new]\<rparr>"

lemma msg_mem_header:
  "rd16 (msg_mem sz) 0x48001000 = 1" "rd16 (msg_mem sz) 0x48001002 = 2" "rd32 (msg_mem sz) 0x48001004 = sz"
proof -
  have a: "(0x48001002 :: u64) = 0x48001000 + 2" "(0x48001004 :: u64) = 0x48001000 + 4" by simp_all
  show "rd32 (msg_mem sz) 0x48001004 = sz" by (simp add: msg_mem_def rd_wr_same)
  show "rd16 (msg_mem sz) 0x48001000 = 1"
    unfolding msg_mem_def a rd16_def wr16_def wr32_def
    by (subst get_put_num_base, simp, simp, simp, subst get_put_num_base) (simp_all add: get_put_same of_le_to_le)
  show "rd16 (msg_mem sz) 0x48001002 = 2"
    unfolding msg_mem_def a rd16_def wr16_def wr32_def
    by (subst get_put_num) (simp_all add: get_put_same of_le_to_le)
qed

lemma msg_send: "8 + unat sz < 2 ^ 32 \<Longrightarrow>
  \<exists>r1 s1. handle_msg_send2 (\<lambda>_. 0) (msg_state sz) = Some (r1, s1) \<and> r1 0 = FFA_SUCCESS_32"
  by (simp add: handle_msg_send2_def get_mailbox_def msg_state_def boot_ffa_def FFA_MAX_VMS_def msg_mem_header
      partition_id_to_vm_id_def vm_id_to_partition_id_def mailbox_new_def Let_def)


text \<open>A guest can bring the checked build down: the length of an indirect message is added to the header size
  in 32 bits before it is limited to one page, so a declared size of \<open>2\<^sup>3\<^sup>2 - 8\<close> or more overflows.\<close>

lemma msg_send2_overflow:
  "handle_msg_send2 r (msg_state sz) = None \<longleftrightarrow> unat sz \<ge> 2 ^ 32 - 8"
  by (auto simp: handle_msg_send2_def get_mailbox_def msg_state_def boot_ffa_def FFA_MAX_VMS_def msg_mem_header
      partition_id_to_vm_id_def vm_id_to_partition_id_def mailbox_new_def Let_def)

end
