(* ===== verification/Ring_Buffers.thy ===== *)
theory Ring_Buffers
  imports Prelude
begin

text \<open>Circular buffers with one empty slot, as the UART and network receive paths use them.  The first
  part is arithmetic on the head and tail indices; the second is the contract of a bounded queue, a
  locale whose laws every ring of the hypervisor satisfies, with the facts its users need: a run of
  operations behaves as on a list, and a loop that pops until the ring is empty ends and hands over the
  contents in order.\<close>

section \<open>Indices\<close>

definition ring_len :: "nat \<Rightarrow> nat \<Rightarrow> nat \<Rightarrow> nat" where
  "ring_len n h t = (t + n - h) mod n"

definition ring_list :: "nat \<Rightarrow> 'a list \<Rightarrow> nat \<Rightarrow> nat \<Rightarrow> 'a list" where
  "ring_list n buf h t = map (\<lambda>i. buf ! ((h + i) mod n)) [0..<ring_len n h t]"

definition ring_ok :: "nat \<Rightarrow> 'a list \<Rightarrow> nat \<Rightarrow> nat \<Rightarrow> bool" where
  "ring_ok n buf h t \<longleftrightarrow> 1 < n \<and> length buf = n \<and> h < n \<and> t < n"

lemma mod_once: "a < 2 * n \<Longrightarrow> a mod n = (if a < n then a else a - n)" for a :: nat
  by (simp add: le_mod_geq)

lemma ring_len_cases: "h < n \<Longrightarrow> t < n \<Longrightarrow> ring_len n h t = (if h \<le> t then t - h else t + n - h)"
  by (auto simp: ring_len_def mod_once)

lemma suc_mod_cases: "t < n \<Longrightarrow> Suc t mod n = (if Suc t = n then 0 else Suc t)"
  by auto

lemma ring_len_le: "ring_ok n buf h t \<Longrightarrow> ring_len n h t \<le> n - 1"
  by (auto simp: ring_len_cases ring_ok_def)

lemma ring_empty: "ring_ok n buf h t \<Longrightarrow> ring_list n buf h t = [] \<longleftrightarrow> h = t"
  by (auto simp: ring_list_def ring_len_cases ring_ok_def split: if_splits)

lemma ring_full: "ring_ok n buf h t \<Longrightarrow> (t + 1) mod n = h \<longleftrightarrow> ring_len n h t = n - 1"
  by (auto simp: ring_len_cases ring_ok_def suc_mod_cases split: if_splits)

lemma ring_full_Suc: "ring_ok n buf h t \<Longrightarrow> Suc t mod n = h \<longleftrightarrow> ring_len n h t = n - 1"
  using ring_full by fastforce

lemma length_ring_list [simp]: "length (ring_list n buf h t) = ring_len n h t"
  by (simp add: ring_list_def)

lemma ring_ok_push: "ring_ok n buf h t \<Longrightarrow> ring_ok n (buf[t := x]) h ((t + 1) mod n)"
  by (simp add: ring_ok_def)

lemma ring_ok_pop: "ring_ok n buf h t \<Longrightarrow> ring_ok n buf ((h + 1) mod n) t"
  by (simp add: ring_ok_def)

lemma ring_write_free:
  assumes "ring_ok n buf h t"
  shows "ring_list n (buf[t := x]) h t = ring_list n buf h t"
proof -
  have "(h + i) mod n \<noteq> t" if "i < ring_len n h t" for i
    using assms that by (auto simp: ring_ok_def ring_len_cases mod_once split: if_splits)
  hence "buf[t := x] ! ((h + i) mod n) = buf ! ((h + i) mod n)" if "i < ring_len n h t" for i
    using that by (metis nth_list_update_neq)
  thus ?thesis by (simp add: ring_list_def)
qed

lemma ring_push_tail:
  assumes "ring_ok n buf h t" "(t + 1) mod n \<noteq> h"
  shows "ring_list n buf h ((t + 1) mod n) = ring_list n buf h t @ [buf ! t]"
proof -
  have "ring_len n h ((t + 1) mod n) = Suc (ring_len n h t)"
    using assms by (auto simp: ring_ok_def ring_len_cases suc_mod_cases)
  moreover have "(h + ring_len n h t) mod n = t"
    using assms by (auto simp: ring_ok_def ring_len_cases mod_once)
  ultimately show ?thesis by (simp add: ring_list_def)
qed

lemma ring_push:
  assumes "ring_ok n buf h t" "(t + 1) mod n \<noteq> h"
  shows "ring_list n (buf[t := x]) h ((t + 1) mod n) = ring_list n buf h t @ [x]"
proof -
  have "ring_ok n (buf[t := x]) h t" using assms by (simp add: ring_ok_def)
  from ring_push_tail [OF this assms(2)] show ?thesis
    using assms by (simp add: ring_write_free) (simp add: ring_ok_def)
qed

lemma ring_pop:
  assumes "ring_ok n buf h t" "h \<noteq> t"
  shows "ring_list n buf h t = buf ! h # ring_list n buf ((h + 1) mod n) t"
proof -
  have l: "ring_len n h t = Suc (ring_len n ((h + 1) mod n) t)"
    using assms by (auto simp: ring_ok_def ring_len_cases suc_mod_cases)
  have "((h + 1) mod n + i) mod n = (h + Suc i) mod n" for i by (simp add: mod_simps)
  moreover have "[0..<Suc k] = 0 # map Suc [0..<k]" for k by (simp add: upt_conv_Cons map_Suc_upt)
  ultimately show ?thesis
    using assms by (simp add: ring_list_def l ring_ok_def del: upt_Suc)
qed

lemma ring_list_shape:
  assumes "ring_ok n buf h t" "ring_list n buf h t = x # xs"
  shows "h \<noteq> t" "x = buf ! h" "xs = ring_list n buf ((h + 1) mod n) t"
proof -
  show ne: "h \<noteq> t" using assms ring_empty by fastforce
  show "x = buf ! h" "xs = ring_list n buf ((h + 1) mod n) t"
    using assms(2) ring_pop [OF assms(1) ne] by simp_all
qed

lemma ring_ok_init: "1 < n \<Longrightarrow> ring_ok n (replicate n x) 0 0"
  by (simp add: ring_ok_def)

section \<open>The contract of a bounded queue\<close>

text \<open>The two operations as a client issues them, and what they do on a list of at most \<open>cap\<close>
  elements.\<close>

datatype 'a fifo_op = Enq 'a | Deq

fun fifo_run :: "('a \<Rightarrow> 's \<Rightarrow> 's or_panic) \<Rightarrow> ('s \<Rightarrow> ('a option \<times> 's) or_panic) \<Rightarrow> 'a fifo_op list \<Rightarrow> 's \<Rightarrow>
    ('a option list \<times> 's) or_panic" where
  "fifo_run enq deq [] s = Some ([], s)"
| "fifo_run enq deq (Enq x # ops) s = do { s' \<leftarrow> enq x s; fifo_run enq deq ops s' }"
| "fifo_run enq deq (Deq # ops) s = do {
     (y, s') \<leftarrow> deq s;
     (ys, s'') \<leftarrow> fifo_run enq deq ops s';
     Some (y # ys, s'') }"

fun fifo_spec :: "('a \<Rightarrow> bool) \<Rightarrow> nat \<Rightarrow> 'a fifo_op list \<Rightarrow> 'a list \<Rightarrow> 'a option list \<times> 'a list" where
  "fifo_spec fits cap [] q = ([], q)"
| "fifo_spec fits cap (Enq x # ops) q =
     fifo_spec fits cap ops (if fits x \<and> length q < cap then q @ [x] else q)"
| "fifo_spec fits cap (Deq # ops) q =
     (let (ys, q') = fifo_spec fits cap ops (tl q) in ((case q of [] \<Rightarrow> None | x # _ \<Rightarrow> Some x) # ys, q'))"

text \<open>\<open>while let Some(x) = ring.pop() { body(x) }\<close>.\<close>

partial_function (option) drain_loop ::
  "('s \<Rightarrow> ('a option \<times> 's) option) \<Rightarrow> ('a \<Rightarrow> 'b \<Rightarrow> 'b option) \<Rightarrow> 's \<Rightarrow> 'b \<Rightarrow> ('b \<times> 's) option" where
  "drain_loop deq body s b = (case deq s of
     None \<Rightarrow> None
   | Some (x, s') \<Rightarrow> (case x of
       None \<Rightarrow> Some (b, s')
     | Some v \<Rightarrow> (case body v b of None \<Rightarrow> None | Some b' \<Rightarrow> drain_loop deq body s' b')))"

fun foldM :: "('a \<Rightarrow> 'b \<Rightarrow> 'b option) \<Rightarrow> 'a list \<Rightarrow> 'b \<Rightarrow> 'b option" where
  "foldM f [] b = Some b"
| "foldM f (x # xs) b = (case f x b of None \<Rightarrow> None | Some b' \<Rightarrow> foldM f xs b')"

lemma foldM_inv:
  "foldM f xs b = Some b' \<Longrightarrow> I b \<Longrightarrow> (\<And>x b b'. x \<in> set xs \<Longrightarrow> I b \<Longrightarrow> f x b = Some b' \<Longrightarrow> I b') \<Longrightarrow> I b'"
proof (induction xs arbitrary: b)
  case (Cons x xs)
  obtain b1 where b1: "f x b = Some b1" "foldM f xs b1 = Some b'" using Cons.prems(1) by (cases "f x b") simp_all
  have "I b1" using Cons.prems(3) [OF _ Cons.prems(2) b1(1)] by simp
  thus ?case
  proof (rule Cons.IH [OF b1(2)])
    fix y c c'
    assume "y \<in> set xs" "I c" "f y c = Some c'"
    thus "I c'" by (intro Cons.prems(3) [of y c c']) simp_all
  qed
qed simp

locale bounded_fifo =
  fixes ok :: "'s \<Rightarrow> bool" and contents :: "'s \<Rightarrow> 'a list" and fits :: "'a \<Rightarrow> bool" and cap :: nat
    and enq :: "'a \<Rightarrow> 's \<Rightarrow> 's or_panic" and deq :: "'s \<Rightarrow> ('a option \<times> 's) or_panic"
  assumes bound: "ok s \<Longrightarrow> length (contents s) \<le> cap"
    and enq_law: "ok s \<Longrightarrow> \<exists>s'. enq x s = Some s' \<and> ok s' \<and>
      contents s' = (if fits x \<and> length (contents s) < cap then contents s @ [x] else contents s)"
    and deq_empty: "ok s \<Longrightarrow> contents s = [] \<Longrightarrow> deq s = Some (None, s)"
    and deq_head: "ok s \<Longrightarrow> contents s = x # xs \<Longrightarrow> \<exists>s'. deq s = Some (Some x, s') \<and> ok s' \<and> contents s' = xs"
begin

lemma run_refines:
  "ok s \<Longrightarrow> \<exists>s'. fifo_run enq deq ops s = Some (fst (fifo_spec fits cap ops (contents s)), s') \<and> ok s' \<and>
     contents s' = snd (fifo_spec fits cap ops (contents s))"
proof (induction ops arbitrary: s)
  case (Cons oper ops)
  show ?case
  proof (cases oper)
    case (Enq x)
    obtain s' where "enq x s = Some s'" "ok s'"
      and "contents s' = (if fits x \<and> length (contents s) < cap then contents s @ [x] else contents s)"
      using enq_law [OF Cons.prems] by blast
    thus ?thesis using Cons.IH [of s'] Enq by simp
  next
    case Deq
    show ?thesis
    proof (cases "contents s")
      case Nil
      hence "deq s = Some (None, s)" using deq_empty Cons.prems by blast
      thus ?thesis using Cons.IH [OF Cons.prems] Deq Nil by (auto simp: case_prod_unfold Let_def)
    next
      case (Cons x xs)
      then obtain s' where "deq s = Some (Some x, s')" "ok s'" "contents s' = xs"
        using deq_head \<open>ok s\<close> by blast
      thus ?thesis using \<open>\<And>s. ok s \<Longrightarrow> _\<close> [of s'] Deq Cons by (auto simp: case_prod_unfold Let_def)
    qed
  qed
qed simp

lemma drain_ends:
  "ok s \<Longrightarrow> foldM body (contents s) b = Some b' \<Longrightarrow>
   \<exists>s'. drain_loop deq body s b = Some (b', s') \<and> ok s' \<and> contents s' = []"
proof (induction "contents s" arbitrary: s b)
  case Nil
  thus ?case using deq_empty [of s] by (subst drain_loop.simps) simp
next
  case (Cons x xs)
  obtain s' where s': "deq s = Some (Some x, s')" "ok s'" "contents s' = xs"
    using deq_head [OF Cons.prems(1) Cons.hyps(2) [symmetric]] by blast
  obtain b1 where "body x b = Some b1" "foldM body xs b1 = Some b'"
    using Cons.prems(2) by (auto simp flip: Cons.hyps(2) split: option.splits)
  thus ?case using Cons.hyps(1) [of s' b1] s' by (subst drain_loop.simps) simp
qed

lemma drain_panics:
  "ok s \<Longrightarrow> foldM body (contents s) b = None \<Longrightarrow> drain_loop deq body s b = None"
proof (induction "contents s" arbitrary: s b)
  case (Cons x xs)
  obtain s' where s': "deq s = Some (Some x, s')" "ok s'" "contents s' = xs"
    using deq_head [OF Cons.prems(1) Cons.hyps(2) [symmetric]] by blast
  show ?case
  proof (cases "body x b")
    case None
    thus ?thesis using s' by (subst drain_loop.simps) simp
  next
    case (Some b1)
    hence "foldM body (contents s') b1 = None" using Cons.prems(2) s'(3) by (simp flip: Cons.hyps(2))
    thus ?thesis using Cons.hyps(1) [of s' b1] s' Some by (subst drain_loop.simps) simp
  qed
qed simp

end

section \<open>The UART receive ring (global.rs)\<close>

definition UART_RX_RING_SIZE :: nat where "UART_RX_RING_SIZE = 64"

record uart_ring =
  ur_buf :: "u8 list"
  ur_head :: nat
  ur_tail :: nat

definition uart_ring_new :: uart_ring where
  "uart_ring_new = \<lparr>ur_buf = replicate UART_RX_RING_SIZE 0, ur_head = 0, ur_tail = 0\<rparr>"

definition uart_ring_push :: "u8 \<Rightarrow> uart_ring \<Rightarrow> uart_ring or_panic" where
  "uart_ring_push ch r =
     (let tail = ur_tail r; nxt = (tail + 1) mod UART_RX_RING_SIZE in
      if nxt = ur_head r then Some r
      else if tail < length (ur_buf r) then Some (r\<lparr>ur_buf := (ur_buf r)[tail := ch], ur_tail := nxt\<rparr>)
      else None)"

definition uart_ring_pop :: "uart_ring \<Rightarrow> (u8 option \<times> uart_ring) or_panic" where
  "uart_ring_pop r =
     (let head = ur_head r in
      if head = ur_tail r then Some (None, r)
      else if head < length (ur_buf r)
      then Some (Some (ur_buf r ! head), r\<lparr>ur_head := (head + 1) mod UART_RX_RING_SIZE\<rparr>)
      else None)"

definition uart_ring_ok :: "uart_ring \<Rightarrow> bool" where
  "uart_ring_ok r \<longleftrightarrow> ring_ok UART_RX_RING_SIZE (ur_buf r) (ur_head r) (ur_tail r)"

definition uart_ring_contents :: "uart_ring \<Rightarrow> u8 list" where
  "uart_ring_contents r = ring_list UART_RX_RING_SIZE (ur_buf r) (ur_head r) (ur_tail r)"

lemma uart_ring_new_ok: "uart_ring_ok uart_ring_new" "uart_ring_contents uart_ring_new = []"
  by (simp_all add: uart_ring_ok_def uart_ring_contents_def uart_ring_new_def ring_ok_init UART_RX_RING_SIZE_def
      ring_empty)

interpretation uart_fifo: bounded_fifo uart_ring_ok uart_ring_contents "\<lambda>_. True" "UART_RX_RING_SIZE - 1"
  uart_ring_push uart_ring_pop
proof unfold_locales
  fix r x xs
  assume ok: "uart_ring_ok r"
  hence rok: "ring_ok UART_RX_RING_SIZE (ur_buf r) (ur_head r) (ur_tail r)" by (simp add: uart_ring_ok_def)
  show "length (uart_ring_contents r) \<le> UART_RX_RING_SIZE - 1"
    using ring_len_le [OF rok] by (simp add: uart_ring_contents_def)
  show "\<exists>s'. uart_ring_push x r = Some s' \<and> uart_ring_ok s' \<and> uart_ring_contents s' =
     (if True \<and> length (uart_ring_contents r) < UART_RX_RING_SIZE - 1 then uart_ring_contents r @ [x]
      else uart_ring_contents r)"
  proof (cases "(ur_tail r + 1) mod UART_RX_RING_SIZE = ur_head r")
    case True
    thus ?thesis using ring_full [OF rok] ok by (simp add: uart_ring_push_def uart_ring_contents_def)
  next
    case False
    hence "ring_len UART_RX_RING_SIZE (ur_head r) (ur_tail r) < UART_RX_RING_SIZE - 1"
      using ring_full [OF rok] ring_len_le [OF rok] by linarith
    moreover have "ur_tail r < length (ur_buf r)" using rok by (simp add: ring_ok_def)
    ultimately show ?thesis
      using False ring_push [OF rok False] ring_ok_push [OF rok, of x]
      by (simp add: uart_ring_push_def uart_ring_contents_def uart_ring_ok_def Let_def)
  qed
  show "uart_ring_contents r = [] \<Longrightarrow> uart_ring_pop r = Some (None, r)"
    using ring_empty [OF rok] by (simp add: uart_ring_pop_def uart_ring_contents_def)
  assume "uart_ring_contents r = x # xs"
  hence "ring_list UART_RX_RING_SIZE (ur_buf r) (ur_head r) (ur_tail r) = x # xs"
    by (simp add: uart_ring_contents_def)
  note shape = ring_list_shape [OF rok this]
  have "ur_head r < length (ur_buf r)" using rok by (simp add: ring_ok_def)
  thus "\<exists>s'. uart_ring_pop r = Some (Some x, s') \<and> uart_ring_ok s' \<and> uart_ring_contents s' = xs"
    using shape(1) ring_ok_pop [OF rok]
    by (simp add: uart_ring_pop_def uart_ring_contents_def uart_ring_ok_def Let_def shape(2,3))
qed

end
