(* ===== verification/Ring_Concurrent.thy ===== *)
theory Ring_Concurrent
  imports Ring_Buffers
begin

text \<open>The receive rings are shared without a lock: an interrupt handler (or the switch) pushes while the run
  loop pops, on another CPU when there are several.  Here every access to the shared indices and to a slot is one step, and the
  steps of the two sides interleave in any order.  A release store orders the slot access before it, and
  an acquire load orders the slot access after it, so an interleaving of the accesses is what the
  hardware shows.  The shape is that of \<open>UartRxRing\<close>; the size and the type of the slots are
  parameters, because \<open>NetRxRing\<close> uses the same protocol with 9 slots of frames.\<close>

text \<open>Where the producer is in \<open>push\<close> and the consumer in \<open>pop\<close>: the values they hold in local
  variables.\<close>

datatype 'a producer =
    PIdle
  | PTail 'a nat \<comment> \<open>\<open>tail\<close> loaded\<close>
  | PSlot 'a nat \<comment> \<open>\<open>head\<close> loaded, the ring has room\<close>
  | PStore 'a nat \<comment> \<open>the slot is written; holds \<open>next\<close>\<close>

datatype 'a consumer =
    CIdle
  | CHead nat \<comment> \<open>\<open>head\<close> loaded\<close>
  | CSlot nat \<comment> \<open>\<open>tail\<close> loaded, the ring has an element\<close>
  | CStore 'a nat \<comment> \<open>the slot is read\<close>

record 'a spsc =
  sp_buf :: "'a list"
  sp_head :: nat
  sp_tail :: nat
  sp_prod :: "'a producer"
  sp_cons :: "'a consumer"
  sp_sent :: "'a list" \<comment> \<open>history: what completed pushes have stored\<close>
  sp_recv :: "'a list" \<comment> \<open>history: what completed pops have returned\<close>

definition spsc_new :: "nat \<Rightarrow> 'a \<Rightarrow> 'a spsc" where
  "spsc_new n z = \<lparr>sp_buf = replicate n z, sp_head = 0, sp_tail = 0, sp_prod = PIdle, sp_cons = CIdle,
     sp_sent = [], sp_recv = []\<rparr>"

inductive push_step :: "nat \<Rightarrow> 'a spsc \<Rightarrow> 'a spsc \<Rightarrow> bool" for n where
  load_tail: "sp_prod s = PIdle \<Longrightarrow> push_step n s (s\<lparr>sp_prod := PTail x (sp_tail s)\<rparr>)"
| full: "sp_prod s = PTail x t \<Longrightarrow> (t + 1) mod n = sp_head s \<Longrightarrow> push_step n s (s\<lparr>sp_prod := PIdle\<rparr>)"
| room: "sp_prod s = PTail x t \<Longrightarrow> (t + 1) mod n \<noteq> sp_head s \<Longrightarrow> push_step n s (s\<lparr>sp_prod := PSlot x t\<rparr>)"
| write_slot: "sp_prod s = PSlot x t \<Longrightarrow> t < length (sp_buf s) \<Longrightarrow>
    push_step n s (s\<lparr>sp_buf := (sp_buf s)[t := x], sp_prod := PStore x ((t + 1) mod n)\<rparr>)"
| store_tail: "sp_prod s = PStore x nxt \<Longrightarrow>
    push_step n s (s\<lparr>sp_tail := nxt, sp_prod := PIdle, sp_sent := sp_sent s @ [x]\<rparr>)"

inductive pop_step :: "nat \<Rightarrow> 'a spsc \<Rightarrow> 'a spsc \<Rightarrow> bool" for n where
  load_head: "sp_cons s = CIdle \<Longrightarrow> pop_step n s (s\<lparr>sp_cons := CHead (sp_head s)\<rparr>)"
| empty: "sp_cons s = CHead h \<Longrightarrow> h = sp_tail s \<Longrightarrow> pop_step n s (s\<lparr>sp_cons := CIdle\<rparr>)"
| element: "sp_cons s = CHead h \<Longrightarrow> h \<noteq> sp_tail s \<Longrightarrow> pop_step n s (s\<lparr>sp_cons := CSlot h\<rparr>)"
| read_slot: "sp_cons s = CSlot h \<Longrightarrow> h < length (sp_buf s) \<Longrightarrow>
    pop_step n s (s\<lparr>sp_cons := CStore (sp_buf s ! h) h\<rparr>)"
| store_head: "sp_cons s = CStore x h \<Longrightarrow>
    pop_step n s (s\<lparr>sp_head := (h + 1) mod n, sp_cons := CIdle, sp_recv := sp_recv s @ [x]\<rparr>)"

definition spsc_step :: "nat \<Rightarrow> 'a spsc \<Rightarrow> 'a spsc \<Rightarrow> bool" where
  "spsc_step n s s' \<longleftrightarrow> push_step n s s' \<or> pop_step n s s'"

section \<open>The invariant\<close>

fun prod_inv :: "nat \<Rightarrow> 'a list \<Rightarrow> nat \<Rightarrow> nat \<Rightarrow> 'a producer \<Rightarrow> bool" where
  "prod_inv n buf h t PIdle \<longleftrightarrow> True"
| "prod_inv n buf h t (PTail x t') \<longleftrightarrow> t' = t"
| "prod_inv n buf h t (PSlot x t') \<longleftrightarrow> t' = t \<and> (t + 1) mod n \<noteq> h"
| "prod_inv n buf h t (PStore x nxt) \<longleftrightarrow> nxt = (t + 1) mod n \<and> nxt \<noteq> h \<and> buf ! t = x"

fun cons_inv :: "'a list \<Rightarrow> nat \<Rightarrow> nat \<Rightarrow> 'a consumer \<Rightarrow> bool" where
  "cons_inv buf h t CIdle \<longleftrightarrow> True"
| "cons_inv buf h t (CHead h') \<longleftrightarrow> h' = h"
| "cons_inv buf h t (CSlot h') \<longleftrightarrow> h' = h \<and> h \<noteq> t"
| "cons_inv buf h t (CStore x h') \<longleftrightarrow> h' = h \<and> h \<noteq> t \<and> x = buf ! h"

definition spsc_inv :: "nat \<Rightarrow> 'a spsc \<Rightarrow> bool" where
  "spsc_inv n s \<longleftrightarrow>
     ring_ok n (sp_buf s) (sp_head s) (sp_tail s) \<and>
     sp_sent s = sp_recv s @ ring_list n (sp_buf s) (sp_head s) (sp_tail s) \<and>
     prod_inv n (sp_buf s) (sp_head s) (sp_tail s) (sp_prod s) \<and>
     cons_inv (sp_buf s) (sp_head s) (sp_tail s) (sp_cons s)"

lemma spsc_new_inv: "1 < n \<Longrightarrow> spsc_inv n (spsc_new n z)"
  using ring_ok_init [of n z] ring_empty [of n "replicate n z" 0 0]
  by (simp add: spsc_inv_def spsc_new_def)

text \<open>The other side's view is stable: a pop only moves the head away from the slot the producer holds,
  and a push only writes the free slot and moves the tail away from the head.\<close>

lemma prod_inv_pop:
  assumes "ring_ok n buf h t" "prod_inv n buf h t p" "h \<noteq> t"
  shows "prod_inv n buf ((h + 1) mod n) t p"
proof -
  have "(t + 1) mod n \<noteq> (h + 1) mod n"
    using assms(1,3) by (auto simp: ring_ok_def suc_mod_cases split: if_splits)
  thus ?thesis using assms(2) by (cases p) auto
qed

lemma cons_inv_write:
  "cons_inv buf h t c \<Longrightarrow> cons_inv (buf[t := x]) h t c"
  by (cases c) auto

lemma cons_inv_tail:
  assumes "cons_inv buf h t c" "(t + 1) mod n \<noteq> h"
  shows "cons_inv buf h ((t + 1) mod n) c"
  using assms by (cases c) auto

lemma push_step_inv: "push_step n s s' \<Longrightarrow> spsc_inv n s \<Longrightarrow> spsc_inv n s'"
proof (induction rule: push_step.induct)
  case (write_slot s x t)
  hence t: "t = sp_tail s" and ok: "ring_ok n (sp_buf s) (sp_head s) (sp_tail s)" by (simp_all add: spsc_inv_def)
  have "ring_ok n ((sp_buf s)[sp_tail s := x]) (sp_head s) (sp_tail s)" using ok by (simp add: ring_ok_def)
  thus ?case using write_slot
    by (simp add: spsc_inv_def t ring_write_free [OF ok] cons_inv_write)
next
  case (store_tail s x nxt)
  hence ok: "ring_ok n (sp_buf s) (sp_head s) (sp_tail s)"
    and nxt: "nxt = (sp_tail s + 1) mod n" "(sp_tail s + 1) mod n \<noteq> sp_head s" "sp_buf s ! sp_tail s = x"
    by (simp_all add: spsc_inv_def)
  have "ring_ok n (sp_buf s) (sp_head s) ((sp_tail s + 1) mod n)" using ok by (simp add: ring_ok_def)
  thus ?case using store_tail ring_push_tail [OF ok nxt(2)] cons_inv_tail [of "sp_buf s" _ _ "sp_cons s", OF _ nxt(2)]
    by (simp add: spsc_inv_def nxt(1,3))
qed (simp_all add: spsc_inv_def)

lemma pop_step_inv: "pop_step n s s' \<Longrightarrow> spsc_inv n s \<Longrightarrow> spsc_inv n s'"
proof (induction rule: pop_step.induct)
  case (store_head s x h)
  hence ok: "ring_ok n (sp_buf s) (sp_head s) (sp_tail s)"
    and h: "h = sp_head s" "sp_head s \<noteq> sp_tail s" "x = sp_buf s ! sp_head s"
    by (simp_all add: spsc_inv_def)
  show ?case using store_head ring_pop [OF ok h(2)] ring_ok_pop [OF ok] prod_inv_pop [OF ok _ h(2)]
    by (simp add: spsc_inv_def h(1,3))
qed (auto simp: spsc_inv_def)

lemma spsc_reach_inv: "(spsc_step n)\<^sup>*\<^sup>* (spsc_new n z) s \<Longrightarrow> 1 < n \<Longrightarrow> spsc_inv n s"
  by (induction rule: rtranclp_induct) (auto simp: spsc_new_inv spsc_step_def intro: push_step_inv pop_step_inv)

section \<open>Agreement with the sequential operations\<close>

text \<open>Running \<open>push\<close> to its end while the consumer does nothing is \<^const>\<open>uart_ring_push\<close>.\<close>

definition spsc_of :: "uart_ring \<Rightarrow> u8 list \<Rightarrow> u8 spsc" where
  "spsc_of r sent = \<lparr>sp_buf = ur_buf r, sp_head = ur_head r, sp_tail = ur_tail r, sp_prod = PIdle,
     sp_cons = CIdle, sp_sent = sent, sp_recv = []\<rparr>"

lemma push_runs:
  assumes "uart_ring_push ch r = Some r'"
  shows "\<exists>sent'. (push_step UART_RX_RING_SIZE)\<^sup>*\<^sup>* (spsc_of r sent) (spsc_of r' sent')"
proof -
  let ?n = UART_RX_RING_SIZE and ?t = "ur_tail r" and ?s = "spsc_of r sent"
  have s1: "push_step ?n ?s (?s\<lparr>sp_prod := PTail ch ?t\<rparr>)"
    using push_step.load_tail [of ?s ?n ch] by (simp add: spsc_of_def)
  show ?thesis
  proof (cases "(?t + 1) mod ?n = ur_head r")
    case True
    have "push_step ?n (?s\<lparr>sp_prod := PTail ch ?t\<rparr>) ?s"
      using push_step.full [of "?s\<lparr>sp_prod := PTail ch ?t\<rparr>" ch ?t ?n] True by (simp add: spsc_of_def)
    moreover have "r' = r" using assms True by (simp add: uart_ring_push_def)
    ultimately show ?thesis using s1 by (intro exI [of _ sent]) (simp add: converse_rtranclp_into_rtranclp)
  next
    case False
    let ?s2 = "?s\<lparr>sp_prod := PSlot ch ?t\<rparr>"
    let ?s3 = "?s\<lparr>sp_buf := (ur_buf r)[?t := ch], sp_prod := PStore ch ((?t + 1) mod ?n)\<rparr>"
    have r': "r' = r\<lparr>ur_buf := (ur_buf r)[?t := ch], ur_tail := (?t + 1) mod ?n\<rparr>" and t: "?t < length (ur_buf r)"
      using assms False by (simp_all add: uart_ring_push_def Let_def split: if_splits)
    have "push_step ?n (?s\<lparr>sp_prod := PTail ch ?t\<rparr>) ?s2"
      using push_step.room [of "?s\<lparr>sp_prod := PTail ch ?t\<rparr>" ch ?t ?n] False by (simp add: spsc_of_def)
    moreover have "push_step ?n ?s2 ?s3"
      using push_step.write_slot [of ?s2 ch ?t ?n] t by (simp add: spsc_of_def)
    moreover have "push_step ?n ?s3 (spsc_of r' (sent @ [ch]))"
      using push_step.store_tail [of ?s3 ch "(?t + 1) mod ?n" ?n] by (simp add: spsc_of_def r')
    ultimately have "(push_step ?n)\<^sup>*\<^sup>* ?s (spsc_of r' (sent @ [ch]))"
      using s1 by (meson converse_rtranclp_into_rtranclp rtranclp.rtrancl_refl)
    thus ?thesis by blast
  qed
qed

section \<open>Safety of the unlocked rings\<close>

text \<open>C7: In every interleaving of a producer and a consumer, the elements returned by \<open>pop\<close> and those
  still in the ring are, in order, exactly those that completed pushes stored: nothing is lost,
  duplicated or reordered.  The two sides never hold the same slot at the moment they access it, and
  neither accesses a slot out of range.\<close>

theorem spsc_ring_safe:
  assumes "1 < n" "(spsc_step n)\<^sup>*\<^sup>* (spsc_new n z) s"
  shows "sp_sent s = sp_recv s @ ring_list n (sp_buf s) (sp_head s) (sp_tail s) \<and>
    length (ring_list n (sp_buf s) (sp_head s) (sp_tail s)) \<le> n - 1 \<and>
    (\<forall>x t. sp_prod s = PSlot x t \<longrightarrow> t < length (sp_buf s) \<and> sp_cons s \<noteq> CSlot t) \<and>
    (\<forall>h. sp_cons s = CSlot h \<longrightarrow> h < length (sp_buf s))"
proof -
  have "spsc_inv n s" by (rule spsc_reach_inv [OF assms(2,1)])
  hence ok: "ring_ok n (sp_buf s) (sp_head s) (sp_tail s)"
    and sent: "sp_sent s = sp_recv s @ ring_list n (sp_buf s) (sp_head s) (sp_tail s)"
    and p: "prod_inv n (sp_buf s) (sp_head s) (sp_tail s) (sp_prod s)"
    and c: "cons_inv (sp_buf s) (sp_head s) (sp_tail s) (sp_cons s)"
    by (simp_all add: spsc_inv_def)
  have "\<forall>x t. sp_prod s = PSlot x t \<longrightarrow> t < length (sp_buf s) \<and> sp_cons s \<noteq> CSlot t"
    using ok p c by (auto simp: ring_ok_def)
  moreover have "\<forall>h. sp_cons s = CSlot h \<longrightarrow> h < length (sp_buf s)"
    using ok c by (auto simp: ring_ok_def)
  ultimately show ?thesis using sent ring_len_le [OF ok] by simp
qed

text \<open>A run in which the consumer starts while a push is under way, on the UART ring's size.\<close>

theorem spsc_ring_safe_witness:
  "let s = (spsc_new 64 (0::u8))\<lparr>sp_prod := PSlot 7 0, sp_cons := CHead 0\<rparr> in
   (spsc_step 64)\<^sup>*\<^sup>* (spsc_new 64 0) s \<and> sp_sent s = [] \<and> ring_list 64 (sp_buf s) (sp_head s) (sp_tail s) = [] \<and>
   sp_cons s \<noteq> CSlot 0"
proof -
  let ?i = "spsc_new 64 (0::u8)"
  let ?s = "?i\<lparr>sp_prod := PSlot 7 0, sp_cons := CHead 0\<rparr>"
  have "spsc_step 64 ?i (?i\<lparr>sp_prod := PTail 7 0\<rparr>)"
    using push_step.load_tail [of ?i 64 7] by (simp add: spsc_step_def spsc_new_def)
  moreover have "spsc_step 64 (?i\<lparr>sp_prod := PTail 7 0\<rparr>) (?i\<lparr>sp_prod := PTail 7 0, sp_cons := CHead 0\<rparr>)"
    using pop_step.load_head [of "?i\<lparr>sp_prod := PTail 7 0\<rparr>" 64] by (simp add: spsc_step_def spsc_new_def)
  moreover have "spsc_step 64 (?i\<lparr>sp_prod := PTail 7 0, sp_cons := CHead 0\<rparr>) ?s"
    using push_step.room [of "?i\<lparr>sp_prod := PTail 7 0, sp_cons := CHead 0\<rparr>" 7 0 64]
    by (simp add: spsc_step_def spsc_new_def)
  ultimately have run: "(spsc_step 64)\<^sup>*\<^sup>* ?i ?s"
    by (meson converse_rtranclp_into_rtranclp rtranclp.rtrancl_refl)
  have "sp_sent ?s = []" "sp_recv ?s = []" by (simp_all add: spsc_new_def)
  thus ?thesis using spsc_ring_safe [OF _ run] run by (simp add: Let_def)
qed

end
