(* ===== verification/Spin_Lock.thy ===== *)
theory Spin_Lock
  imports Prelude
begin

text \<open>The ticket lock of \<open>sync.rs\<close>, which guards the device managers when several CPUs run.  Each atomic
  access is a step, labelled with the CPU that makes it; the tickets are 32-bit and wrap around.  A guard is
  dropped by storing \<open>ticket + 1\<close>: a build with overflow checks panics there on the last ticket, and the
  CPU then keeps the lock for ever (state \<open>Panicked\<close>); a build without them wraps.\<close>

datatype lock_pc =
    Outside
  | Spinning u32 \<comment> \<open>in the loop of \<open>lock\<close>, with the ticket drawn\<close>
  | Holding u32 \<comment> \<open>owns a \<open>SpinLockGuard\<close> with this ticket\<close>
  | Panicked u32

record spin_lock =
  next_ticket :: u32
  now_serving :: u32
  cpus :: "nat \<Rightarrow> lock_pc"

datatype lock_event = Draw nat | Enter nat | Leave nat | Abort nat

definition spin_lock_new :: spin_lock where
  "spin_lock_new = \<lparr>next_ticket = 0, now_serving = 0, cpus = (\<lambda>_. Outside)\<rparr>"

text \<open>\<open>self.ticket + 1\<close>, with and without overflow checks.\<close>

definition drop_value :: "bool \<Rightarrow> u32 \<Rightarrow> u32 or_panic" where
  "drop_value checked ticket = (if checked \<and> ticket = 0xFFFFFFFF then None else Some (ticket + 1))"

inductive lock_step :: "bool \<Rightarrow> nat \<Rightarrow> spin_lock \<Rightarrow> lock_event \<Rightarrow> spin_lock \<Rightarrow> bool" for checked n where
  draw: "i < n \<Longrightarrow> cpus s i = Outside \<Longrightarrow>
    lock_step checked n s (Draw i)
      (s\<lparr>next_ticket := next_ticket s + 1, cpus := (cpus s)(i := Spinning (next_ticket s))\<rparr>)"
| enter: "i < n \<Longrightarrow> cpus s i = Spinning t \<Longrightarrow> now_serving s = t \<Longrightarrow>
    lock_step checked n s (Enter i) (s\<lparr>cpus := (cpus s)(i := Holding t)\<rparr>)"
| leave: "i < n \<Longrightarrow> cpus s i = Holding t \<Longrightarrow> drop_value checked t = Some v \<Longrightarrow>
    lock_step checked n s (Leave i) (s\<lparr>now_serving := v, cpus := (cpus s)(i := Outside)\<rparr>)"
| abort: "i < n \<Longrightarrow> cpus s i = Holding t \<Longrightarrow> drop_value checked t = None \<Longrightarrow>
    lock_step checked n s (Abort i) (s\<lparr>cpus := (cpus s)(i := Panicked t)\<rparr>)"

inductive lock_run :: "bool \<Rightarrow> nat \<Rightarrow> spin_lock \<Rightarrow> lock_event list \<Rightarrow> spin_lock \<Rightarrow> bool" for checked n where
  no_more: "lock_run checked n s [] s"
| more: "lock_step checked n s e s' \<Longrightarrow> lock_run checked n s' es s'' \<Longrightarrow> lock_run checked n s (e # es) s''"

section \<open>The queue of tickets\<close>

fun ticket_of :: "lock_pc \<Rightarrow> u32 option" where
  "ticket_of Outside = None"
| "ticket_of (Spinning t) = Some t"
| "ticket_of (Holding t) = Some t"
| "ticket_of (Panicked t) = Some t"

definition drawn :: "nat \<Rightarrow> spin_lock \<Rightarrow> nat set" where
  "drawn n s = {i. i < n \<and> ticket_of (cpus s i) \<noteq> None}"

text \<open>How many releases a ticket is away from being served.\<close>

definition ahead :: "spin_lock \<Rightarrow> u32 \<Rightarrow> nat" where
  "ahead s t = unat (t - now_serving s)"

abbreviation place :: "spin_lock \<Rightarrow> nat \<Rightarrow> nat" where
  "place s i \<equiv> ahead s (the (ticket_of (cpus s i)))"

definition lock_inv :: "nat \<Rightarrow> spin_lock \<Rightarrow> bool" where
  "lock_inv n s \<longleftrightarrow>
     inj_on (place s) (drawn n s) \<and> place s ` drawn n s = {..<ahead s (next_ticket s)} \<and>
     (\<forall>i<n. \<forall>t. cpus s i = Holding t \<or> cpus s i = Panicked t \<longrightarrow> t = now_serving s)"

lemma finite_drawn [simp]: "finite (drawn n s)"
  by (simp add: drawn_def)

lemma ahead_next: "lock_inv n s \<Longrightarrow> ahead s (next_ticket s) = card (drawn n s)"
  unfolding lock_inv_def by (metis card_image card_lessThan)

lemma drawn_le: "card (drawn n s) \<le> n"
proof -
  have "drawn n s \<subseteq> {..<n}" by (auto simp: drawn_def)
  from card_mono [OF _ this] show ?thesis by simp
qed

lemma drawn_less: "i < n \<Longrightarrow> i \<notin> drawn n s \<Longrightarrow> card (drawn n s) < n"
proof -
  assume i: "i < n" "i \<notin> drawn n s"
  have "drawn n s \<subseteq> {..<n}" by (auto simp: drawn_def)
  hence "drawn n s \<subset> {..<n}" using i by blast
  from psubset_card_mono [OF _ this] show ?thesis by simp
qed

lemma ahead_Suc: "ahead s t + 1 < 2 ^ 32 \<Longrightarrow> ahead s (t + 1) = Suc (ahead s t)"
proof -
  assume a: "ahead s t + 1 < 2 ^ 32"
  have "unat (t + 1 - now_serving s) = unat (t - now_serving s + 1)" by (simp add: diff_add_eq)
  moreover have "unat ((t - now_serving s) + 1) = unat (t - now_serving s) + 1"
    using a unat_add_lem [of "t - now_serving s" 1] by (simp add: ahead_def)
  ultimately show ?thesis unfolding ahead_def by simp
qed

lemma ahead_served:
  assumes "ahead s t \<noteq> 0"
  shows "ahead (s\<lparr>now_serving := now_serving s + 1, cpus := c\<rparr>) t = ahead s t - 1"
proof -
  have "t - now_serving s \<noteq> 0" using assms by (auto simp: ahead_def)
  hence "unat (t - now_serving s - 1) = unat (t - now_serving s) - 1" by (rule unat_minus_one)
  thus ?thesis by (simp add: ahead_def diff_diff_eq)
qed

lemma ahead_zero: "ahead s t = 0 \<longleftrightarrow> t = now_serving s"
  by (simp add: ahead_def unat_eq_0)

lemma lock_inv_new: "lock_inv n spin_lock_new"
  by (simp add: lock_inv_def spin_lock_new_def drawn_def ahead_def)

lemma draw_inv:
  assumes "lock_inv n s" "i < n" "cpus s i = Outside" "n < 2 ^ 32"
  shows "lock_inv n (s\<lparr>next_ticket := next_ticket s + 1, cpus := (cpus s)(i := Spinning (next_ticket s))\<rparr>)"
    (is "lock_inv n ?s")
proof -
  have i: "i \<notin> drawn n s" using assms by (simp add: drawn_def)
  have lim: "ahead s (next_ticket s) + 1 < 2 ^ 32"
    using ahead_next [OF assms(1)] drawn_less [OF assms(2) i] assms(4) by simp
  have D: "drawn n ?s = insert i (drawn n s)" using assms by (auto simp: drawn_def)
  have a: "ahead ?s t = ahead s t" for t by (simp add: ahead_def)
  have old: "place ?s j = place s j" if "j \<in> drawn n s" for j using that i a by auto
  have img: "place ?s ` drawn n s = {..<ahead s (next_ticket s)}"
    using assms(1) old by (metis (no_types, lifting) image_cong lock_inv_def)
  have new: "place ?s i = ahead s (next_ticket s)" by (simp add: a)
  have "inj_on (place ?s) (drawn n s)"
    using assms(1) old by (metis (no_types, lifting) inj_on_cong lock_inv_def)
  hence "inj_on (place ?s) (drawn n ?s)" unfolding D using img new i by auto
  moreover have "place ?s ` drawn n ?s = {..<ahead ?s (next_ticket ?s)}"
    unfolding D image_insert img new using ahead_Suc [OF lim] by (simp add: ahead_def lessThan_Suc)
  moreover have "\<forall>j<n. \<forall>t. cpus ?s j = Holding t \<or> cpus ?s j = Panicked t \<longrightarrow> t = now_serving ?s"
    using assms(1) by (simp add: lock_inv_def)
  ultimately show ?thesis unfolding lock_inv_def by blast
qed

lemma leave_inv:
  assumes "lock_inv n s" "i < n" "cpus s i = Holding t"
  shows "lock_inv n (s\<lparr>now_serving := t + 1, cpus := (cpus s)(i := Outside)\<rparr>)" (is "lock_inv n ?s")
proof -
  have t: "t = now_serving s" using assms by (auto simp: lock_inv_def)
  have i: "i \<in> drawn n s" "place s i = 0" using assms t by (simp_all add: drawn_def ahead_zero)
  have inj: "inj_on (place s) (drawn n s)" and img: "place s ` drawn n s = {..<ahead s (next_ticket s)}"
    using assms(1) by (auto simp: lock_inv_def)
  have D: "drawn n ?s = drawn n s - {i}" by (auto simp: drawn_def)
  have pos: "place s j \<noteq> 0" if "j \<in> drawn n ?s" for j
    using that i inj unfolding D by (metis DiffE inj_onD singletonI)
  have old: "place ?s j = place s j - 1" if "j \<in> drawn n ?s" for j
  proof -
    have "j \<noteq> i" using that D by blast
    thus ?thesis using ahead_served [OF pos [OF that], of "(cpus s)(i := Outside)"] by (simp add: t)
  qed
  have nz: "ahead s (next_ticket s) \<noteq> 0" using i img by (metis imageI lessThan_0 empty_iff)
  have "inj_on (place ?s) (drawn n ?s)"
  proof (rule inj_onI)
    fix j k assume jk: "j \<in> drawn n ?s" "k \<in> drawn n ?s" and "place ?s j = place ?s k"
    hence "place s j = place s k" using old pos by (metis One_nat_def Suc_pred bot_nat_0.not_eq_extremum)
    thus "j = k" using jk inj D by (metis Diff_iff inj_onD)
  qed
  moreover have "place ?s ` drawn n ?s = {..<ahead ?s (next_ticket ?s)}"
  proof -
    have "place ?s ` drawn n ?s = (\<lambda>k. k - 1) ` place s ` drawn n ?s" using old by (auto simp: image_image)
    also have "place s ` drawn n ?s = {..<ahead s (next_ticket s)} - {0}"
      unfolding D using inj_on_image_set_diff [OF inj, of "drawn n s" "{i}"] i img by simp
    also have "(\<lambda>k. k - 1) ` ({..<ahead s (next_ticket s)} - {0}) = {..<ahead s (next_ticket s) - 1}"
      by (auto simp: image_iff intro!: bexI [of _ "Suc _"])
    finally have "place ?s ` drawn n ?s = {..<ahead s (next_ticket s) - 1}" .
    moreover have "ahead ?s (next_ticket ?s) = ahead s (next_ticket s) - 1"
      using ahead_served [OF nz, of "(cpus s)(i := Outside)"] t by simp
    ultimately show ?thesis by simp
  qed
  moreover have "cpus ?s j = Holding u \<or> cpus ?s j = Panicked u \<Longrightarrow> j < n \<Longrightarrow> u = now_serving ?s" for j u
  proof -
    assume h: "cpus ?s j = Holding u \<or> cpus ?s j = Panicked u" and "j < n"
    hence ne: "j \<noteq> i" and "j \<in> drawn n ?s" by (auto simp: drawn_def split: if_splits)
    moreover have "u = now_serving s" using h ne \<open>j < n\<close> assms(1) by (auto simp: lock_inv_def)
    ultimately show ?thesis using pos [of j] h by (auto simp: ahead_zero)
  qed
  ultimately show ?thesis unfolding lock_inv_def by blast
qed

lemma same_tickets_inv:
  assumes "lock_inv n s" "cpus s i = Spinning t \<and> t = now_serving s \<or> cpus s i = Holding t" "i < n"
    and "ticket_of pc = Some t"
  shows "lock_inv n (s\<lparr>cpus := (cpus s)(i := pc)\<rparr>)" (is "lock_inv n ?s")
proof -
  have hold: "\<And>j u. j < n \<Longrightarrow> cpus s j = Holding u \<or> cpus s j = Panicked u \<Longrightarrow> u = now_serving s"
    using assms(1) unfolding lock_inv_def by blast
  have t: "t = now_serving s" "ticket_of (cpus s i) = Some t" using hold [of i t] assms(2,3) by auto
  have "ticket_of (cpus ?s j) = ticket_of (cpus s j)" for j using assms(4) t(2) by simp
  hence "place ?s = place s" "drawn n ?s = drawn n s" by (simp_all add: drawn_def ahead_def)
  moreover have "pc = Holding u \<or> pc = Panicked u \<Longrightarrow> u = now_serving s" for u using assms(4) t(1) by auto
  hence "\<forall>j<n. \<forall>u. cpus ?s j = Holding u \<or> cpus ?s j = Panicked u \<longrightarrow> u = now_serving ?s"
    using hold by auto
  moreover have "ahead ?s (next_ticket ?s) = ahead s (next_ticket s)" by (simp add: ahead_def)
  ultimately show ?thesis using assms(1) unfolding lock_inv_def by presburger
qed

lemma lock_step_inv: "lock_step checked n s e s' \<Longrightarrow> n < 2 ^ 32 \<Longrightarrow> lock_inv n s \<Longrightarrow> lock_inv n s'"
proof (induction rule: lock_step.induct)
  case (draw i s)
  show ?case by (rule draw_inv [OF draw.prems(2) draw.hyps draw.prems(1)])
next
  case (enter i s t)
  show ?case by (rule same_tickets_inv [of n s i t]) (use enter in simp_all)
next
  case (leave i s t v)
  hence "v = t + 1" by (simp add: drop_value_def split: if_splits)
  thus ?case using leave_inv leave by blast
next
  case (abort i s t)
  show ?case by (rule same_tickets_inv [of n s i t]) (use abort in simp_all)
qed

lemma lock_run_inv: "lock_run checked n s es s' \<Longrightarrow> n < 2 ^ 32 \<Longrightarrow> lock_inv n s \<Longrightarrow> lock_inv n s'"
proof (induction rule: lock_run.induct)
  case (more s e s' es s'')
  thus ?case using lock_step_inv by blast
qed

lemmas lock_reach_inv = lock_run_inv [OF _ _ lock_inv_new]

fun is_leave :: "lock_event \<Rightarrow> bool" where
  "is_leave (Leave _) = True"
| "is_leave _ = False"

text \<open>While a CPU spins, exactly the releases bring it closer.\<close>

lemma step_ahead:
  assumes "lock_step checked n s e s'" "lock_inv n s" "i < n" "cpus s i = Spinning t" "e \<noteq> Enter i"
  shows "cpus s' i = Spinning t" "ahead s t = ahead s' t + (if is_leave e then 1 else 0)"
proof -
  show "cpus s' i = Spinning t" using assms(1,4,5) by (cases rule: lock_step.cases) auto
  show "ahead s t = ahead s' t + (if is_leave e then 1 else 0)"
    using assms(1)
  proof (cases rule: lock_step.cases)
    case (leave j u v)
    hence u: "u = now_serving s" "v = now_serving s + 1"
      using assms(2) by (auto simp: lock_inv_def drop_value_def split: if_splits)
    have "inj_on (place s) (drawn n s)" "i \<in> drawn n s" "j \<in> drawn n s" "i \<noteq> j"
      using assms leave by (auto simp: lock_inv_def drawn_def)
    hence "place s i \<noteq> place s j" by (metis inj_onD)
    hence "t \<noteq> now_serving s" using assms(4) leave u(1) by auto
    hence "ahead s t \<noteq> 0" by (simp add: ahead_zero)
    thus ?thesis using ahead_served [of s t "(cpus s)(j := Outside)"] leave u by simp
  qed (simp_all add: ahead_def)
qed

lemma run_ahead:
  "lock_run checked n s es s' \<Longrightarrow> n < 2 ^ 32 \<Longrightarrow> lock_inv n s \<Longrightarrow> i < n \<Longrightarrow> cpus s i = Spinning t \<Longrightarrow>
   Enter i \<notin> set es \<Longrightarrow> cpus s' i = Spinning t \<and> ahead s t = ahead s' t + length (filter is_leave es)"
proof (induction rule: lock_run.induct)
  case (more s e s' es s'')
  note st = step_ahead [OF more.hyps(1) more.prems(2,3,4)]
  have "e \<noteq> Enter i" using more.prems by auto
  moreover have "lock_inv n s'" using lock_step_inv more by blast
  ultimately show ?case using more st by simp
qed simp

lemma waiting_bound:
  assumes "lock_inv n s" "i < n" "cpus s i = Spinning t"
  shows "ahead s t < n" "\<exists>j<n. ticket_of (cpus s j) = Some (now_serving s)"
proof -
  have i: "i \<in> drawn n s" using assms by (simp add: drawn_def)
  hence "place s i < ahead s (next_ticket s)" using assms(1) unfolding lock_inv_def by blast
  moreover have "ahead s (next_ticket s) \<le> n" using ahead_next [OF assms(1)] drawn_le by simp
  ultimately show "ahead s t < n" using assms(3) by simp
  have "0 \<in> place s ` drawn n s"
    using \<open>place s i < ahead s (next_ticket s)\<close> assms(1) unfolding lock_inv_def by simp
  then obtain j where "j \<in> drawn n s" "place s j = 0" by auto
  thus "\<exists>j<n. ticket_of (cpus s j) = Some (now_serving s)" by (auto simp: drawn_def ahead_zero)
qed

section \<open>Mutual exclusion and bounded waiting\<close>

text \<open>C8: However the CPUs interleave, and also across the wrap-around of the tickets, at most one CPU
  holds the lock.\<close>

theorem ticket_lock_mutex:
  assumes "n < 2 ^ 32" "lock_run checked n spin_lock_new es s"
    and "i < n" "cpus s i = Holding t" "j < n" "cpus s j = Holding u"
  shows "i = j"
proof -
  have inv: "lock_inv n s" by (rule lock_reach_inv [OF assms(2,1)])
  have "t = now_serving s" "u = now_serving s" using inv assms(3-6) unfolding lock_inv_def by blast+
  hence "place s i = place s j" using assms(4,6) by simp
  moreover have "i \<in> drawn n s" "j \<in> drawn n s" using assms by (simp_all add: drawn_def)
  ultimately show ?thesis using inv unfolding lock_inv_def by (metis inj_onD)
qed

text \<open>C33: The lock is fair.  A CPU that has drawn a ticket is passed by fewer than \<open>n\<close> holders, however
  long the run; and whenever a CPU waits, some CPU holds the ticket being served: it owns the lock, or
  its next step enters.\<close>

theorem ticket_lock_fair:
  assumes "n < 2 ^ 32" "lock_run checked n spin_lock_new es s" "i < n" "cpus s i = Spinning t"
    and "lock_run checked n s es' s'" "Enter i \<notin> set es'"
  shows "cpus s' i = Spinning t \<and> length (filter is_leave es') < n \<and>
    (\<exists>j<n. cpus s' j = Holding (now_serving s') \<or> cpus s' j = Panicked (now_serving s') \<or>
       cpus s' j = Spinning (now_serving s') \<and> (\<exists>s''. lock_step checked n s' (Enter j) s''))"
proof -
  have inv: "lock_inv n s" "lock_inv n s'"
    using lock_reach_inv [OF assms(2,1)] lock_run_inv [OF assms(5,1)] by blast+
  note run = run_ahead [OF assms(5,1) inv(1) assms(3,4,6)]
  obtain j where j: "j < n" "ticket_of (cpus s' j) = Some (now_serving s')"
    using waiting_bound(2) [OF inv(2) assms(3)] run by blast
  have "cpus s' j = Spinning (now_serving s') \<Longrightarrow> \<exists>s''. lock_step checked n s' (Enter j) s''"
    using lock_step.enter [OF j(1)] by blast
  hence "\<exists>j<n. cpus s' j = Holding (now_serving s') \<or> cpus s' j = Panicked (now_serving s') \<or>
       cpus s' j = Spinning (now_serving s') \<and> (\<exists>s''. lock_step checked n s' (Enter j) s'')"
    using j by (cases "cpus s' j") auto
  thus ?thesis using run waiting_bound(1) [OF inv(1) assms(3,4)] by simp
qed

text \<open>Two CPUs contend: CPU 0 enters, CPU 1 waits until it leaves.\<close>

definition contended :: spin_lock where
  "contended = spin_lock_new\<lparr>next_ticket := 2, cpus := (\<lambda>_. Outside)(0 := Holding 0, 1 := Spinning 1)\<rparr>"

lemma contended_run: "lock_run True 2 spin_lock_new [Draw 0, Draw 1, Enter 0] contended"
proof -
  let ?a = "spin_lock_new\<lparr>next_ticket := 1, cpus := (\<lambda>_. Outside)(0 := Spinning 0)\<rparr>"
  let ?b = "spin_lock_new\<lparr>next_ticket := 2, cpus := (\<lambda>_. Outside)(0 := Spinning 0, 1 := Spinning 1)\<rparr>"
  have "lock_step True 2 spin_lock_new (Draw 0) ?a"
    using lock_step.draw [of 0 2 spin_lock_new True] by (simp add: spin_lock_new_def)
  moreover have "lock_step True 2 ?a (Draw 1) ?b"
    using lock_step.draw [of 1 2 ?a True] by (simp add: spin_lock_new_def)
  moreover have "lock_step True 2 ?b (Enter 0) contended"
    using lock_step.enter [of 0 2 ?b 0 True]
    by (simp add: spin_lock_new_def contended_def fun_upd_twist)
  ultimately show ?thesis by (meson lock_run.more lock_run.no_more)
qed

theorem ticket_lock_mutex_witness: "cpus contended 0 = Holding 0 \<and> cpus contended 1 \<noteq> Holding 1"
  using ticket_lock_mutex [OF _ contended_run, of 0 0 1 1] by (auto simp: contended_def)

theorem ticket_lock_fair_witness: "cpus contended 1 = Spinning 1 \<and> length (filter is_leave []) < 2"
  using ticket_lock_fair [OF _ contended_run _ _ lock_run.no_more, of 1 1] by (simp add: contended_def)

end
