(* ===== verification/Virtqueue.thy ===== *)
theory Virtqueue
  imports Guest_Memory Ring_Buffers
begin

text \<open>Split virtqueues (\<open>devices/virtio/queue.rs\<close>): the device side of a queue whose descriptor table and
  rings lie in guest memory.  The last part is the contract between the loop that serves a queue and
  the device backend that handles one chain.\<close>

record virtq_desc =
  d_addr :: u64
  d_len :: u32
  d_flags :: u16
  d_next :: u16

definition VIRTQ_DESC_F_NEXT :: u16 where "VIRTQ_DESC_F_NEXT = 1"
definition VIRTQ_DESC_F_WRITE :: u16 where "VIRTQ_DESC_F_WRITE = 2"

text \<open>A chain: the head and the valid descriptors, at most 4 (\<open>count\<close> is the length of the list).\<close>

record desc_chain =
  ch_head :: u16
  ch_descs :: "virtq_desc list"

record virtqueue =
  desc_addr :: u64
  avail_addr :: u64
  used_addr :: u64
  num :: u16
  last_avail_idx :: u16
  ready :: bool

definition virtqueue_new :: virtqueue where
  "virtqueue_new = \<lparr>desc_addr = 0, avail_addr = 0, used_addr = 0, num = 0, last_avail_idx = 0, ready = False\<rparr>"

definition lohi :: "u32 \<Rightarrow> u32 \<Rightarrow> u64" where
  "lohi low high = ucast low OR push_bit 32 (ucast high)"

definition set_desc_addr :: "u32 \<Rightarrow> u32 \<Rightarrow> virtqueue \<Rightarrow> virtqueue" where
  "set_desc_addr low high q = q\<lparr>desc_addr := lohi low high\<rparr>"

definition set_avail_addr :: "u32 \<Rightarrow> u32 \<Rightarrow> virtqueue \<Rightarrow> virtqueue" where
  "set_avail_addr low high q = q\<lparr>avail_addr := lohi low high\<rparr>"

definition set_used_addr :: "u32 \<Rightarrow> u32 \<Rightarrow> virtqueue \<Rightarrow> virtqueue" where
  "set_used_addr low high q = q\<lparr>used_addr := lohi low high\<rparr>"

definition desc_addr_low :: "virtqueue \<Rightarrow> u32" where "desc_addr_low q = ucast (desc_addr q)"
definition avail_addr_low :: "virtqueue \<Rightarrow> u32" where "avail_addr_low q = ucast (avail_addr q)"
definition used_addr_low :: "virtqueue \<Rightarrow> u32" where "used_addr_low q = ucast (used_addr q)"

definition virtqueue_reset :: "virtqueue \<Rightarrow> virtqueue" where
  "virtqueue_reset q = q\<lparr>desc_addr := 0, avail_addr := 0, used_addr := 0, num := 0, last_avail_idx := 0, ready := False\<rparr>"

definition avail_idx :: "gmem \<Rightarrow> virtqueue \<Rightarrow> u16" where
  "avail_idx m q = rd16 m (avail_addr q + 2)"

definition has_avail :: "gmem \<Rightarrow> virtqueue \<Rightarrow> bool" where
  "has_avail m q \<longleftrightarrow> ready q \<and> avail_addr q \<noteq> 0 \<and> avail_idx m q \<noteq> last_avail_idx q"

text \<open>Descriptor \<open>idx\<close> of the table (16 bytes each).\<close>

definition read_desc :: "gmem \<Rightarrow> virtqueue \<Rightarrow> u16 \<Rightarrow> virtq_desc" where
  "read_desc m q idx = (let a = desc_addr q + 16 * ucast idx in
     \<lparr>d_addr = rd64 m a, d_len = rd32 m (a + 8), d_flags = rd16 m (a + 12), d_next = rd16 m (a + 14)\<rparr>)"

fun walk_chain :: "nat \<Rightarrow> gmem \<Rightarrow> virtqueue \<Rightarrow> u16 \<Rightarrow> virtq_desc list" where
  "walk_chain 0 m q idx = []"
| "walk_chain (Suc k) m q idx =
     (if idx \<ge> num q then []
      else let desc = read_desc m q idx in
        desc # (if d_flags desc AND VIRTQ_DESC_F_NEXT = 0 then [] else walk_chain k m q (d_next desc)))"


definition get_avail_desc :: "gmem \<Rightarrow> virtqueue \<Rightarrow> (desc_chain option \<times> virtqueue) or_panic" where
  "get_avail_desc m q =
     (if \<not> has_avail m q then Some (None, q)
      else if 2 ^ 64 \<le> unat (avail_addr q) + 4 \<or> num q = 0 then None
      else
        let ring_idx = last_avail_idx q mod num q;
            head = rd16 m (avail_addr q + 4 + 2 * ucast ring_idx) in
        Some (Some \<lparr>ch_head = head, ch_descs = walk_chain 4 m q head\<rparr>,
              q\<lparr>last_avail_idx := last_avail_idx q + 1\<rparr>))"

definition put_used :: "virtqueue \<Rightarrow> u16 \<Rightarrow> u32 \<Rightarrow> gmem \<Rightarrow> gmem or_panic" where
  "put_used q head len m =
     (if used_addr q = 0 then Some m
      else if num q = 0 \<or> 2 ^ 64 \<le> unat (used_addr q) + 4 then None
      else
        let used_idx = rd16 m (used_addr q + 2);
            elem = used_addr q + 4 + 8 * ucast (used_idx mod num q);
            m = wr32 (wr32 m elem (ucast head)) (elem + 4) len in
        Some (wr16 m (used_addr q + 2) (used_idx + 1)))"

text \<open>\<open>while let Some(chain) = queue.get_avail_desc() { body(chain) }\<close>; the state \<open>s\<close> is the device's.\<close>

partial_function (option) avail_loop ::
  "(virtqueue \<Rightarrow> desc_chain \<Rightarrow> gmem \<times> 's \<Rightarrow> (gmem \<times> 's) option) \<Rightarrow> virtqueue \<Rightarrow> gmem \<times> 's \<Rightarrow>
   (virtqueue \<times> gmem \<times> 's) option" where
  "avail_loop body q ms = (case get_avail_desc (fst ms) q of
     None \<Rightarrow> None
   | Some (c, q') \<Rightarrow> (case c of
       None \<Rightarrow> Some (q', ms)
     | Some chain \<Rightarrow> (case body q' chain ms of None \<Rightarrow> None | Some ms' \<Rightarrow> avail_loop body q' ms')))"

text \<open>The same loop cut off after \<open>n\<close> rounds: \<open>None\<close> if it ended, or panicked, before that.\<close>

fun avail_iter ::
  "(virtqueue \<Rightarrow> desc_chain \<Rightarrow> gmem \<times> 's \<Rightarrow> (gmem \<times> 's) option) \<Rightarrow> nat \<Rightarrow> virtqueue \<Rightarrow> gmem \<times> 's \<Rightarrow>
   (virtqueue \<times> gmem \<times> 's) option" where
  "avail_iter body 0 q ms = Some (q, ms)"
| "avail_iter body (Suc n) q ms = (case get_avail_desc (fst ms) q of
     Some (Some chain, q') \<Rightarrow> (case body q' chain ms of Some ms' \<Rightarrow> avail_iter body n q' ms' | None \<Rightarrow> None)
   | _ \<Rightarrow> None)"

section \<open>What the device reads and writes\<close>

definition area :: "u64 \<Rightarrow> nat \<Rightarrow> u64 set" where
  "area a n = {x. unat (x - a) < n}"

text \<open>The bytes of guest memory a queue consists of for the device: the table and the available ring it
  reads, and the used ring it writes.\<close>

definition read_area :: "virtqueue \<Rightarrow> u64 set" where
  "read_area q = area (desc_addr q) (16 * unat (num q)) \<union> area (avail_addr q) (4 + 2 * unat (num q))"

definition used_area :: "virtqueue \<Rightarrow> u64 set" where
  "used_area q = area (used_addr q) (4 + 8 * unat (num q))"

lemma area_offset: "off + k \<le> n \<Longrightarrow> i < k \<Longrightarrow> n < 2 ^ 62 \<Longrightarrow> a + of_nat off + of_nat i \<in> area a n"
proof -
  assume "off + k \<le> n" "i < k" "n < 2 ^ 62"
  moreover have "unat (of_nat (off + i) :: u64) = off + i" if "off + i < 2 ^ 62" by (subst unat_of_nat) (use that in simp)
  ultimately have "unat (of_nat (off + i) :: u64) < n" by simp
  thus ?thesis by (simp add: area_def add.assoc)
qed

lemma area_nowrap:
  assumes "unat a + n \<le> 2 ^ 64"
  shows "x \<in> area a n \<longleftrightarrow> unat a \<le> unat x \<and> unat x < unat a + n"
proof
  assume "x \<in> area a n"
  hence i: "unat (x - a) < n" by (simp add: area_def)
  have "unat (a + (x - a)) = unat a + unat (x - a)" by (rule unat_add_exact) (use i assms in linarith)
  thus "unat a \<le> unat x \<and> unat x < unat a + n" using i by simp
next
  assume "unat a \<le> unat x \<and> unat x < unat a + n"
  moreover from this have "unat (x - a) = unat x - unat a" by (intro unat_sub) (simp add: word_le_nat_alt)
  ultimately have "unat (x - a) < n" by linarith
  thus "x \<in> area a n" by (simp add: area_def)
qed

lemma area_disjoint:
  "unat a + n \<le> unat b \<or> unat b + k \<le> unat a \<Longrightarrow> unat a + n \<le> 2 ^ 64 \<Longrightarrow> unat b + k \<le> 2 ^ 64 \<Longrightarrow> area a n \<inter> area b k = {}"
  by (auto simp: area_nowrap)

lemma get_bytes_same:
  assumes "\<And>x. x \<in> area a n \<Longrightarrow> m' x = m x" "off + k \<le> n" "n < 2 ^ 62"
  shows "get_bytes m' (a + of_nat off) k = get_bytes m (a + of_nat off) k"
  using area_offset [OF assms(2) _ assms(3)] assms(1) by (auto simp: get_bytes_def)

lemma put_bytes_outside:
  assumes "off + length bs \<le> n" "n < 2 ^ 62" "x \<notin> area a n"
  shows "put_bytes m (a + of_nat off) bs x = m x"
proof -
  have "\<not> unat (x - (a + of_nat off)) < length bs"
  proof
    assume l: "unat (x - (a + of_nat off)) < length bs"
    let ?i = "unat (x - (a + of_nat off))"
    have "x = a + of_nat off + of_nat ?i" by simp
    hence "x \<in> area a n" using area_offset [of off "length bs" n ?i a] l assms(1,2) by simp
    thus False using assms(3) by blast
  qed
  thus ?thesis using assms(1,2) by (subst put_bytes_apply) simp_all
qed

lemma nth_get_bytes: "i < n \<Longrightarrow> get_bytes m a n ! i = m (a + of_nat i)"
  by (simp add: get_bytes_def)

lemma get_bytes_Suc: "get_bytes m a (Suc n) = m a # get_bytes m (a + 1) n"
  by (rule nth_equalityI) (auto simp: nth_get_bytes nth_Cons add.assoc split: nat.splits)

lemma get_bytes_numeral: "get_bytes m a (numeral k) = m a # get_bytes m (a + 1) (pred_numeral k)"
  by (simp add: numeral_eq_Suc get_bytes_Suc)

lemma walk_chain_numeral:
  "walk_chain (numeral k) m q idx =
     (if idx \<ge> num q then []
      else let desc = read_desc m q idx in
        desc # (if d_flags desc AND VIRTQ_DESC_F_NEXT = 0 then [] else walk_chain (pred_numeral k) m q (d_next desc)))"
  by (simp add: numeral_eq_Suc)

lemmas eval_memory = rd16_def rd32_def rd64_def get_bytes_numeral get_bytes_Suc read_desc_def walk_chain_numeral

lemma get_bytes_0 [simp]: "get_bytes m a 0 = []"
  by (simp add: get_bytes_def)

lemma unat_u16: "unat (x :: u16) < 65536"
  using unsigned_less [of x] by simp

lemma unat_u32: "unat (x :: u32) < 4294967296"
  using unsigned_less [of x] by simp

lemma mod_lt_u16: "num q \<noteq> 0 \<Longrightarrow> unat (i mod num q) < unat (num q)"
  by (metis unat_gt_0 unat_mod mod_less_divisor)

lemma ucast_of_nat: "(ucast (i :: u16) :: u64) = of_nat (unat i)"
  by simp

lemma read_desc_same:
  assumes "\<And>a. a \<in> read_area q \<Longrightarrow> m' a = m a" "idx < num q"
  shows "read_desc m' q idx = read_desc m q idx"
proof -
  let ?o = "16 * unat idx"
  have i: "unat idx < unat (num q)" using assms(2) by (simp add: word_less_nat_alt)
  have a: "\<And>x. x \<in> area (desc_addr q) (16 * unat (num q)) \<Longrightarrow> m' x = m x" using assms(1) by (simp add: read_area_def)
  have b: "get_bytes m' (desc_addr q + of_nat (?o + off)) k = get_bytes m (desc_addr q + of_nat (?o + off)) k"
    if "off + k \<le> 16" for off k
    by (rule get_bytes_same [OF a]) (use i that unat_u16 [of "num q"] in auto)
  have "16 * ucast idx = (of_nat ?o :: u64)" by simp
  thus ?thesis using b [of 0 8] b [of 8 4] b [of 12 2] b [of 14 2]
    by (simp add: read_desc_def Let_def rd64_def rd32_def rd16_def add.assoc)
qed

lemma walk_chain_same:
  assumes "\<And>a. a \<in> read_area q \<Longrightarrow> m' a = m a"
  shows "walk_chain k m' q idx = walk_chain k m q idx"
proof (induction k arbitrary: idx)
  case (Suc k)
  show ?case
  proof (cases "idx < num q")
    case True
    thus ?thesis using Suc read_desc_same [of q m' m idx, OF assms True] by (simp add: Let_def)
  next
    case False
    thus ?thesis by (simp add: not_less)
  qed
qed simp

lemma avail_same:
  assumes "\<And>a. a \<in> read_area q \<Longrightarrow> m' a = m a" "off + 2 \<le> 4 + 2 * unat (num q)"
  shows "rd16 m' (avail_addr q + of_nat off) = rd16 m (avail_addr q + of_nat off)"
  unfolding rd16_def
  by (subst get_bytes_same [of "avail_addr q" "4 + 2 * unat (num q)" m' m])
    (use assms unat_u16 [of "num q"] in \<open>auto simp: read_area_def\<close>)

lemma length_walk_chain: "length (walk_chain k m q idx) \<le> k"
  by (induction k arbitrary: idx) (simp_all add: Let_def)

section \<open>Serving a queue\<close>

definition chain_at :: "gmem \<Rightarrow> virtqueue \<Rightarrow> u16 \<Rightarrow> desc_chain" where
  "chain_at m q i = (let head = rd16 m (avail_addr q + 4 + 2 * ucast (i mod num q)) in
     \<lparr>ch_head = head, ch_descs = walk_chain 4 m q head\<rparr>)"

definition queue_live :: "virtqueue \<Rightarrow> bool" where
  "queue_live q \<longleftrightarrow> ready q \<and> avail_addr q \<noteq> 0 \<and> unat (avail_addr q) + 4 < 2 ^ 64 \<and> num q \<noteq> 0"

text \<open>The chains the guest has made available and the device has not taken, in order.\<close>

definition pending :: "gmem \<Rightarrow> virtqueue \<Rightarrow> desc_chain list" where
  "pending m q = map (\<lambda>k. chain_at m q (last_avail_idx q + of_nat k))
     [0..<unat (avail_idx m q - last_avail_idx q)]"

lemma queue_last [simp]:
  "read_area (q\<lparr>last_avail_idx := i\<rparr>) = read_area q" "used_area (q\<lparr>last_avail_idx := i\<rparr>) = used_area q"
  "queue_live (q\<lparr>last_avail_idx := i\<rparr>) = queue_live q" "avail_idx m (q\<lparr>last_avail_idx := i\<rparr>) = avail_idx m q"
  "put_used (q\<lparr>last_avail_idx := i\<rparr>) = put_used q" "read_desc m (q\<lparr>last_avail_idx := i\<rparr>) = read_desc m q"
  by (simp_all add: read_area_def used_area_def queue_live_def avail_idx_def put_used_def read_desc_def fun_eq_iff)

lemma walk_chain_last [simp]: "walk_chain k m (q\<lparr>last_avail_idx := i\<rparr>) idx = walk_chain k m q idx"
  by (induction k arbitrary: idx) (simp_all add: Let_def)

lemma chain_at_last [simp]: "chain_at m (q\<lparr>last_avail_idx := i\<rparr>) j = chain_at m q j"
  by (simp add: chain_at_def Let_def)

lemma avail_idx_same: "(\<And>a. a \<in> read_area q \<Longrightarrow> m' a = m a) \<Longrightarrow> avail_idx m' q = avail_idx m q"
  using avail_same [of q m' m 2] by (simp add: avail_idx_def)

lemma chain_at_same:
  assumes "\<And>a. a \<in> read_area q \<Longrightarrow> m' a = m a" "num q \<noteq> 0"
  shows "chain_at m' q i = chain_at m q i"
proof -
  let ?o = "4 + 2 * unat (i mod num q)"
  have "avail_addr q + 4 + 2 * ucast (i mod num q) = avail_addr q + of_nat ?o" by simp
  moreover have "rd16 m' (avail_addr q + of_nat ?o) = rd16 m (avail_addr q + of_nat ?o)"
    by (rule avail_same [OF assms(1)]) (use mod_lt_u16 [OF assms(2), of i] in simp_all)
  ultimately show ?thesis
    unfolding chain_at_def Let_def using walk_chain_same [of q m' m, OF assms(1)] by (simp add: add.assoc)
qed

lemma get_avail_desc_live:
  "queue_live q \<Longrightarrow> get_avail_desc m q =
     (if avail_idx m q = last_avail_idx q then Some (None, q)
      else Some (Some (chain_at m q (last_avail_idx q)), q\<lparr>last_avail_idx := last_avail_idx q + 1\<rparr>))"
  by (simp add: get_avail_desc_def has_avail_def queue_live_def chain_at_def Let_def)

lemma pending_Cons:
  assumes "avail_idx m q \<noteq> last_avail_idx q"
  shows "pending m q = chain_at m q (last_avail_idx q) # pending m (q\<lparr>last_avail_idx := last_avail_idx q + 1\<rparr>)"
    and "unat (avail_idx m q - (last_avail_idx q + 1)) < unat (avail_idx m q - last_avail_idx q)"
proof -
  let ?d = "avail_idx m q - last_avail_idx q"
  have d: "?d \<noteq> 0" using assms by simp
  hence "unat (?d - 1) = unat ?d - 1" by (rule unat_minus_one)
  moreover have "unat ?d \<noteq> 0" using d by (simp add: unat_eq_0)
  ultimately have u: "unat ?d = Suc (unat (avail_idx m q - (last_avail_idx q + 1)))" by (simp add: diff_diff_eq)
  thus "unat (avail_idx m q - (last_avail_idx q + 1)) < unat ?d" by simp
  have "[0..<Suc k] = 0 # map Suc [0..<k]" for k by (simp add: upt_conv_Cons map_Suc_upt)
  thus "pending m q = chain_at m q (last_avail_idx q) # pending m (q\<lparr>last_avail_idx := last_avail_idx q + 1\<rparr>)"
    by (simp add: pending_def u add.assoc del: upt_Suc)
qed

lemma pending_same:
  assumes "\<And>a. a \<in> read_area q \<Longrightarrow> m' a = m a" "num q \<noteq> 0"
  shows "pending m' q = pending m q"
  using chain_at_same [of q m' m, OF assms] avail_idx_same [of q m' m, OF assms(1)] by (simp add: pending_def)

text \<open>What the loop needs of a backend: from a good state every chain is handled without a panic, the
  state stays good, and nothing the device still has to read of the queue is overwritten.\<close>

locale queue_backend =
  fixes body :: "virtqueue \<Rightarrow> desc_chain \<Rightarrow> gmem \<times> 's \<Rightarrow> (gmem \<times> 's) option"
    and ok :: "virtqueue \<Rightarrow> gmem \<times> 's \<Rightarrow> bool"
  assumes live: "ok q ms \<Longrightarrow> queue_live q"
    and ok_last: "ok q ms \<Longrightarrow> ok (q\<lparr>last_avail_idx := i\<rparr>) ms"
    and body_last: "body (q\<lparr>last_avail_idx := i\<rparr>) c ms = body q c ms"
    and serve: "ok q ms \<Longrightarrow> \<exists>ms'. body q (chain_at (fst ms) q i) ms = Some ms' \<and> ok q ms' \<and>
      (\<forall>a\<in>read_area q. fst ms' a = fst ms a)"
begin

lemma serves_all:
  "ok q ms \<Longrightarrow> \<exists>ms'. avail_loop body q ms = Some (q\<lparr>last_avail_idx := avail_idx (fst ms) q\<rparr>, ms') \<and>
     foldM (body q) (pending (fst ms) q) ms = Some ms' \<and> ok q ms' \<and> (\<forall>a\<in>read_area q. fst ms' a = fst ms a)"
proof (induction "unat (avail_idx (fst ms) q - last_avail_idx q)" arbitrary: q ms rule: less_induct)
  case less
  note lv = get_avail_desc_live [OF live [OF less.prems], of "fst ms"]
  show ?case
  proof (cases "avail_idx (fst ms) q = last_avail_idx q")
    case True
    thus ?thesis using lv less.prems by (subst avail_loop.simps) (simp add: pending_def)
  next
    case False
    let ?q = "q\<lparr>last_avail_idx := last_avail_idx q + 1\<rparr>" and ?c = "chain_at (fst ms) q (last_avail_idx q)"
    obtain ms1 where ms1: "body q ?c ms = Some ms1" "ok q ms1" "\<forall>a\<in>read_area q. fst ms1 a = fst ms a"
      using serve [OF less.prems] by blast
    have nz: "num q \<noteq> 0" using live [OF less.prems] by (simp add: queue_live_def)
    have idx: "avail_idx (fst ms1) q = avail_idx (fst ms) q" using avail_idx_same ms1(3) by blast
    have pend: "pending (fst ms1) ?q = pending (fst ms) ?q"
      using pending_same [of ?q "fst ms1" "fst ms"] ms1(3) nz by simp
    have "unat (avail_idx (fst ms1) ?q - last_avail_idx ?q) < unat (avail_idx (fst ms) q - last_avail_idx q)"
      using pending_Cons(2) [OF False] by (simp add: idx)
    from less.hyps [OF this ok_last [OF ms1(2)]] obtain ms2 where
      "avail_loop body ?q ms1 = Some (?q\<lparr>last_avail_idx := avail_idx (fst ms) q\<rparr>, ms2)"
      "foldM (body ?q) (pending (fst ms) ?q) ms1 = Some ms2" "ok ?q ms2" "\<forall>a\<in>read_area q. fst ms2 a = fst ms1 a"
      using idx pend by auto
    moreover have "body ?q = body q" by (intro ext) (rule body_last)
    moreover have "ok q ms2" using ok_last [OF \<open>ok ?q ms2\<close>, of "last_avail_idx q"] by simp
    ultimately show ?thesis
      using lv False ms1 pending_Cons(1) [OF False] body_last
      by (subst avail_loop.simps) simp
  qed
qed

end

text \<open>A property of memory and device state that every round keeps holds when the loop ends.\<close>

lemma avail_loop_inv:
  assumes "avail_loop body q ms = Some r" "I ms" "\<And>q c ms ms'. I ms \<Longrightarrow> body q c ms = Some ms' \<Longrightarrow> I ms'"
  shows "I (snd r)"
proof -
  have "(\<forall>q c ms ms'. I ms \<longrightarrow> body q c ms = Some ms' \<longrightarrow> I ms') \<longrightarrow> I ms \<longrightarrow> I (snd r)"
  proof (rule avail_loop.raw_induct [OF _ assms(1), where P = "\<lambda>body q ms r.
      (\<forall>q c ms ms'. I ms \<longrightarrow> body q c ms = Some ms' \<longrightarrow> I ms') \<longrightarrow> I ms \<longrightarrow> I (snd r)"], intro impI)
    fix loop body q ms y
    assume IH: "\<And>body q ms y. loop body q ms = Some y \<Longrightarrow>
        (\<forall>q c ms ms'. I ms \<longrightarrow> body q c ms = Some ms' \<longrightarrow> I ms') \<longrightarrow> I ms \<longrightarrow> I (snd y)"
      and run: "(case get_avail_desc (fst ms) q of None \<Rightarrow> None | Some (None, q') \<Rightarrow> Some (q', ms)
        | Some (Some chain, q') \<Rightarrow> (case body q' chain ms of None \<Rightarrow> None | Some ms' \<Rightarrow> loop body q' ms')) = Some y"
      and step: "\<forall>q c ms ms'. I ms \<longrightarrow> body q c ms = Some ms' \<longrightarrow> I ms'" and ms: "I ms"
    show "I (snd y)"
    proof (cases "get_avail_desc (fst ms) q")
      case (Some cq)
      then obtain c q' where cq: "get_avail_desc (fst ms) q = Some (c, q')" by (cases cq) simp
      show ?thesis
      proof (cases c)
        case None
        thus ?thesis using run ms cq by auto
      next
        case (Some chain)
        then obtain ms1 where ms1: "body q' chain ms = Some ms1" "loop body q' ms1 = Some y"
          using run cq by (cases "body q' chain ms") simp_all
        hence "I ms1" using step ms by blast
        thus ?thesis using IH [OF ms1(2)] step by blast
      qed
    qed (use run in simp)
  qed
  thus ?thesis using assms(2,3) by blast
qed

text \<open>Returning a chain touches the used ring only.\<close>

lemma put_used_frame:
  assumes "num q \<noteq> 0" "unat (used_addr q) + 4 < 2 ^ 64"
  shows "\<exists>m'. put_used q head len m = Some m' \<and> (\<forall>a. a \<notin> used_area q \<longrightarrow> m' a = m a)"
proof (cases "used_addr q = 0")
  case True
  thus ?thesis by (simp add: put_used_def)
next
  case False
  let ?u = "used_addr q" and ?n = "4 + 8 * unat (num q)"
  let ?i = "rd16 m (?u + 2) mod num q"
  let ?o = "4 + 8 * unat ?i"
  have i: "unat ?i < unat (num q)" by (rule mod_lt_u16 [OF assms(1)])
  have n: "?n < 2 ^ 62" using unat_u16 [of "num q"] by simp

  have w: "put_bytes m1 (?u + of_nat off) bs a = m1 a" if "a \<notin> used_area q" "off + length bs \<le> ?n" for m1 off bs a
    using put_bytes_outside [OF that(2) n] that(1) by (simp add: used_area_def)
  have w2: "put_bytes m1 (?u + 2) (to_le 2 z) a = m1 a" if "a \<notin> used_area q" for m1 a and z :: u16
    using w [OF that, of 2 "to_le 2 z"] by simp
  have e: "?u + 4 + 8 * ucast ?i = ?u + of_nat ?o" by simp
  have e4: "?u + of_nat ?o + 4 = ?u + of_nat (?o + 4)" by simp
  have "put_used q head len m = Some (wr16 (wr32 (wr32 m (?u + of_nat ?o) (ucast head)) (?u + of_nat (?o + 4)) len)
      (?u + 2) (rd16 m (?u + 2) + 1))"
    unfolding put_used_def Let_def e e4 using assms False by simp
  moreover have "wr16 (wr32 (wr32 m (?u + of_nat ?o) x) (?u + of_nat (?o + 4)) y) (?u + 2) z a = m a"
    if "a \<notin> used_area q" for a x y z
    unfolding wr16_def wr32_def w2 [OF that] using i by (subst w [OF that], simp)+ simp
  ultimately show ?thesis by blast
qed

lemma put_used_Some:
  assumes "put_used q head len m = Some m'" "a \<notin> used_area q"
  shows "m' a = m a"
proof (cases "used_addr q = 0")
  case True
  thus ?thesis using assms by (simp add: put_used_def)
next
  case False
  hence "num q \<noteq> 0" "unat (used_addr q) + 4 < 2 ^ 64" using assms by (auto simp: put_used_def split: if_splits)
  thus ?thesis using put_used_frame [of q head len m] assms by auto
qed

lemma put_used_idx:
  "used_addr q \<noteq> 0 \<Longrightarrow> put_used q head len m = Some m' \<Longrightarrow> rd16 m' (used_addr q + 2) = rd16 m (used_addr q + 2) + 1"
  by (auto simp: put_used_def Let_def rd_wr_same split: if_splits)

text \<open>Taking a chain reads the descriptor table and the available ring and no other byte of memory:
  two memories that agree there give the same result.\<close>

lemma get_avail_desc_bounds:
  assumes "\<forall>a\<in>read_area q. m' a = m a" "queue_live q"
  shows "get_avail_desc m' q = get_avail_desc m q \<and>
    (\<forall>c q'. get_avail_desc m q = Some (Some c, q') \<longrightarrow> length (ch_descs c) \<le> 4)"
proof -
  have nz: "num q \<noteq> 0" using assms(2) by (simp add: queue_live_def)
  have "avail_idx m' q = avail_idx m q" by (rule avail_idx_same) (use assms(1) in blast)
  moreover have "chain_at m' q i = chain_at m q i" for i by (rule chain_at_same) (use assms(1) nz in blast)+
  moreover have "length (ch_descs (chain_at m q i)) \<le> 4" for i
    using length_walk_chain [of 4] by (simp add: chain_at_def Let_def)
  ultimately show ?thesis using assms(2) by (auto simp: get_avail_desc_live)
qed

text \<open>A queue of four entries, in two memories that differ outside it.\<close>

definition small_queue :: virtqueue where
  "small_queue = \<lparr>desc_addr = 0x1000, avail_addr = 0x2000, used_addr = 0x3000, num = 4, last_avail_idx = 0, ready = True\<rparr>"

end
