(* ===== verification/Vswitch.thy ===== *)
theory Vswitch
  imports Ring_Buffers "HOL-Library.Sublist"
begin

text \<open>The virtual switch (\<open>vswitch.rs\<close>): the per-port receive rings of frames, and the learning switch
  that forwards a frame into them.  \<open>PORT_RX\<close> and the global switch are one state.\<close>

section \<open>Receive rings\<close>

definition MAX_FRAME_SIZE :: nat where "MAX_FRAME_SIZE = 1514"
definition NET_RX_RING_SIZE :: nat where "NET_RX_RING_SIZE = 9"
definition MAX_PORTS :: nat where "MAX_PORTS = 2"

record frame_slot =
  fs_buf :: "u8 list"
  fs_len :: u16

definition frame_slot_new :: frame_slot where
  "frame_slot_new = \<lparr>fs_buf = replicate MAX_FRAME_SIZE 0, fs_len = 0\<rparr>"

record net_ring =
  nr_frames :: "frame_slot list"
  nr_head :: nat
  nr_tail :: nat

definition net_ring_new :: net_ring where
  "net_ring_new = \<lparr>nr_frames = replicate NET_RX_RING_SIZE frame_slot_new, nr_head = 0, nr_tail = 0\<rparr>"

text \<open>\<open>slots[tail].buf[..len].copy_from_slice(frame); slots[tail].len = len as u16\<close>\<close>

definition slot_store :: "u8 list \<Rightarrow> frame_slot \<Rightarrow> frame_slot" where
  "slot_store frame s = s\<lparr>fs_buf := frame @ drop (length frame) (fs_buf s), fs_len := of_nat (length frame)\<rparr>"

definition net_ring_store :: "u8 list \<Rightarrow> net_ring \<Rightarrow> (bool \<times> net_ring) or_panic" where
  "net_ring_store frame r =
     (let len = length frame in
      if len = 0 \<or> len > MAX_FRAME_SIZE then Some (False, r)
      else let tail = nr_tail r; nxt = (tail + 1) mod NET_RX_RING_SIZE in
        if nxt = nr_head r then Some (False, r)
        else if tail < length (nr_frames r)
        then Some (True, r\<lparr>nr_frames := (nr_frames r)[tail := slot_store frame (nr_frames r ! tail)], nr_tail := nxt\<rparr>)
        else None)"

text \<open>\<open>take\<close> fills the caller's buffer and returns the length of the frame.\<close>

definition net_ring_take :: "u8 list \<Rightarrow> net_ring \<Rightarrow> (nat option \<times> u8 list \<times> net_ring) or_panic" where
  "net_ring_take buf r =
     (let head = nr_head r in
      if head = nr_tail r then Some (None, buf, r)
      else if head < length (nr_frames r)
      then let slot = nr_frames r ! head; len = unat (fs_len slot); copy_len = min len (length buf) in
        if copy_len \<le> length (fs_buf slot)
        then Some (Some len, take copy_len (fs_buf slot) @ drop copy_len buf,
                   r\<lparr>nr_head := (head + 1) mod NET_RX_RING_SIZE\<rparr>)
        else None
      else None)"

definition net_ring_is_empty :: "net_ring \<Rightarrow> bool" where
  "net_ring_is_empty r \<longleftrightarrow> nr_head r = nr_tail r"

text \<open>The use of \<open>take\<close> in \<open>drain_net_rx\<close>: one buffer of the maximal size, of which the first \<open>len\<close>
  bytes are handed on.\<close>

definition take_frame :: "u8 list \<times> net_ring \<Rightarrow> (u8 list option \<times> u8 list \<times> net_ring) or_panic" where
  "take_frame s = (case net_ring_take (fst s) (snd s) of
     None \<Rightarrow> None
   | Some (None, buf, r) \<Rightarrow> Some (None, buf, r)
   | Some (Some len, buf, r) \<Rightarrow>
       if len \<le> length buf then Some (Some (take len buf), buf, r) else None)"

section \<open>The switch\<close>

definition MAC_TABLE_SIZE :: nat where "MAC_TABLE_SIZE = 16"

record mac_entry =
  me_mac :: "u8 list"
  me_port_id :: nat
  me_valid :: bool

definition mac_entry_new :: mac_entry where
  "mac_entry_new = \<lparr>me_mac = replicate 6 0, me_port_id = 0, me_valid = False\<rparr>"

record vswitch =
  mac_table :: "mac_entry list"
  mac_count :: nat
  port_count :: nat

definition vswitch_new :: vswitch where
  "vswitch_new = \<lparr>mac_table = replicate MAC_TABLE_SIZE mac_entry_new, mac_count = 0, port_count = 0\<rparr>"

definition vswitch_reset :: "vswitch \<Rightarrow> vswitch" where
  "vswitch_reset v = v\<lparr>mac_table := map (\<lambda>e. e\<lparr>me_valid := False\<rparr>) (mac_table v), mac_count := 0, port_count := 0\<rparr>"

definition vswitch_add_port :: "nat \<Rightarrow> vswitch \<Rightarrow> vswitch" where
  "vswitch_add_port port_id v = v\<lparr>port_count := port_count v + 1\<rparr>"

definition vswitch_learn :: "u8 list \<Rightarrow> nat \<Rightarrow> vswitch \<Rightarrow> vswitch" where
  "vswitch_learn mac port_id v =
     (case first_idx (\<lambda>e. me_valid e \<and> me_mac e = mac) (mac_table v) of
        Some i \<Rightarrow> v\<lparr>mac_table := (mac_table v)[i := (mac_table v ! i)\<lparr>me_port_id := port_id\<rparr>]\<rparr>
      | None \<Rightarrow>
          if mac_count v < MAC_TABLE_SIZE then
            (case first_idx (\<lambda>e. \<not> me_valid e) (mac_table v) of
               Some i \<Rightarrow> v\<lparr>mac_table := (mac_table v)[i := \<lparr>me_mac = mac, me_port_id = port_id, me_valid = True\<rparr>],
                          mac_count := mac_count v + 1\<rparr>
             | None \<Rightarrow> v)
          else v)"

definition vswitch_lookup :: "u8 list \<Rightarrow> vswitch \<Rightarrow> nat option" where
  "vswitch_lookup mac v =
     map_option (\<lambda>i. me_port_id (mac_table v ! i)) (first_idx (\<lambda>e. me_valid e \<and> me_mac e = mac) (mac_table v))"

record net_state =
  switch :: vswitch
  port_rx :: "net_ring list"

definition net_state_new :: net_state where
  "net_state_new = \<lparr>switch = vswitch_new, port_rx = replicate MAX_PORTS net_ring_new\<rparr>"

text \<open>\<open>PORT_RX[port].store(frame)\<close>, the result ignored\<close>

definition port_store :: "nat \<Rightarrow> u8 list \<Rightarrow> net_state \<Rightarrow> net_state or_panic" where
  "port_store port frame st =
     (if port < length (port_rx st)
      then do { (_, r) \<leftarrow> net_ring_store frame (port_rx st ! port);
                Some (st\<lparr>port_rx := (port_rx st)[port := r]\<rparr>) }
      else None)"

definition vswitch_flood :: "nat \<Rightarrow> u8 list \<Rightarrow> net_state \<Rightarrow> net_state or_panic" where
  "vswitch_flood src_port frame st =
     foldM (\<lambda>port st. if port \<noteq> src_port then port_store port frame st else Some st) [0..<MAX_PORTS] st"

definition vswitch_forward :: "nat \<Rightarrow> u8 list \<Rightarrow> net_state \<Rightarrow> net_state or_panic" where
  "vswitch_forward src_port frame st =
     (if length frame < 14 then Some st
      else
        let dst_mac = take 6 frame; src_mac = take 6 (drop 6 frame);
            st = st\<lparr>switch := vswitch_learn src_mac src_port (switch st)\<rparr> in
        if dst_mac ! 0 AND 1 \<noteq> 0 then vswitch_flood src_port frame st
        else (case vswitch_lookup dst_mac (switch st) of
                Some dst_port \<Rightarrow> if dst_port \<noteq> src_port then port_store dst_port frame st else Some st
              | None \<Rightarrow> vswitch_flood src_port frame st))"

section \<open>The rings are bounded queues\<close>

definition frame_of :: "frame_slot \<Rightarrow> u8 list" where
  "frame_of s = take (unat (fs_len s)) (fs_buf s)"

definition slot_ok :: "frame_slot \<Rightarrow> bool" where
  "slot_ok s \<longleftrightarrow> length (fs_buf s) = MAX_FRAME_SIZE \<and> unat (fs_len s) \<le> MAX_FRAME_SIZE"

definition net_ring_ok :: "net_ring \<Rightarrow> bool" where
  "net_ring_ok r \<longleftrightarrow> ring_ok NET_RX_RING_SIZE (nr_frames r) (nr_head r) (nr_tail r) \<and> (\<forall>s\<in>set (nr_frames r). slot_ok s)"

definition net_ring_contents :: "net_ring \<Rightarrow> u8 list list" where
  "net_ring_contents r = map frame_of (ring_list NET_RX_RING_SIZE (nr_frames r) (nr_head r) (nr_tail r))"

definition frame_fits :: "u8 list \<Rightarrow> bool" where
  "frame_fits f \<longleftrightarrow> f \<noteq> [] \<and> length f \<le> MAX_FRAME_SIZE"

lemma slot_store_ok:
  assumes "slot_ok s" "frame_fits f"
  shows "slot_ok (slot_store f s)" "frame_of (slot_store f s) = f"
proof -
  have "unat (of_nat (length f) :: u16) = length f"
    using assms by (subst unat_of_nat) (simp add: frame_fits_def MAX_FRAME_SIZE_def)
  thus "slot_ok (slot_store f s)" "frame_of (slot_store f s) = f"
    using assms by (simp_all add: slot_ok_def slot_store_def frame_of_def frame_fits_def)
qed

lemma net_ring_new_ok: "net_ring_ok net_ring_new" "net_ring_contents net_ring_new = []"
  by (simp_all add: net_ring_ok_def net_ring_contents_def net_ring_new_def ring_ok_init NET_RX_RING_SIZE_def
      ring_empty slot_ok_def frame_slot_new_def)

lemma net_ring_store_law:
  assumes "net_ring_ok r"
  shows "\<exists>b r'. net_ring_store f r = Some (b, r') \<and> net_ring_ok r' \<and>
    b = (frame_fits f \<and> length (net_ring_contents r) < NET_RX_RING_SIZE - 1) \<and>
    net_ring_contents r' = (if b then net_ring_contents r @ [f] else net_ring_contents r)"
proof -
  let ?n = NET_RX_RING_SIZE and ?b = "nr_frames r" and ?h = "nr_head r" and ?t = "nr_tail r"
  have rok: "ring_ok ?n ?b ?h ?t" and slots: "\<forall>s\<in>set ?b. slot_ok s" using assms by (simp_all add: net_ring_ok_def)
  have t: "?t < length ?b" using rok by (simp add: ring_ok_def)
  show ?thesis
  proof (cases "frame_fits f \<and> (?t + 1) mod ?n \<noteq> ?h")
    case False
    thus ?thesis using assms ring_full [OF rok]
      by (auto simp: net_ring_store_def frame_fits_def net_ring_contents_def Let_def)
  next
    case True
    hence lt: "ring_len ?n ?h ?t < ?n - 1" using ring_full [OF rok] ring_len_le [OF rok] by linarith
    have so: "slot_ok (slot_store f (?b ! ?t))" "frame_of (slot_store f (?b ! ?t)) = f"
      using slot_store_ok slots t True by simp_all
    have "net_ring_store f r = Some (True, r\<lparr>nr_frames := ?b[?t := slot_store f (?b ! ?t)], nr_tail := (?t + 1) mod ?n\<rparr>)"
      using True t by (simp add: net_ring_store_def frame_fits_def Let_def)
    moreover have "\<forall>s\<in>set (?b[?t := slot_store f (?b ! ?t)]). slot_ok s"
      using so(1) slots by (auto dest!: set_update_subset)
    ultimately show ?thesis
      using True lt so ring_push [OF rok, of "slot_store f (?b ! ?t)"] ring_ok_push [OF rok, of "slot_store f (?b ! ?t)"]
      by (intro exI conjI) (auto simp: net_ring_ok_def net_ring_contents_def)
  qed
qed

interpretation net_fifo: bounded_fifo "\<lambda>s. length (fst s) = MAX_FRAME_SIZE \<and> net_ring_ok (snd s)"
  "\<lambda>s. net_ring_contents (snd s)" frame_fits "NET_RX_RING_SIZE - 1"
  "\<lambda>f s. map_option (\<lambda>br. (fst s, snd br)) (net_ring_store f (snd s))" take_frame
proof unfold_locales
  fix s :: "u8 list \<times> net_ring" and x xs
  assume ok: "length (fst s) = MAX_FRAME_SIZE \<and> net_ring_ok (snd s)"
  hence rok: "ring_ok NET_RX_RING_SIZE (nr_frames (snd s)) (nr_head (snd s)) (nr_tail (snd s))"
    by (simp add: net_ring_ok_def)
  show "length (net_ring_contents (snd s)) \<le> NET_RX_RING_SIZE - 1"
    using ring_len_le [OF rok] by (simp add: net_ring_contents_def)
  show "\<exists>s'. map_option (\<lambda>br. (fst s, snd br)) (net_ring_store x (snd s)) = Some s' \<and>
      (length (fst s') = MAX_FRAME_SIZE \<and> net_ring_ok (snd s')) \<and>
      net_ring_contents (snd s') =
      (if frame_fits x \<and> length (net_ring_contents (snd s)) < NET_RX_RING_SIZE - 1
       then net_ring_contents (snd s) @ [x] else net_ring_contents (snd s))"
    using net_ring_store_law [of "snd s" x] ok by auto
  show "net_ring_contents (snd s) = [] \<Longrightarrow> take_frame s = Some (None, s)"
    using ring_empty [OF rok] by (simp add: take_frame_def net_ring_take_def net_ring_contents_def)
  assume "net_ring_contents (snd s) = x # xs"
  then obtain y ys where y: "ring_list NET_RX_RING_SIZE (nr_frames (snd s)) (nr_head (snd s)) (nr_tail (snd s)) = y # ys"
    "x = frame_of y" "xs = map frame_of ys"
    by (auto simp: net_ring_contents_def)
  note shape = ring_list_shape [OF rok y(1)]
  have h: "nr_head (snd s) < length (nr_frames (snd s))" using rok by (simp add: ring_ok_def)
  hence "slot_ok y" using ok shape(2) by (simp add: net_ring_ok_def)
  thus "\<exists>s'. take_frame s = Some (Some x, s') \<and> (length (fst s') = MAX_FRAME_SIZE \<and> net_ring_ok (snd s')) \<and>
      net_ring_contents (snd s') = xs"
    using shape ok h ring_ok_pop [OF rok]
    by (simp add: take_frame_def net_ring_take_def Let_def y frame_of_def slot_ok_def net_ring_contents_def net_ring_ok_def)
qed

section \<open>The switch as a learning table\<close>

definition valid_slots :: "vswitch \<Rightarrow> nat set" where
  "valid_slots v = {i. i < MAC_TABLE_SIZE \<and> me_valid (mac_table v ! i)}"

definition vswitch_ok :: "vswitch \<Rightarrow> bool" where
  "vswitch_ok v \<longleftrightarrow> length (mac_table v) = MAC_TABLE_SIZE \<and> mac_count v = card (valid_slots v) \<and>
     (\<forall>i\<in>valid_slots v. me_port_id (mac_table v ! i) < MAX_PORTS \<and>
        (\<forall>j\<in>valid_slots v. i \<noteq> j \<longrightarrow> me_mac (mac_table v ! i) \<noteq> me_mac (mac_table v ! j)))"

abbreviation table :: "vswitch \<Rightarrow> u8 list \<rightharpoonup> nat" where
  "table v mac \<equiv> vswitch_lookup mac v"

lemma finite_valid_slots [simp]: "finite (valid_slots v)"
  by (simp add: valid_slots_def)

lemma slot_unique:
  assumes "vswitch_ok v" "i \<in> valid_slots v" "j \<in> valid_slots v" "me_mac (mac_table v ! i) = me_mac (mac_table v ! j)"
  shows "i = j"
  using assms unfolding vswitch_ok_def by metis

lemma vswitch_new_ok: "vswitch_ok vswitch_new" "table vswitch_new = (\<lambda>_. None)"
  by (auto simp: vswitch_ok_def vswitch_new_def valid_slots_def mac_entry_new_def vswitch_lookup_def fun_eq_iff
      scan_simps)

lemma lookup_Some:
  assumes "vswitch_ok v"
  shows "table v m = Some p \<longleftrightarrow>
    (\<exists>i\<in>valid_slots v. me_mac (mac_table v ! i) = m \<and> me_port_id (mac_table v ! i) = p)"
proof
  assume "table v m = Some p"
  then obtain i where "first_idx (\<lambda>e. me_valid e \<and> me_mac e = m) (mac_table v) = Some i"
    "p = me_port_id (mac_table v ! i)"
    by (auto simp: vswitch_lookup_def)
  thus "\<exists>i\<in>valid_slots v. me_mac (mac_table v ! i) = m \<and> me_port_id (mac_table v ! i) = p"
    using first_idx_SomeD(1,2) assms by (fastforce simp: valid_slots_def vswitch_ok_def)
next
  assume "\<exists>i\<in>valid_slots v. me_mac (mac_table v ! i) = m \<and> me_port_id (mac_table v ! i) = p"
  then obtain i where i: "i \<in> valid_slots v" "me_mac (mac_table v ! i) = m" "me_port_id (mac_table v ! i) = p" by blast
  have "first_idx (\<lambda>e. me_valid e \<and> me_mac e = m) (mac_table v) = Some i"
  proof (rule first_idx_unique)
    fix j assume "j < length (mac_table v)" "me_valid (mac_table v ! j) \<and> me_mac (mac_table v ! j) = m"
    hence "j \<in> valid_slots v" "me_mac (mac_table v ! j) = m" using assms by (simp_all add: valid_slots_def vswitch_ok_def)
    thus "j = i" using slot_unique [OF assms, of j i] i by simp
  qed (use i assms in \<open>simp_all add: valid_slots_def vswitch_ok_def\<close>)
  thus "table v m = Some p" by (simp add: vswitch_lookup_def i)
qed

lemma table_port: "vswitch_ok v \<Longrightarrow> table v m = Some p \<Longrightarrow> p < MAX_PORTS"
  by (auto simp: lookup_Some vswitch_ok_def)

lemma dom_table: "vswitch_ok v \<Longrightarrow> dom (table v) = (\<lambda>i. me_mac (mac_table v ! i)) ` valid_slots v"
  unfolding dom_def by (auto simp: lookup_Some)

lemma mac_count_card: "vswitch_ok v \<Longrightarrow> mac_count v = card (dom (table v))"
proof -
  assume ok: "vswitch_ok v"
  hence "inj_on (\<lambda>i. me_mac (mac_table v ! i)) (valid_slots v)"
    by (intro inj_onI) (rule slot_unique)
  thus ?thesis using ok dom_table [OF ok] by (simp add: card_image vswitch_ok_def)
qed

lemma free_slot:
  assumes "vswitch_ok v" "mac_count v < MAC_TABLE_SIZE"
  obtains i where "first_idx (\<lambda>e. \<not> me_valid e) (mac_table v) = Some i" "i < MAC_TABLE_SIZE" "i \<notin> valid_slots v"
proof (cases "first_idx (\<lambda>e. \<not> me_valid e) (mac_table v)")
  case None
  hence "\<forall>e\<in>set (mac_table v). me_valid e" by (simp add: scan_simps)
  hence "valid_slots v = {..<MAC_TABLE_SIZE}" using assms(1) by (auto simp: valid_slots_def vswitch_ok_def)
  thus ?thesis using assms by (simp add: vswitch_ok_def)
next
  case (Some i)
  thus ?thesis using that first_idx_SomeD [OF Some] assms(1) by (simp add: valid_slots_def vswitch_ok_def)
qed

lemma table_eqI:
  assumes "vswitch_ok v"
    and "\<And>m p. (\<exists>i\<in>valid_slots v. me_mac (mac_table v ! i) = m \<and> me_port_id (mac_table v ! i) = p) \<longleftrightarrow> f m = Some p"
  shows "table v = f"
proof
  fix m
  have "table v m = Some p \<longleftrightarrow> f m = Some p" for p using assms lookup_Some by metis
  thus "table v m = f m" by (cases "f m") (auto simp: not_None_eq [symmetric])
qed

lemma learn_update:
  assumes "vswitch_ok v" "p < MAX_PORTS" "i \<in> valid_slots v" "me_mac (mac_table v ! i) = mac"
  shows "vswitch_ok (v\<lparr>mac_table := (mac_table v)[i := (mac_table v ! i)\<lparr>me_port_id := p\<rparr>]\<rparr>) \<and>
    table (v\<lparr>mac_table := (mac_table v)[i := (mac_table v ! i)\<lparr>me_port_id := p\<rparr>]\<rparr>) = (table v)(mac \<mapsto> p)"
    (is "vswitch_ok ?v \<and> _")
proof -
  have len: "length (mac_table v) = MAC_TABLE_SIZE" using assms(1) by (simp add: vswitch_ok_def)
  have at: "(mac_table v)[i := (mac_table v ! i)\<lparr>me_port_id := p\<rparr>] ! j = (if j = i then (mac_table v ! i)\<lparr>me_port_id := p\<rparr> else mac_table v ! j)"
    if "j < MAC_TABLE_SIZE" for j using that len by (simp add: nth_update_cases)
  have lt: "j \<in> valid_slots w \<Longrightarrow> j < MAC_TABLE_SIZE" for j w by (simp add: valid_slots_def)
  have vs: "valid_slots ?v = valid_slots v"
    using assms(3) by (auto simp: valid_slots_def at split: if_splits)
  have ok: "vswitch_ok ?v"
    using assms(1,2) len unfolding vswitch_ok_def vs by (auto simp: at lt)
  have uniq: "me_mac (mac_table v ! j) \<noteq> mac" if "j \<in> valid_slots v" "j \<noteq> i" for j
    using slot_unique [OF assms(1) that(1) assms(3)] that(2) assms(4) by auto
  have "table ?v = (table v)(mac \<mapsto> p)"
  proof (rule table_eqI [OF ok])
    fix m q
    have "(\<exists>j\<in>valid_slots v. me_mac (mac_table ?v ! j) = m \<and> me_port_id (mac_table ?v ! j) = q) \<longleftrightarrow>
       m = mac \<and> q = p \<or> m \<noteq> mac \<and> (\<exists>j\<in>valid_slots v. me_mac (mac_table v ! j) = m \<and> me_port_id (mac_table v ! j) = q)"
      using assms(3,4) uniq by (auto simp: at lt) metis
    thus "(\<exists>j\<in>valid_slots ?v. me_mac (mac_table ?v ! j) = m \<and> me_port_id (mac_table ?v ! j) = q) \<longleftrightarrow>
       ((table v)(mac \<mapsto> p)) m = Some q"
      unfolding vs using lookup_Some [OF assms(1), of m q] by auto
  qed
  thus ?thesis using ok by blast
qed

lemma learn_insert:
  assumes "vswitch_ok v" "p < MAX_PORTS" "i < MAC_TABLE_SIZE" "i \<notin> valid_slots v" "table v mac = None"
  shows "vswitch_ok (v\<lparr>mac_table := (mac_table v)[i := \<lparr>me_mac = mac, me_port_id = p, me_valid = True\<rparr>],
       mac_count := mac_count v + 1\<rparr>) \<and>
    table (v\<lparr>mac_table := (mac_table v)[i := \<lparr>me_mac = mac, me_port_id = p, me_valid = True\<rparr>],
       mac_count := mac_count v + 1\<rparr>) = (table v)(mac \<mapsto> p)"
    (is "vswitch_ok ?v \<and> _")
proof -
  have len: "length (mac_table v) = MAC_TABLE_SIZE" using assms(1) by (simp add: vswitch_ok_def)
  have at: "(mac_table v)[i := \<lparr>me_mac = mac, me_port_id = p, me_valid = True\<rparr>] ! j = (if j = i then \<lparr>me_mac = mac, me_port_id = p, me_valid = True\<rparr> else mac_table v ! j)"
    if "j < MAC_TABLE_SIZE" for j using that len by (simp add: nth_update_cases)
  have lt: "j \<in> valid_slots w \<Longrightarrow> j < MAC_TABLE_SIZE" for j w by (simp add: valid_slots_def)
  have vs: "valid_slots ?v = insert i (valid_slots v)"
    using assms(3) by (auto simp: valid_slots_def at split: if_splits)
  have new: "me_mac (mac_table v ! j) \<noteq> mac" if "j \<in> valid_slots v" for j
    using lookup_Some [OF assms(1), of mac "me_port_id (mac_table v ! j)"] assms(5) that by auto
  have ok: "vswitch_ok ?v"
    using assms(1-4) len new unfolding vswitch_ok_def vs by (auto simp: at lt)
  have "table ?v = (table v)(mac \<mapsto> p)"
  proof (rule table_eqI [OF ok])
    fix m q
    have "(\<exists>j\<in>valid_slots ?v. me_mac (mac_table ?v ! j) = m \<and> me_port_id (mac_table ?v ! j) = q) \<longleftrightarrow>
       m = mac \<and> q = p \<or> m \<noteq> mac \<and> (\<exists>j\<in>valid_slots v. me_mac (mac_table v ! j) = m \<and> me_port_id (mac_table v ! j) = q)"
      unfolding vs using assms(3,4) new by (auto simp: at lt)
    thus "(\<exists>j\<in>valid_slots ?v. me_mac (mac_table ?v ! j) = m \<and> me_port_id (mac_table ?v ! j) = q) \<longleftrightarrow>
       ((table v)(mac \<mapsto> p)) m = Some q"
      using lookup_Some [OF assms(1), of m q] by auto
  qed
  thus ?thesis using ok by blast
qed

text \<open>What the switch learns from a frame, on the table as a map.\<close>

definition learned :: "u8 list \<Rightarrow> nat \<Rightarrow> (u8 list \<rightharpoonup> nat) \<Rightarrow> (u8 list \<rightharpoonup> nat)" where
  "learned mac p tab = (if mac \<in> dom tab \<or> card (dom tab) < MAC_TABLE_SIZE then tab(mac \<mapsto> p) else tab)"

lemma learn_refines:
  assumes "vswitch_ok v" "p < MAX_PORTS"
  shows "vswitch_ok (vswitch_learn mac p v) \<and> table (vswitch_learn mac p v) = learned mac p (table v)"
proof (cases "first_idx (\<lambda>e. me_valid e \<and> me_mac e = mac) (mac_table v)")
  case (Some i)
  hence "i \<in> valid_slots v" "me_mac (mac_table v ! i) = mac"
    using first_idx_SomeD(1,2) [OF Some] assms(1) by (simp_all add: valid_slots_def vswitch_ok_def)
  moreover have "mac \<in> dom (table v)" using Some by (simp add: dom_def vswitch_lookup_def)
  ultimately show ?thesis using learn_update [OF assms] Some by (simp add: vswitch_learn_def learned_def)
next
  case None
  hence none: "table v mac = None" by (simp add: vswitch_lookup_def)
  show ?thesis
  proof (cases "mac_count v < MAC_TABLE_SIZE")
    case True
    obtain i where "first_idx (\<lambda>e. \<not> me_valid e) (mac_table v) = Some i" "i < MAC_TABLE_SIZE" "i \<notin> valid_slots v"
      using free_slot [OF assms(1) True] .
    thus ?thesis using learn_insert [OF assms _ _ none, of i] None True mac_count_card [OF assms(1)]
      by (simp add: vswitch_learn_def learned_def)
  next
    case False
    thus ?thesis using assms(1) None none mac_count_card [OF assms(1)]
      by (simp add: vswitch_learn_def learned_def dom_def)
  qed
qed

section \<open>Forwarding\<close>

definition net_ok :: "net_state \<Rightarrow> bool" where
  "net_ok st \<longleftrightarrow> vswitch_ok (switch st) \<and> length (port_rx st) = MAX_PORTS \<and> (\<forall>r\<in>set (port_rx st). net_ring_ok r)"

abbreviation waiting :: "net_state \<Rightarrow> nat \<Rightarrow> u8 list list" where
  "waiting st p \<equiv> net_ring_contents (port_rx st ! p)"

definition enqueue :: "u8 list \<Rightarrow> u8 list list \<Rightarrow> u8 list list" where
  "enqueue f q = (if frame_fits f \<and> length q < NET_RX_RING_SIZE - 1 then q @ [f] else q)"

definition destinations :: "nat \<Rightarrow> u8 list \<Rightarrow> (u8 list \<rightharpoonup> nat) \<Rightarrow> nat set" where
  "destinations src dst_mac tab =
     (if dst_mac ! 0 AND 1 \<noteq> 0 then {..<MAX_PORTS}
      else case tab dst_mac of Some p \<Rightarrow> {p} | None \<Rightarrow> {..<MAX_PORTS}) - {src}"

text \<open>\<open>st'\<close> is \<open>st\<close> with the frame queued at the ports of \<open>D\<close>.\<close>

definition delivered :: "u8 list \<Rightarrow> nat set \<Rightarrow> net_state \<Rightarrow> net_state \<Rightarrow> bool" where
  "delivered f D st st' \<longleftrightarrow> net_ok st' \<and> switch st' = switch st \<and>
     (\<forall>p<MAX_PORTS. waiting st' p = (if p \<in> D then enqueue f (waiting st p) else waiting st p))"

lemma net_state_new_ok: "net_ok net_state_new"
  by (simp add: net_ok_def net_state_new_def vswitch_new_ok net_ring_new_ok)

lemma port_store_delivers:
  assumes "net_ok st" "p < MAX_PORTS"
  shows "\<exists>st'. port_store p f st = Some st' \<and> delivered f {p} st st'"
proof -
  have len: "length (port_rx st) = MAX_PORTS" using assms(1) by (simp add: net_ok_def)
  hence "net_ring_ok (port_rx st ! p)" using assms by (simp add: net_ok_def)
  then obtain b r where r: "net_ring_store f (port_rx st ! p) = Some (b, r)" "net_ring_ok r"
    "net_ring_contents r = enqueue f (waiting st p)"
    using net_ring_store_law [of "port_rx st ! p" f] unfolding enqueue_def by metis
  hence "delivered f {p} st (st\<lparr>port_rx := (port_rx st)[p := r]\<rparr>)"
    using assms len by (auto simp: delivered_def net_ok_def nth_update_cases dest!: set_update_subset)
  thus ?thesis using r(1) assms(2) len by (simp add: port_store_def)
qed

lemma flood_delivers:
  assumes "net_ok st" "set ps \<subseteq> {..<MAX_PORTS}" "distinct ps"
  shows "\<exists>st'. foldM (\<lambda>port st. if port \<noteq> src then port_store port f st else Some st) ps st = Some st' \<and>
    delivered f (set ps - {src}) st st'"
  using assms
proof (induction ps arbitrary: st)
  case Nil
  thus ?case by (simp add: delivered_def)
next
  case (Cons p ps)
  show ?case
  proof (cases "p = src")
    case True
    thus ?thesis using Cons by simp
  next
    case False
    obtain st1 where st1: "port_store p f st = Some st1" "delivered f {p} st st1"
      using port_store_delivers [of st p f] Cons.prems by auto
    then obtain st2 where "foldM (\<lambda>port st. if port \<noteq> src then port_store port f st else Some st) ps st1 = Some st2"
      "delivered f (set ps - {src}) st1 st2"
      using Cons.IH [of st1] Cons.prems by (auto simp: delivered_def)
    moreover from this st1 have "delivered f (set (p # ps) - {src}) st st2"
      using False Cons.prems(3) by (auto simp: delivered_def)
    ultimately show ?thesis using False st1 by simp
  qed
qed

lemma forward_delivers:
  assumes "net_ok st" "src < MAX_PORTS" "14 \<le> length f"
  defines "st1 \<equiv> st\<lparr>switch := vswitch_learn (take 6 (drop 6 f)) src (switch st)\<rparr>"
  shows "\<exists>st'. vswitch_forward src f st = Some st' \<and> net_ok st1 \<and>
    table (switch st1) = learned (take 6 (drop 6 f)) src (table (switch st)) \<and>
    delivered f (destinations src (take 6 f) (table (switch st1))) st1 st'"
proof -
  have ok: "net_ok st1" and tab: "table (switch st1) = learned (take 6 (drop 6 f)) src (table (switch st))"
    using assms learn_refines [of "switch st" src] by (simp_all add: net_ok_def)
  have flood: "\<exists>st'. vswitch_flood src f st1 = Some st' \<and> delivered f ({..<MAX_PORTS} - {src}) st1 st'"
    using flood_delivers [OF ok, of "[0..<MAX_PORTS]" src f] by (simp add: vswitch_flood_def atLeast0LessThan)
  have self: "delivered f {} st1 st1" using ok by (simp add: delivered_def)
  have port: "\<exists>st'. port_store p f st1 = Some st' \<and> delivered f {p} st1 st'" if "table (switch st1) (take 6 f) = Some p" for p
  proof -
    have "vswitch_ok (switch st1)" using ok by (simp add: net_ok_def)
    from port_store_delivers [OF ok table_port [OF this that]] show ?thesis .
  qed
  have fwd: "vswitch_forward src f st = (if take 6 f ! 0 AND 1 \<noteq> 0 then vswitch_flood src f st1
     else case table (switch st1) (take 6 f) of
       Some p \<Rightarrow> if p \<noteq> src then port_store p f st1 else Some st1 | None \<Rightarrow> vswitch_flood src f st1)"
    using assms(3) unfolding vswitch_forward_def Let_def st1_def by simp
  have "\<exists>st'. vswitch_forward src f st = Some st' \<and>
      delivered f (destinations src (take 6 f) (table (switch st1))) st1 st'"
  proof (cases "take 6 f ! 0 AND 1 \<noteq> 0 \<or> table (switch st1) (take 6 f) = None")
    case True
    thus ?thesis using flood unfolding fwd destinations_def by auto
  next
    case False
    then obtain p where "table (switch st1) (take 6 f) = Some p" by blast
    thus ?thesis using False port self unfolding fwd destinations_def by (cases "p = src") simp_all
  qed
  thus ?thesis using ok tab by blast
qed

text \<open>A sequence of frames, each with the port it comes from.\<close>

definition forward_all :: "(nat \<times> u8 list) list \<Rightarrow> net_state \<Rightarrow> net_state or_panic" where
  "forward_all = foldM (\<lambda>(src, f). vswitch_forward src f)"

lemma forward_step:
  assumes "net_ok st" "src < MAX_PORTS"
  shows "\<exists>st'. vswitch_forward src f st = Some st' \<and> net_ok st' \<and>
    (\<forall>p<MAX_PORTS. waiting st' p = waiting st p \<or> p \<noteq> src \<and> waiting st' p = waiting st p @ [f])"
proof (cases "14 \<le> length f")
  case True
  then obtain st' where st': "vswitch_forward src f st = Some st'"
    "delivered f (destinations src (take 6 f) (learned (take 6 (drop 6 f)) src (table (switch st))))
       (st\<lparr>switch := vswitch_learn (take 6 (drop 6 f)) src (switch st)\<rparr>) st'"
    using forward_delivers [OF assms] by metis
  moreover have "src \<notin> destinations src d t" for d t by (simp add: destinations_def)
  ultimately show ?thesis by (auto simp: delivered_def enqueue_def)
next
  case False
  thus ?thesis using assms by (simp add: vswitch_forward_def)
qed

lemma forward_all_keeps:
  assumes "net_ok st" "\<forall>(src, f)\<in>set fs. src < MAX_PORTS"
  shows "\<exists>st'. forward_all fs st = Some st' \<and> net_ok st' \<and>
    (\<forall>p<MAX_PORTS. \<exists>new. waiting st' p = waiting st p @ new \<and> subseq new (map snd (filter (\<lambda>(src, _). src \<noteq> p) fs)))"
  using assms
proof (induction fs arbitrary: st)
  case Nil
  thus ?case by (simp add: forward_all_def)
next
  case (Cons x fs)
  obtain src f where x: "x = (src, f)" by fastforce
  obtain st1 where st1: "vswitch_forward src f st = Some st1" "net_ok st1"
    "\<forall>p<MAX_PORTS. waiting st1 p = waiting st p \<or> p \<noteq> src \<and> waiting st1 p = waiting st p @ [f]"
    using forward_step [of st src f] Cons.prems x by auto
  obtain st2 where st2: "forward_all fs st1 = Some st2" "net_ok st2"
    "\<And>p. p < MAX_PORTS \<Longrightarrow> \<exists>new. waiting st2 p = waiting st1 p @ new \<and> subseq new (map snd (filter (\<lambda>(src, _). src \<noteq> p) fs))"
    using Cons.IH [OF st1(2)] Cons.prems by auto
  have "\<exists>new. waiting st2 p = waiting st p @ new \<and> subseq new (map snd (filter (\<lambda>(src, _). src \<noteq> p) (x # fs)))"
    if p: "p < MAX_PORTS" for p
  proof -
    obtain new where new: "waiting st2 p = waiting st1 p @ new" "subseq new (map snd (filter (\<lambda>(src, _). src \<noteq> p) fs))"
      using st2(3) [OF p] by blast
    consider "waiting st1 p = waiting st p" | "p \<noteq> src" "waiting st1 p = waiting st p @ [f]"
      using st1(3) p by blast
    thus ?thesis
    proof cases
      case 1
      thus ?thesis using new x by (intro exI [of _ new]) auto
    next
      case 2
      thus ?thesis using new x by (intro exI [of _ "f # new"]) auto
    qed
  qed
  thus ?case using st1(1) st2(1,2) x by (simp add: forward_all_def)
qed

text \<open>C16: One forwarded frame, against the switch as a map from addresses to ports and queues of frames.
  Forwarding never panics; it learns the sender's address (unless the table is full of others), queues
  the frame at the port the destination was learned on, or at every port when the destination is a
  group address or unknown, never at the port it came from, and drops it only where a ring is full or
  the frame exceeds the maximal size.\<close>

theorem vswitch_forward_refines:
  assumes "net_ok st" "src < MAX_PORTS" "14 \<le> length f"
  shows "\<exists>st'. vswitch_forward src f st = Some st' \<and> net_ok st' \<and>
    table (switch st') = learned (take 6 (drop 6 f)) src (table (switch st)) \<and>
    (\<forall>p<MAX_PORTS. waiting st' p =
       (if p \<in> destinations src (take 6 f) (table (switch st')) then enqueue f (waiting st p) else waiting st p))"
proof -
  let ?st1 = "st\<lparr>switch := vswitch_learn (take 6 (drop 6 f)) src (switch st)\<rparr>"
  obtain st' where fwd: "vswitch_forward src f st = Some st'"
    and tab: "table (switch ?st1) = learned (take 6 (drop 6 f)) src (table (switch st))"
    and del: "delivered f (destinations src (take 6 f) (table (switch ?st1))) ?st1 st'"
    using forward_delivers [OF assms] by blast
  have sw: "switch st' = switch ?st1" and ok: "net_ok st'" using del by (simp_all add: delivered_def)
  have "\<forall>p<MAX_PORTS. waiting st' p =
       (if p \<in> destinations src (take 6 f) (table (switch st')) then enqueue f (waiting st p) else waiting st p)"
    using del unfolding delivered_def sw by simp
  moreover have "table (switch st') = learned (take 6 (drop 6 f)) src (table (switch st))"
    using tab unfolding sw .
  ultimately show ?thesis using fwd ok by (intro exI [of _ st'] conjI)
qed

text \<open>Whatever frames the ports send, in whatever order, the switch never panics, and the frames
  waiting at a port are, in order, some of those the other ports sent: no frame comes back to its
  sender, is duplicated, altered or overtakes another.\<close>

lemma vswitch_run_safe:
  assumes "\<forall>(src, f)\<in>set fs. src < MAX_PORTS"
  shows "\<exists>st. forward_all fs net_state_new = Some st \<and>
    (\<forall>p<MAX_PORTS. subseq (waiting st p) (map snd (filter (\<lambda>(src, _). src \<noteq> p) fs)))"
proof -
  have "waiting net_state_new p = []" if "p < MAX_PORTS" for p
    using that by (simp add: net_state_new_def net_ring_new_ok)
  moreover obtain st where "forward_all fs net_state_new = Some st"
    "\<forall>p<MAX_PORTS. \<exists>new. waiting st p = waiting net_state_new p @ new \<and>
       subseq new (map snd (filter (\<lambda>(src, _). src \<noteq> p) fs))"
    using forward_all_keeps [OF net_state_new_ok assms] by blast
  ultimately show ?thesis by auto
qed

text \<open>A broadcast of port 0.\<close>

definition mac_a :: "u8 list" where "mac_a = [0x52, 0x54, 0, 0, 0, 0]"
definition hello :: "u8 list" where "hello = replicate 6 0xFF @ mac_a @ [8, 6]"

theorem vswitch_forward_refines_witness:
  "\<exists>st'. vswitch_forward 0 hello net_state_new = Some st' \<and> table (switch st') mac_a = Some 0 \<and>
     waiting st' 0 = [] \<and> waiting st' 1 = [hello]"
proof -
  have l: "length hello = 14" by (simp add: hello_def mac_a_def)
  have src: "take 6 (drop 6 hello) = mac_a" by (simp add: hello_def mac_a_def)
  have fits: "frame_fits hello" using l by (auto simp: frame_fits_def MAX_FRAME_SIZE_def)
  have "take 6 hello ! 0 = 0xFF" by (simp add: hello_def replicate_unroll)
  hence dest: "destinations 0 (take 6 hello) t = {..<MAX_PORTS} - {0}" for t by (simp add: destinations_def)
  have new: "p < MAX_PORTS \<Longrightarrow> waiting net_state_new p = []" for p
    by (simp add: net_state_new_def net_ring_new_ok)
  have "learned mac_a 0 (table (switch net_state_new)) mac_a = Some 0"
    by (simp add: learned_def net_state_new_def vswitch_new_ok MAC_TABLE_SIZE_def)
  moreover obtain st' where "vswitch_forward 0 hello net_state_new = Some st'"
    "table (switch st') = learned mac_a 0 (table (switch net_state_new))"
    "\<forall>p<MAX_PORTS. waiting st' p = (if p \<in> {..<MAX_PORTS} - {0} then enqueue hello [] else [])"
    using vswitch_forward_refines [OF net_state_new_ok, of 0 hello] new
    by (auto simp: l src dest MAX_PORTS_def)
  ultimately show ?thesis using fits
    by (auto simp: fun_eq_iff enqueue_def MAX_PORTS_def NET_RX_RING_SIZE_def)
qed

end
