(* ===== verification/Virtio_Net.thy ===== *)
theory Virtio_Net
  imports Virtqueue Vswitch
begin

text \<open>The network backend (\<open>devices/virtio/net.rs\<close>): the transmit queue is served chain by chain, each
  frame going to the switch without its virtio header.\<close>

definition VIRTIO_NET_F_MAC :: u64 where "VIRTIO_NET_F_MAC = push_bit 5 1"
definition VIRTIO_NET_F_STATUS :: u64 where "VIRTIO_NET_F_STATUS = push_bit 16 1"
definition VIRTIO_F_VERSION_1 :: u64 where "VIRTIO_F_VERSION_1 = push_bit 32 1"
definition VIRTIO_NET_S_LINK_UP :: u16 where "VIRTIO_NET_S_LINK_UP = 1"
definition VIRTIO_NET_HDR_SIZE :: nat where "VIRTIO_NET_HDR_SIZE = 12"

record virtio_net =
  vn_mac :: "u8 list"
  vn_port_id :: nat
  vn_status :: u16

definition mac_for_vm :: "nat \<Rightarrow> u8 list" where
  "mac_for_vm vm_id = [0x52, 0x54, 0, 0, 0, of_nat (vm_id + 1)]"

definition virtio_net_new :: "nat \<Rightarrow> virtio_net" where
  "virtio_net_new vm_id = \<lparr>vn_mac = mac_for_vm vm_id, vn_port_id = vm_id, vn_status = VIRTIO_NET_S_LINK_UP\<rparr>"

text \<open>The loop over the descriptors of a chain: \<open>total_len\<close> counts all bytes, \<open>frame\<close> is
  \<open>frame_buf[..frame_len]\<close>.  A piece that does not fit in the buffer is left out.\<close>

fun tx_gather :: "gmem \<Rightarrow> virtq_desc list \<Rightarrow> nat \<Rightarrow> u8 list \<Rightarrow> u8 list" where
  "tx_gather m [] total_len frame = frame"
| "tx_gather m (d # ds) total_len frame =
     (let buf_len = unat (d_len d);
          frame' =
            (if total_len < VIRTIO_NET_HDR_SIZE then
               let skip = min (VIRTIO_NET_HDR_SIZE - total_len) buf_len; data_len = buf_len - skip in
               if data_len > 0 \<and> length frame + data_len \<le> MAX_FRAME_SIZE
               then frame @ get_bytes m (d_addr d + of_nat skip) data_len else frame
             else if length frame + buf_len \<le> MAX_FRAME_SIZE
             then frame @ get_bytes m (d_addr d) buf_len else frame) in
      tx_gather m ds (total_len + buf_len) frame')"

definition tx_frame :: "gmem \<Rightarrow> desc_chain \<Rightarrow> u8 list" where
  "tx_frame m c = tx_gather m (ch_descs c) 0 []"

text \<open>The body of the loop of \<open>process_tx\<close>.\<close>

definition tx_chain :: "virtio_net \<Rightarrow> virtqueue \<Rightarrow> desc_chain \<Rightarrow> gmem \<times> net_state \<Rightarrow> (gmem \<times> net_state) or_panic" where
  "tx_chain dev q c ms =
     (let frame = tx_frame (fst ms) c in do {
        st \<leftarrow> (if length frame \<ge> 14 then vswitch_forward (vn_port_id dev) frame (snd ms) else Some (snd ms));
        m \<leftarrow> put_used q (ch_head c) 0 (fst ms);
        Some (m, st) })"

definition process_tx :: "virtio_net \<Rightarrow> virtqueue \<Rightarrow> gmem \<times> net_state \<Rightarrow> (virtqueue \<times> gmem \<times> net_state) option" where
  "process_tx dev = avail_loop (tx_chain dev)"

definition net_device_id :: u32 where "net_device_id = 1"

definition net_device_features :: u64 where
  "net_device_features = VIRTIO_F_VERSION_1 OR VIRTIO_NET_F_MAC OR VIRTIO_NET_F_STATUS"

definition net_config_read :: "virtio_net \<Rightarrow> u64 \<Rightarrow> u8 \<Rightarrow> u64" where
  "net_config_read dev off sz =
     (let b = (\<lambda>i. ucast (vn_mac dev ! i) :: u64) in
      if off \<le> 5 \<and> sz = 1 then b (unat off)
      else if off = 6 \<and> sz = 2 then ucast (vn_status dev)
      else if off = 0 \<and> sz = 4 then b 0 OR push_bit 8 (b 1) OR push_bit 16 (b 2) OR push_bit 24 (b 3)
      else if off = 4 \<and> sz = 4 then b 4 OR push_bit 8 (b 5) OR push_bit 16 (ucast (vn_status dev))
      else 0)"

definition net_queue_notify ::
  "virtio_net \<Rightarrow> u16 \<Rightarrow> virtqueue \<Rightarrow> gmem \<times> net_state \<Rightarrow> (virtqueue \<times> gmem \<times> net_state) option" where
  "net_queue_notify dev queue_idx q ms = (if queue_idx = 1 then process_tx dev q ms else Some (q, ms))"

definition net_num_queues :: u16 where "net_num_queues = 2"
definition net_max_queue_size :: u16 where "net_max_queue_size = 256"

section \<open>Serving the transmit queue\<close>

text \<open>What the guest's driver has to respect: the used ring overlaps neither the table nor the available
  ring.\<close>

definition rings_apart :: "virtqueue \<Rightarrow> bool" where
  "rings_apart q \<longleftrightarrow> queue_live q \<and> unat (used_addr q) + 4 < 2 ^ 64 \<and> used_area q \<inter> read_area q = {}"

definition tx_ok :: "virtio_net \<Rightarrow> virtqueue \<Rightarrow> gmem \<times> net_state \<Rightarrow> bool" where
  "tx_ok dev q ms \<longleftrightarrow> rings_apart q \<and> vn_port_id dev < MAX_PORTS \<and> net_ok (snd ms)"

lemma rings_apart_last [simp]: "rings_apart (q\<lparr>last_avail_idx := i\<rparr>) = rings_apart q"
  by (simp add: rings_apart_def)

lemma forward_short: "length f < 14 \<Longrightarrow> vswitch_forward p f st = Some st"
  by (simp add: vswitch_forward_def)

lemma tx_chain_eq:
  "tx_chain dev q c ms = do {
     st \<leftarrow> vswitch_forward (vn_port_id dev) (tx_frame (fst ms) c) (snd ms);
     m \<leftarrow> put_used q (ch_head c) 0 (fst ms);
     Some (m, st) }"
  by (simp add: tx_chain_def Let_def forward_short)

lemma tx_chain_serves:
  assumes "queue_live q" "unat (used_addr q) + 4 < 2 ^ 64" "vn_port_id dev < MAX_PORTS" "net_ok (snd ms)"
  shows "\<exists>m' st'. tx_chain dev q c ms = Some (m', st') \<and> net_ok st' \<and>
    vswitch_forward (vn_port_id dev) (tx_frame (fst ms) c) (snd ms) = Some st' \<and>
    put_used q (ch_head c) 0 (fst ms) = Some m' \<and> (\<forall>a. a \<notin> used_area q \<longrightarrow> m' a = fst ms a)"
proof -
  obtain st' where "vswitch_forward (vn_port_id dev) (tx_frame (fst ms) c) (snd ms) = Some st'" "net_ok st'"
    using forward_step [OF assms(4,3)] by blast
  moreover obtain m' where "put_used q (ch_head c) 0 (fst ms) = Some m'" "\<forall>a. a \<notin> used_area q \<longrightarrow> m' a = fst ms a"
    using put_used_frame [of q] assms(1,2) unfolding queue_live_def by blast
  ultimately show ?thesis by (simp add: tx_chain_eq)
qed

interpretation tx: queue_backend "tx_chain dev" "tx_ok dev" for dev
proof unfold_locales
  fix q ms i c
  show "tx_chain dev (q\<lparr>last_avail_idx := i\<rparr>) c ms = tx_chain dev q c ms" by (simp add: tx_chain_def)
  assume ok: "tx_ok dev q ms"
  thus "queue_live q" "tx_ok dev (q\<lparr>last_avail_idx := i\<rparr>) ms" by (simp_all add: tx_ok_def rings_apart_def)
  obtain m' st' where "tx_chain dev q (chain_at (fst ms) q i) ms = Some (m', st')" "net_ok st'"
    "\<forall>a. a \<notin> used_area q \<longrightarrow> m' a = fst ms a"
    using tx_chain_serves [of q dev ms] ok unfolding tx_ok_def rings_apart_def by blast
  moreover have "a \<notin> used_area q" if "a \<in> read_area q" for a using ok that unfolding tx_ok_def rings_apart_def by blast
  ultimately show "\<exists>ms'. tx_chain dev q (chain_at (fst ms) q i) ms = Some ms' \<and> tx_ok dev q ms' \<and>
      (\<forall>a\<in>read_area q. fst ms' a = fst ms a)"
    using ok by (auto simp: tx_ok_def)
qed

section \<open>The frame of a chain\<close>

definition chain_bytes :: "gmem \<Rightarrow> virtq_desc list \<Rightarrow> u8 list" where
  "chain_bytes m ds = concat (map (\<lambda>d. get_bytes m (d_addr d) (unat (d_len d))) ds)"

lemma get_bytes_drop: "k \<le> n \<Longrightarrow> drop k (get_bytes m a n) = get_bytes m (a + of_nat k) (n - k)"
  by (rule nth_equalityI) (simp_all add: nth_get_bytes add.assoc)

lemma tx_gather_exact:
  "length frame = tot - VIRTIO_NET_HDR_SIZE \<Longrightarrow> tot + length (chain_bytes m ds) \<le> VIRTIO_NET_HDR_SIZE + MAX_FRAME_SIZE \<Longrightarrow>
   tx_gather m ds tot frame = frame @ drop (VIRTIO_NET_HDR_SIZE - tot) (chain_bytes m ds)"
proof (induction ds arbitrary: tot frame)
  case Nil
  thus ?case by (simp add: chain_bytes_def)
next
  case (Cons d ds)
  let ?n = "unat (d_len d)" and ?h = VIRTIO_NET_HDR_SIZE
  let ?f = "frame @ drop (?h - tot) (get_bytes m (d_addr d) ?n)"
  have len: "length ?f = tot + ?n - ?h" using Cons.prems(1) by simp
  have cb: "chain_bytes m (d # ds) = get_bytes m (d_addr d) ?n @ chain_bytes m ds" by (simp add: chain_bytes_def)
  have le: "tot + ?n \<le> ?h + MAX_FRAME_SIZE" using Cons.prems(2) by (simp add: cb)
  have "tx_gather m (d # ds) tot frame = tx_gather m ds (tot + ?n) ?f"
  proof (cases "tot < ?h")
    case True
    show ?thesis
    proof (cases "?h - tot < ?n")
      case lt: True
      hence "min (?h - tot) ?n = ?h - tot" by simp
      moreover have "drop (?h - tot) (get_bytes m (d_addr d) ?n) =
          get_bytes m (d_addr d + of_nat (?h - tot)) (?n - (?h - tot))"
        by (rule get_bytes_drop) (use lt in simp)
      moreover have "length frame + (?n - (?h - tot)) \<le> MAX_FRAME_SIZE" "?n - (?h - tot) > 0"
        using True lt le Cons.prems(1) by simp_all
      ultimately show ?thesis using True unfolding tx_gather.simps Let_def by presburger
    next
      case False
      thus ?thesis using True by (simp add: Let_def)
    qed
  next
    case False
    moreover from this have "length frame + ?n \<le> MAX_FRAME_SIZE" using le Cons.prems(1) by linarith
    ultimately show ?thesis by (simp add: Let_def)
  qed
  also have "\<dots> = ?f @ drop (?h - (tot + ?n)) (chain_bytes m ds)"
    using Cons.IH [OF len] Cons.prems(2) by (simp add: cb)
  finally show ?case by (simp add: cb)
qed

lemma tx_gather_fits: "length frame \<le> MAX_FRAME_SIZE \<Longrightarrow> length (tx_gather m ds tot frame) \<le> MAX_FRAME_SIZE"
  by (induction ds arbitrary: tot frame) (simp_all add: Let_def)

definition apart :: "u64 set \<Rightarrow> desc_chain \<Rightarrow> bool" where
  "apart U c \<longleftrightarrow> (\<forall>d\<in>set (ch_descs c). area (d_addr d) (unat (d_len d)) \<inter> U = {})"

lemma chain_bytes_same:
  assumes "\<And>a. a \<notin> U \<Longrightarrow> m' a = m a" "apart U c"
  shows "chain_bytes m' (ch_descs c) = chain_bytes m (ch_descs c)"
proof -
  have "get_bytes m' (d_addr d) (unat (d_len d)) = get_bytes m (d_addr d) (unat (d_len d))"
    if "d \<in> set (ch_descs c)" for d
  proof -
    have "unat (d_len d) < 2 ^ 62" using unat_u32 [of "d_len d"] by simp
    moreover have "m' x = m x" if "x \<in> area (d_addr d) (unat (d_len d))" for x
      using assms \<open>d \<in> set (ch_descs c)\<close> that unfolding apart_def by blast
    ultimately show ?thesis using get_bytes_same [of "d_addr d" "unat (d_len d)" m' m 0] by simp
  qed
  thus ?thesis unfolding chain_bytes_def by (metis (no_types, lifting) map_cong)
qed

lemma tx_frame_exact:
  "length (chain_bytes m (ch_descs c)) \<le> VIRTIO_NET_HDR_SIZE + MAX_FRAME_SIZE \<Longrightarrow>
   tx_frame m c = drop VIRTIO_NET_HDR_SIZE (chain_bytes m (ch_descs c))"
  unfolding tx_frame_def by (subst tx_gather_exact) simp_all

lemma tx_fold:
  assumes "foldM (tx_chain dev q) cs (m1, st) = Some (m', st')" "\<And>a. a \<notin> used_area q \<Longrightarrow> m1 a = m a"
    and "\<forall>c\<in>set cs. apart (used_area q) c \<and> length (chain_bytes m (ch_descs c)) \<le> VIRTIO_NET_HDR_SIZE + MAX_FRAME_SIZE"
  shows "(\<forall>a. a \<notin> used_area q \<longrightarrow> m' a = m a) \<and>
    forward_all (map (\<lambda>c. (vn_port_id dev, drop VIRTIO_NET_HDR_SIZE (chain_bytes m (ch_descs c)))) cs) st = Some st'"
  using assms
proof (induction cs arbitrary: m1 st)
  case Nil
  thus ?case by (simp add: forward_all_def)
next
  case (Cons c cs)
  have f: "tx_frame m1 c = drop VIRTIO_NET_HDR_SIZE (chain_bytes m (ch_descs c))"
    using tx_frame_exact [of m1 c] chain_bytes_same [of "used_area q" m1 m c] Cons.prems by simp
  obtain ms2 where ms2: "tx_chain dev q c (m1, st) = Some ms2" "foldM (tx_chain dev q) cs ms2 = Some (m', st')"
    using Cons.prems(1) by (simp split: option.splits)
  then obtain m2 st2 where st2: "ms2 = (m2, st2)" "put_used q (ch_head c) 0 m1 = Some m2"
    "vswitch_forward (vn_port_id dev) (drop VIRTIO_NET_HDR_SIZE (chain_bytes m (ch_descs c))) st = Some st2"
    unfolding tx_chain_eq by (auto simp: f bind_eq_Some_conv)
  have "m2 a = m a" if "a \<notin> used_area q" for a
    using put_used_Some [OF st2(2) that] Cons.prems(2) [OF that] by simp
  from Cons.IH [OF ms2(2) [unfolded st2(1)] this] Cons.prems(3) st2(3)
  show ?case by (simp add: forward_all_def)
qed

text \<open>C9: Serving the transmit queue ends, if the used ring overlaps nothing the device reads: the device has
  then taken every chain that was available, written nothing but the used ring, and handed to the
  switch, in order, for each chain the bytes of its buffers without the 12-byte header.\<close>

theorem process_tx_serves:
  assumes "rings_apart q" "vn_port_id dev < MAX_PORTS" "net_ok st"
    and "\<forall>c\<in>set (pending m q). apart (used_area q) c \<and>
      length (chain_bytes m (ch_descs c)) \<le> VIRTIO_NET_HDR_SIZE + MAX_FRAME_SIZE"
  shows "\<exists>m' st'. process_tx dev q (m, st) = Some (q\<lparr>last_avail_idx := avail_idx m q\<rparr>, m', st') \<and>
    (\<forall>a. a \<notin> used_area q \<longrightarrow> m' a = m a) \<and> net_ok st' \<and>
    forward_all (map (\<lambda>c. (vn_port_id dev, drop VIRTIO_NET_HDR_SIZE (chain_bytes m (ch_descs c)))) (pending m q)) st
      = Some st'"
proof -
  have "tx_ok dev q (m, st)" using assms by (simp add: tx_ok_def)
  from tx.serves_all [OF this] obtain m' st' where
    run: "process_tx dev q (m, st) = Some (q\<lparr>last_avail_idx := avail_idx m q\<rparr>, m', st')"
    and fold: "foldM (tx_chain dev q) (pending m q) (m, st) = Some (m', st')" and ok: "tx_ok dev q (m', st')"
    by (auto simp: process_tx_def)
  from tx_fold [OF fold _ assms(4)] run ok show ?thesis by (auto simp: tx_ok_def)
qed

text \<open>One chain of one buffer, a header and a frame of 14 zero bytes; the switch floods it to port 1.\<close>

definition tx_memory :: gmem where
  "tx_memory = (\<lambda>_. 0)(0x1001 := 0x40, 0x1008 := 26, 0x2002 := 1)"

lemma tx_memory_idx: "avail_idx tx_memory small_queue = 1"
  by (simp add: avail_idx_def small_queue_def tx_memory_def eval_memory)

lemma tx_memory_pending:
  "pending tx_memory small_queue =
     [\<lparr>ch_head = 0, ch_descs = [\<lparr>d_addr = 0x4000, d_len = 26, d_flags = 0, d_next = 0\<rparr>]\<rparr>]"
proof -
  have "pending tx_memory small_queue = [chain_at tx_memory small_queue 0]"
    unfolding pending_def tx_memory_idx by (simp add: small_queue_def)
  thus ?thesis by (simp add: small_queue_def tx_memory_def chain_at_def eval_memory VIRTQ_DESC_F_NEXT_def Let_def)
qed

theorem process_tx_serves_witness:
  "\<exists>m' st'. process_tx (virtio_net_new 0) small_queue (tx_memory, net_state_new) =
       Some (small_queue\<lparr>last_avail_idx := 1\<rparr>, m', st') \<and>
     forward_all [(0, replicate 14 0)] net_state_new = Some st'"
proof -

  have U: "used_area small_queue = area 0x3000 36" by (simp add: used_area_def small_queue_def)
  have R: "read_area small_queue = area 0x1000 64 \<union> area 0x2000 12" by (simp add: read_area_def small_queue_def)
  have "used_area small_queue \<inter> read_area small_queue = {}"
    by (simp add: U R Int_Un_distrib area_disjoint)
  hence apart: "rings_apart small_queue"
    by (simp add: rings_apart_def queue_live_def small_queue_def)
  have bytes: "chain_bytes tx_memory [\<lparr>d_addr = 0x4000, d_len = 26, d_flags = 0, d_next = 0\<rparr>] = replicate 26 0"
    by (simp add: chain_bytes_def tx_memory_def get_bytes_numeral get_bytes_Suc replicate_unroll)
  have "area 0x4000 26 \<inter> used_area small_queue = {}" unfolding U by (rule area_disjoint) simp_all
  thus ?thesis
    using process_tx_serves [OF apart, of "virtio_net_new 0" net_state_new tx_memory] tx_memory_idx bytes
    by (simp add: tx_memory_pending apart_def virtio_net_new_def MAX_PORTS_def net_state_new_ok VIRTIO_NET_HDR_SIZE_def
        MAX_FRAME_SIZE_def) blast
qed

section \<open>Two flaws\<close>

text \<open>A chain that carries more than a maximal frame is not dropped: a piece that does not fit is left
  out and the next one is joined to what came before it.  Here the third of four buffers (header, 1510,
  100 and 4 bytes) is lost and the rest goes out as one frame.\<close>

lemma tx_oversize_spliced:
  assumes "unat (d_len h) = 12" "unat (d_len a) = 1510" "unat (d_len b) = 100" "unat (d_len c) = 4"
  shows "tx_frame m \<lparr>ch_head = i, ch_descs = [h, a, b, c]\<rparr> =
    get_bytes m (d_addr a) 1510 @ get_bytes m (d_addr c) 4"
  using assms by (simp add: tx_frame_def Let_def VIRTIO_NET_HDR_SIZE_def MAX_FRAME_SIZE_def)

text \<open>C40: A guest that places the used ring on top of the available ring makes the loop of \<open>process_tx\<close> run
  for ever: each chain it returns moves the available index on by one, so there is always another chain
  to take.\<close>

theorem tx_livelock:
  assumes "queue_live q" "used_addr q = avail_addr q" "vn_port_id dev < MAX_PORTS" "net_ok st"
    and "avail_idx m q \<noteq> last_avail_idx q"
  shows "\<exists>q' m' st'. avail_iter (tx_chain dev) n q (m, st) = Some (q', m', st') \<and> has_avail m' q'"
  using assms
proof (induction n arbitrary: q m st)
  case 0
  thus ?case by (simp add: has_avail_def queue_live_def)
next
  case (Suc n)
  let ?c = "chain_at m q (last_avail_idx q)" and ?q = "q\<lparr>last_avail_idx := last_avail_idx q + 1\<rparr>"
  have u: "used_addr q \<noteq> 0" "unat (used_addr q) + 4 < 2 ^ 64" using Suc.prems by (auto simp: queue_live_def)
  obtain m' st' where body: "tx_chain dev q ?c (m, st) = Some (m', st')" "net_ok st'" "put_used q (ch_head ?c) 0 m = Some m'"
    using tx_chain_serves [OF Suc.prems(1) u(2) Suc.prems(3), of "(m, st)" ?c] Suc.prems(4) by auto
  have "avail_idx m' ?q = avail_idx m q + 1"
    using put_used_idx [OF u(1) body(3)] Suc.prems(2) by (simp add: avail_idx_def)
  hence "\<exists>q' m'' st''. avail_iter (tx_chain dev) n ?q (m', st') = Some (q', m'', st'') \<and> has_avail m'' q'"
    using Suc.IH [of ?q st' m'] Suc.prems body(2) by simp
  moreover have "tx_chain dev ?q ?c (m, st) = Some (m', st')" using tx.body_last body(1) by simp
  ultimately show ?case using get_avail_desc_live [OF Suc.prems(1), of m] Suc.prems(5) by simp
qed

definition overlapping :: virtqueue where
  "overlapping = small_queue\<lparr>used_addr := 0x2000\<rparr>"

theorem tx_livelock_witness:
  "\<exists>q' m' st'. avail_iter (tx_chain (virtio_net_new 0)) 1000000 overlapping ((\<lambda>_. 0)(0x2002 := 1), net_state_new) =
     Some (q', m', st') \<and> has_avail m' q'"
proof (rule tx_livelock)
  have "avail_idx ((\<lambda>_. 0)(0x2002 := 1)) overlapping = 1"
    by (simp add: avail_idx_def overlapping_def small_queue_def rd16_def get_bytes_def upt_rec)
  thus "avail_idx ((\<lambda>_. 0)(0x2002 := 1)) overlapping \<noteq> last_avail_idx overlapping"
    by (simp add: overlapping_def small_queue_def)
qed (simp_all add: overlapping_def small_queue_def queue_live_def virtio_net_new_def MAX_PORTS_def net_state_new_ok)

end
