(* ===== verification/Virtio_Blk.thy ===== *)
theory Virtio_Blk
  imports Virtqueue
begin

text \<open>The block backend (\<open>devices/virtio/blk.rs\<close>).  The disk image lies in the same physical memory as the
  guest's buffers.  The arithmetic on guest-supplied sectors and lengths is written with plain operators:
  the flag \<open>checked\<close> says whether the build has overflow checks (a panic) or not (wrap-around).\<close>

definition VIRTIO_BLK_T_IN :: u32 where "VIRTIO_BLK_T_IN = 0"
definition VIRTIO_BLK_T_OUT :: u32 where "VIRTIO_BLK_T_OUT = 1"
definition VIRTIO_BLK_T_GET_ID :: u32 where "VIRTIO_BLK_T_GET_ID = 8"
definition VIRTIO_BLK_S_OK :: u8 where "VIRTIO_BLK_S_OK = 0"
definition VIRTIO_BLK_S_IOERR :: u8 where "VIRTIO_BLK_S_IOERR = 1"
definition VIRTIO_BLK_S_UNSUPP :: u8 where "VIRTIO_BLK_S_UNSUPP = 2"
definition VIRTIO_BLK_F_SIZE_MAX :: u64 where "VIRTIO_BLK_F_SIZE_MAX = push_bit 1 1"
definition VIRTIO_BLK_F_SEG_MAX :: u64 where "VIRTIO_BLK_F_SEG_MAX = push_bit 2 1"
definition VIRTIO_BLK_F_BLK_SIZE :: u64 where "VIRTIO_BLK_F_BLK_SIZE = push_bit 6 1"
definition BLK_F_VERSION_1 :: u64 where "BLK_F_VERSION_1 = push_bit 32 1"

record virtio_blk =
  disk_base :: u64
  disk_size :: u64
  capacity :: u64

definition virtio_blk_new :: "u64 \<Rightarrow> u64 \<Rightarrow> virtio_blk" where
  "virtio_blk_new base sz = \<lparr>disk_base = base, disk_size = sz, capacity = sz div 512\<rparr>"

text \<open>\<open>a + b\<close> and \<open>a * b\<close> of the source\<close>

definition cadd :: "bool \<Rightarrow> 'a::len word \<Rightarrow> 'a word \<Rightarrow> 'a word or_panic" where
  "cadd checked a b = (if checked \<and> 2 ^ LENGTH('a) \<le> unat a + unat b then None else Some (a + b))"

definition cmul :: "bool \<Rightarrow> 'a::len word \<Rightarrow> 'a word \<Rightarrow> 'a word or_panic" where
  "cmul checked a b = (if checked \<and> 2 ^ LENGTH('a) \<le> unat a * unat b then None else Some (a * b))"

text \<open>\<open>VirtioBlkReqHeader\<close>: type at 0, sector at 8\<close>

definition hdr_type :: "gmem \<Rightarrow> u64 \<Rightarrow> u32" where "hdr_type m a = rd32 m a"
definition hdr_sector :: "gmem \<Rightarrow> u64 \<Rightarrow> u64" where "hdr_sector m a = rd64 m (a + 8)"

text \<open>The two loops over the data descriptors; the results are the memory, \<open>total_written\<close> and the
  status.\<close>

fun blk_read :: "bool \<Rightarrow> virtio_blk \<Rightarrow> virtq_desc list \<Rightarrow> gmem \<Rightarrow> u64 \<Rightarrow> u32 \<Rightarrow> (gmem \<times> u32 \<times> u8) or_panic" where
  "blk_read checked dev [] m disk_off written = Some (m, written, VIRTIO_BLK_S_OK)"
| "blk_read checked dev (d # ds) m disk_off written = do {
     let len = ucast (d_len d);
     fin \<leftarrow> cadd checked disk_off len;
     if fin > disk_size dev then Some (m, written, VIRTIO_BLK_S_IOERR)
     else do {
       src \<leftarrow> cadd checked (disk_base dev) disk_off;
       let m = copy_bytes m src (d_addr d) (unat (d_len d));
       written \<leftarrow> cadd checked written (d_len d);
       blk_read checked dev ds m fin written } }"

fun blk_write :: "bool \<Rightarrow> virtio_blk \<Rightarrow> virtq_desc list \<Rightarrow> gmem \<Rightarrow> u64 \<Rightarrow> (gmem \<times> u8) or_panic" where
  "blk_write checked dev [] m disk_off = Some (m, VIRTIO_BLK_S_OK)"
| "blk_write checked dev (d # ds) m disk_off = do {
     let len = ucast (d_len d);
     fin \<leftarrow> cadd checked disk_off len;
     if fin > disk_size dev then Some (m, VIRTIO_BLK_S_IOERR)
     else do {
       dst \<leftarrow> cadd checked (disk_base dev) disk_off;
       let m = copy_bytes m (d_addr d) dst (unat (d_len d));
       blk_write checked dev ds m fin } }"

definition blk_id :: "u8 list" where
  "blk_id = [104, 121, 112, 101, 114, 118, 105, 115, 111, 114, 45, 118, 100, 97, 0, 0, 0, 0, 0, 0]"

text \<open>\<open>match header.req_type\<close>\<close>

definition blk_execute :: "bool \<Rightarrow> virtio_blk \<Rightarrow> virtq_desc list \<Rightarrow> gmem \<Rightarrow> (gmem \<times> u32 \<times> u8) or_panic" where
  "blk_execute checked dev descs m =
     (let hdr = d_addr (descs ! 0); req_type = hdr_type m hdr; sector = hdr_sector m hdr;
          data = take (length descs - 2) (drop 1 descs) in
      if req_type = VIRTIO_BLK_T_IN then do {
        byte_offset \<leftarrow> cmul checked sector 512;
        blk_read checked dev data m byte_offset 0 }
      else if req_type = VIRTIO_BLK_T_OUT then do {
        byte_offset \<leftarrow> cmul checked sector 512;
        (m, status) \<leftarrow> blk_write checked dev data m byte_offset;
        Some (m, 0, status) }
      else if req_type = VIRTIO_BLK_T_GET_ID then
        (if length descs \<ge> 3 then
           let desc = descs ! 1; copy_len = min (unat (d_len desc)) 20 in
           Some (put_bytes m (d_addr desc) (take copy_len blk_id), of_nat copy_len, VIRTIO_BLK_S_OK)
         else Some (m, 0, VIRTIO_BLK_S_OK))
      else Some (m, 0, VIRTIO_BLK_S_UNSUPP))"

definition process_request :: "bool \<Rightarrow> virtio_blk \<Rightarrow> virtqueue \<Rightarrow> desc_chain \<Rightarrow> gmem \<Rightarrow> gmem or_panic" where
  "process_request checked dev q c m =
     (let descs = ch_descs c; count = length descs in
      if count < 2 then Some m
      else do {
        (m, written, status) \<leftarrow> blk_execute checked dev descs m;
        let m = m(d_addr (descs ! (count - 1)) := status);
        written \<leftarrow> cadd checked written 1;
        put_used q (ch_head c) written m })"

definition blk_device_id :: u32 where "blk_device_id = 2"

definition blk_device_features :: u64 where
  "blk_device_features = BLK_F_VERSION_1 OR VIRTIO_BLK_F_BLK_SIZE OR VIRTIO_BLK_F_SIZE_MAX OR VIRTIO_BLK_F_SEG_MAX"

definition blk_config_read :: "virtio_blk \<Rightarrow> u64 \<Rightarrow> u8 \<Rightarrow> u64" where
  "blk_config_read dev off sz =
     (if off = 0 \<and> sz = 4 then ucast (ucast (capacity dev) :: u32)
      else if off = 4 \<and> sz = 4 then ucast (ucast (drop_bit 32 (capacity dev)) :: u32)
      else if off = 0 \<and> sz = 8 then capacity dev
      else if off = 8 \<and> sz = 4 then 0x00200000
      else if off = 12 \<and> sz = 4 then 128
      else if off = 20 \<and> sz = 4 then 512
      else 0)"

definition blk_chain :: "bool \<Rightarrow> virtio_blk \<Rightarrow> virtqueue \<Rightarrow> desc_chain \<Rightarrow> gmem \<times> unit \<Rightarrow> (gmem \<times> unit) or_panic" where
  "blk_chain checked dev q c ms = map_option (\<lambda>m. (m, ())) (process_request checked dev q c (fst ms))"

definition blk_queue_notify :: "bool \<Rightarrow> virtio_blk \<Rightarrow> u16 \<Rightarrow> virtqueue \<Rightarrow> gmem \<Rightarrow> (virtqueue \<times> gmem) option" where
  "blk_queue_notify checked dev queue_idx q m =
     map_option (\<lambda>(q, m, _). (q, m)) (avail_loop (blk_chain checked dev) q (m, ()))"

definition blk_num_queues :: u16 where "blk_num_queues = 1"
definition blk_max_queue_size :: u16 where "blk_max_queue_size = 256"

section \<open>Where a request writes\<close>

abbreviation disk :: "virtio_blk \<Rightarrow> u64 set" where
  "disk dev \<equiv> area (disk_base dev) (unat (disk_size dev))"

lemma cadd_True: "cadd True a b = Some c \<longleftrightarrow> unat a + unat b < 2 ^ LENGTH('a) \<and> c = a + b" for a b :: "'a::len word"
  by (auto simp: cadd_def)

lemma cadd_unat: "cadd True a b = Some c \<Longrightarrow> unat c = unat a + unat b" for a b :: "'a::len word"
  using unat_add_lem [of a b] by (simp add: cadd_True)

lemma cmul_True: "cmul True a b = Some c \<longleftrightarrow> unat a * unat b < 2 ^ LENGTH('a) \<and> c = a * b" for a b :: "'a::len word"
  by (auto simp: cmul_def)

lemma cmul_unat: "cmul True a b = Some c \<Longrightarrow> unat c = unat a * unat b" for a b :: "'a::len word"
  using unat_mult_lem [of a b] by (simp add: cmul_True)

lemma unat_ucast_32 [simp]: "unat (ucast (n :: u32) :: u64) = unat n"
  using unat_u32 [of n] by (simp add: unsigned_ucast_eq take_bit_nat_eq_self)

lemma put_bytes_area:
  assumes "length bs < 2 ^ 62" "x \<notin> area a (length bs)"
  shows "put_bytes m a bs x = m x"
  using put_bytes_outside [of 0 bs "length bs" x a m] assms by simp

lemma copy_outside: "x \<notin> area dst (unat (n :: u32)) \<Longrightarrow> copy_bytes m src dst (unat n) x = m x"
  unfolding copy_bytes_def using unat_u32 [of n] by (intro put_bytes_area) simp_all

text \<open>The piece of the image that passes the check lies in the image.\<close>

lemma piece_in_disk:
  assumes "cadd True off (ucast (n :: u32)) = Some fin" "\<not> fin > disk_size dev" "cadd True (disk_base dev) off = Some a"
    and "unat (disk_base dev) + unat (disk_size dev) \<le> 2 ^ 64"
  shows "area a (unat n) \<subseteq> disk dev"
proof
  fix x assume x: "x \<in> area a (unat n)"
  have u: "unat a = unat (disk_base dev) + unat off" using cadd_unat [OF assms(3)] .
  have "unat fin = unat off + unat n" using cadd_unat [OF assms(1)] by simp
  hence le: "unat off + unat n \<le> unat (disk_size dev)" using assms(2) by (simp add: word_less_nat_alt)
  hence "unat a + unat n \<le> 2 ^ 64" using u assms(4) by simp
  hence "unat a \<le> unat x" "unat x < unat a + unat n" using x area_nowrap by blast+
  thus "x \<in> disk dev" using area_nowrap [OF assms(4)] u le by simp
qed

lemma blk_write_in_disk:
  assumes "blk_write True dev ds m off = Some (m', status)" "unat (disk_base dev) + unat (disk_size dev) \<le> 2 ^ 64"
    and "x \<notin> disk dev"
  shows "m' x = m x"
  using assms(1)
proof (induction ds arbitrary: m off)
  case (Cons d ds)
  obtain fin where fin: "cadd True off (ucast (d_len d)) = Some fin"
    using Cons.prems by (auto simp: bind_eq_Some_conv)
  show ?case
  proof (cases "fin > disk_size dev")
    case True
    thus ?thesis using Cons.prems fin by simp
  next
    case False
    obtain dst where dst: "cadd True (disk_base dev) off = Some dst"
      "blk_write True dev ds (copy_bytes m (d_addr d) dst (unat (d_len d))) fin = Some (m', status)"
      using Cons.prems fin False by (auto simp: bind_eq_Some_conv)
    have "x \<notin> area dst (unat (d_len d))" using piece_in_disk [OF fin False dst(1) assms(2)] assms(3) by blast
    thus ?thesis using Cons.IH [OF dst(2)] copy_outside by metis
  qed
qed simp

lemma blk_write_frame:
  assumes "process_request True dev q c m = Some m'" "hdr_type m (d_addr (ch_descs c ! 0)) = VIRTIO_BLK_T_OUT"
    and "unat (disk_base dev) + unat (disk_size dev) \<le> 2 ^ 64"
    and "x \<notin> disk dev" "x \<noteq> d_addr (last (ch_descs c))" "x \<notin> used_area q"
  shows "m' x = m x"
proof (cases "length (ch_descs c) < 2")
  case True
  thus ?thesis using assms(1) by (simp add: process_request_def Let_def)
next
  case False
  have last: "ch_descs c ! (length (ch_descs c) - 1) = last (ch_descs c)"
    using False by (intro last_conv_nth [symmetric]) auto
  obtain m1 w st w' where ex: "blk_execute True dev (ch_descs c) m = Some (m1, w, st)"
    and put: "put_used q (ch_head c) w' (m1(d_addr (last (ch_descs c)) := st)) = Some m'"
    using assms(1) False unfolding process_request_def Let_def last by (auto simp: bind_eq_Some_conv)
  obtain off where "blk_write True dev (take (length (ch_descs c) - 2) (drop 1 (ch_descs c))) m off = Some (m1, st)"
    using ex assms(2) by (auto simp: blk_execute_def Let_def bind_eq_Some_conv VIRTIO_BLK_T_IN_def VIRTIO_BLK_T_OUT_def)
  hence "m1 x = m x" by (rule blk_write_in_disk [OF _ assms(3,4)])
  thus ?thesis using put_used_Some [OF put assms(6)] assms(5) by simp
qed

section \<open>Written data is read back\<close>

definition in_image :: "virtio_blk \<Rightarrow> u64 \<Rightarrow> u32 \<Rightarrow> bool" where
  "in_image dev sector n \<longleftrightarrow> unat sector * 512 + unat n \<le> unat (disk_size dev) \<and>
     unat (disk_base dev) + unat (disk_size dev) < 2 ^ 64 \<and> unat n + 1 < 2 ^ 32"

abbreviation sector_addr :: "virtio_blk \<Rightarrow> u64 \<Rightarrow> u64" where
  "sector_addr dev sector \<equiv> disk_base dev + sector * 512"

lemma in_imageD:
  assumes "in_image dev sector n"
  shows "cmul checked sector 512 = Some (sector * 512)"
    and "cadd checked (sector * 512) (ucast n) = Some (sector * 512 + ucast n)"
    and "\<not> disk_size dev < sector * 512 + ucast n"
    and "cadd checked (disk_base dev) (sector * 512) = Some (sector_addr dev sector)"
    and "area (sector_addr dev sector) (unat n) \<subseteq> disk dev"
proof -
  have s: "unat (disk_size dev) < 2 ^ 64" using unsigned_less [of "disk_size dev"] by simp
  have lt: "unat sector * unat (512 :: u64) < 2 ^ 64" using assms s by (simp add: in_image_def)
  hence u: "unat (sector * 512) = unat sector * 512" using unat_mult_exact [OF lt] by simp
  show cm: "cmul checked sector 512 = Some (sector * 512)" using lt by (simp add: cmul_def)
  have le: "unat (sector * 512) + unat n \<le> unat (disk_size dev)" using assms u by (simp add: in_image_def)
  hence "unat (sector * 512) + unat (ucast n :: u64) < 2 ^ 64" using s by simp
  moreover from unat_add_exact [OF this] have "unat (sector * 512 + ucast n) \<le> unat (disk_size dev)" using le by simp
  ultimately show "cadd checked (sector * 512) (ucast n) = Some (sector * 512 + ucast n)"
    "\<not> disk_size dev < sector * 512 + ucast n"
    by (simp_all add: cadd_def word_less_nat_alt)
  show "cadd checked (disk_base dev) (sector * 512) = Some (sector_addr dev sector)"
    using assms le by (simp add: cadd_def in_image_def)
  show "area (sector_addr dev sector) (unat n) \<subseteq> disk dev"
  proof (rule piece_in_disk)
    show "cadd True (sector * 512) (ucast n) = Some (sector * 512 + ucast n)"
      using \<open>unat (sector * 512) + unat (ucast n :: u64) < 2 ^ 64\<close> by (simp add: cadd_def)
    show "\<not> disk_size dev < sector * 512 + ucast n" by fact
    show "cadd True (disk_base dev) (sector * 512) = Some (sector_addr dev sector)"
      using assms le by (simp add: cadd_def in_image_def)
    show "unat (disk_base dev) + unat (disk_size dev) \<le> 2 ^ 64" using assms by (simp add: in_image_def)
  qed
qed

lemma get_bytes_agree:
  assumes "\<And>x. x \<in> area a (unat (n :: u32)) \<Longrightarrow> m' x = m x"
  shows "get_bytes m' a (unat n) = get_bytes m a (unat n)"
  using get_bytes_same [of a "unat n" m' m 0 "unat n"] assms unat_u32 [of n] by simp

lemma copy_bytes_dst: "get_bytes (copy_bytes m src dst (unat (n :: u32))) dst (unat n) = get_bytes m src (unat n)"
  unfolding copy_bytes_def using unat_u32 [of n] by (intro get_put_same) simp_all

text \<open>The end of a request, on bytes that are neither the status byte nor in the used ring.\<close>

lemma finish_keeps:
  assumes "put_used q head w (m(s := st)) = Some m'" "s \<notin> area a (unat (n :: u32))" "area a (unat n) \<inter> used_area q = {}"
  shows "get_bytes m' a (unat n) = get_bytes m a (unat n)"
proof (rule get_bytes_agree)
  fix x assume "x \<in> area a (unat n)"
  thus "m' x = m x" using put_used_Some [OF assms(1)] assms(2,3) by (metis disjoint_iff fun_upd_other)
qed

lemma blk_out_one:
  assumes "hdr_type m (d_addr h) = VIRTIO_BLK_T_OUT" "in_image dev (hdr_sector m (d_addr h)) (d_len d)"
    and "process_request checked dev q \<lparr>ch_head = i, ch_descs = [h, d, s]\<rparr> m = Some m'"
    and "d_addr s \<notin> disk dev" "disk dev \<inter> used_area q = {}"
  shows "get_bytes m' (sector_addr dev (hdr_sector m (d_addr h))) (unat (d_len d)) = get_bytes m (d_addr d) (unat (d_len d))"
proof -
  let ?a = "sector_addr dev (hdr_sector m (d_addr h))"
  let ?m = "copy_bytes m (d_addr d) ?a (unat (d_len d))"
  note r = in_imageD [OF assms(2)]
  have "blk_execute checked dev [h, d, s] m = Some (?m, 0, VIRTIO_BLK_S_OK)"
    using assms(1) r(1,2,4) [of checked] r(3) by (simp add: blk_execute_def Let_def VIRTIO_BLK_T_IN_def VIRTIO_BLK_T_OUT_def)
  then obtain w where "put_used q i w (?m(d_addr s := VIRTIO_BLK_S_OK)) = Some m'"
    using assms(3) by (auto simp: process_request_def Let_def bind_eq_Some_conv)
  moreover have "d_addr s \<notin> area ?a (unat (d_len d))" "area ?a (unat (d_len d)) \<inter> used_area q = {}"
    using r(5) assms(4,5) by blast+
  ultimately have "get_bytes m' ?a (unat (d_len d)) = get_bytes ?m ?a (unat (d_len d))" by (rule finish_keeps)
  thus ?thesis by (simp add: copy_bytes_dst)
qed

lemma blk_in_one:
  assumes "hdr_type m (d_addr h) = VIRTIO_BLK_T_IN" "in_image dev (hdr_sector m (d_addr h)) (d_len d)"
    and "process_request checked dev q \<lparr>ch_head = i, ch_descs = [h, d, s]\<rparr> m = Some m'"
    and "d_addr s \<notin> area (d_addr d) (unat (d_len d))" "area (d_addr d) (unat (d_len d)) \<inter> used_area q = {}"
  shows "get_bytes m' (d_addr d) (unat (d_len d)) = get_bytes m (sector_addr dev (hdr_sector m (d_addr h))) (unat (d_len d))"
proof -
  let ?m = "copy_bytes m (sector_addr dev (hdr_sector m (d_addr h))) (d_addr d) (unat (d_len d))"
  note r = in_imageD [OF assms(2)]
  have "cadd checked 0 (d_len d) = Some (d_len d)" using unat_u32 [of "d_len d"] by (simp add: cadd_def)
  hence "blk_execute checked dev [h, d, s] m = Some (?m, d_len d, VIRTIO_BLK_S_OK)"
    using assms(1) r(1,2,4) [of checked] r(3) by (simp add: blk_execute_def Let_def)
  then obtain w where "put_used q i w (?m(d_addr s := VIRTIO_BLK_S_OK)) = Some m'"
    using assms(3) by (auto simp: process_request_def Let_def bind_eq_Some_conv)
  from finish_keeps [OF this assms(4,5)] show ?thesis by (simp add: copy_bytes_dst)
qed

lemma blk_one_returns:
  assumes "hdr_type m (d_addr h) \<in> {VIRTIO_BLK_T_IN, VIRTIO_BLK_T_OUT}" "in_image dev (hdr_sector m (d_addr h)) (d_len d)"
    and "num q \<noteq> 0" "unat (used_addr q) + 4 < 2 ^ 64"
  shows "\<exists>m'. process_request checked dev q \<lparr>ch_head = i, ch_descs = [h, d, s]\<rparr> m = Some m'"
proof -
  note r = in_imageD [OF assms(2)]
  have 0: "cadd checked 0 (d_len d) = Some (d_len d)" using unat_u32 [of "d_len d"] by (simp add: cadd_def)
  have "\<exists>m1 w. blk_execute checked dev [h, d, s] m = Some (m1, w, VIRTIO_BLK_S_OK) \<and> unat w + 1 < 2 ^ 32"
    using assms(1,2) r(1,2,4) [of checked] r(3) 0
    by (auto simp: blk_execute_def Let_def in_image_def VIRTIO_BLK_T_OUT_def VIRTIO_BLK_T_IN_def)
  then obtain m1 w where w: "blk_execute checked dev [h, d, s] m = Some (m1, w, VIRTIO_BLK_S_OK)" "unat w + 1 < 2 ^ 32"
    by blast
  have "cadd checked w 1 = Some (w + 1)" using w(2) by (simp add: cadd_def)
  moreover obtain m' where "put_used q i (w + 1) (m1(d_addr s := VIRTIO_BLK_S_OK)) = Some m'"
    using put_used_frame [OF assms(3,4)] by blast
  ultimately show ?thesis using w(1) by (simp add: process_request_def Let_def)
qed

section \<open>The disk\<close>

text \<open>C10: A write request changes no byte outside the disk image, except the status byte of its chain and
  the used ring, whatever sector and lengths the guest supplies, when overflows are checked.\<close>

theorem blk_write_confined:
  assumes "process_request True dev q c m = Some m'" "hdr_type m (d_addr (ch_descs c ! 0)) = VIRTIO_BLK_T_OUT"
    and "unat (disk_base dev) + unat (disk_size dev) \<le> 2 ^ 64"
    and "x \<notin> disk dev" "x \<noteq> d_addr (last (ch_descs c))" "x \<notin> used_area q"
  shows "m' x = m x"
  by (rule blk_write_frame [OF assms])

text \<open>Without overflow checks the same code lets a guest write below the image: the last 512 bytes of
  the 64-bit range pass the check, because \<open>disk_off + len\<close> wraps to 0, and \<open>disk_base + disk_off\<close>
  wraps to the 512 bytes before \<open>disk_base\<close>.\<close>

lemma blk_write_wraps:
  assumes "hdr_type m (d_addr h) = VIRTIO_BLK_T_OUT" "hdr_sector m (d_addr h) = 2 ^ 55 - 1" "d_len d = 512"
  shows "blk_execute False dev [h, d, s] m = Some (copy_bytes m (d_addr d) (disk_base dev - 512) 512, 0, VIRTIO_BLK_S_OK)"
proof -
  have "(36028797018963967 * 512 :: u64) = - 512" by simp
  hence "cmul False 36028797018963967 512 = Some (- 512 :: u64)" by (simp only: cmul_def) simp
  moreover have "- 512 + ucast (512 :: u32) = (0 :: u64)" by simp
  hence "cadd False (- 512) (ucast (512 :: u32) :: u64) = Some 0" by (simp only: cadd_def) simp
  moreover have "cadd False (disk_base dev) (- 512) = Some (disk_base dev - 512)" by (simp add: cadd_def)
  ultimately show ?thesis using assms
    by (simp add: blk_execute_def Let_def VIRTIO_BLK_T_IN_def VIRTIO_BLK_T_OUT_def)
qed

text \<open>C31: What a guest writes to a range of sectors it reads back: after a write request from one buffer,
  a read request of the same sectors and length into another buffer returns, and that buffer then
  holds the bytes the first one held.  The image, the buffers, the status bytes and the used ring must
  not overlap where one would overwrite the data.\<close>

theorem blk_roundtrip:
  assumes "num q \<noteq> 0" "unat (used_addr q) + 4 < 2 ^ 64" "disk dev \<inter> used_area q = {}"
    and "hdr_type m (d_addr h1) = VIRTIO_BLK_T_OUT" "in_image dev (hdr_sector m (d_addr h1)) (d_len d1)" "d_addr s1 \<notin> disk dev"
    and "d_len d2 = d_len d1" "d_addr s2 \<notin> area (d_addr d2) (unat (d_len d2))"
    and "area (d_addr d2) (unat (d_len d2)) \<inter> used_area q = {}"
  shows "\<exists>m1. process_request checked dev q \<lparr>ch_head = i, ch_descs = [h1, d1, s1]\<rparr> m = Some m1 \<and>
    (hdr_type m1 (d_addr h2) = VIRTIO_BLK_T_IN \<and> hdr_sector m1 (d_addr h2) = hdr_sector m (d_addr h1) \<longrightarrow>
      (\<exists>m2. process_request checked dev q \<lparr>ch_head = j, ch_descs = [h2, d2, s2]\<rparr> m1 = Some m2 \<and>
         get_bytes m2 (d_addr d2) (unat (d_len d2)) = get_bytes m (d_addr d1) (unat (d_len d1))))"
proof -
  obtain m1 where m1: "process_request checked dev q \<lparr>ch_head = i, ch_descs = [h1, d1, s1]\<rparr> m = Some m1"
    using blk_one_returns [of m h1 dev d1 q] assms(1,2,4,5) by blast
  note out = blk_out_one [OF assms(4,5) m1 assms(6,3)]
  have "\<exists>m2. process_request checked dev q \<lparr>ch_head = j, ch_descs = [h2, d2, s2]\<rparr> m1 = Some m2 \<and>
         get_bytes m2 (d_addr d2) (unat (d_len d2)) = get_bytes m (d_addr d1) (unat (d_len d1))"
    if hd: "hdr_type m1 (d_addr h2) = VIRTIO_BLK_T_IN" "hdr_sector m1 (d_addr h2) = hdr_sector m (d_addr h1)"
  proof -
    have img: "in_image dev (hdr_sector m1 (d_addr h2)) (d_len d2)" using assms(5,7) hd(2) by simp
    then obtain m2 where m2: "process_request checked dev q \<lparr>ch_head = j, ch_descs = [h2, d2, s2]\<rparr> m1 = Some m2"
      using blk_one_returns [of m1 h2 dev d2 q] assms(1,2) hd(1) by blast
    from blk_in_one [OF hd(1) img m2 assms(8,9)] out m2 show ?thesis by (simp add: hd(2) assms(7))
  qed
  thus ?thesis using m1 by blast
qed

text \<open>A disk of 8 sectors at \<open>0x10000\<close>; the request header at \<open>0x4000\<close> asks to write sector 0, the one
  at \<open>0x4800\<close> to read it.\<close>

definition small_disk :: virtio_blk where
  "small_disk = virtio_blk_new 0x10000 0x1000"

definition blk_memory :: gmem where
  "blk_memory = (\<lambda>_. 0)(0x4000 := 1, 0x5000 := 0xAB)"

definition desc_of :: "u64 \<Rightarrow> u32 \<Rightarrow> virtq_desc" where
  "desc_of a n = \<lparr>d_addr = a, d_len = n, d_flags = 0, d_next = 0\<rparr>"

definition write_chain :: desc_chain where
  "write_chain = \<lparr>ch_head = 0, ch_descs = [desc_of 0x4000 16, desc_of 0x5000 512, desc_of 0x6000 1]\<rparr>"

lemma small_disk_area: "disk small_disk = area 0x10000 0x1000"
  by (simp add: small_disk_def virtio_blk_new_def)

lemma small_used: "used_area small_queue = area 0x3000 36"
  by (simp add: used_area_def small_queue_def)

lemma blk_memory_hdr: "hdr_type blk_memory 0x4000 = VIRTIO_BLK_T_OUT" "hdr_sector blk_memory 0x4000 = 0"
  by (simp_all add: hdr_type_def hdr_sector_def blk_memory_def eval_memory VIRTIO_BLK_T_OUT_def)

lemma small_in_image: "in_image small_disk 0 512"
  by (simp add: in_image_def small_disk_def virtio_blk_new_def)

lemma write_chain_runs: "\<exists>m'. process_request True small_disk small_queue write_chain blk_memory = Some m'"
  unfolding write_chain_def
  by (rule blk_one_returns) (simp_all add: desc_of_def blk_memory_hdr small_in_image, simp_all add: small_queue_def)

theorem blk_write_confined_witness:
  "\<exists>m'. process_request True small_disk small_queue write_chain blk_memory = Some m' \<and> m' 0x20000 = 0"
proof -
  obtain m' where m': "process_request True small_disk small_queue write_chain blk_memory = Some m'"
    using write_chain_runs by blast
  have "m' 0x20000 = blk_memory 0x20000"
    by (rule blk_write_confined [OF m'])
      (simp_all add: write_chain_def desc_of_def blk_memory_hdr small_disk_area small_used area_def,
        simp_all add: small_disk_def virtio_blk_new_def)
  thus ?thesis using m' by (simp add: blk_memory_def)
qed

theorem blk_roundtrip_witness:
  "\<exists>m1 m2. process_request True small_disk small_queue write_chain blk_memory = Some m1 \<and>
     process_request True small_disk small_queue
       \<lparr>ch_head = 1, ch_descs = [desc_of 0x4800 16, desc_of 0x7000 512, desc_of 0x6001 1]\<rparr> m1 = Some m2 \<and>
     get_bytes m2 0x7000 512 = get_bytes blk_memory 0x5000 512"
proof -
  let ?d = desc_of and ?q = small_queue
  have apart: "disk small_disk \<inter> used_area ?q = {}" unfolding small_disk_area small_used by (rule area_disjoint) simp_all
  have "area 0x7000 512 \<inter> used_area ?q = {}" unfolding small_used by (rule area_disjoint) simp_all
  hence buf: "area (d_addr (?d 0x7000 512)) (unat (d_len (?d 0x7000 512))) \<inter> used_area ?q = {}" by (simp add: desc_of_def)
  have s1: "d_addr (?d 0x6000 1) \<notin> disk small_disk" unfolding small_disk_area by (simp add: desc_of_def area_def)
  have s2: "d_addr (?d 0x6001 1) \<notin> area (d_addr (?d 0x7000 512)) (unat (d_len (?d 0x7000 512)))"
    by (simp add: desc_of_def area_def)
  have len: "d_len (?d 0x7000 512) = d_len (?d 0x5000 512)" by (simp add: desc_of_def)
  have q: "num ?q \<noteq> 0" "unat (used_addr ?q) + 4 < 2 ^ 64" by (simp_all add: small_queue_def)
  have hd1: "hdr_type blk_memory (d_addr (?d 0x4000 16)) = VIRTIO_BLK_T_OUT"
    "in_image small_disk (hdr_sector blk_memory (d_addr (?d 0x4000 16))) (d_len (?d 0x5000 512))"
    by (simp_all add: desc_of_def blk_memory_hdr small_in_image)
  from blk_roundtrip [OF q apart hd1 s1 len s2 buf, of True 0 "?d 0x4800 16" 1]
  obtain m1 where m1: "process_request True small_disk ?q write_chain blk_memory = Some m1"
    and rd: "hdr_type m1 0x4800 = VIRTIO_BLK_T_IN \<Longrightarrow> hdr_sector m1 0x4800 = 0 \<Longrightarrow>
      \<exists>m2. process_request True small_disk ?q
        \<lparr>ch_head = 1, ch_descs = [?d 0x4800 16, ?d 0x7000 512, ?d 0x6001 1]\<rparr> m1 = Some m2 \<and>
      get_bytes m2 0x7000 512 = get_bytes blk_memory 0x5000 512"
    by (auto simp: desc_of_def blk_memory_hdr write_chain_def)
  have z: "m1 x = 0" if "x \<in> {0x4800, 0x4801, 0x4802, 0x4803, 0x4808, 0x4809, 0x480A, 0x480B, 0x480C, 0x480D, 0x480E, 0x480F}" for x
  proof -
    have "m1 x = blk_memory x"
      by (rule blk_write_frame [OF m1])
        (use that in \<open>auto simp: write_chain_def desc_of_def blk_memory_hdr small_used area_def small_disk_def virtio_blk_new_def\<close>)
    thus ?thesis using that by (auto simp: blk_memory_def)
  qed
  have "hdr_type m1 0x4800 = VIRTIO_BLK_T_IN" "hdr_sector m1 0x4800 = 0"
    by (simp_all add: hdr_type_def hdr_sector_def eval_memory z VIRTIO_BLK_T_IN_def)
  thus ?thesis using rd m1 by blast
qed

end
