(* ===== verification/Virtio_Mmio.thy ===== *)
theory Virtio_Mmio
  imports Virtio_Net Virtio_Blk
begin

text \<open>The virtio-mmio transport (\<open>devices/virtio/mmio.rs\<close>) over a device backend.  The trait
  \<open>VirtioDevice\<close> is a record of the backend's operations; the backend acts on a world \<open>'w\<close> that contains the guest
  memory.  An interrupt the transport raises is returned as its INTID; injecting it is the business of the global
  state.\<close>

record ('d, 'w) virtio_device =
  device_id :: u32
  device_features :: u64
  config_read :: "'d \<Rightarrow> u64 \<Rightarrow> u8 \<Rightarrow> u64"
  queue_notify :: "'d \<Rightarrow> u16 \<Rightarrow> virtqueue \<Rightarrow> 'w \<Rightarrow> (virtqueue \<times> 'w) option"
  num_queues :: u16
  max_queue_size :: u16

text \<open>The two implementations of the trait.  Both leave the device itself unchanged and ignore writes to
  the configuration space.\<close>

definition net_ops :: "(virtio_net, gmem \<times> net_state) virtio_device" where
  "net_ops = \<lparr>device_id = net_device_id, device_features = net_device_features, config_read = net_config_read,
     queue_notify = net_queue_notify, num_queues = net_num_queues, max_queue_size = net_max_queue_size\<rparr>"

definition blk_ops :: "bool \<Rightarrow> (virtio_blk, gmem) virtio_device" where
  "blk_ops checked = \<lparr>device_id = blk_device_id, device_features = blk_device_features, config_read = blk_config_read,
     queue_notify = blk_queue_notify checked, num_queues = blk_num_queues, max_queue_size = blk_max_queue_size\<rparr>"

definition MAX_QUEUES :: nat where "MAX_QUEUES = 2"
definition MAGIC_VALUE :: u64 where "MAGIC_VALUE = 0x000"
definition VERSION :: u64 where "VERSION = 0x004"
definition DEVICE_ID :: u64 where "DEVICE_ID = 0x008"
definition VENDOR_ID :: u64 where "VENDOR_ID = 0x00C"
definition DEVICE_FEATURES :: u64 where "DEVICE_FEATURES = 0x010"
definition DEVICE_FEATURES_SEL :: u64 where "DEVICE_FEATURES_SEL = 0x014"
definition DRIVER_FEATURES :: u64 where "DRIVER_FEATURES = 0x020"
definition DRIVER_FEATURES_SEL :: u64 where "DRIVER_FEATURES_SEL = 0x024"
definition QUEUE_SEL :: u64 where "QUEUE_SEL = 0x030"
definition QUEUE_NUM_MAX :: u64 where "QUEUE_NUM_MAX = 0x034"
definition QUEUE_NUM :: u64 where "QUEUE_NUM = 0x038"
definition QUEUE_READY :: u64 where "QUEUE_READY = 0x044"
definition QUEUE_NOTIFY :: u64 where "QUEUE_NOTIFY = 0x050"
definition INTERRUPT_STATUS :: u64 where "INTERRUPT_STATUS = 0x060"
definition INTERRUPT_ACK :: u64 where "INTERRUPT_ACK = 0x064"
definition STATUS :: u64 where "STATUS = 0x070"
definition QUEUE_DESC_LOW :: u64 where "QUEUE_DESC_LOW = 0x080"
definition QUEUE_DESC_HIGH :: u64 where "QUEUE_DESC_HIGH = 0x084"
definition QUEUE_DRIVER_LOW :: u64 where "QUEUE_DRIVER_LOW = 0x090"
definition QUEUE_DRIVER_HIGH :: u64 where "QUEUE_DRIVER_HIGH = 0x094"
definition QUEUE_DEVICE_LOW :: u64 where "QUEUE_DEVICE_LOW = 0x0A0"
definition QUEUE_DEVICE_HIGH :: u64 where "QUEUE_DEVICE_HIGH = 0x0A4"
definition CONFIG_GENERATION :: u64 where "CONFIG_GENERATION = 0x0FC"
definition CONFIG_SPACE :: u64 where "CONFIG_SPACE = 0x100"
definition VIRTIO_MMIO_MAGIC :: u32 where "VIRTIO_MMIO_MAGIC = 0x74726976"
definition VIRTIO_MMIO_VERSION :: u32 where "VIRTIO_MMIO_VERSION = 2"
definition VIRTIO_VENDOR_ID :: u32 where "VIRTIO_VENDOR_ID = 0x554D4551"
definition VIRTIO_INT_VRING :: u32 where "VIRTIO_INT_VRING = 1"

lemmas mmio_offsets = MAGIC_VALUE_def VERSION_def DEVICE_ID_def VENDOR_ID_def DEVICE_FEATURES_def DEVICE_FEATURES_SEL_def
  DRIVER_FEATURES_def DRIVER_FEATURES_SEL_def QUEUE_SEL_def QUEUE_NUM_MAX_def QUEUE_NUM_def QUEUE_READY_def
  QUEUE_NOTIFY_def INTERRUPT_STATUS_def INTERRUPT_ACK_def STATUS_def QUEUE_DESC_LOW_def QUEUE_DESC_HIGH_def
  QUEUE_DRIVER_LOW_def QUEUE_DRIVER_HIGH_def QUEUE_DEVICE_LOW_def QUEUE_DEVICE_HIGH_def CONFIG_GENERATION_def
  CONFIG_SPACE_def

record 'd transport =
  tr_base :: u64
  tr_device :: 'd
  tr_queues :: "virtqueue list"
  tr_queue_sel :: u32
  tr_status :: u32
  tr_interrupt_status :: u32
  tr_device_features_sel :: u32
  tr_driver_features_sel :: u32
  tr_driver_features :: u64
  tr_config_generation :: u32
  tr_irq_intid :: u32
  tr_queue_desc_high :: u32
  tr_queue_driver_high :: u32
  tr_queue_device_high :: u32

definition transport_new :: "u64 \<Rightarrow> 'd \<Rightarrow> u32 \<Rightarrow> 'd transport" where
  "transport_new base device irq_intid =
     \<lparr>tr_base = base, tr_device = device, tr_queues = [virtqueue_new, virtqueue_new], tr_queue_sel = 0, tr_status = 0,
      tr_interrupt_status = 0, tr_device_features_sel = 0, tr_driver_features_sel = 0, tr_driver_features = 0,
      tr_config_generation = 0, tr_irq_intid = irq_intid, tr_queue_desc_high = 0, tr_queue_driver_high = 0,
      tr_queue_device_high = 0\<rparr>"

definition current_queue :: "('d, 'w) virtio_device \<Rightarrow> 'd transport \<Rightarrow> nat option" where
  "current_queue ops t =
     (let idx = unat (tr_queue_sel t) in
      if idx < MAX_QUEUES \<and> idx < unat (num_queues ops) then Some idx else None)"

definition transport_reset :: "'d transport \<Rightarrow> 'd transport" where
  "transport_reset t = t\<lparr>tr_status := 0, tr_interrupt_status := 0, tr_device_features_sel := 0, tr_driver_features_sel := 0,
     tr_driver_features := 0, tr_queue_sel := 0, tr_queues := map virtqueue_reset (tr_queues t)\<rparr>"

text \<open>\<open>signal_interrupt\<close>; the INTID to inject is the second component.\<close>

definition signal_interrupt :: "'d transport \<Rightarrow> 'd transport \<times> u32" where
  "signal_interrupt t = (t\<lparr>tr_interrupt_status := tr_interrupt_status t OR VIRTIO_INT_VRING\<rparr>, tr_irq_intid t)"

definition mmio_read :: "('d, 'w) virtio_device \<Rightarrow> u64 \<Rightarrow> u8 \<Rightarrow> 'd transport \<Rightarrow> u64" where
  "mmio_read ops off sz t =
     (if off \<ge> CONFIG_SPACE then config_read ops (tr_device t) (off - CONFIG_SPACE) sz
      else if sz \<noteq> 4 then 0
      else ucast (
        if off = MAGIC_VALUE then VIRTIO_MMIO_MAGIC
        else if off = VERSION then VIRTIO_MMIO_VERSION
        else if off = DEVICE_ID then device_id ops
        else if off = VENDOR_ID then VIRTIO_VENDOR_ID
        else if off = DEVICE_FEATURES then
          (if tr_device_features_sel t = 0 then ucast (device_features ops)
           else ucast (drop_bit 32 (device_features ops)))
        else if off = QUEUE_NUM_MAX then
          (case current_queue ops t of Some _ \<Rightarrow> ucast (max_queue_size ops) | None \<Rightarrow> 0)
        else if off = QUEUE_READY then
          (case current_queue ops t of Some idx \<Rightarrow> of_bool (ready (tr_queues t ! idx)) | None \<Rightarrow> 0)
        else if off = INTERRUPT_STATUS then tr_interrupt_status t
        else if off = STATUS then tr_status t
        else if off = CONFIG_GENERATION then tr_config_generation t
        else 0 :: u32))"

text \<open>\<open>if let Some(idx) = self.current_queue() { ... self.queues[idx] ... }\<close>\<close>

definition with_queue :: "('d, 'w) virtio_device \<Rightarrow> (virtqueue \<Rightarrow> virtqueue) \<Rightarrow> 'd transport \<Rightarrow> 'd transport" where
  "with_queue ops f t = (case current_queue ops t of
     Some idx \<Rightarrow> t\<lparr>tr_queues := (tr_queues t)[idx := f (tr_queues t ! idx)]\<rparr>
   | None \<Rightarrow> t)"

definition notify_queue :: "('d, 'w) virtio_device \<Rightarrow> u16 \<Rightarrow> 'd transport \<Rightarrow> 'w \<Rightarrow> ('d transport \<times> 'w \<times> u32 option) option" where
  "notify_queue ops queue_idx t w =
     (let i = unat queue_idx in
      if i < MAX_QUEUES \<and> i < unat (num_queues ops) \<and> ready (tr_queues t ! i) then do {
        (q, w) \<leftarrow> queue_notify ops (tr_device t) queue_idx (tr_queues t ! i) w;
        let (t, intid) = signal_interrupt (t\<lparr>tr_queues := (tr_queues t)[i := q]\<rparr>);
        Some (t, w, Some intid) }
      else Some (t, w, None))"

definition mmio_write :: "('d, 'w) virtio_device \<Rightarrow> u64 \<Rightarrow> u64 \<Rightarrow> u8 \<Rightarrow> 'd transport \<Rightarrow> 'w \<Rightarrow>
    ('d transport \<times> 'w \<times> u32 option) option" where
  "mmio_write ops off value sz t w =
     (if off \<ge> CONFIG_SPACE \<or> sz \<noteq> 4 then Some (t, w, None)
      else let val = ucast value :: u32 in
        if off = QUEUE_NOTIFY then notify_queue ops (ucast val) t w
        else Some (
          if off = DEVICE_FEATURES_SEL then t\<lparr>tr_device_features_sel := val\<rparr>
          else if off = DRIVER_FEATURES then
            (if tr_driver_features_sel t = 0
             then t\<lparr>tr_driver_features := (tr_driver_features t AND 0xFFFFFFFF00000000) OR ucast val\<rparr>
             else t\<lparr>tr_driver_features := (tr_driver_features t AND 0x00000000FFFFFFFF) OR push_bit 32 (ucast val)\<rparr>)
          else if off = DRIVER_FEATURES_SEL then t\<lparr>tr_driver_features_sel := val\<rparr>
          else if off = QUEUE_SEL then
            t\<lparr>tr_queue_sel := val, tr_queue_desc_high := 0, tr_queue_driver_high := 0, tr_queue_device_high := 0\<rparr>
          else if off = QUEUE_NUM then with_queue ops (\<lambda>q. q\<lparr>num := ucast val\<rparr>) t
          else if off = QUEUE_READY then with_queue ops (\<lambda>q. q\<lparr>ready := val \<noteq> 0\<rparr>) t
          else if off = INTERRUPT_ACK then t\<lparr>tr_interrupt_status := tr_interrupt_status t AND NOT val\<rparr>
          else if off = STATUS then (if val = 0 then transport_reset t else t\<lparr>tr_status := val\<rparr>)
          else if off = QUEUE_DESC_LOW then with_queue ops (set_desc_addr val (tr_queue_desc_high t)) t
          else if off = QUEUE_DESC_HIGH then
            with_queue ops (\<lambda>q. set_desc_addr (desc_addr_low q) val q) (t\<lparr>tr_queue_desc_high := val\<rparr>)
          else if off = QUEUE_DRIVER_LOW then with_queue ops (set_avail_addr val (tr_queue_driver_high t)) t
          else if off = QUEUE_DRIVER_HIGH then
            with_queue ops (\<lambda>q. set_avail_addr (avail_addr_low q) val q) (t\<lparr>tr_queue_driver_high := val\<rparr>)
          else if off = QUEUE_DEVICE_LOW then with_queue ops (set_used_addr val (tr_queue_device_high t)) t
          else if off = QUEUE_DEVICE_HIGH then
            with_queue ops (\<lambda>q. set_used_addr (used_addr_low q) val q) (t\<lparr>tr_queue_device_high := val\<rparr>)
          else t, w, None))"

section \<open>Receiving a frame\<close>

definition rx_hdr :: "u8 list" where "rx_hdr = [0, 0, 0, 0, 0, 0, 0, 0, 0, 0, 1, 0]"

definition writable :: "virtq_desc \<Rightarrow> bool" where
  "writable d \<longleftrightarrow> d_flags d AND VIRTQ_DESC_F_WRITE \<noteq> 0"

text \<open>The loop that spreads header and frame over the writable buffers.  With \<open>written < 12\<close> the rest of
  the header goes first and the frame starts in the same buffer.\<close>

fun rx_fill :: "virtq_desc list \<Rightarrow> u8 list \<Rightarrow> nat \<Rightarrow> gmem \<Rightarrow> gmem \<times> nat" where
  "rx_fill [] frame written m = (m, written)"
| "rx_fill (d # ds) frame written m =
     (if \<not> writable d then rx_fill ds frame written m
      else
        let remaining = length rx_hdr + length frame - written;
            to_write = min remaining (unat (d_len d));
            m' = (if written < 12 then
                    let hdr_bytes = min (12 - written) to_write;
                        m1 = put_bytes m (d_addr d) (take hdr_bytes (drop written rx_hdr)) in
                    if to_write > hdr_bytes
                    then put_bytes m1 (d_addr d + of_nat hdr_bytes) (take (to_write - hdr_bytes) frame)
                    else m1
                  else put_bytes m (d_addr d) (take to_write (drop (written - 12) frame))) in
        rx_fill ds frame (written + to_write) m')"

definition inject_rx :: "u8 list \<Rightarrow> virtio_net transport \<Rightarrow> gmem \<Rightarrow>
    (bool \<times> virtio_net transport \<times> gmem \<times> u32 option) or_panic" where
  "inject_rx frame t m = do {
     (c, q) \<leftarrow> get_avail_desc m (tr_queues t ! 0);
     let t = t\<lparr>tr_queues := (tr_queues t)[0 := q]\<rparr>;
     case c of
       None \<Rightarrow> Some (False, t, m, None)
     | Some chain \<Rightarrow>
         if ch_descs chain = [] then Some (False, t, m, None)
         else
           let total_cap = sum_list (map (\<lambda>d. unat (d_len d)) (filter writable (ch_descs chain))) in
           if total_cap < length rx_hdr + length frame then do {
             m \<leftarrow> put_used q (ch_head chain) 0 m;
             Some (False, t, m, None) }
           else
             let (m, written) = rx_fill (ch_descs chain) frame 0 m in do {
             m \<leftarrow> put_used q (ch_head chain) (of_nat written) m;
             let (t, intid) = signal_interrupt t;
             Some (True, t, m, Some intid) } }"

section \<open>The frame in the receive buffers\<close>

abbreviation packet :: "u8 list \<Rightarrow> u8 list" where
  "packet frame \<equiv> rx_hdr @ frame"

abbreviation buffer :: "virtq_desc \<Rightarrow> u64 set" where
  "buffer d \<equiv> area (d_addr d) (unat (d_len d))"

lemma length_rx_hdr [simp]: "length rx_hdr = 12"
  by (simp add: rx_hdr_def)

lemma put_bytes_join:
  assumes "length xs + length ys < 2 ^ 62"
  shows "put_bytes (put_bytes m a xs) (a + of_nat (length xs)) ys = put_bytes m a (xs @ ys)"
proof
  fix x
  have d: "unat (x - (a + of_nat (length xs))) = unat (x - a) - length xs" if "length xs \<le> unat (x - a)"
  proof -
    have u: "unat (of_nat (length xs) :: u64) = length xs" using assms by (subst unat_of_nat) simp
    have "unat ((x - a) - of_nat (length xs)) = unat (x - a) - length xs"
      using unat_sub [of "of_nat (length xs)" "x - a"] that u by (simp add: word_le_nat_alt)
    thus ?thesis by (simp add: diff_diff_eq)
  qed
  have e: "\<not> unat (x - (a + of_nat (length xs))) < length ys" if "unat (x - a) < length xs"
  proof
    let ?j = "unat (x - (a + of_nat (length xs)))"
    assume j: "?j < length ys"
    have "x - a = of_nat (length xs + ?j)" by simp
    moreover have "unat (of_nat (length xs + ?j) :: u64) = length xs + ?j" using j assms by (subst unat_of_nat) simp
    ultimately show False using that by simp
  qed
  show "put_bytes (put_bytes m a xs) (a + of_nat (length xs)) ys x = put_bytes m a (xs @ ys) x"
    using assms d e by (auto simp: put_bytes_apply nth_append not_less)
qed

lemma take_get_put:
  "length bs \<le> n \<Longrightarrow> n < 4294967296 \<Longrightarrow> take (length bs) (get_bytes (put_bytes m a bs) a n) = bs"
  by (rule nth_equalityI) (simp_all add: nth_get_bytes put_bytes_apply unat_of_nat)

lemma hdr_then_frame:
  "written < 12 \<Longrightarrow> h = 12 - written \<Longrightarrow> h < k \<Longrightarrow>
   take h (drop written rx_hdr) @ take (k - h) frame = take k (drop written (packet frame))"
  by simp

lemma take_then_drop: "take k (drop w xs) @ drop (w + k) xs = drop w xs"
  using append_take_drop_id [of k "drop w xs"] by (simp add: add.commute)

lemma hdr_only:
  "written < 12 \<Longrightarrow> k \<le> 12 - written \<Longrightarrow> take k (drop written (packet frame)) = take k (drop written rx_hdr)"
  by simp

lemma rx_fill_writes:
  assumes "writable d" "length frame < 2 ^ 32" "written \<le> length (packet frame)"
  shows "rx_fill (d # ds) frame written m =
    (let k = min (length (packet frame) - written) (unat (d_len d)) in
     rx_fill ds frame (written + k) (put_bytes m (d_addr d) (take k (drop written (packet frame)))))"
proof -
  let ?k = "min (length (packet frame) - written) (unat (d_len d))"
  let ?h = "min (12 - written) ?k"
  have "(if written < 12 then
       let m1 = put_bytes m (d_addr d) (take ?h (drop written rx_hdr)) in
       if ?k > ?h then put_bytes m1 (d_addr d + of_nat ?h) (take (?k - ?h) frame) else m1
     else put_bytes m (d_addr d) (take ?k (drop (written - 12) frame))) =
     put_bytes m (d_addr d) (take ?k (drop written (packet frame)))"
  proof (cases "written < 12 \<and> ?k > ?h")
    case True
    hence h: "?h = 12 - written" by linarith
    have l: "length (take ?h (drop written rx_hdr)) = ?h" by (simp add: h)
    have "length (take ?h (drop written rx_hdr)) \<le> 12" "length (take (?k - ?h) frame) \<le> length frame"
      by simp_all
    moreover have "12 + 2 ^ 32 < (2 :: nat) ^ 62" by simp
    ultimately have "length (take ?h (drop written rx_hdr)) + length (take (?k - ?h) frame) < 2 ^ 62"
      using assms(2) by linarith
    from put_bytes_join [OF this, of m "d_addr d"]
    have "put_bytes (put_bytes m (d_addr d) (take ?h (drop written rx_hdr))) (d_addr d + of_nat ?h) (take (?k - ?h) frame) =
        put_bytes m (d_addr d) (take ?k (drop written (packet frame)))"
      using hdr_then_frame [OF _ h] True unfolding l by presburger
    thus ?thesis using True unfolding Let_def by presburger
  next
    case False
    show ?thesis
    proof (cases "written < 12")
      case True
      hence "?h = ?k" "?k \<le> 12 - written" using False by linarith+
      moreover from hdr_only [OF True this(2)] have "take ?k (drop written (packet frame)) = take ?k (drop written rx_hdr)" .
      ultimately show ?thesis using True False unfolding Let_def by presburger
    next
      case False
      thus ?thesis by simp
    qed
  qed
  thus ?thesis using assms(1) by (simp only: rx_fill.simps Let_def length_append simp_thms if_False)
qed

lemma rx_fill_outside:
  assumes "rx_fill ds frame written m = (m', written')" "length frame < 2 ^ 32" "written \<le> length (packet frame)"
    and "\<forall>d\<in>set ds. writable d \<longrightarrow> x \<notin> buffer d"
  shows "m' x = m x"
  using assms
proof (induction ds arbitrary: written m)
  case (Cons d ds)
  show ?case
  proof (cases "writable d")
    case True
    let ?k = "min (length (packet frame) - written) (unat (d_len d))"
    let ?bs = "take ?k (drop written (packet frame))"
    have "put_bytes m (d_addr d) ?bs x = m x"
      using put_bytes_outside [of 0 ?bs "unat (d_len d)" x "d_addr d" m] Cons.prems(4) True unat_u32 [of "d_len d"] by simp
    moreover have "rx_fill ds frame (written + ?k) (put_bytes m (d_addr d) ?bs) = (m', written')"
      using Cons.prems(1) unfolding rx_fill_writes [OF True Cons.prems(2,3)] Let_def .
    moreover have "written + ?k \<le> length (packet frame)" using Cons.prems(3) by linarith
    ultimately show ?thesis using Cons.IH [of "written + ?k" "put_bytes m (d_addr d) ?bs"] Cons.prems(2,4) by simp
  next
    case False
    thus ?thesis using Cons by simp
  qed
qed simp

definition rx_capacity :: "virtq_desc list \<Rightarrow> nat" where
  "rx_capacity ds = sum_list (map (\<lambda>d. unat (d_len d)) (filter writable ds))"

text \<open>The buffers the driver posts do not overlap.\<close>

fun buffers_apart :: "virtq_desc list \<Rightarrow> bool" where
  "buffers_apart [] = True"
| "buffers_apart (d # ds) \<longleftrightarrow> (\<forall>e\<in>set ds. buffer d \<inter> buffer e = {}) \<and> buffers_apart ds"

lemma rx_fill_content:
  assumes "rx_fill ds frame written m = (m', written')" "length frame < 2 ^ 32" "written \<le> length (packet frame)"
    and "length (packet frame) - written \<le> rx_capacity ds" "buffers_apart ds"
  shows "written' = length (packet frame) \<and>
    take (length (packet frame) - written) (chain_bytes m' (filter writable ds)) = drop written (packet frame)"
  using assms
proof (induction ds arbitrary: written m)
  case Nil
  thus ?case by (simp add: rx_capacity_def chain_bytes_def)
next
  case (Cons d ds)
  show ?case
  proof (cases "writable d")
    case False
    thus ?thesis using Cons by (simp add: rx_capacity_def)
  next
    case True
    let ?r = "length (packet frame) - written" and ?n = "unat (d_len d)"
    let ?k = "min ?r ?n"
    let ?bs = "take ?k (drop written (packet frame))"
    let ?m1 = "put_bytes m (d_addr d) ?bs"
    have run: "rx_fill ds frame (written + ?k) ?m1 = (m', written')"
      using Cons.prems(1) unfolding rx_fill_writes [OF True Cons.prems(2,3)] Let_def .
    have le: "written + ?k \<le> length (packet frame)" using Cons.prems(3) by simp
    have cap: "length (packet frame) - (written + ?k) \<le> rx_capacity ds"
      using Cons.prems(4) True by (simp add: rx_capacity_def)
    note IH = Cons.IH [OF run Cons.prems(2) le cap]
    have "get_bytes m' (d_addr d) ?n = get_bytes ?m1 (d_addr d) ?n"
    proof (rule get_bytes_agree)
      fix x assume "x \<in> buffer d"
      thus "m' x = ?m1 x" using rx_fill_outside [OF run Cons.prems(2) le, of x] Cons.prems(5) by auto
    qed
    moreover have k: "length ?bs = ?k" unfolding length_take length_drop by linarith
    have "take (length ?bs) (get_bytes ?m1 (d_addr d) ?n) = ?bs"
      by (rule take_get_put) (use unat_u32 [of "d_len d"] k in linarith)+
    ultimately have b: "take ?k (get_bytes m' (d_addr d) ?n) = ?bs" unfolding k by simp
    have cb: "chain_bytes m' (filter writable (d # ds)) = get_bytes m' (d_addr d) ?n @ chain_bytes m' (filter writable ds)"
      using True by (simp add: chain_bytes_def)
    show ?thesis
    proof (cases "?r \<le> ?n")
      case True
      thus ?thesis using IH b Cons.prems(5) unfolding cb by simp
    next
      case False
      hence kn: "?k = ?n" by linarith
      hence g: "get_bytes m' (d_addr d) ?n = ?bs" using b by (metis length_get_bytes take_all_iff order_refl)
      have "take ?r (get_bytes m' (d_addr d) ?n @ xs) = get_bytes m' (d_addr d) ?n @ take (?r - ?n) xs" for xs
        using False by simp
      moreover have "?r - ?n = length (packet frame) - (written + ?k)" using kn by linarith
      ultimately have "take ?r (chain_bytes m' (filter writable (d # ds))) =
          ?bs @ take (length (packet frame) - (written + ?k)) (chain_bytes m' (filter writable ds))"
        unfolding cb using g by metis
      also have "\<dots> = ?bs @ drop (written + ?k) (packet frame)" using IH Cons.prems(5) by simp
      also have "\<dots> = drop written (packet frame)" by (rule take_then_drop)
      finally show ?thesis using IH Cons.prems(5) by simp
    qed
  qed
qed

lemma inject_rx_delivers:
  assumes "queue_live (tr_queues t ! 0)" "avail_idx m (tr_queues t ! 0) \<noteq> last_avail_idx (tr_queues t ! 0)"
    and "unat (used_addr (tr_queues t ! 0)) + 4 < 2 ^ 64" "length frame < 2 ^ 32"
  defines "ds \<equiv> ch_descs (chain_at m (tr_queues t ! 0) (last_avail_idx (tr_queues t ! 0)))"
  assumes "length (packet frame) \<le> rx_capacity ds" "buffers_apart ds"
    and "\<forall>d\<in>set ds. buffer d \<inter> used_area (tr_queues t ! 0) = {}"
  shows "\<exists>t' m'. inject_rx frame t m = Some (True, t', m', Some (tr_irq_intid t)) \<and>
    take (length (packet frame)) (chain_bytes m' (filter writable ds)) = packet frame \<and>
    tr_interrupt_status t' = tr_interrupt_status t OR VIRTIO_INT_VRING \<and>
    tr_queues t' = (tr_queues t)[0 := (tr_queues t ! 0)\<lparr>last_avail_idx := last_avail_idx (tr_queues t ! 0) + 1\<rparr>]"
proof -
  let ?q = "tr_queues t ! 0"
  let ?c = "chain_at m ?q (last_avail_idx ?q)"
  obtain m1 w where fill: "rx_fill ds frame 0 m = (m1, w)" by fastforce
  note content = rx_fill_content [OF fill assms(4) _ _ assms(7)]
  have w: "w = length (packet frame)" "take (length (packet frame)) (chain_bytes m1 (filter writable ds)) = packet frame"
    using content assms(6) by simp_all
  obtain m' where put: "put_used ?q (ch_head ?c) (of_nat w) m1 = Some m'" "\<forall>a. a \<notin> used_area ?q \<longrightarrow> m' a = m1 a"
    using put_used_frame [of ?q] assms(1,3) unfolding queue_live_def by blast
  have "chain_bytes m' (filter writable ds) = chain_bytes m1 (filter writable ds)"
    using chain_bytes_same [of "used_area ?q" m' m1 "\<lparr>ch_head = 0, ch_descs = filter writable ds\<rparr>"] put(2) assms(8)
    by (simp add: apart_def)
  moreover have "ds \<noteq> []" using assms(6) by (auto simp: rx_capacity_def)
  ultimately show ?thesis
    using fill put(1) w assms(6) get_avail_desc_live [OF assms(1), of m] assms(2)
    by (simp add: inject_rx_def ds_def [symmetric] rx_capacity_def signal_interrupt_def Let_def)
qed

end
