(* ===== verification/Register_Banks.thy ===== *)
theory Register_Banks
  imports Prelude
begin

text \<open>Banks of 32-bit device registers, as the interrupt controller emulation uses them: arrays read and written by
  word index, and pairs of write-one-to-set and write-one-to-clear registers over one array.  A pair
  is the interface of a set of interrupt numbers; the locale states what its two operations do
  and derives the facts about the set.\<close>

text \<open>An address in \<open>lo ..= hi\<close>, and the index of the word it falls in.\<close>

definition in_bank :: "u64 \<Rightarrow> u64 \<Rightarrow> u64 \<Rightarrow> bool" where
  "in_bank lo hi off \<longleftrightarrow> lo \<le> off \<and> off \<le> hi"

definition bank_idx :: "u64 \<Rightarrow> u64 \<Rightarrow> nat" where
  "bank_idx lo off = unat ((off - lo) div 4)"

text \<open>\<open>if reg < n { xs[reg] } else { 0 }\<close> and \<open>if reg < n { xs[reg] = f(xs[reg]) }\<close>.\<close>

definition rd_bank :: "nat \<Rightarrow> u32 list \<Rightarrow> nat \<Rightarrow> u32" where
  "rd_bank n xs r = (if r < n then xs ! r else 0)"

definition upd_bank :: "nat \<Rightarrow> (u32 \<Rightarrow> u32) \<Rightarrow> u32 list \<Rightarrow> nat \<Rightarrow> u32 list" where
  "upd_bank n f xs r = (if r < n then xs[r := f (xs ! r)] else xs)"

lemma length_upd_bank [simp]: "length (upd_bank n f xs r) = length xs"
  by (simp add: upd_bank_def)

lemma rd_upd_bank:
  "length xs = n \<Longrightarrow> r < n \<Longrightarrow> rd_bank n (upd_bank n f xs r) k = (if k = r then f (rd_bank n xs r) else rd_bank n xs k)"
  by (simp add: rd_bank_def upd_bank_def nth_list_update)

lemma upd_bank_id: "upd_bank n id xs r = xs"
  by (simp add: upd_bank_def)

section \<open>Set and clear registers\<close>

text \<open>The interrupts whose bit is set in a bank.\<close>

definition bits_of_bank :: "(nat \<Rightarrow> u32) \<Rightarrow> nat set" where
  "bits_of_bank rd = {i. bit (rd (i div 32)) (i mod 32)}"

text \<open>The interrupts named by a value written to word \<open>r\<close>.\<close>

definition bits_of_word :: "nat \<Rightarrow> u32 \<Rightarrow> nat set" where
  "bits_of_word r v = {i. i div 32 = r \<and> bit v (i mod 32)}"

locale w1_bank =
  fixes ok :: "'s \<Rightarrow> bool" and n :: nat
    and rd :: "'s \<Rightarrow> nat \<Rightarrow> u32" and wset wclr :: "nat \<Rightarrow> u32 \<Rightarrow> 's \<Rightarrow> 's"
  assumes set_law: "ok s \<Longrightarrow> r < n \<Longrightarrow> ok (wset r v s) \<and> rd (wset r v s) k = (if k = r then rd s r OR v else rd s k)"
    and clr_law: "ok s \<Longrightarrow> r < n \<Longrightarrow> ok (wclr r v s) \<and> rd (wclr r v s) k = (if k = r then rd s r AND NOT v else rd s k)"
begin

lemma set_adds:
  assumes "ok s" "r < n"
  shows "bits_of_bank (rd (wset r v s)) = bits_of_bank (rd s) \<union> bits_of_word r v"
  using set_law [OF assms] by (auto simp: bits_of_bank_def bits_of_word_def bit_or_iff)

lemma clr_removes:
  assumes "ok s" "r < n"
  shows "bits_of_bank (rd (wclr r v s)) = bits_of_bank (rd s) - bits_of_word r v"
proof (rule set_eqI)
  fix i :: nat
  have "i mod 32 < 32" by simp
  thus "i \<in> bits_of_bank (rd (wclr r v s)) \<longleftrightarrow> i \<in> bits_of_bank (rd s) - bits_of_word r v"
    using clr_law [OF assms] by (auto simp: bits_of_bank_def bits_of_word_def bit_and_iff bit_not_iff)
qed

text \<open>Two writers never lose each other's update, in whatever order their writes arrive.\<close>

lemma set_commute:
  assumes "ok s" "r < n" "k < n"
  shows "bits_of_bank (rd (wset r v (wset k w s))) = bits_of_bank (rd (wset k w (wset r v s)))"
proof -
  have "ok (wset k w s)" "ok (wset r v s)" using set_law assms by blast+
  thus ?thesis using assms by (simp add: set_adds Un_ac)
qed

lemma set_then_clear:
  assumes "ok s" "r < n"
  shows "bits_of_bank (rd (wclr r v (wset r v s))) = bits_of_bank (rd s) - bits_of_word r v"
proof -
  have "ok (wset r v s)" using set_law assms by blast
  thus ?thesis using assms by (auto simp: clr_removes set_adds)
qed

end

end
