(* ===== verification/Gic_Distributor.thy ===== *)
theory Gic_Distributor
  imports Register_Banks
begin

text \<open>The emulated GIC distributor (\<open>devices/gic/distributor.rs\<close>): shadow registers, and what is written
  through to the physical distributor, returned as the access made there (offset, size, value).  The
  number of CPUs comes from the platform and is a parameter of the constructor.\<close>

definition GICD_SIZE :: u64 where "GICD_SIZE = 0x10000"
definition GICD_CTLR_ARE_NS :: u32 where "GICD_CTLR_ARE_NS = push_bit 4 1"

record gicd =
  gd_ctlr :: u32
  gd_enabled :: "u32 list"
  gd_igroupr :: "u32 list"
  gd_ipriorityr :: "u32 list"
  gd_icfgr :: "u32 list"
  gd_ispendr :: "u32 list"
  gd_isactiver :: "u32 list"
  gd_irouter :: "u64 list"
  gd_num_cpus :: u32

definition gicd_new :: "u32 \<Rightarrow> gicd" where
  "gicd_new num_cpus = \<lparr>gd_ctlr = 0, gd_enabled = replicate 32 0, gd_igroupr = replicate 32 0,
     gd_ipriorityr = replicate 256 0, gd_icfgr = replicate 64 0, gd_ispendr = replicate 32 0,
     gd_isactiver = replicate 32 0, gd_irouter = replicate 988 0, gd_num_cpus = num_cpus\<rparr>"

definition gicd_set_num_cpus :: "u32 \<Rightarrow> gicd \<Rightarrow> gicd" where
  "gicd_set_num_cpus n g = g\<lparr>gd_num_cpus := n\<rparr>"

definition gicd_route_spi :: "gicd \<Rightarrow> u32 \<Rightarrow> nat" where
  "gicd_route_spi g intid =
     (if intid < 32 \<or> intid \<ge> 1020 then 0
      else unat (gd_irouter g ! unat (intid - 32) AND 0xFF))"

definition read_irouter :: "gicd \<Rightarrow> u64 \<Rightarrow> u64" where
  "read_irouter g off =
     (let byte_off = off - 0x6100 in
      if byte_off AND 7 \<noteq> 0 then 0
      else let idx = unat (byte_off div 8) in if idx < length (gd_irouter g) then gd_irouter g ! idx else 0)"

definition write_irouter :: "u64 \<Rightarrow> u64 \<Rightarrow> gicd \<Rightarrow> gicd" where
  "write_irouter off value g =
     (let byte_off = off - 0x6100 in
      if byte_off AND 7 \<noteq> 0 then g
      else let idx = unat (byte_off div 8) in
        if idx < length (gd_irouter g) then g\<lparr>gd_irouter := (gd_irouter g)[idx := value]\<rparr> else g)"

definition saturating_pred :: "u32 \<Rightarrow> u32" where
  "saturating_pred x = (if x = 0 then 0 else x - 1)"

definition gicd_read :: "gicd \<Rightarrow> u64 \<Rightarrow> u8 \<Rightarrow> u64" where
  "gicd_read g off sz =
     (if in_bank 0x6100 0x7FD8 off \<and> sz = 8 then read_irouter g off
      else if in_bank 0x6100 0x7FD8 off \<and> sz = 4 then
        (let full = read_irouter g (off AND NOT 7) in
         if off AND 4 = 0 then full AND 0xFFFFFFFF else drop_bit 32 full)
      else if sz \<noteq> 4 then 0
      else ucast (
        if off = 0 then gd_ctlr g OR GICD_CTLR_ARE_NS
        else if off = 4 then
          31 OR push_bit 5 (saturating_pred (gd_num_cpus g) AND 7) OR push_bit 24 1 OR push_bit 25 1 OR push_bit 19 9
        else if off = 8 then 0x43B
        else if in_bank 0x080 0x0FC off then rd_bank 32 (gd_igroupr g) (bank_idx 0x080 off)
        else if in_bank 0x100 0x17C off then rd_bank 32 (gd_enabled g) (bank_idx 0x100 off)
        else if in_bank 0x180 0x1FC off then rd_bank 32 (gd_enabled g) (bank_idx 0x180 off)
        else if in_bank 0x200 0x27C off then rd_bank 32 (gd_ispendr g) (bank_idx 0x200 off)
        else if in_bank 0x280 0x2FC off then rd_bank 32 (gd_ispendr g) (bank_idx 0x280 off)
        else if in_bank 0x300 0x37C off then rd_bank 32 (gd_isactiver g) (bank_idx 0x300 off)
        else if in_bank 0x380 0x3FC off then rd_bank 32 (gd_isactiver g) (bank_idx 0x380 off)
        else if in_bank 0x400 0x7FC off then rd_bank 256 (gd_ipriorityr g) (bank_idx 0x400 off)
        else if in_bank 0xC00 0xCFC off then rd_bank 64 (gd_icfgr g) (bank_idx 0xC00 off)
        else if off = 0xFFE8 then 0x30
        else 0 :: u32))"

text \<open>The write to the physical distributor: read-only registers are skipped, affinity routing is forced
  on, other access sizes are dropped.\<close>

definition gicd_forward :: "u64 \<Rightarrow> u64 \<Rightarrow> u8 \<Rightarrow> (u64 \<times> u8 \<times> u64) option" where
  "gicd_forward off value sz =
     (if off \<in> {0x004, 0x008, 0xFFE8} \<or> sz \<notin> {1, 2, 4, 8} then None
      else Some (off, sz, take_bit (8 * unat sz) (if off = 0 then value OR ucast GICD_CTLR_ARE_NS else value)))"

definition gicd_write :: "u64 \<Rightarrow> u64 \<Rightarrow> u8 \<Rightarrow> gicd \<Rightarrow> gicd" where
  "gicd_write off value sz g =
     (if in_bank 0x6100 0x7FD8 off \<and> sz = 8 then write_irouter off value g
      else if in_bank 0x6100 0x7FD8 off \<and> sz = 4 then
        (let aligned = off AND NOT 7; old = read_irouter g aligned; val32 = value AND 0xFFFFFFFF in
         write_irouter aligned
           (if off AND 4 = 0 then (old AND 0xFFFFFFFF00000000) OR val32
            else (old AND 0x00000000FFFFFFFF) OR push_bit 32 val32) g)
      else if sz \<noteq> 4 then g
      else let val = ucast (value AND 0xFFFFFFFF) :: u32 in
        if off = 0 then g\<lparr>gd_ctlr := val OR GICD_CTLR_ARE_NS\<rparr>
        else if in_bank 0x080 0x0FC off then g\<lparr>gd_igroupr := upd_bank 32 (\<lambda>_. val) (gd_igroupr g) (bank_idx 0x080 off)\<rparr>
        else if in_bank 0x100 0x17C off then g\<lparr>gd_enabled := upd_bank 32 (\<lambda>x. x OR val) (gd_enabled g) (bank_idx 0x100 off)\<rparr>
        else if in_bank 0x180 0x1FC off then g\<lparr>gd_enabled := upd_bank 32 (\<lambda>x. x AND NOT val) (gd_enabled g) (bank_idx 0x180 off)\<rparr>
        else if in_bank 0x200 0x27C off then g\<lparr>gd_ispendr := upd_bank 32 (\<lambda>x. x OR val) (gd_ispendr g) (bank_idx 0x200 off)\<rparr>
        else if in_bank 0x280 0x2FC off then g\<lparr>gd_ispendr := upd_bank 32 (\<lambda>x. x AND NOT val) (gd_ispendr g) (bank_idx 0x280 off)\<rparr>
        else if in_bank 0x300 0x37C off then g\<lparr>gd_isactiver := upd_bank 32 (\<lambda>x. x OR val) (gd_isactiver g) (bank_idx 0x300 off)\<rparr>
        else if in_bank 0x380 0x3FC off then g\<lparr>gd_isactiver := upd_bank 32 (\<lambda>x. x AND NOT val) (gd_isactiver g) (bank_idx 0x380 off)\<rparr>
        else if in_bank 0x400 0x7FC off then g\<lparr>gd_ipriorityr := upd_bank 256 (\<lambda>_. val) (gd_ipriorityr g) (bank_idx 0x400 off)\<rparr>
        else if in_bank 0xC00 0xCFC off then g\<lparr>gd_icfgr := upd_bank 64 (\<lambda>_. val) (gd_icfgr g) (bank_idx 0xC00 off)\<rparr>
        else g)"

section \<open>Well-formedness\<close>

definition gicd_ok :: "gicd \<Rightarrow> bool" where
  "gicd_ok g \<longleftrightarrow> length (gd_enabled g) = 32 \<and> length (gd_igroupr g) = 32 \<and> length (gd_ipriorityr g) = 256 \<and>
     length (gd_icfgr g) = 64 \<and> length (gd_ispendr g) = 32 \<and> length (gd_isactiver g) = 32 \<and> length (gd_irouter g) = 988"

lemma gicd_new_ok: "gicd_ok (gicd_new n)"
  by (simp add: gicd_ok_def gicd_new_def)

lemma write_irouter_ok: "gicd_ok g \<Longrightarrow> gicd_ok (write_irouter off v g)"
  by (simp add: write_irouter_def gicd_ok_def Let_def)

lemma gicd_write_ok: "gicd_ok g \<Longrightarrow> gicd_ok (gicd_write off v sz g)"
  unfolding gicd_write_def Let_def by (simp add: write_irouter_ok) (simp add: gicd_ok_def)

lemma route_spi_bound: "gicd_route_spi g intid < 256"
proof -
  have "unat (x AND 0xFF) < 256" for x :: u64
  proof -
    have "x AND 0xFF = take_bit 8 x" by (simp add: take_bit_eq_mask mask_eq_exp_minus_1)
    thus ?thesis by (simp add: unat_take_bit)
  qed
  thus ?thesis by (simp add: gicd_route_spi_def)
qed

section \<open>The register pairs\<close>

text \<open>The offset of word \<open>r\<close> of a bank.\<close>

definition word_off :: "u64 \<Rightarrow> nat \<Rightarrow> u64" where
  "word_off lo r = lo + 4 * of_nat r"

lemma word_off_idx:
  assumes "r < 32" "lo \<le> 0xFFFF"
  shows "bank_idx lo (word_off lo r) = r" "lo \<le> word_off lo r" "unat (word_off lo r) = unat lo + 4 * r"
proof -
  have u: "unat (of_nat r :: u64) = r" using assms by (subst unat_of_nat) simp
  have m: "unat (4 * of_nat r :: u64) = 4 * r"
    using unat_mult_exact [of 4 "of_nat r"] u assms by simp
  have l: "unat lo \<le> 0xFFFF" using assms(2) by (simp add: word_le_nat_alt)
  show a: "unat (word_off lo r) = unat lo + 4 * r"
    unfolding word_off_def using unat_add_exact [of lo "4 * of_nat r"] m l assms(1) by simp
  thus "lo \<le> word_off lo r" by (simp add: word_le_nat_alt)
  have "unat (4 * of_nat r div 4 :: u64) = r" by (simp add: unat_div m)
  thus "bank_idx lo (word_off lo r) = r" by (simp add: bank_idx_def word_off_def)
qed

lemma in_bank_nat: "in_bank lo hi off \<longleftrightarrow> unat lo \<le> unat off \<and> unat off \<le> unat hi"
  by (simp add: in_bank_def word_le_nat_alt)

abbreviation gicd_w4 :: "u64 \<Rightarrow> nat \<Rightarrow> u32 \<Rightarrow> gicd \<Rightarrow> gicd" where
  "gicd_w4 lo r v g \<equiv> gicd_write (word_off lo r) (ucast v) 4 g"

lemma val_round: "ucast (ucast (v :: u32) AND 0xFFFFFFFF :: u64) = v"
proof -
  have "(mask 32 :: u64) = 0xFFFFFFFF" by (simp add: mask_eq_exp_minus_1)
  hence "(ucast v AND 0xFFFFFFFF :: u64) = take_bit 32 (ucast v)" by (metis take_bit_eq_mask)
  moreover have "ucast (take_bit 32 (ucast v :: u64)) = v"
    by (rule bit_word_eqI) (simp add: bit_simps)
  ultimately show ?thesis by simp
qed

lemma gicd_write_banks:
  assumes "r < 32"
  shows "gicd_w4 0x100 r v g = g\<lparr>gd_enabled := upd_bank 32 (\<lambda>x. x OR v) (gd_enabled g) r\<rparr>"
    and "gicd_w4 0x180 r v g = g\<lparr>gd_enabled := upd_bank 32 (\<lambda>x. x AND NOT v) (gd_enabled g) r\<rparr>"
    and "gicd_w4 0x200 r v g = g\<lparr>gd_ispendr := upd_bank 32 (\<lambda>x. x OR v) (gd_ispendr g) r\<rparr>"
    and "gicd_w4 0x280 r v g = g\<lparr>gd_ispendr := upd_bank 32 (\<lambda>x. x AND NOT v) (gd_ispendr g) r\<rparr>"
    and "gicd_w4 0x300 r v g = g\<lparr>gd_isactiver := upd_bank 32 (\<lambda>x. x OR v) (gd_isactiver g) r\<rparr>"
    and "gicd_w4 0x380 r v g = g\<lparr>gd_isactiver := upd_bank 32 (\<lambda>x. x AND NOT v) (gd_isactiver g) r\<rparr>"
  using assms word_off_idx [OF assms]
  by (simp_all add: gicd_write_def in_bank_nat Let_def val_round word_unat_eq_iff)

interpretation gicd_enable: w1_bank gicd_ok 32 "\<lambda>g. rd_bank 32 (gd_enabled g)" "gicd_w4 0x100" "gicd_w4 0x180"
  by unfold_locales (simp_all add: gicd_write_banks rd_upd_bank, simp_all add: gicd_ok_def rd_upd_bank)

interpretation gicd_pending: w1_bank gicd_ok 32 "\<lambda>g. rd_bank 32 (gd_ispendr g)" "gicd_w4 0x200" "gicd_w4 0x280"
  by unfold_locales (simp_all add: gicd_write_banks rd_upd_bank, simp_all add: gicd_ok_def rd_upd_bank)

interpretation gicd_active: w1_bank gicd_ok 32 "\<lambda>g. rd_bank 32 (gd_isactiver g)" "gicd_w4 0x300" "gicd_w4 0x380"
  by unfold_locales (simp_all add: gicd_write_banks rd_upd_bank, simp_all add: gicd_ok_def rd_upd_bank)

text \<open>The three sets of interrupts the distributor keeps.\<close>

definition enabled_ints :: "gicd \<Rightarrow> nat set" where
  "enabled_ints g = bits_of_bank (rd_bank 32 (gd_enabled g))"

definition pending_ints :: "gicd \<Rightarrow> nat set" where
  "pending_ints g = bits_of_bank (rd_bank 32 (gd_ispendr g))"

definition active_ints :: "gicd \<Rightarrow> nat set" where
  "active_ints g = bits_of_bank (rd_bank 32 (gd_isactiver g))"

lemmas gicd_sets = enabled_ints_def pending_ints_def active_ints_def

section \<open>Routing\<close>

lemma irouter_off:
  assumes "i < 988"
  shows "unat (0x6100 + 8 * of_nat i :: u64) = 0x6100 + 8 * i"
    and "(0x6100 + 8 * of_nat i - 0x6100 :: u64) AND 7 = 0" "unat ((0x6100 + 8 * of_nat i - 0x6100 :: u64) div 8) = i"
proof -
  have u: "unat (of_nat i :: u64) = i" using assms by (subst unat_of_nat) simp
  have m: "unat (8 * of_nat i :: u64) = 8 * i" using unat_mult_exact [of 8 "of_nat i"] u assms by simp
  show "unat (0x6100 + 8 * of_nat i :: u64) = 0x6100 + 8 * i"
    using unat_add_exact [of "0x6100" "8 * of_nat i"] m assms by simp
  have "unat (8 * of_nat i div 8 :: u64) = i" by (simp add: unat_div m)
  thus "unat ((0x6100 + 8 * of_nat i - 0x6100 :: u64) div 8) = i" by simp
  have "(8 * of_nat i :: u64) AND 7 = take_bit 3 (8 * of_nat i)" by (simp add: take_bit_eq_mask mask_eq_exp_minus_1)
  moreover have "unat (take_bit 3 (8 * of_nat i :: u64)) = 0" by (simp add: unat_take_bit m)
  ultimately have "(8 * of_nat i :: u64) AND 7 = 0" by (simp add: unat_eq_0)
  thus "(0x6100 + 8 * of_nat i - 0x6100 :: u64) AND 7 = 0" by simp
qed

lemma write_irouter_8:
  assumes "gicd_ok g" "i < 988"
  shows "gicd_write (0x6100 + 8 * of_nat i) v 8 g = g\<lparr>gd_irouter := (gd_irouter g)[i := v]\<rparr>"
proof -
  note o = irouter_off [OF assms(2)]
  have "in_bank 0x6100 0x7FD8 (0x6100 + 8 * of_nat i)" using assms(2) o(1) by (simp add: in_bank_nat)
  thus ?thesis using assms o(2,3) by (simp add: gicd_write_def write_irouter_def Let_def gicd_ok_def)
qed

end
