(* ===== verification/Gic_Redistributor.thy ===== *)
theory Gic_Redistributor
  imports Register_Banks
begin

text \<open>The emulated redistributors (\<open>devices/gic/redistributor.rs\<close>): one 128KB region per vCPU, each a
  control frame and a frame for the private interrupts 0 to 31.\<close>

definition GICR_PER_CPU :: u64 where "GICR_PER_CPU = 0x20000"
definition GICR_MAX_VCPUS :: nat where "GICR_MAX_VCPUS = 8"

record gicr_state =
  gr_ctlr :: u32
  gr_waker :: u32
  gr_igroupr0 :: u32
  gr_isenabler0 :: u32
  gr_ispendr0 :: u32
  gr_isactiver0 :: u32
  gr_ipriorityr :: "u32 list"
  gr_icfgr :: "u32 list"

definition gicr_state_new :: gicr_state where
  "gicr_state_new = \<lparr>gr_ctlr = 0, gr_waker = 6, gr_igroupr0 = 0, gr_isenabler0 = 0, gr_ispendr0 = 0, gr_isactiver0 = 0,
     gr_ipriorityr = replicate 8 0, gr_icfgr = [0xAAAAAAAA, 0]\<rparr>"

record gicr =
  gr_state :: "gicr_state list"
  gr_num_vcpus :: nat

definition gicr_new :: "nat \<Rightarrow> gicr or_panic" where
  "gicr_new num_vcpus =
     (if num_vcpus \<le> GICR_MAX_VCPUS
      then Some \<lparr>gr_state = replicate GICR_MAX_VCPUS gicr_state_new, gr_num_vcpus = num_vcpus\<rparr> else None)"

definition typer_value :: "gicr \<Rightarrow> nat \<Rightarrow> u64" where
  "typer_value g vcpu_id =
     push_bit 32 (of_nat vcpu_id) OR push_bit 8 (of_nat vcpu_id) OR
     (if vcpu_id = gr_num_vcpus g - 1 then push_bit 4 1 else 0)"

definition decode_offset :: "gicr \<Rightarrow> u64 \<Rightarrow> (nat \<times> bool \<times> u64) option" where
  "decode_offset g off =
     (let vcpu_id = unat (off div GICR_PER_CPU) in
      if vcpu_id \<ge> gr_num_vcpus g then None
      else let within = off mod GICR_PER_CPU in
        if within < 0x10000 then Some (vcpu_id, False, within) else Some (vcpu_id, True, within - 0x10000))"

definition read_rd :: "gicr \<Rightarrow> nat \<Rightarrow> u64 \<Rightarrow> u8 \<Rightarrow> u64" where
  "read_rd g vcpu_id off sz =
     (let st = gr_state g ! vcpu_id in
      if off = 0 then ucast (gr_ctlr st)
      else if off = 4 then 0x43B
      else if off = 8 \<and> sz = 8 then typer_value g vcpu_id
      else if off = 8 \<and> sz = 4 then typer_value g vcpu_id AND 0xFFFFFFFF
      else if off = 0xC \<and> sz = 4 then drop_bit 32 (typer_value g vcpu_id)
      else if off = 0x10 then 0
      else if off = 0x14 then ucast (gr_waker st)
      else if off = 0xFFE8 then 0x30
      else 0)"

definition upd_state :: "nat \<Rightarrow> (gicr_state \<Rightarrow> gicr_state) \<Rightarrow> gicr \<Rightarrow> gicr" where
  "upd_state vcpu_id f g = g\<lparr>gr_state := (gr_state g)[vcpu_id := f (gr_state g ! vcpu_id)]\<rparr>"

definition write_rd :: "nat \<Rightarrow> u64 \<Rightarrow> u64 \<Rightarrow> gicr \<Rightarrow> gicr" where
  "write_rd vcpu_id off value g =
     (if off = 0 then upd_state vcpu_id (\<lambda>st. st\<lparr>gr_ctlr := ucast value\<rparr>) g
      else if off = 0x14 then
        (let sleep = (ucast value :: u32) AND push_bit 1 1 in
         upd_state vcpu_id (\<lambda>st. st\<lparr>gr_waker := if sleep = 0 then 0 else push_bit 1 1 OR push_bit 2 1\<rparr>) g)
      else g)"

definition read_sgi :: "gicr \<Rightarrow> nat \<Rightarrow> u64 \<Rightarrow> u64" where
  "read_sgi g vcpu_id off =
     (let st = gr_state g ! vcpu_id in ucast (
      if off = 0x080 then gr_igroupr0 st
      else if off = 0x100 then gr_isenabler0 st
      else if off = 0x180 then gr_isenabler0 st
      else if off = 0x200 then gr_ispendr0 st
      else if off = 0x280 then gr_ispendr0 st
      else if off = 0x300 then gr_isactiver0 st
      else if off = 0x380 then gr_isactiver0 st
      else if in_bank 0x400 0x41C off then rd_bank 8 (gr_ipriorityr st) (bank_idx 0x400 off)
      else if off = 0xC00 then gr_icfgr st ! 0
      else if off = 0xC04 then gr_icfgr st ! 1
      else 0 :: u32))"

definition write_sgi :: "nat \<Rightarrow> u64 \<Rightarrow> u64 \<Rightarrow> gicr \<Rightarrow> gicr" where
  "write_sgi vcpu_id off value g =
     (let val = ucast value :: u32 in
      upd_state vcpu_id (\<lambda>st.
        if off = 0x080 then st\<lparr>gr_igroupr0 := val\<rparr>
        else if off = 0x100 then st\<lparr>gr_isenabler0 := gr_isenabler0 st OR val\<rparr>
        else if off = 0x180 then st\<lparr>gr_isenabler0 := gr_isenabler0 st AND NOT val\<rparr>
        else if off = 0x200 then st\<lparr>gr_ispendr0 := gr_ispendr0 st OR val\<rparr>
        else if off = 0x280 then st\<lparr>gr_ispendr0 := gr_ispendr0 st AND NOT val\<rparr>
        else if off = 0x300 then st\<lparr>gr_isactiver0 := gr_isactiver0 st OR val\<rparr>
        else if off = 0x380 then st\<lparr>gr_isactiver0 := gr_isactiver0 st AND NOT val\<rparr>
        else if in_bank 0x400 0x41C off then st\<lparr>gr_ipriorityr := upd_bank 8 (\<lambda>_. val) (gr_ipriorityr st) (bank_idx 0x400 off)\<rparr>
        else if off = 0xC04 then st\<lparr>gr_icfgr := (gr_icfgr st)[1 := val]\<rparr>
        else st) g)"

definition gicr_read :: "gicr \<Rightarrow> u64 \<Rightarrow> u8 \<Rightarrow> u64 option" where
  "gicr_read g off sz = (case decode_offset g off of
     None \<Rightarrow> None
   | Some (vcpu_id, is_sgi, frame_off) \<Rightarrow>
       Some (if is_sgi then read_sgi g vcpu_id frame_off else read_rd g vcpu_id frame_off sz))"

definition gicr_write :: "u64 \<Rightarrow> u64 \<Rightarrow> u8 \<Rightarrow> gicr \<Rightarrow> gicr" where
  "gicr_write off value sz g = (case decode_offset g off of
     None \<Rightarrow> g
   | Some (vcpu_id, is_sgi, frame_off) \<Rightarrow>
       if is_sgi then write_sgi vcpu_id frame_off value g else write_rd vcpu_id frame_off value g)"

definition gicr_size :: "gicr \<Rightarrow> u64" where
  "gicr_size g = GICR_PER_CPU * of_nat (gr_num_vcpus g)"

section \<open>Isolation of the redistributors\<close>

definition gicr_ok :: "gicr \<Rightarrow> bool" where
  "gicr_ok g \<longleftrightarrow> length (gr_state g) = GICR_MAX_VCPUS \<and> gr_num_vcpus g \<le> GICR_MAX_VCPUS \<and>
     (\<forall>st\<in>set (gr_state g). length (gr_ipriorityr st) = 8 \<and> length (gr_icfgr st) = 2 \<and> gr_icfgr st ! 0 = 0xAAAAAAAA)"

lemma gicr_new_ok: "gicr_new n = Some g \<Longrightarrow> gicr_ok g"
  by (auto simp: gicr_new_def gicr_ok_def gicr_state_new_def split: if_splits)

lemma upd_state_ok:
  assumes "gicr_ok g" "vcpu_id < gr_num_vcpus g"
    and "\<And>st. length (gr_ipriorityr st) = 8 \<and> length (gr_icfgr st) = 2 \<and> gr_icfgr st ! 0 = 0xAAAAAAAA \<Longrightarrow>
      length (gr_ipriorityr (f st)) = 8 \<and> length (gr_icfgr (f st)) = 2 \<and> gr_icfgr (f st) ! 0 = 0xAAAAAAAA"
  shows "gicr_ok (upd_state vcpu_id f g)"
  using assms by (auto simp: gicr_ok_def upd_state_def dest!: set_update_subset)

lemma gicr_write_upd:
  assumes "gicr_write off v sz g \<noteq> g"
  shows "\<exists>f. gicr_write off v sz g = upd_state (unat (off div GICR_PER_CPU)) f g \<and>
    unat (off div GICR_PER_CPU) < gr_num_vcpus g \<and>
    (\<forall>st. length (gr_ipriorityr (f st)) = length (gr_ipriorityr st) \<and> length (gr_icfgr (f st)) = length (gr_icfgr st) \<and>
       gr_icfgr (f st) ! 0 = gr_icfgr st ! 0)"
proof -
  let ?i = "unat (off div GICR_PER_CPU)"
  obtain sgi fo where dec: "decode_offset g off = Some (?i, sgi, fo)" and i: "?i < gr_num_vcpus g"
    using assms by (auto simp: gicr_write_def decode_offset_def Let_def split: if_splits)
  hence w: "gicr_write off v sz g = (if sgi then write_sgi ?i fo v g else write_rd ?i fo v g)"
    by (simp add: gicr_write_def)
  show ?thesis
  proof (cases sgi)
    case True
    thus ?thesis unfolding w using i by (auto simp: write_sgi_def Let_def)
  next
    case False
    hence "fo = 0 \<or> fo = 0x14" using w assms by (simp add: write_rd_def split: if_splits)
    thus ?thesis
    proof
      assume "fo = 0"
      thus ?thesis using w False i by (auto simp: write_rd_def)
    next
      assume "fo = 0x14"
      thus ?thesis using w False i by (auto simp: write_rd_def Let_def)
    qed
  qed
qed

lemma gicr_write_ok: "gicr_ok g \<Longrightarrow> gicr_ok (gicr_write off v sz g)"
  using gicr_write_upd [of off v sz g] upd_state_ok by (cases "gicr_write off v sz g = g") auto

text \<open>A write through the region of one vCPU leaves the others alone.\<close>

lemma gicr_write_isolated:
  "unat (off div GICR_PER_CPU) \<noteq> j \<Longrightarrow> gr_state (gicr_write off v sz g) ! j = gr_state g ! j"
  using gicr_write_upd [of off v sz g] by (cases "gicr_write off v sz g = g") (auto simp: upd_state_def)

end
