(* ===== verification/Pl011.thy ===== *)
theory Pl011
  imports Ring_Buffers
begin

text \<open>The emulated PL011 serial port (\<open>devices/pl011/emulator.rs\<close>).  A byte the guest transmits is an output of
  the write operation; the physical port it is stored to is hardware.  The receive buffer is one more
  interpretation of the bounded queue.\<close>

definition UART_SIZE :: u64 where "UART_SIZE = 0x1000"
definition RX_BUF_SIZE :: nat where "RX_BUF_SIZE = 64"
definition INT_RX :: u32 where "INT_RX = 0x10"
definition INT_TX :: u32 where "INT_TX = 0x20"
definition UART_SPI_INTID :: u32 where "UART_SPI_INTID = 33"

record uart =
  ua_cr :: u32
  ua_lcr_h :: u32
  ua_ibrd :: u32
  ua_fbrd :: u32
  ua_ifls :: u32
  ua_imsc :: u32
  ua_ris :: u32
  ua_dmacr :: u32
  ua_rx_buf :: "u8 list"
  ua_rx_head :: nat
  ua_rx_tail :: nat

definition uart_new :: uart where
  "uart_new = \<lparr>ua_cr = 0x0301, ua_lcr_h = 0x60, ua_ibrd = 1, ua_fbrd = 0, ua_ifls = 0x12, ua_imsc = 0, ua_ris = 0,
     ua_dmacr = 0, ua_rx_buf = replicate RX_BUF_SIZE 0, ua_rx_head = 0, ua_rx_tail = 0\<rparr>"

definition push_rx :: "u8 \<Rightarrow> uart \<Rightarrow> uart" where
  "push_rx ch u =
     (let next_tail = (ua_rx_tail u + 1) mod RX_BUF_SIZE in
      if next_tail = ua_rx_head u then u
      else u\<lparr>ua_rx_buf := (ua_rx_buf u)[ua_rx_tail u := ch], ua_rx_tail := next_tail, ua_ris := ua_ris u OR INT_RX\<rparr>)"

definition pop_rx :: "uart \<Rightarrow> u8 option \<times> uart" where
  "pop_rx u =
     (if ua_rx_head u = ua_rx_tail u then (None, u)
      else let ch = ua_rx_buf u ! ua_rx_head u; head = (ua_rx_head u + 1) mod RX_BUF_SIZE in
        (Some ch, u\<lparr>ua_rx_head := head, ua_ris := if head = ua_rx_tail u then ua_ris u AND NOT INT_RX else ua_ris u\<rparr>))"

definition rx_has_data :: "uart \<Rightarrow> bool" where
  "rx_has_data u \<longleftrightarrow> ua_rx_head u \<noteq> ua_rx_tail u"

text \<open>TXFE is bit 7, RXFF bit 6, RXFE bit 4.\<close>

definition get_flags :: "uart \<Rightarrow> u32" where
  "get_flags u =
     0x80 OR (if \<not> rx_has_data u then 0x10 else 0) OR
     (if (ua_rx_tail u + RX_BUF_SIZE - ua_rx_head u) mod RX_BUF_SIZE \<ge> RX_BUF_SIZE - 1 then 0x40 else 0)"

definition uart_read :: "u64 \<Rightarrow> u8 \<Rightarrow> uart \<Rightarrow> u64 \<times> uart" where
  "uart_read off sz u =
     (if sz \<noteq> 1 \<and> sz \<noteq> 2 \<and> sz \<noteq> 4 then (0, u)
      else if off = 0x000 then (case pop_rx u of (Some ch, u') \<Rightarrow> (ucast ch, u') | (None, u') \<Rightarrow> (0, u'))
      else (if off = 0x004 then 0
        else if off = 0x018 then ucast (get_flags u)
        else if off = 0x020 then 0
        else if off = 0x024 then ucast (ua_ibrd u)
        else if off = 0x028 then ucast (ua_fbrd u)
        else if off = 0x02C then ucast (ua_lcr_h u)
        else if off = 0x030 then ucast (ua_cr u)
        else if off = 0x034 then ucast (ua_ifls u)
        else if off = 0x038 then ucast (ua_imsc u)
        else if off = 0x03C then ucast (ua_ris u)
        else if off = 0x040 then ucast (ua_ris u AND ua_imsc u)
        else if off = 0x048 then ucast (ua_dmacr u)
        else if off = 0xFE0 then 0x11
        else if off = 0xFE4 then 0x10
        else if off = 0xFE8 then 0x14
        else if off = 0xFEC then 0x00
        else if off = 0xFF0 then 0x0D
        else if off = 0xFF4 then 0xF0
        else if off = 0xFF8 then 0x05
        else if off = 0xFFC then 0xB1
        else 0, u))"

text \<open>A write returns whether it was accepted, the new state, and the byte stored to the physical port.\<close>

definition uart_write :: "u64 \<Rightarrow> u64 \<Rightarrow> u8 \<Rightarrow> uart \<Rightarrow> bool \<times> uart \<times> u8 option" where
  "uart_write off v sz u =
     (if sz \<noteq> 1 \<and> sz \<noteq> 2 \<and> sz \<noteq> 4 then (False, u, None)
      else if off = 0x000 then (True, u\<lparr>ua_ris := ua_ris u OR INT_TX\<rparr>, Some (ucast (v AND 0xFF)))
      else (True,
        (if off = 0x024 then u\<lparr>ua_ibrd := ucast (v AND 0xFFFF)\<rparr>
         else if off = 0x028 then u\<lparr>ua_fbrd := ucast (v AND 0x3F)\<rparr>
         else if off = 0x02C then u\<lparr>ua_lcr_h := ucast (v AND 0xFF)\<rparr>
         else if off = 0x030 then u\<lparr>ua_cr := ucast (v AND 0xFFFF)\<rparr>
         else if off = 0x034 then u\<lparr>ua_ifls := ucast (v AND 0x3F)\<rparr>
         else if off = 0x038 then u\<lparr>ua_imsc := ucast (v AND 0x7FF)\<rparr>
         else if off = 0x044 then u\<lparr>ua_ris := ua_ris u AND NOT (ucast v)\<rparr>
         else if off = 0x048 then u\<lparr>ua_dmacr := ucast (v AND 0x07)\<rparr>
         else u), None))"

definition uart_pending_irq :: "uart \<Rightarrow> u32 option" where
  "uart_pending_irq u = (if ua_ris u AND ua_imsc u \<noteq> 0 then Some UART_SPI_INTID else None)"

section \<open>The receive path\<close>

definition uart_contents :: "uart \<Rightarrow> u8 list" where
  "uart_contents u = ring_list RX_BUF_SIZE (ua_rx_buf u) (ua_rx_head u) (ua_rx_tail u)"

text \<open>Besides the shape of the buffer: the receive interrupt is raised only while there is something to receive.\<close>

definition uart_ok :: "uart \<Rightarrow> bool" where
  "uart_ok u \<longleftrightarrow> ring_ok RX_BUF_SIZE (ua_rx_buf u) (ua_rx_head u) (ua_rx_tail u) \<and>
     (bit (ua_ris u) 4 \<longrightarrow> rx_has_data u)"

lemma uart_new_ok: "uart_ok uart_new"
  by (simp add: uart_ok_def uart_new_def ring_ok_init RX_BUF_SIZE_def)

lemma bit_INT_RX: "bit INT_RX n \<longleftrightarrow> n = 4"
proof -
  have "bit (push_bit 4 1 :: u32) n \<longleftrightarrow> n = 4" unfolding bit_push_bit_iff bit_1_iff by auto
  thus ?thesis by (simp add: INT_RX_def)
qed

interpretation pl011_rx: bounded_fifo uart_ok uart_contents "\<lambda>_. True" "RX_BUF_SIZE - 1"
  "\<lambda>ch u. Some (push_rx ch u)" "\<lambda>u. Some (pop_rx u)"
proof unfold_locales
  fix u x xs
  assume ok: "uart_ok u"
  hence rok: "ring_ok RX_BUF_SIZE (ua_rx_buf u) (ua_rx_head u) (ua_rx_tail u)" by (simp add: uart_ok_def)
  show "length (uart_contents u) \<le> RX_BUF_SIZE - 1"
    using ring_len_le [OF rok] by (simp add: uart_contents_def)
  show "\<exists>s'. Some (push_rx x u) = Some s' \<and> uart_ok s' \<and> uart_contents s' =
     (if True \<and> length (uart_contents u) < RX_BUF_SIZE - 1 then uart_contents u @ [x] else uart_contents u)"
  proof (cases "(ua_rx_tail u + 1) mod RX_BUF_SIZE = ua_rx_head u")
    case True
    thus ?thesis using ring_full [OF rok] ok by (simp add: push_rx_def uart_contents_def)
  next
    case False
    hence "ring_len RX_BUF_SIZE (ua_rx_head u) (ua_rx_tail u) < RX_BUF_SIZE - 1"
      using ring_full [OF rok] ring_len_le [OF rok] by linarith
    thus ?thesis using False ring_push [OF rok False] ring_ok_push [OF rok, of x]
      by (auto simp: push_rx_def uart_contents_def uart_ok_def rx_has_data_def Let_def)
  qed
  show "uart_contents u = [] \<Longrightarrow> Some (pop_rx u) = Some (None, u)"
    using ring_empty [OF rok] by (simp add: pop_rx_def uart_contents_def)
  assume "uart_contents u = x # xs"
  hence "ring_list RX_BUF_SIZE (ua_rx_buf u) (ua_rx_head u) (ua_rx_tail u) = x # xs" by (simp add: uart_contents_def)
  note shape = ring_list_shape [OF rok this]
  show "\<exists>s'. Some (pop_rx u) = Some (Some x, s') \<and> uart_ok s' \<and> uart_contents s' = xs"
    using shape ring_ok_pop [OF rok] ok
    by (auto simp: pop_rx_def uart_contents_def uart_ok_def rx_has_data_def Let_def bit_simps bit_INT_RX)
qed

text \<open>The guest's register accesses keep the invariant; only the data register consumes a byte.\<close>

lemma pop_rx_ok: "uart_ok u \<Longrightarrow> uart_ok (snd (pop_rx u))"
proof -
  assume ok: "uart_ok u"
  show ?thesis
  proof (cases "uart_contents u")
    case Nil thus ?thesis using pl011_rx.deq_empty [OF ok] ok by simp
  next
    case (Cons x xs) thus ?thesis using pl011_rx.deq_head [OF ok] by fastforce
  qed
qed

lemma uart_read_ok: "uart_ok u \<Longrightarrow> uart_ok (snd (uart_read off sz u))"
  using pop_rx_ok [of u] by (auto simp: uart_read_def split: prod.splits option.splits)

lemma uart_write_ok: "uart_ok u \<Longrightarrow> uart_ok (fst (snd (uart_write off v sz u)))"
  by (auto simp: uart_write_def uart_ok_def rx_has_data_def bit_simps INT_TX_def)

text \<open>The flag register tells the guest the truth about the buffer.\<close>

lemma get_flags_spec:
  assumes "uart_ok u"
  shows "bit (get_flags u) 4 \<longleftrightarrow> uart_contents u = []" and "bit (get_flags u) 6 \<longleftrightarrow> length (uart_contents u) = RX_BUF_SIZE - 1"
proof -
  have rok: "ring_ok RX_BUF_SIZE (ua_rx_buf u) (ua_rx_head u) (ua_rx_tail u)" using assms by (simp add: uart_ok_def)
  show "bit (get_flags u) 4 \<longleftrightarrow> uart_contents u = []"
    using ring_empty [OF rok] by (simp add: get_flags_def rx_has_data_def uart_contents_def bit_simps)
  show "bit (get_flags u) 6 \<longleftrightarrow> length (uart_contents u) = RX_BUF_SIZE - 1"
    using ring_len_le [OF rok] by (auto simp: get_flags_def uart_contents_def bit_simps ring_len_def)
qed

text \<open>A byte that fits raises the interrupt if the guest unmasked it.\<close>

lemma push_rx_interrupts:
  assumes "uart_ok u" "length (uart_contents u) < RX_BUF_SIZE - 1" "bit (ua_imsc u) 4"
  shows "uart_pending_irq (push_rx ch u) = Some UART_SPI_INTID"
proof -
  have rok: "ring_ok RX_BUF_SIZE (ua_rx_buf u) (ua_rx_head u) (ua_rx_tail u)" using assms(1) by (simp add: uart_ok_def)
  have "(ua_rx_tail u + 1) mod RX_BUF_SIZE \<noteq> ua_rx_head u" using ring_full [OF rok] assms(2) by (auto simp: uart_contents_def)
  moreover have "bit ((ua_ris u OR INT_RX) AND ua_imsc u) 4" using assms(3) by (simp add: bit_simps bit_INT_RX)
  hence "(ua_ris u OR INT_RX) AND ua_imsc u \<noteq> 0" by (metis bit_0_eq bot_apply bot_bool_def)
  ultimately show ?thesis by (simp add: push_rx_def Let_def uart_pending_irq_def)
qed

end
