(* ===== verification/Pl031.thy ===== *)
theory Pl031
  imports Prelude
begin

text \<open>The emulated PL031 real-time clock (\<open>devices/pl031.rs\<close>).  The architectural counter and its frequency are
  hardware registers, so they are arguments of the operations that read them.\<close>

definition PL031_BASE :: u64 where "PL031_BASE = 0x09010000"
definition PL031_SIZE :: u64 where "PL031_SIZE = 0x1000"

record pl031 =
  rtc_load_value :: u64
  rtc_load_counter :: u64
  rtc_match_value :: u32
  rtc_control :: u32
  rtc_imsc :: u32
  rtc_ris :: u32

definition pl031_new :: "u64 \<Rightarrow> pl031" where
  "pl031_new cntvct = \<lparr>rtc_load_value = 0, rtc_load_counter = cntvct, rtc_match_value = 0, rtc_control = 1, rtc_imsc = 0, rtc_ris = 0\<rparr>"

text \<open>The addition of the elapsed seconds panics on overflow in a checked build.\<close>

definition current_time :: "u64 \<Rightarrow> u64 \<Rightarrow> pl031 \<Rightarrow> u64 or_panic" where
  "current_time freq cntvct r =
     (if rtc_control r AND 1 = 0 then Some (rtc_load_value r)
      else if freq = 0 then Some (rtc_load_value r)
      else let secs = (cntvct - rtc_load_counter r) div freq in
        if unat (rtc_load_value r) + unat secs < 2 ^ 64 then Some (rtc_load_value r + secs) else None)"

definition pl031_read :: "u64 \<Rightarrow> u64 \<Rightarrow> u64 \<Rightarrow> u8 \<Rightarrow> pl031 \<Rightarrow> u64 or_panic" where
  "pl031_read freq cntvct off sz r =
     (if sz \<noteq> 4 then Some 0
      else if off = 0x000 then current_time freq cntvct r
      else Some (if off = 0x004 then ucast (rtc_match_value r)
        else if off = 0x00C then ucast (rtc_control r)
        else if off = 0x010 then ucast (rtc_imsc r)
        else if off = 0x014 then ucast (rtc_ris r)
        else if off = 0x018 then ucast (rtc_ris r AND rtc_imsc r)
        else if off = 0xFE0 then 0x31
        else if off = 0xFE4 then 0x10
        else if off = 0xFE8 then 0x04
        else if off = 0xFEC then 0x00
        else if off = 0xFF0 then 0x0D
        else if off = 0xFF4 then 0xF0
        else if off = 0xFF8 then 0x05
        else if off = 0xFFC then 0xB1
        else 0))"

definition pl031_write :: "u64 \<Rightarrow> u64 \<Rightarrow> u64 \<Rightarrow> u8 \<Rightarrow> pl031 \<Rightarrow> bool \<times> pl031" where
  "pl031_write cntvct off v sz r =
     (if sz \<noteq> 4 then (False, r)
      else (True,
        if off = 0x004 then r\<lparr>rtc_match_value := ucast v\<rparr>
        else if off = 0x008 then r\<lparr>rtc_load_value := v AND 0xFFFFFFFF, rtc_load_counter := cntvct\<rparr>
        else if off = 0x00C then r\<lparr>rtc_control := ucast (v AND 1)\<rparr>
        else if off = 0x010 then r\<lparr>rtc_imsc := ucast (v AND 1)\<rparr>
        else if off = 0x01C then r\<lparr>rtc_ris := rtc_ris r AND NOT (ucast v)\<rparr>
        else r))"

section \<open>The clock\<close>

text \<open>The load value never exceeds 32 bits, so the addition cannot overflow as long as the frequency is at least two.\<close>

definition pl031_ok :: "pl031 \<Rightarrow> bool" where
  "pl031_ok r \<longleftrightarrow> unat (rtc_load_value r) < 2 ^ 32"

lemma pl031_new_ok: "pl031_ok (pl031_new c)"
  by (simp add: pl031_ok_def pl031_new_def)

lemma pl031_write_ok: "pl031_ok r \<Longrightarrow> pl031_ok (snd (pl031_write c off v sz r))"
proof -
  have "v AND 0xFFFFFFFF = take_bit 32 v" by (simp add: take_bit_eq_mask mask_eq_exp_minus_1)
  hence "unat (v AND 0xFFFFFFFF) = unat v mod 4294967296" by (simp add: unat_take_bit)
  hence "unat (v AND 0xFFFFFFFF) < 4294967296" by simp
  thus "pl031_ok r \<Longrightarrow> pl031_ok (snd (pl031_write c off v sz r))" by (simp add: pl031_ok_def pl031_write_def)
qed

lemma half_div: "2 \<le> unat f \<Longrightarrow> unat (x div f) < 2 ^ 63" for x f :: u64
proof -
  assume f: "2 \<le> unat f"
  have "unat x < 2 ^ 64" using unsigned_less [of x] by simp
  hence "unat x div 2 < 2 ^ 63" by simp
  moreover have "unat x div unat f \<le> unat x div 2" using f by (simp add: div_le_mono2)
  ultimately show ?thesis unfolding unat_div by linarith
qed

lemma current_time_total:
  assumes "pl031_ok r" "2 \<le> unat freq"
  shows "\<exists>t. current_time freq c r = Some t"
proof -
  have "unat (rtc_load_value r) + unat ((c - rtc_load_counter r) div freq) < 18446744073709551616"
    using assms(1) half_div [OF assms(2), of "c - rtc_load_counter r"] by (simp add: pl031_ok_def)
  thus ?thesis by (simp add: current_time_def Let_def)
qed

lemma pl031_read_total:
  assumes "pl031_ok r" "freq \<noteq> 1"
  shows "\<exists>v. pl031_read freq c off sz r = Some v"
proof (cases "freq = 0")
  case True
  hence "current_time freq c r = Some (rtc_load_value r)" by (simp add: current_time_def)
  thus ?thesis by (simp add: pl031_read_def)
next
  case False
  hence "2 \<le> unat freq" using assms(2) by (metis One_nat_def Suc_leI le_neq_implies_less not_gr_zero numeral_2_eq_2 unat_1 unat_eq_zero word_unat_eq_iff)
  thus ?thesis using current_time_total [OF assms(1)] by (simp add: pl031_read_def)
qed

text \<open>While the guest leaves the clock enabled and the counter has not wrapped since the last load, time never goes back.\<close>

lemma current_time_mono:
  assumes "current_time freq c r = Some t" "current_time freq c' r = Some t'"
    and "c - rtc_load_counter r \<le> c' - rtc_load_counter r"
  shows "t \<le> t'"
proof (cases "rtc_control r AND 1 = 0 \<or> freq = 0")
  case True
  hence "current_time freq x r = Some (rtc_load_value r)" for x by (auto simp: current_time_def)
  thus ?thesis using assms by simp
next
  case False
  let ?s = "\<lambda>x. (x - rtc_load_counter r) div freq"
  have b: "unat (rtc_load_value r) + unat (?s c) < 2 ^ 64" "unat (rtc_load_value r) + unat (?s c') < 2 ^ 64"
    and t: "t = rtc_load_value r + ?s c" "t' = rtc_load_value r + ?s c'"
    using assms(1,2) False by (auto simp: current_time_def Let_def split: if_splits)
  have "unat (?s c) \<le> unat (?s c')" using assms(3) by (simp add: unat_div word_le_nat_alt div_le_mono)
  thus ?thesis using unat_add_exact [OF b(1)] unat_add_exact [OF b(2)] by (simp add: t word_le_nat_alt)
qed

text \<open>Writing zero to the control register does set the clock back: a stopped clock shows the load value, not the time at which it stopped.\<close>

lemma stop_sets_back:
  "current_time freq c' (snd (pl031_write c 0x00C 0 4 r)) = Some (rtc_load_value r)"
  by (simp add: current_time_def pl031_write_def)

end
