(* ===== verification/Devices.thy ===== *)
theory Devices
  imports Virtio_Mmio Gic_Distributor Gic_Redistributor Pl011 Pl031
begin

text \<open>The device manager (\<open>devices/mod.rs\<close>): the enumeration of device types, their common
  interface, and the table that routes an access by address.  What a device does beyond its own state is
  a list of effects, carried out by the caller in order: an interrupt to inject, a byte for the
  physical serial port, a write to the physical distributor.\<close>

datatype device =
    Uart uart
  | Gicd gicd
  | Gicr gicr
  | VirtioBlk "virtio_blk transport"
  | VirtioNet "virtio_net transport"
  | RtcPl031 pl031

text \<open>What the devices read from outside: the addresses found in the device tree and whether
  arithmetic is checked, and the counter of the clock.\<close>

record platform =
  pf_uart_base :: u64
  pf_gicd_base :: u64
  pf_gicr_base :: u64
  pf_checked :: bool

record clock =
  ck_freq :: u64
  ck_now :: u64

datatype effect = InjectSpi u32 | UartOut u8 | PhysGicd u64 u8 u64

type_synonym world = "gmem \<times> net_state"

fun base_address :: "platform \<Rightarrow> device \<Rightarrow> u64" where
  "base_address pf (Uart _) = pf_uart_base pf"
| "base_address pf (Gicd _) = pf_gicd_base pf"
| "base_address pf (Gicr _) = pf_gicr_base pf"
| "base_address pf (VirtioBlk t) = tr_base t"
| "base_address pf (VirtioNet t) = tr_base t"
| "base_address pf (RtcPl031 _) = PL031_BASE"

fun device_size :: "device \<Rightarrow> u64" where
  "device_size (Uart _) = UART_SIZE"
| "device_size (Gicd _) = GICD_SIZE"
| "device_size (Gicr g) = gicr_size g"
| "device_size (VirtioBlk _) = 0x200"
| "device_size (VirtioNet _) = 0x200"
| "device_size (RtcPl031 _) = PL031_SIZE"

definition device_contains :: "platform \<Rightarrow> u64 \<Rightarrow> device \<Rightarrow> bool or_panic" where
  "device_contains pf addr d =
     (if addr \<ge> base_address pf d
      then do { e \<leftarrow> cadd (pf_checked pf) (base_address pf d) (device_size d); Some (addr < e) }
      else Some False)"

fun device_read :: "clock \<Rightarrow> u64 \<Rightarrow> u8 \<Rightarrow> device \<Rightarrow> (u64 option \<times> device) or_panic" where
  "device_read ck off sz (Uart u) = (case uart_read off sz u of (v, u') \<Rightarrow> Some (Some v, Uart u'))"
| "device_read ck off sz (Gicd g) = Some (Some (gicd_read g off sz), Gicd g)"
| "device_read ck off sz (Gicr g) = Some (gicr_read g off sz, Gicr g)"
| "device_read ck off sz (VirtioBlk t) = Some (Some (mmio_read (blk_ops True) off sz t), VirtioBlk t)"
| "device_read ck off sz (VirtioNet t) = Some (Some (mmio_read net_ops off sz t), VirtioNet t)"
| "device_read ck off sz (RtcPl031 r) = do { v \<leftarrow> pl031_read (ck_freq ck) (ck_now ck) off sz r; Some (Some v, RtcPl031 r) }"

abbreviation spi_effect :: "u32 option \<Rightarrow> effect list" where
  "spi_effect irq \<equiv> (case irq of Some intid \<Rightarrow> [InjectSpi intid] | None \<Rightarrow> [])"

text \<open>The boolean a device's write returns is ignored by the manager, its only caller, and left out.\<close>

fun device_write :: "platform \<Rightarrow> clock \<Rightarrow> u64 \<Rightarrow> u64 \<Rightarrow> u8 \<Rightarrow> device \<Rightarrow> world \<Rightarrow> (device \<times> world \<times> effect list) option" where
  "device_write pf ck off v sz (Uart u) w = (case uart_write off v sz u of
     (_, u', out) \<Rightarrow> Some (Uart u', w, case out of Some ch \<Rightarrow> [UartOut ch] | None \<Rightarrow> []))"
| "device_write pf ck off v sz (Gicd g) w =
     Some (Gicd (gicd_write off v sz g), w, case gicd_forward off v sz of Some (a, s, x) \<Rightarrow> [PhysGicd a s x] | None \<Rightarrow> [])"
| "device_write pf ck off v sz (Gicr g) w = Some (Gicr (gicr_write off v sz g), w, [])"
| "device_write pf ck off v sz (VirtioBlk t) w = do {
     (t, m, irq) \<leftarrow> mmio_write (blk_ops (pf_checked pf)) off v sz t (fst w);
     Some (VirtioBlk t, (m, snd w), spi_effect irq) }"
| "device_write pf ck off v sz (VirtioNet t) w = do {
     (t, w, irq) \<leftarrow> mmio_write net_ops off v sz t w;
     Some (VirtioNet t, w, spi_effect irq) }"
| "device_write pf ck off v sz (RtcPl031 r) w = Some (RtcPl031 (snd (pl031_write (ck_now ck) off v sz r)), w, [])"

fun device_pending_irq :: "device \<Rightarrow> u32 option" where
  "device_pending_irq (Uart u) = uart_pending_irq u"
| "device_pending_irq _ = None"

definition MAX_DEVICES :: nat where "MAX_DEVICES = 8"

definition virtio_slot :: "nat \<Rightarrow> u64 \<times> u32" where
  "virtio_slot n = (0x0a000000 + of_nat n * 0x200, 48 + of_nat n)"

record device_manager =
  dm_devices :: "device option list"
  dm_count :: nat

definition dm_new :: device_manager where
  "dm_new = \<lparr>dm_devices = replicate MAX_DEVICES None, dm_count = 0\<rparr>"

definition dm_reset :: "device_manager \<Rightarrow> device_manager" where
  "dm_reset dm = dm\<lparr>dm_devices := map (\<lambda>_. None) (dm_devices dm), dm_count := 0\<rparr>"

definition register_device :: "device \<Rightarrow> device_manager \<Rightarrow> nat option \<times> device_manager" where
  "register_device dev dm =
     (if dm_count dm \<ge> MAX_DEVICES then (None, dm)
      else (Some (dm_count dm), dm\<lparr>dm_devices := (dm_devices dm)[dm_count dm := Some dev], dm_count := dm_count dm + 1\<rparr>))"

definition attach_virtio_blk :: "u64 \<Rightarrow> u64 \<Rightarrow> device_manager \<Rightarrow> device_manager" where
  "attach_virtio_blk dbase dsize dm =
     snd (register_device (VirtioBlk (transport_new (fst (virtio_slot 0)) (virtio_blk_new dbase dsize) (snd (virtio_slot 0)))) dm)"

definition attach_virtio_net :: "nat \<Rightarrow> device_manager \<Rightarrow> net_state \<Rightarrow> device_manager \<times> net_state" where
  "attach_virtio_net vm_id dm net =
     (snd (register_device (VirtioNet (transport_new (fst (virtio_slot 1)) (virtio_net_new vm_id) (snd (virtio_slot 1)))) dm),
      net\<lparr>switch := vswitch_add_port vm_id (switch net)\<rparr>)"

text \<open>The loops over the slots look for the first device of a type, or the first that claims an
  address; the mutable reference the code returns is the slot's index here.\<close>

definition find_dev :: "(device \<Rightarrow> bool) \<Rightarrow> device option list \<Rightarrow> nat option" where
  "find_dev P ds = first_idx (\<lambda>slot. case slot of Some d \<Rightarrow> P d | None \<Rightarrow> False) ds"

definition virtio_net_mut :: "device_manager \<Rightarrow> (nat \<times> virtio_net transport) option" where
  "virtio_net_mut dm = (case find_dev (\<lambda>d. case d of VirtioNet _ \<Rightarrow> True | _ \<Rightarrow> False) (dm_devices dm) of
     Some i \<Rightarrow> (case dm_devices dm ! i of Some (VirtioNet t) \<Rightarrow> Some (i, t) | _ \<Rightarrow> None)
   | None \<Rightarrow> None)"

definition uart_mut :: "device_manager \<Rightarrow> (nat \<times> uart) option" where
  "uart_mut dm = (case find_dev (\<lambda>d. case d of Uart _ \<Rightarrow> True | _ \<Rightarrow> False) (dm_devices dm) of
     Some i \<Rightarrow> (case dm_devices dm ! i of Some (Uart u) \<Rightarrow> Some (i, u) | _ \<Rightarrow> None)
   | None \<Rightarrow> None)"

definition dm_route_spi :: "device_manager \<Rightarrow> u32 \<Rightarrow> nat" where
  "dm_route_spi dm intid = (case find_dev (\<lambda>d. case d of Gicd _ \<Rightarrow> True | _ \<Rightarrow> False) (dm_devices dm) of
     Some i \<Rightarrow> (case dm_devices dm ! i of Some (Gicd g) \<Rightarrow> gicd_route_spi g intid | _ \<Rightarrow> 0)
   | None \<Rightarrow> 0)"

definition put_dev :: "nat \<Rightarrow> device \<Rightarrow> device_manager \<Rightarrow> device_manager" where
  "put_dev i d dm = dm\<lparr>dm_devices := (dm_devices dm)[i := Some d]\<rparr>"

fun scan_slots :: "platform \<Rightarrow> u64 \<Rightarrow> device option list \<Rightarrow> nat \<Rightarrow> (nat \<times> device) option or_panic" where
  "scan_slots pf addr [] i = Some None"
| "scan_slots pf addr (None # ds) i = scan_slots pf addr ds (Suc i)"
| "scan_slots pf addr (Some d # ds) i = do {
     c \<leftarrow> device_contains pf addr d;
     if c then Some (Some (i, d)) else scan_slots pf addr ds (Suc i) }"

definition handle_mmio :: "platform \<Rightarrow> clock \<Rightarrow> u64 \<Rightarrow> u64 \<Rightarrow> u8 \<Rightarrow> bool \<Rightarrow> device_manager \<Rightarrow> world \<Rightarrow>
    (u64 option \<times> device_manager \<times> world \<times> effect list) option" where
  "handle_mmio pf ck addr v sz is_write dm w = do {
     hit \<leftarrow> scan_slots pf addr (dm_devices dm) 0;
     case hit of
       Some (i, d) \<Rightarrow>
         let off = addr - base_address pf d in
         if is_write then do {
           (d', w', es) \<leftarrow> device_write pf ck off v sz d w;
           Some (None, put_dev i d' dm, w', es) }
         else do {
           (r, d') \<leftarrow> device_read ck off sz d;
           Some (r, put_dev i d' dm, w, []) }
     | None \<Rightarrow> Some (if is_write then None else Some 0, dm, w, []) }"

section \<open>Well-formedness\<close>

fun device_ok :: "device \<Rightarrow> bool" where
  "device_ok (Uart u) \<longleftrightarrow> uart_ok u"
| "device_ok (Gicd g) \<longleftrightarrow> gicd_ok g"
| "device_ok (Gicr g) \<longleftrightarrow> gicr_ok g"
| "device_ok (VirtioBlk t) \<longleftrightarrow> length (tr_queues t) = MAX_QUEUES"
| "device_ok (VirtioNet t) \<longleftrightarrow> length (tr_queues t) = MAX_QUEUES \<and> vn_port_id (tr_device t) < MAX_PORTS"
| "device_ok (RtcPl031 r) \<longleftrightarrow> pl031_ok r"

definition region :: "platform \<Rightarrow> device \<Rightarrow> u64 set" where
  "region pf d = {a. base_address pf d \<le> a \<and> unat a < unat (base_address pf d) + unat (device_size d)}"

text \<open>Every device is well formed and its region ends below \<open>2^64\<close>.\<close>

definition dm_ok :: "platform \<Rightarrow> device_manager \<Rightarrow> bool" where
  "dm_ok pf dm \<longleftrightarrow> length (dm_devices dm) = MAX_DEVICES \<and> dm_count dm \<le> MAX_DEVICES \<and>
     (\<forall>d. Some d \<in> set (dm_devices dm) \<longrightarrow>
        device_ok d \<and> unat (base_address pf d) + unat (device_size d) < 2 ^ 64)"

lemma dm_new_ok: "dm_ok pf dm_new"
  by (simp add: dm_ok_def dm_new_def)

lemma put_dev_ok:
  "dm_ok pf dm \<Longrightarrow> device_ok d \<Longrightarrow> unat (base_address pf d) + unat (device_size d) < 2 ^ 64 \<Longrightarrow> dm_ok pf (put_dev i d dm)"
  by (auto simp: dm_ok_def put_dev_def dest!: set_update_subset)

lemma register_device_ok:
  "dm_ok pf dm \<Longrightarrow> device_ok d \<Longrightarrow> unat (base_address pf d) + unat (device_size d) < 2 ^ 64 \<Longrightarrow>
   dm_ok pf (snd (register_device d dm))"
  by (auto simp: dm_ok_def register_device_def dest!: set_update_subset)

lemma contains_region:
  "unat (base_address pf d) + unat (device_size d) < 2 ^ 64 \<Longrightarrow> device_contains pf a d = Some (a \<in> region pf d)"
  using unat_add_exact [of "base_address pf d" "device_size d"]
  by (auto simp: device_contains_def region_def cadd_def word_less_nat_alt)

lemma scan_slots_spec:
  assumes "\<forall>d. Some d \<in> set ds \<longrightarrow> unat (base_address pf d) + unat (device_size d) < 2 ^ 64"
  shows "scan_slots pf a ds i = Some (case find_dev (\<lambda>d. a \<in> region pf d) ds of
    None \<Rightarrow> None | Some k \<Rightarrow> Some (i + k, the (ds ! k)))"
  using assms
proof (induction ds arbitrary: i)
  case (Cons s ds)
  have IH: "scan_slots pf a ds (Suc i) = Some (case find_dev (\<lambda>d. a \<in> region pf d) ds of
    None \<Rightarrow> None | Some k \<Rightarrow> Some (Suc i + k, the (ds ! k)))" using Cons by simp
  show ?case
  proof (cases s)
    case None
    thus ?thesis using IH by (simp add: find_dev_def split: option.splits)
  next
    case (Some d)
    hence "device_contains pf a d = Some (a \<in> region pf d)" using Cons.prems contains_region [of pf d] by simp
    thus ?thesis using IH Some by (simp add: find_dev_def split: option.splits)
  qed
qed (simp add: find_dev_def)

lemma device_read_ok:
  assumes "device_ok d" "device_read ck off sz d = Some (r, d')"
  shows "device_ok d' \<and> base_address pf d' = base_address pf d \<and> device_size d' = device_size d"
proof (cases d)
  case (Uart u)
  moreover obtain v u' where "uart_read off sz u = (v, u')" by fastforce
  ultimately show ?thesis using assms uart_read_ok [of u off sz] by auto
next
  case (RtcPl031 c)
  thus ?thesis using assms by (auto simp: bind_eq_Some_conv)
qed (use assms in auto)

lemma device_read_total:
  assumes "device_ok d" "ck_freq ck \<noteq> 1"
  shows "\<exists>r d'. device_read ck off sz d = Some (r, d')"
proof (cases d)
  case (Uart u)
  moreover obtain v u' where "uart_read off sz u = (v, u')" by fastforce
  ultimately show ?thesis by simp
next
  case (RtcPl031 c)
  hence "\<exists>v. pl031_read (ck_freq ck) (ck_now ck) off sz c = Some v" using assms pl031_read_total by simp
  thus ?thesis using RtcPl031 by auto
qed auto

lemma with_queue_length [simp]: "length (tr_queues (with_queue ops f t)) = length (tr_queues t)"
  by (simp add: with_queue_def split: option.split)

lemma with_queue_base [simp]: "tr_base (with_queue ops f t) = tr_base t" "tr_device (with_queue ops f t) = tr_device t"
  by (simp_all add: with_queue_def split: option.split)

lemma notify_queue_ok:
  "notify_queue ops i t w = Some (t', w', irq) \<Longrightarrow>
   length (tr_queues t') = length (tr_queues t) \<and> tr_base t' = tr_base t \<and> tr_device t' = tr_device t"
  by (auto simp: notify_queue_def Let_def signal_interrupt_def bind_eq_Some_conv split: if_splits)

definition same_shape :: "'d transport \<Rightarrow> 'd transport \<Rightarrow> bool" where
  "same_shape t t' \<longleftrightarrow> length (tr_queues t') = length (tr_queues t) \<and> tr_base t' = tr_base t \<and> tr_device t' = tr_device t"

lemma if_same_shape: "same_shape t x \<Longrightarrow> same_shape t y \<Longrightarrow> same_shape t (if c then x else y)"
  by simp

lemma mmio_write_ok:
  assumes "mmio_write ops off v sz t w = Some (t', w', irq)"
  shows "length (tr_queues t') = length (tr_queues t) \<and> tr_base t' = tr_base t \<and> tr_device t' = tr_device t"
proof (cases "off \<ge> CONFIG_SPACE \<or> sz \<noteq> 4")
  case True
  thus ?thesis using assms by (auto simp: mmio_write_def)
next
  case False
  show ?thesis
  proof (cases "off = QUEUE_NOTIFY")
    case True
    hence "notify_queue ops (ucast (ucast v :: u32)) t w = Some (t', w', irq)"
      using assms False by (simp add: mmio_write_def Let_def)
    thus ?thesis by (rule notify_queue_ok)
  next
    case nn: False
    have "same_shape t (fst (the (mmio_write ops off v sz t w)))"
      unfolding mmio_write_def Let_def if_not_P [OF False] if_not_P [OF nn] option.sel fst_conv
      by (intro if_same_shape) (simp_all add: same_shape_def transport_reset_def)
    hence "same_shape t t'" using assms by simp
    thus ?thesis by (simp add: same_shape_def)
  qed
qed

lemma mmio_write_total:
  assumes "off \<noteq> QUEUE_NOTIFY"
  shows "\<exists>t'. mmio_write ops off v sz t w = Some (t', w, None)"
proof (cases "off \<ge> CONFIG_SPACE \<or> sz \<noteq> 4")
  case True
  thus ?thesis by (auto simp: mmio_write_def)
next
  case False
  show ?thesis
    unfolding mmio_write_def Let_def if_not_P [OF False] if_not_P [OF assms] by (intro exI) (rule refl)
qed

lemma gicr_write_num [simp]: "gr_num_vcpus (gicr_write off v sz g) = gr_num_vcpus g"
  using gicr_write_upd [of off v sz g] by (cases "gicr_write off v sz g = g") (auto simp: upd_state_def)

lemma device_write_ok:
  assumes "device_ok d" "device_write pf ck off v sz d w = Some (d', w', es)"
  shows "device_ok d' \<and> base_address pf d' = base_address pf d \<and> device_size d' = device_size d"
proof (cases d)
  case (Uart u)
  moreover obtain b u' o' where "uart_write off v sz u = (b, u', o')" by (metis prod_cases3)
  ultimately show ?thesis using assms uart_write_ok [of u off v sz] by auto
next
  case (VirtioBlk t)
  thus ?thesis using assms mmio_write_ok by (fastforce simp: bind_eq_Some_conv)
next
  case (VirtioNet t)
  thus ?thesis using assms mmio_write_ok by (fastforce simp: bind_eq_Some_conv)
qed (use assms in \<open>auto simp: gicd_write_ok gicr_write_ok pl031_write_ok gicr_size_def\<close>)

text \<open>Frames the network device sends keep the switch and the rings well formed.\<close>

lemma net_notify_ok:
  assumes "net_queue_notify dev i q ms = Some (q', ms')" "net_ok (snd ms)" "vn_port_id dev < MAX_PORTS"
  shows "net_ok (snd ms')"
proof (cases "i = 1")
  case True
  hence run: "avail_loop (tx_chain dev) q ms = Some (q', ms')" using assms(1) by (simp add: net_queue_notify_def process_tx_def)
  have step: "net_ok (snd b)" if "net_ok (snd a)" "tx_chain dev p c a = Some b" for p c a b
    using forward_step [OF that(1) assms(3), of "tx_frame (fst a) c"] that
    by (auto simp: tx_chain_def Let_def bind_eq_Some_conv split: if_splits)
  have "net_ok (snd (snd (q', ms')))"
    by (rule avail_loop_inv [OF run, where I = "\<lambda>ms. net_ok (snd ms)"]) (use assms(2) step in blast)+
  thus ?thesis by simp
qed (use assms in \<open>simp add: net_queue_notify_def\<close>)

lemma mmio_write_net_ok:
  assumes "mmio_write net_ops off v sz t w = Some (t', w', irq)" "net_ok (snd w)" "vn_port_id (tr_device t) < MAX_PORTS"
  shows "net_ok (snd w')"
proof (cases "off = QUEUE_NOTIFY \<and> sz = 4")
  case True
  hence "notify_queue net_ops (ucast (ucast v :: u32)) t w = Some (t', w', irq)"
    using assms(1) by (simp add: mmio_write_def Let_def QUEUE_NOTIFY_def CONFIG_SPACE_def)
  then consider "w' = w" | q q' where "net_queue_notify (tr_device t) (ucast (ucast v :: u32)) q w = Some (q', w')"
    by (auto simp: notify_queue_def net_ops_def signal_interrupt_def Let_def bind_eq_Some_conv split: if_splits)
  thus ?thesis using net_notify_ok [OF _ assms(2,3)] assms(2) by cases auto
next
  case False
  have "w' = w"
  proof (cases "sz = 4")
    case True
    thus ?thesis using mmio_write_total [of off net_ops v sz t w] False assms(1) by auto
  qed (use assms(1) in \<open>simp add: mmio_write_def\<close>)
  thus ?thesis using assms(2) by simp
qed

lemma device_write_net_ok:
  assumes "device_ok d" "device_write pf ck off v sz d w = Some (d', w', es)" "net_ok (snd w)"
  shows "net_ok (snd w')"
proof (cases d)
  case (VirtioNet t)
  then obtain t' irq where "mmio_write net_ops off v sz t w = Some (t', w', irq)"
    using assms(2) by (auto simp: bind_eq_Some_conv)
  thus ?thesis using mmio_write_net_ok assms(1,3) VirtioNet by auto
qed (use assms in \<open>auto simp: bind_eq_Some_conv split: prod.splits\<close>)

text \<open>The one access that may not return or may panic, because it runs over a queue in guest memory.\<close>

definition notifies :: "platform \<Rightarrow> u64 \<Rightarrow> device \<Rightarrow> bool" where
  "notifies pf a d \<longleftrightarrow> (case d of VirtioBlk _ \<Rightarrow> a - base_address pf d = QUEUE_NOTIFY
     | VirtioNet _ \<Rightarrow> a - base_address pf d = QUEUE_NOTIFY | _ \<Rightarrow> False)"

lemma device_write_total:
  assumes "\<not> notifies pf a d"
  shows "\<exists>d' es. device_write pf ck (a - base_address pf d) v sz d w = Some (d', w, es)"
proof (cases d)
  case (Uart u)
  moreover obtain b u' o' where "uart_write (a - base_address pf d) v sz u = (b, u', o')" by (metis prod_cases3)
  ultimately show ?thesis by simp
next
  case (VirtioBlk t)
  hence "a - tr_base t \<noteq> QUEUE_NOTIFY" using assms by (simp add: notifies_def)
  from mmio_write_total [OF this, of "blk_ops (pf_checked pf)" v sz t "fst w"] VirtioBlk show ?thesis by auto
next
  case (VirtioNet t)
  hence "a - tr_base t \<noteq> QUEUE_NOTIFY" using assms by (simp add: notifies_def)
  from mmio_write_total [OF this, of net_ops v sz t w] VirtioNet show ?thesis by auto
qed auto


section \<open>Routing of an access\<close>

definition claims :: "platform \<Rightarrow> device_manager \<Rightarrow> u64 \<Rightarrow> nat option" where
  "claims pf dm a = find_dev (\<lambda>d. a \<in> region pf d) (dm_devices dm)"

lemma find_dev_Some:
  "find_dev P ds = Some i \<Longrightarrow> i < length ds \<and> (\<exists>d. ds ! i = Some d \<and> P d) \<and> (\<forall>j<i. \<forall>d. ds ! j = Some d \<longrightarrow> \<not> P d)"
  unfolding find_dev_def first_idx_Some by (fastforce split: option.splits)

lemma claimsD:
  assumes "dm_ok pf dm" "claims pf dm a = Some i"
  shows "\<exists>d. i < length (dm_devices dm) \<and> dm_devices dm ! i = Some d \<and> a \<in> region pf d \<and> device_ok d \<and>
    unat (base_address pf d) + unat (device_size d) < 2 ^ 64"
proof -
  obtain d where d: "i < length (dm_devices dm)" "dm_devices dm ! i = Some d" "a \<in> region pf d"
    using find_dev_Some assms(2) unfolding claims_def by blast
  hence "Some d \<in> set (dm_devices dm)" by (metis nth_mem)
  thus ?thesis using d assms(1) unfolding dm_ok_def by blast
qed

lemma handle_mmio_claims:
  assumes "dm_ok pf dm"
  shows "handle_mmio pf ck a v sz is_write dm w = (case claims pf dm a of
     Some i \<Rightarrow>
       let d = the (dm_devices dm ! i); off = a - base_address pf d in
       if is_write then do {
         (d', w', es) \<leftarrow> device_write pf ck off v sz d w;
         Some (None, put_dev i d' dm, w', es) }
       else do {
         (r, d') \<leftarrow> device_read ck off sz d;
         Some (r, put_dev i d' dm, w, []) }
   | None \<Rightarrow> Some (if is_write then None else Some 0, dm, w, []))"
proof -
  have "scan_slots pf a (dm_devices dm) 0 =
      Some (case claims pf dm a of None \<Rightarrow> None | Some k \<Rightarrow> Some (k, the (dm_devices dm ! k)))"
    using scan_slots_spec [of "dm_devices dm" pf a 0] assms by (simp add: dm_ok_def claims_def cong: option.case_cong)
  thus ?thesis by (simp add: handle_mmio_def Let_def split: option.split)
qed

text \<open>What an access may do to the table: one device is replaced by a well-formed device at the same place.\<close>

definition only_at :: "platform \<Rightarrow> u64 \<Rightarrow> device_manager \<Rightarrow> device_manager \<Rightarrow> bool" where
  "only_at pf a dm dm' \<longleftrightarrow> dm_ok pf dm' \<and> dm_count dm' = dm_count dm \<and>
     map (map_option (region pf)) (dm_devices dm') = map (map_option (region pf)) (dm_devices dm) \<and>
     (\<forall>i<MAX_DEVICES. Some i \<noteq> claims pf dm a \<longrightarrow> dm_devices dm' ! i = dm_devices dm ! i)"

lemma put_dev_only_at:
  assumes "dm_ok pf dm" "claims pf dm a = Some i" "dm_devices dm ! i = Some d"
    and "device_ok d'" "base_address pf d' = base_address pf d" "device_size d' = device_size d"
  shows "only_at pf a dm (put_dev i d' dm)"
proof -
  have i: "i < length (dm_devices dm)" "unat (base_address pf d) + unat (device_size d) < 2 ^ 64"
    using claimsD [OF assms(1,2)] assms(3) by auto
  have "map_option (region pf) (Some d') = map_option (region pf) (dm_devices dm ! i)"
    using assms by (simp add: region_def)
  hence "(map (map_option (region pf)) (dm_devices dm))[i := map_option (region pf) (Some d')] =
      map (map_option (region pf)) (dm_devices dm)"
    using i(1) by (metis list_update_id nth_map)
  thus ?thesis
    using put_dev_ok [OF assms(1) assms(4)] assms i by (simp add: only_at_def put_dev_def map_update)
qed

lemma handle_mmio_only_at:
  assumes ok: "dm_ok pf dm" and run: "handle_mmio pf ck a v sz is_write dm w = Some (r, dm', w', es)"
  shows "only_at pf a dm dm'"
proof (cases "claims pf dm a")
  case None
  hence "dm' = dm" using run by (simp add: handle_mmio_claims [OF ok])
  thus ?thesis using ok None by (simp add: only_at_def)
next
  case (Some i)
  then obtain d where d: "dm_devices dm ! i = Some d" "device_ok d" using claimsD [OF ok] by blast
  consider d' where "dm' = put_dev i d' dm" "device_write pf ck (a - base_address pf d) v sz d w = Some (d', w', es)"
    | d' where "dm' = put_dev i d' dm" "device_read ck (a - base_address pf d) sz d = Some (r, d')"
    using run Some d by (auto simp: handle_mmio_claims [OF ok] Let_def bind_eq_Some_conv split: if_splits)
  thus ?thesis
    using put_dev_only_at [OF ok Some d(1)] device_write_ok [OF d(2)] device_read_ok [OF d(2)] by cases metis+
qed

lemma handle_mmio_returns:
  assumes ok: "dm_ok pf dm" and "ck_freq ck \<noteq> 1"
    and "\<forall>d. Some d \<in> set (dm_devices dm) \<longrightarrow> is_write \<longrightarrow> \<not> notifies pf a d"
  shows "\<exists>r dm' es. handle_mmio pf ck a v sz is_write dm w = Some (r, dm', w, es)"
proof (cases "claims pf dm a")
  case None
  thus ?thesis by (simp add: handle_mmio_claims [OF ok])
next
  case (Some i)
  then obtain d where d: "i < length (dm_devices dm)" "dm_devices dm ! i = Some d" "device_ok d"
    using claimsD [OF ok] by blast
  show ?thesis
  proof (cases is_write)
    case True
    hence "\<not> notifies pf a d" using assms(3) d by (metis nth_mem)
    then obtain d' es where "device_write pf ck (a - base_address pf d) v sz d w = Some (d', w, es)"
      using device_write_total by blast
    thus ?thesis using True Some d by (simp add: handle_mmio_claims [OF ok])
  next
    case False
    obtain r d' where "device_read ck (a - base_address pf d) sz d = Some (r, d')"
      using device_read_total [OF d(3) assms(2)] by blast
    thus ?thesis using False Some d by (simp add: handle_mmio_claims [OF ok])
  qed
qed


text \<open>The devices a new VM starts with.\<close>

definition vm_devices :: "u32 \<Rightarrow> gicr \<Rightarrow> u64 \<Rightarrow> device_manager" where
  "vm_devices num_cpus gr cntvct =
     snd (register_device (RtcPl031 (pl031_new cntvct))
       (snd (register_device (Gicr gr)
         (snd (register_device (Gicd (gicd_new num_cpus))
           (snd (register_device (Uart uart_new) (dm_reset dm_new))))))))"

definition qemu_virt :: platform where
  "qemu_virt = \<lparr>pf_uart_base = 0x09000000, pf_gicd_base = 0x08000000, pf_gicr_base = 0x080A0000, pf_checked = True\<rparr>"

lemma vm_devices_slots:
  "dm_devices (vm_devices n gr c) =
     [Some (Uart uart_new), Some (Gicd (gicd_new n)), Some (Gicr gr), Some (RtcPl031 (pl031_new c)), None, None, None, None]"
  by (simp add: vm_devices_def register_device_def dm_reset_def dm_new_def MAX_DEVICES_def numeral_eq_Suc)

lemma dm_reset_ok: "dm_ok pf dm \<Longrightarrow> dm_ok pf (dm_reset dm)"
  by (auto simp: dm_ok_def dm_reset_def)

lemma vm_devices_ok:
  assumes "gicr_new k = Some gr"
  shows "dm_ok qemu_virt (vm_devices n gr c)"
proof -
  have "gr_num_vcpus gr = k" "k \<le> 8" using assms by (auto simp: gicr_new_def GICR_MAX_VCPUS_def split: if_splits)
  hence "unat (gicr_size gr) \<le> 0x100000"
    using unat_mult_exact [of "0x20000" "of_nat k"] by (simp add: gicr_size_def GICR_PER_CPU_def unat_of_nat)
  thus ?thesis
    unfolding vm_devices_def
    by (intro register_device_ok dm_reset_ok dm_new_ok)
      (simp_all add: qemu_virt_def uart_new_ok gicd_new_ok pl031_new_ok gicr_new_ok [OF assms] UART_SIZE_def GICD_SIZE_def
        PL031_SIZE_def PL031_BASE_def)
qed



end
