(* ===== verification/List_Registers.thy ===== *)
theory List_Registers
  imports Prelude
begin

text \<open>The list registers of the virtual interrupt interface (\<open>arch/aarch64/peripherals/gicv3.rs\<close>):
  the fields of an entry, and the operations on the four registers the code addresses.  The number of registers
  the hardware reports in \<open>ICH_VTR_EL2\<close> is a parameter.\<close>

definition LR_STATE_SHIFT :: nat where "LR_STATE_SHIFT = 62"
definition LR_STATE_MASK :: u64 where "LR_STATE_MASK = 3"
definition LR_HW_BIT :: u64 where "LR_HW_BIT = push_bit 61 1"
definition LR_GROUP1_BIT :: u64 where "LR_GROUP1_BIT = push_bit 60 1"
definition LR_PRIORITY_SHIFT :: nat where "LR_PRIORITY_SHIFT = 48"
definition LR_PINTID_SHIFT :: nat where "LR_PINTID_SHIFT = 32"
definition LR_PINTID_MASK :: u64 where "LR_PINTID_MASK = 0x3FF"
definition LR_VINTID_MASK :: u64 where "LR_VINTID_MASK = 0xFFFFFFFF"
definition VTR_LISTREGS_MASK :: u32 where "VTR_LISTREGS_MASK = 0x1F"
definition IRQ_DEFAULT_PRIORITY :: u8 where "IRQ_DEFAULT_PRIORITY = 0xA0"
definition LR_STATE_INVALID :: u64 where "LR_STATE_INVALID = 0"
definition LR_STATE_PENDING :: u64 where "LR_STATE_PENDING = 1"
definition LR_STATE_ACTIVE :: u64 where "LR_STATE_ACTIVE = 2"
definition LR_STATE_PENDING_ACTIVE :: u64 where "LR_STATE_PENDING_ACTIVE = 3"

lemmas lr_consts = LR_STATE_SHIFT_def LR_STATE_MASK_def LR_HW_BIT_def LR_GROUP1_BIT_def LR_PRIORITY_SHIFT_def
  LR_PINTID_SHIFT_def LR_PINTID_MASK_def LR_VINTID_MASK_def LR_STATE_INVALID_def LR_STATE_PENDING_def
  LR_STATE_ACTIVE_def LR_STATE_PENDING_ACTIVE_def

definition get_lr_state :: "u64 \<Rightarrow> u64" where
  "get_lr_state lr = drop_bit LR_STATE_SHIFT lr AND LR_STATE_MASK"

definition get_lr_intid :: "u64 \<Rightarrow> u32" where
  "get_lr_intid lr = ucast (lr AND LR_VINTID_MASK)"

definition get_lr_priority :: "u64 \<Rightarrow> u8" where
  "get_lr_priority lr = ucast (drop_bit LR_PRIORITY_SHIFT lr AND 0xFF)"

definition build_lr :: "u32 \<Rightarrow> u8 \<Rightarrow> u64" where
  "build_lr intid priority =
     push_bit LR_STATE_SHIFT LR_STATE_PENDING OR LR_GROUP1_BIT OR push_bit LR_PRIORITY_SHIFT (ucast priority) OR ucast intid"

definition build_hw_lr :: "u32 \<Rightarrow> u32 \<Rightarrow> u8 \<Rightarrow> u64" where
  "build_hw_lr intid pintid priority =
     push_bit LR_STATE_SHIFT LR_STATE_PENDING OR LR_HW_BIT OR LR_GROUP1_BIT OR push_bit LR_PRIORITY_SHIFT (ucast priority) OR
     push_bit LR_PINTID_SHIFT (ucast pintid AND LR_PINTID_MASK) OR ucast intid"

text \<open>The hardware registers 0 to 3; a read of another number is 0 and a write to it does nothing.\<close>

definition read_lr :: "u64 list \<Rightarrow> nat \<Rightarrow> u64" where
  "read_lr lrs n = (if n < 4 then lrs ! n else 0)"

definition write_lr :: "nat \<Rightarrow> u64 \<Rightarrow> u64 list \<Rightarrow> u64 list" where
  "write_lr n v lrs = (if n < 4 then lrs[n := v] else lrs)"

definition num_list_registers :: "u32 \<Rightarrow> nat" where
  "num_list_registers vtr = unat (vtr AND VTR_LISTREGS_MASK) + 1"

text \<open>\<open>for i in 0..num_lrs\<close>, looking for a register that satisfies \<open>P\<close>.\<close>

definition scan_lrs :: "u32 \<Rightarrow> (u64 \<Rightarrow> bool) \<Rightarrow> u64 list \<Rightarrow> nat option" where
  "scan_lrs vtr P lrs = find (\<lambda>i. P (read_lr lrs i)) [0..<num_list_registers vtr]"

definition find_free_lr :: "u32 \<Rightarrow> u64 list \<Rightarrow> nat option" where
  "find_free_lr vtr lrs = scan_lrs vtr (\<lambda>lr. get_lr_state lr = LR_STATE_INVALID) lrs"

datatype lr_error = NoFreeListRegister

definition inject_interrupt :: "u32 \<Rightarrow> u32 \<Rightarrow> u8 \<Rightarrow> u64 list \<Rightarrow> lr_error + u64 list" where
  "inject_interrupt vtr intid priority lrs =
     (case scan_lrs vtr (\<lambda>lr. get_lr_state lr = 0) lrs of
        Some i \<Rightarrow> Inr (write_lr i (build_lr intid priority) lrs)
      | None \<Rightarrow> Inl NoFreeListRegister)"

definition drop_stale :: "u32 \<Rightarrow> u32 \<Rightarrow> u64 list \<Rightarrow> u64 list" where
  "drop_stale vtr intid lrs =
     fold (\<lambda>i lrs. if get_lr_intid (read_lr lrs i) = intid \<and> get_lr_state (read_lr lrs i) = LR_STATE_ACTIVE
       then write_lr i 0 lrs else lrs) [0..<num_list_registers vtr] lrs"

text \<open>The stale entries are dropped even when the injection then fails.\<close>

definition inject_hw_interrupt :: "u32 \<Rightarrow> u32 \<Rightarrow> u32 \<Rightarrow> u8 \<Rightarrow> u64 list \<Rightarrow> (lr_error + unit) \<times> u64 list" where
  "inject_hw_interrupt vtr intid pintid priority lrs =
     (let lrs1 = drop_stale vtr intid lrs in
      case scan_lrs vtr (\<lambda>lr. get_lr_state lr = 0) lrs1 of
        Some i \<Rightarrow> (Inr (), write_lr i (build_hw_lr intid pintid priority) lrs1)
      | None \<Rightarrow> (Inl NoFreeListRegister, lrs1))"

definition clear_interrupt :: "u32 \<Rightarrow> u32 \<Rightarrow> u64 list \<Rightarrow> u64 list" where
  "clear_interrupt vtr intid lrs =
     (case scan_lrs vtr (\<lambda>lr. get_lr_intid lr = intid) lrs of
        Some i \<Rightarrow> write_lr i 0 lrs
      | None \<Rightarrow> lrs)"

definition lr_init :: "u32 \<Rightarrow> u64 list \<Rightarrow> u64 list" where
  "lr_init vtr lrs = fold (\<lambda>i. write_lr i 0) [0..<num_list_registers vtr] lrs"

definition pending_count :: "u32 \<Rightarrow> u64 list \<Rightarrow> nat" where
  "pending_count vtr lrs = length (filter (\<lambda>i. get_lr_state (read_lr lrs i) = LR_STATE_PENDING \<or>
     get_lr_state (read_lr lrs i) = LR_STATE_PENDING_ACTIVE) [0..<num_list_registers vtr])"

section \<open>Fields\<close>

lemma bit_mask_const: "(0x3 :: u64) = mask 2" "(0xFF :: u64) = mask 8" "(0xFFFFFFFF :: u64) = mask 32" "(0x3FF :: u64) = mask 10"
  by (simp_all add: mask_eq_exp_minus_1)

lemma bit_ucast32: "bit (ucast (x :: u32) :: u64) n \<longleftrightarrow> n < 32 \<and> bit x n"
  by (auto simp: bit_ucast_iff dest: bit_imp_le_length)

lemma bit_ucast8: "bit (ucast (x :: u8) :: u64) n \<longleftrightarrow> n < 8 \<and> bit x n"
  by (auto simp: bit_ucast_iff dest: bit_imp_le_length)

lemma bit_build_lr: "bit (build_lr intid p) n \<longleftrightarrow>
    n = 62 \<or> n = 60 \<or> (48 \<le> n \<and> n < 56 \<and> bit p (n - 48)) \<or> (n < 32 \<and> bit intid n)"
  unfolding build_lr_def lr_consts bit_or_iff bit_push_bit_iff bit_1_iff bit_ucast32 bit_ucast8 by auto

text \<open>Round trip of the entry a software interrupt gets.\<close>

lemma build_lr_fields:
  shows "get_lr_state (build_lr intid p) = LR_STATE_PENDING"
    and "get_lr_intid (build_lr intid p) = intid"
    and "get_lr_priority (build_lr intid p) = p"
proof -
  show "get_lr_state (build_lr intid p) = LR_STATE_PENDING"
    unfolding get_lr_state_def lr_consts bit_mask_const
    by (rule bit_word_eqI) (auto simp: bit_and_iff bit_drop_bit_eq bit_build_lr bit_mask_iff bit_1_iff)
  show "get_lr_intid (build_lr intid p) = intid"
    unfolding get_lr_intid_def lr_consts bit_mask_const
    by (rule bit_word_eqI) (auto simp: bit_ucast_iff bit_and_iff bit_build_lr bit_mask_iff)
  show "get_lr_priority (build_lr intid p) = p"
    unfolding get_lr_priority_def lr_consts bit_mask_const
    by (rule bit_word_eqI) (auto simp: bit_ucast_iff bit_and_iff bit_drop_bit_eq bit_build_lr bit_mask_iff)
qed

end
