(* ===== verification/Hv_State.thy ===== *)
theory Hv_State
  imports Devices List_Registers Scheduler
begin

text \<open>The global state (\<open>src/global.rs\<close>): per VM the pending interrupts, exit flags and CPU_ON request, and the
  device manager; the ring filled by the interrupt handler; the current VM.  With it the routing of a
  device interrupt to a vCPU, the loops that move received bytes and frames into the devices, and the
  injection of pending interrupts into list registers (\<open>src/vm.rs\<close>).  The model is the build for one
  physical CPU; what differs in the other build is defined beside it.\<close>

definition MAX_VMS :: nat where "MAX_VMS = 2"

record pending_cpu_on =
  co_requested :: bool
  co_target_cpu :: u64
  co_entry_point :: u64
  co_context_id :: u64

definition cpu_on_new :: pending_cpu_on where
  "cpu_on_new = \<lparr>co_requested = False, co_target_cpu = 0, co_entry_point = 0, co_context_id = 0\<rparr>"

definition cpu_on_request :: "u64 \<Rightarrow> u64 \<Rightarrow> u64 \<Rightarrow> pending_cpu_on \<Rightarrow> pending_cpu_on" where
  "cpu_on_request target entry ctx p =
     p\<lparr>co_target_cpu := target, co_entry_point := entry, co_context_id := ctx, co_requested := True\<rparr>"

definition cpu_on_take :: "pending_cpu_on \<Rightarrow> (u64 \<times> u64 \<times> u64) option \<times> pending_cpu_on" where
  "cpu_on_take p =
     (if co_requested p
      then (Some (co_target_cpu p, co_entry_point p, co_context_id p), p\<lparr>co_requested := False\<rparr>)
      else (None, p))"

record vm_global =
  vg_pending_sgis :: "u32 list"
  vg_pending_spis :: "u32 list"
  vg_terminal_exit :: "bool list"
  vg_online :: u64
  vg_current :: nat
  vg_cpu_on :: pending_cpu_on
  vg_preemption :: bool

definition vm_global_new :: vm_global where
  "vm_global_new = \<lparr>vg_pending_sgis = replicate MAX_VCPUS 0, vg_pending_spis = replicate MAX_VCPUS 0,
     vg_terminal_exit = replicate MAX_VCPUS False, vg_online = 0, vg_current = 0, vg_cpu_on = cpu_on_new, vg_preemption = False\<rparr>"

definition or_sgis :: "nat \<Rightarrow> u32 \<Rightarrow> vm_global \<Rightarrow> vm_global" where
  "or_sgis i v g = g\<lparr>vg_pending_sgis := (vg_pending_sgis g)[i := vg_pending_sgis g ! i OR v]\<rparr>"

definition or_spis :: "nat \<Rightarrow> u32 \<Rightarrow> vm_global \<Rightarrow> vm_global" where
  "or_spis i v g = g\<lparr>vg_pending_spis := (vg_pending_spis g)[i := vg_pending_spis g ! i OR v]\<rparr>"

record hv =
  hv_current_vm :: nat
  hv_vms :: "vm_global list"
  hv_devices :: "device_manager list"
  hv_uart_rx :: uart_ring
  hv_mem :: gmem
  hv_net :: net_state
  hv_log :: "effect list"

definition upd_vm :: "nat \<Rightarrow> (vm_global \<Rightarrow> vm_global) \<Rightarrow> hv \<Rightarrow> hv" where
  "upd_vm i f s = s\<lparr>hv_vms := (hv_vms s)[i := f (hv_vms s ! i)]\<rparr>"

definition set_devices :: "nat \<Rightarrow> device_manager \<Rightarrow> hv \<Rightarrow> hv" where
  "set_devices i dm s = s\<lparr>hv_devices := (hv_devices s)[i := dm]\<rparr>"

abbreviation current_vm_state :: "hv \<Rightarrow> vm_global" where
  "current_vm_state s \<equiv> hv_vms s ! hv_current_vm s"

abbreviation current_vcpu_id :: "hv \<Rightarrow> nat" where
  "current_vcpu_id s \<equiv> vg_current (current_vm_state s)"

section \<open>Device interrupts\<close>

definition inject_spi :: "u32 \<Rightarrow> hv \<Rightarrow> hv" where
  "inject_spi intid s =
     (if intid < 32 \<or> intid > 63 then s
      else
        let bit = unat (intid - 32); vm_id = hv_current_vm s; target = dm_route_spi (hv_devices s ! vm_id) intid in
        if target < MAX_VCPUS then upd_vm vm_id (or_spis target (push_bit bit 1)) s else s)"

text \<open>With one vCPU per physical CPU the route is read from the physical distributor, and a remote target is woken.\<close>

definition inject_spi_multi :: "u64 \<Rightarrow> nat \<Rightarrow> u32 \<Rightarrow> hv \<Rightarrow> hv \<times> u64 option" where
  "inject_spi_multi irouter this_cpu intid s =
     (if intid < 32 \<or> intid > 63 then (s, None)
      else
        let bit = unat (intid - 32); target = unat (irouter AND 0xFF) in
        if target < MAX_VCPUS
        then (upd_vm (hv_current_vm s) (or_spis target (push_bit bit 1)) s, if target \<noteq> this_cpu then Some (push_bit target 1) else None)
        else (s, None))"

text \<open>The effects of a device operation, in order: interrupts are injected, the rest goes to the hardware and is logged.\<close>

fun run_effect :: "effect \<Rightarrow> hv \<Rightarrow> hv" where
  "run_effect (InjectSpi intid) s = inject_spi intid s"
| "run_effect e s = s\<lparr>hv_log := hv_log s @ [e]\<rparr>"

definition current_handle_mmio :: "platform \<Rightarrow> clock \<Rightarrow> u64 \<Rightarrow> u64 \<Rightarrow> u8 \<Rightarrow> bool \<Rightarrow> hv \<Rightarrow> (u64 option \<times> hv) option" where
  "current_handle_mmio pf ck addr v sz is_write s = do {
     (r, dm, w, es) \<leftarrow> handle_mmio pf ck addr v sz is_write (hv_devices s ! hv_current_vm s) (hv_mem s, hv_net s);
     Some (r, fold run_effect es (set_devices (hv_current_vm s) dm (s\<lparr>hv_mem := fst w, hv_net := snd w\<rparr>))) }"

section \<open>Received bytes and frames\<close>

definition uart_push :: "u8 \<Rightarrow> device_manager \<Rightarrow> device_manager" where
  "uart_push ch dm = (case uart_mut dm of Some (i, u) \<Rightarrow> put_dev i (Uart (push_rx ch u)) dm | None \<Rightarrow> dm)"

text \<open>The draining part of \<open>run_one_iteration\<close>.\<close>

definition uart_wants_irq :: "device_manager \<Rightarrow> bool" where
  "uart_wants_irq dm = (case uart_mut dm of Some (_, u) \<Rightarrow> uart_pending_irq u \<noteq> None | None \<Rightarrow> False)"

definition drain_uart :: "nat \<Rightarrow> hv \<Rightarrow> hv option" where
  "drain_uart vm_id s = do {
     (dm, ring) \<leftarrow> drain_loop uart_ring_pop (\<lambda>ch dm. Some (uart_push ch dm)) (hv_uart_rx s) (hv_devices s ! vm_id);
     let s = set_devices vm_id dm (s\<lparr>hv_uart_rx := ring\<rparr>);
     Some (if uart_wants_irq dm then inject_spi 33 s else s) }"

text \<open>\<open>drain_uart_rx\<close> of the other build: the ring is emptied into a buffer of 64 bytes first. The
  result carries the physical SGI that wakes a remote target.\<close>

definition drain_uart_rx :: "u64 \<Rightarrow> nat \<Rightarrow> nat \<Rightarrow> hv \<Rightarrow> (hv \<times> u64 option) option" where
  "drain_uart_rx irouter this_cpu vm_id s = do {
     (buf, ring) \<leftarrow> drain_loop uart_ring_pop (\<lambda>ch buf. Some (if length buf < 64 then buf @ [ch] else buf)) (hv_uart_rx s) [];
     let s = s\<lparr>hv_uart_rx := ring\<rparr>;
     Some (if buf = [] then (s, None)
       else
         let dm = fold uart_push buf (hv_devices s ! vm_id); s = set_devices vm_id dm s in
         if uart_wants_irq dm then inject_spi_multi irouter this_cpu 33 s else (s, None)) }"

definition inject_net_rx :: "nat \<Rightarrow> u8 list \<Rightarrow> hv \<Rightarrow> (bool \<times> hv) or_panic" where
  "inject_net_rx vm_id frame s =
     (case virtio_net_mut (hv_devices s ! vm_id) of
        None \<Rightarrow> Some (False, s)
      | Some (i, t) \<Rightarrow> do {
          (ok, t, m, irq) \<leftarrow> inject_rx frame t (hv_mem s);
          Some (ok, fold run_effect (spi_effect irq)
            (set_devices vm_id (put_dev i (VirtioNet t) (hv_devices s ! vm_id)) (s\<lparr>hv_mem := m\<rparr>))) })"

definition drain_net_rx :: "nat \<Rightarrow> hv \<Rightarrow> hv option" where
  "drain_net_rx vm_id s =
     (let ring = port_rx (hv_net s) ! vm_id in
      if net_ring_is_empty ring then Some s
      else do {
        (s, _, ring) \<leftarrow> drain_loop take_frame (\<lambda>frame s. map_option snd (inject_net_rx vm_id frame s))
          (replicate MAX_FRAME_SIZE 0, ring) s;
        Some (s\<lparr>hv_net := (hv_net s)\<lparr>port_rx := (port_rx (hv_net s))[vm_id := ring]\<rparr>\<rparr>) })"

section \<open>Pending interrupts into list registers\<close>

text \<open>\<open>for lr in arch.ich_lr.iter_mut()\<close>: the first free register takes the interrupt.\<close>

definition place_lr :: "u32 \<Rightarrow> u64 list \<Rightarrow> u64 list option" where
  "place_lr intid lrs = (case first_idx (\<lambda>lr. get_lr_state lr = 0) lrs of
     Some i \<Rightarrow> Some (lrs[i := build_lr intid IRQ_DEFAULT_PRIORITY])
   | None \<Rightarrow> None)"

text \<open>One step of the loop over the bits of \<open>all\<close>; \<open>base\<close> is the INTID of bit 0 and \<open>place\<close> the way one
  interrupt gets into a list register.  What finds no register is queued again.\<close>

definition inject_bit :: "(u32 \<Rightarrow> 'l \<Rightarrow> 'l option) \<Rightarrow> u32 \<Rightarrow> u32 \<Rightarrow> nat \<Rightarrow> 'l \<times> u32 \<Rightarrow> 'l \<times> u32" where
  "inject_bit place base all b s =
     (case s of (lrs, requeued) \<Rightarrow>
        if \<not> bit all b then (lrs, requeued)
        else (case place (of_nat b + base) lrs of
            Some lrs' \<Rightarrow> (lrs', requeued)
          | None \<Rightarrow> (lrs, requeued OR push_bit b 1)))"

definition inject_bits :: "(u32 \<Rightarrow> 'l \<Rightarrow> 'l option) \<Rightarrow> u32 \<Rightarrow> u32 \<Rightarrow> nat \<Rightarrow> 'l \<Rightarrow> 'l \<times> u32" where
  "inject_bits place base all n lrs = fold (inject_bit place base all) [0..<n] (lrs, 0)"

definition inject_pending_sgis :: "nat \<Rightarrow> u64 list \<Rightarrow> hv \<Rightarrow> u64 list \<times> hv" where
  "inject_pending_sgis vcpu_id lrs s =
     (let all = vg_pending_sgis (current_vm_state s) ! vcpu_id;
          (lrs', requeued) = inject_bits place_lr 0 all 16 lrs in
      if all = 0 then (lrs, s)
      else (lrs', upd_vm (hv_current_vm s) (\<lambda>g. g\<lparr>vg_pending_sgis := (vg_pending_sgis g)[vcpu_id := requeued]\<rparr>) s))"

definition inject_pending_spis :: "nat \<Rightarrow> u64 list \<Rightarrow> hv \<Rightarrow> u64 list \<times> hv" where
  "inject_pending_spis vcpu_id lrs s =
     (let all = vg_pending_spis (current_vm_state s) ! vcpu_id;
          (lrs', requeued) = inject_bits place_lr 32 all 32 lrs in
      if all = 0 then (lrs, s)
      else (lrs', upd_vm (hv_current_vm s) (\<lambda>g. g\<lparr>vg_pending_spis := (vg_pending_spis g)[vcpu_id := requeued]\<rparr>) s))"

section \<open>No pending interrupt is lost\<close>

text \<open>The interrupts \<open>bs\<close> each have their own list register, which was free, and the other registers are unchanged.\<close>

definition placed :: "u32 \<Rightarrow> nat set \<Rightarrow> u64 list \<Rightarrow> u64 list \<Rightarrow> bool" where
  "placed base bs e e' \<longleftrightarrow> length e' = length e \<and> (\<exists>f. inj_on f bs \<and>
     (\<forall>b\<in>bs. f b < length e \<and> get_lr_state (e ! f b) = 0 \<and> e' ! f b = build_lr (of_nat b + base) IRQ_DEFAULT_PRIORITY) \<and>
     (\<forall>k<length e. k \<notin> f ` bs \<longrightarrow> e' ! k = e ! k))"

definition all_busy :: "u64 list \<Rightarrow> bool" where
  "all_busy e \<longleftrightarrow> (\<forall>lr\<in>set e. get_lr_state lr \<noteq> 0)"

abbreviation bits :: "'a::len word \<Rightarrow> nat set" where
  "bits w \<equiv> {b. bit w b}"

lemma placed_empty: "placed base {} e e"
  by (simp add: placed_def)

lemma placed_insert:
  assumes "placed base bs e e'" "b \<notin> bs" "k < length e'" "get_lr_state (e' ! k) = 0"
  shows "placed base (insert b bs) e (e'[k := build_lr (of_nat b + base) IRQ_DEFAULT_PRIORITY])"
proof -
  obtain f where f: "inj_on f bs" "length e' = length e" "\<forall>k<length e. k \<notin> f ` bs \<longrightarrow> e' ! k = e ! k"
    "\<forall>b\<in>bs. f b < length e \<and> get_lr_state (e ! f b) = 0 \<and> e' ! f b = build_lr (of_nat b + base) IRQ_DEFAULT_PRIORITY"
    using assms(1) unfolding placed_def by blast
  have k: "k \<notin> f ` bs" using f(4) assms(4) by (auto simp: build_lr_fields LR_STATE_PENDING_def)
  hence ek: "e' ! k = e ! k" using f(2,3) assms(3) by simp
  have inj: "inj_on (f(b := k)) (insert b bs)" using f(1) k assms(2) by (auto simp: inj_on_def)
  have img: "(f(b := k)) ` insert b bs = insert k (f ` bs)" using assms(2) by auto
  have new: "\<forall>c\<in>insert b bs. (f(b := k)) c < length e \<and> get_lr_state (e ! (f(b := k)) c) = 0 \<and>
      e'[k := build_lr (of_nat b + base) IRQ_DEFAULT_PRIORITY] ! (f(b := k)) c = build_lr (of_nat c + base) IRQ_DEFAULT_PRIORITY"
    using f(2,4) k assms(2-4) ek by (auto simp: nth_list_update)
  have "\<forall>j<length e. j \<notin> insert k (f ` bs) \<longrightarrow> e'[k := build_lr (of_nat b + base) IRQ_DEFAULT_PRIORITY] ! j = e ! j"
    using f(3) by simp
  thus ?thesis unfolding placed_def using inj new f(2) img by (metis length_list_update)
qed

locale lr_injector =
  fixes ok :: "'l \<Rightarrow> bool" and entries :: "'l \<Rightarrow> u64 list" and place :: "u32 \<Rightarrow> 'l \<Rightarrow> 'l option"
  assumes place_Some: "ok l \<Longrightarrow> place i l = Some l' \<Longrightarrow> ok l' \<and>
      (\<exists>k<length (entries l). get_lr_state (entries l ! k) = 0 \<and> entries l' = (entries l)[k := build_lr i IRQ_DEFAULT_PRIORITY])"
    and place_None: "ok l \<Longrightarrow> place i l = None \<Longrightarrow> all_busy (entries l)"
begin

lemma busy_stays: "ok l \<Longrightarrow> all_busy (entries l) \<Longrightarrow> place i l = None"
  using place_Some [of l i] by (cases "place i l") (auto simp: all_busy_def)

lemma inject_conserves:
  assumes "ok l" "n \<le> 32" "inject_bits place base all n l = (l', rest)"
  shows "ok l' \<and> bits rest \<subseteq> bits all \<inter> {..<n} \<and> (rest \<noteq> 0 \<longrightarrow> all_busy (entries l')) \<and>
    placed base (bits all \<inter> {..<n} - bits rest) (entries l) (entries l')"
  using assms(2,3)
proof (induction n arbitrary: l' rest)
  case 0
  thus ?case using assms(1) by (simp add: inject_bits_def placed_empty)
next
  case (Suc n)
  obtain l1 r1 where one: "inject_bits place base all n l = (l1, r1)" by fastforce
  note IH = Suc.IH [OF _ one]
  have IH: "ok l1" "bits r1 \<subseteq> bits all \<inter> {..<n}" "r1 \<noteq> 0 \<longrightarrow> all_busy (entries l1)"
    "placed base (bits all \<inter> {..<n} - bits r1) (entries l) (entries l1)" using IH Suc.prems by simp_all
  have step: "inject_bit place base all n (l1, r1) = (l', rest)"
    using Suc.prems(2) one by (simp add: inject_bits_def)
  have r1n: "\<not> bit r1 n" using IH(2) by auto
  show ?case
  proof (cases "bit all n")
    case False
    hence "bits all \<inter> {..<Suc n} = bits all \<inter> {..<n}" by (auto simp: less_Suc_eq)
    thus ?thesis using False IH step by (simp add: inject_bit_def)
  next
    case True
    hence split: "bits all \<inter> {..<Suc n} = insert n (bits all \<inter> {..<n})" by (auto simp: less_Suc_eq)
    show ?thesis
    proof (cases "place (of_nat n + base) l1")
      case None
      hence l': "l' = l1" "rest = r1 OR push_bit n 1" using True step by (simp_all add: inject_bit_def)
      have "bits rest = insert n (bits r1)"
        using Suc.prems(1) unfolding l' bit_or_iff bit_push_bit_iff bit_1_iff by auto
      moreover from this have "bits all \<inter> {..<Suc n} - bits rest = bits all \<inter> {..<n} - bits r1" unfolding split by auto
      ultimately show ?thesis using IH l'(1) split place_None [OF IH(1) None] by auto
    next
      case (Some l2)
      hence l': "l' = l2" "rest = r1" using True step by (simp_all add: inject_bit_def)
      obtain k where k: "ok l2" "k < length (entries l1)" "get_lr_state (entries l1 ! k) = 0"
        "entries l2 = (entries l1)[k := build_lr (of_nat n + base) IRQ_DEFAULT_PRIORITY]"
        using place_Some [OF IH(1) Some] by blast
      have "r1 = 0" using IH(3) k(2,3) by (auto simp: all_busy_def)
      moreover have "n \<notin> bits all \<inter> {..<n} - bits r1" by simp
      from placed_insert [OF IH(4) this k(2,3)] have "placed base (insert n (bits all \<inter> {..<n} - bits r1)) (entries l) (entries l2)"
        unfolding k(4) .
      moreover have "insert n (bits all \<inter> {..<n} - bits r1) = bits all \<inter> {..<Suc n} - bits r1"
        using split r1n by auto
      ultimately show ?thesis using IH(2) k(1) l' split by auto
    qed
  qed
qed

end

interpretation saved_lrs: lr_injector "\<lambda>_. True" id place_lr
proof unfold_locales
  fix l l' :: "u64 list" and i
  assume "place_lr i l = Some l'"
  thus "True \<and> (\<exists>k<length (id l). get_lr_state (id l ! k) = 0 \<and> id l' = (id l)[k := build_lr i IRQ_DEFAULT_PRIORITY])"
    by (auto simp: place_lr_def first_idx_Some split: option.splits)
next
  fix l :: "u64 list" and i
  assume "place_lr i l = None"
  thus "all_busy (id l)" by (auto simp: place_lr_def all_busy_def first_idx_None split: option.splits)
qed


text \<open>Shape of the global state.\<close>

definition vm_global_ok :: "vm_global \<Rightarrow> bool" where
  "vm_global_ok g \<longleftrightarrow> length (vg_pending_sgis g) = MAX_VCPUS \<and> length (vg_pending_spis g) = MAX_VCPUS \<and>
     length (vg_terminal_exit g) = MAX_VCPUS \<and> vg_current g < MAX_VCPUS \<and> (\<forall>w\<in>set (vg_pending_sgis g). bits w \<subseteq> {..<16})"

definition hv_ok :: "platform \<Rightarrow> hv \<Rightarrow> bool" where
  "hv_ok pf s \<longleftrightarrow> hv_current_vm s < MAX_VMS \<and> length (hv_vms s) = MAX_VMS \<and> length (hv_devices s) = MAX_VMS \<and>
     (\<forall>g\<in>set (hv_vms s). vm_global_ok g) \<and> (\<forall>dm\<in>set (hv_devices s). dm_ok pf dm) \<and>
     uart_ring_ok (hv_uart_rx s) \<and> net_ok (hv_net s)"

lemma hv_ok_current: "hv_ok pf s \<Longrightarrow> vm_global_ok (current_vm_state s)"
  by (simp add: hv_ok_def)

lemma hv_ok_devices: "hv_ok pf s \<Longrightarrow> i < MAX_VMS \<Longrightarrow> dm_ok pf (hv_devices s ! i)"
  by (simp add: hv_ok_def)

lemma upd_vm_sel [simp]:
  "hv_current_vm (upd_vm i f s) = hv_current_vm s" "hv_devices (upd_vm i f s) = hv_devices s" "hv_mem (upd_vm i f s) = hv_mem s"
  "hv_net (upd_vm i f s) = hv_net s" "hv_uart_rx (upd_vm i f s) = hv_uart_rx s" "hv_log (upd_vm i f s) = hv_log s"
  "length (hv_vms (upd_vm i f s)) = length (hv_vms s)"
  by (simp_all add: upd_vm_def)

lemma upd_vm_nth: "i < length (hv_vms s) \<Longrightarrow> hv_vms (upd_vm i f s) ! j = (if j = i then f (hv_vms s ! i) else hv_vms s ! j)"
  by (simp add: upd_vm_def)

lemma upd_vm_same: "f (hv_vms s ! i) = hv_vms s ! i \<Longrightarrow> upd_vm i f s = s"
  by (simp add: upd_vm_def)

lemma upd_vm_ok:
  assumes "hv_ok pf s" "i < MAX_VMS" "vm_global_ok (hv_vms s ! i) \<Longrightarrow> vm_global_ok (f (hv_vms s ! i))"
  shows "hv_ok pf (upd_vm i f s)"
  using assms by (auto simp: hv_ok_def upd_vm_def dest!: set_update_subset)

lemma set_devices_sel [simp]:
  "hv_current_vm (set_devices i dm s) = hv_current_vm s" "hv_vms (set_devices i dm s) = hv_vms s" "hv_mem (set_devices i dm s) = hv_mem s"
  "hv_net (set_devices i dm s) = hv_net s" "hv_uart_rx (set_devices i dm s) = hv_uart_rx s" "hv_log (set_devices i dm s) = hv_log s"
  by (simp_all add: set_devices_def)

lemma set_devices_ok: "hv_ok pf s \<Longrightarrow> dm_ok pf dm \<Longrightarrow> hv_ok pf (set_devices i dm s)"
  by (auto simp: hv_ok_def set_devices_def dest!: set_update_subset)

lemma bits_or_push: "b < 32 \<Longrightarrow> bits (w OR push_bit b 1) = insert b (bits w)" for w :: u32
  unfolding bit_or_iff bit_push_bit_iff bit_1_iff by auto

lemma bits_or_exp: "b < 32 \<Longrightarrow> bits (w OR 2 ^ b) = insert b (bits w)" for w :: u32
  using bits_or_push [of b w] by simp

lemma or_spis_ok: "vm_global_ok g \<Longrightarrow> vm_global_ok (or_spis i v g)"
  by (simp add: vm_global_ok_def or_spis_def)

lemma or_sgis_ok: "vm_global_ok g \<Longrightarrow> b < 16 \<Longrightarrow> vm_global_ok (or_sgis i (push_bit b 1) g)"
proof -
  assume g: "vm_global_ok g" and b: "b < 16"
  show ?thesis
  proof (cases "i < length (vg_pending_sgis g)")
    case True
    hence "bits (vg_pending_sgis g ! i) \<subseteq> {..<16}" using g by (simp add: vm_global_ok_def)
    hence "bits (vg_pending_sgis g ! i OR push_bit b 1) \<subseteq> {..<16}" using b by (simp add: bits_or_exp)
    thus ?thesis using g by (auto simp: vm_global_ok_def or_sgis_def dest!: set_update_subset)
  qed (use g in \<open>simp add: or_sgis_def list_update_beyond not_less\<close>)
qed

lemma inject_spi_ok: "hv_ok pf s \<Longrightarrow> hv_ok pf (inject_spi intid s)"
  by (auto simp: inject_spi_def Let_def or_spis_ok intro!: upd_vm_ok) (simp add: hv_ok_def)

lemma run_effect_ok: "hv_ok pf s \<Longrightarrow> hv_ok pf (run_effect e s)"
  by (cases e) (simp_all add: inject_spi_ok, simp_all add: hv_ok_def)

lemma run_effects_ok: "hv_ok pf s \<Longrightarrow> hv_ok pf (fold run_effect es s)"
  by (induction es arbitrary: s) (simp_all add: run_effect_ok)


section \<open>Pending interrupts, vCPU by vCPU\<close>

lemma pending_nth: "i < MAX_VCPUS \<Longrightarrow> vm_global_ok g \<Longrightarrow> bits (vg_pending_sgis g ! i) \<subseteq> {..<16}"
  by (simp add: vm_global_ok_def)

text \<open>What one injection leaves: the two queues of the other vCPUs and everything else are untouched.\<close>

lemma inject_pending_sgis_spec:
  assumes ok: "hv_ok pf s" and v: "v < MAX_VCPUS" and run: "inject_pending_sgis v lrs s = (lrs', s')"
  shows "\<exists>rest. s' = upd_vm (hv_current_vm s) (\<lambda>g. g\<lparr>vg_pending_sgis := (vg_pending_sgis g)[v := rest]\<rparr>) s \<and>
    bits rest \<subseteq> bits (vg_pending_sgis (current_vm_state s) ! v) \<and> (rest \<noteq> 0 \<longrightarrow> all_busy lrs') \<and>
    placed 0 (bits (vg_pending_sgis (current_vm_state s) ! v) - bits rest) lrs lrs'"
proof -
  let ?all = "vg_pending_sgis (current_vm_state s) ! v"
  obtain l r where i: "inject_bits place_lr 0 ?all 16 lrs = (l, r)" by fastforce
  have low: "bits ?all \<inter> {..<16} = bits ?all" using pending_nth [OF v hv_ok_current [OF ok]] by blast
  note c = saved_lrs.inject_conserves [OF TrueI _ i, simplified, unfolded low]
  show ?thesis
  proof (cases "?all = 0")
    case True
    hence "(vg_pending_sgis (current_vm_state s))[v := 0] = vg_pending_sgis (current_vm_state s)"
      using list_update_id [of "vg_pending_sgis (current_vm_state s)" v] by simp
    hence "upd_vm (hv_current_vm s) (\<lambda>g. g\<lparr>vg_pending_sgis := (vg_pending_sgis g)[v := 0]\<rparr>) s = s"
      by (intro upd_vm_same) simp
    thus ?thesis using True run by (intro exI [of _ 0]) (simp add: inject_pending_sgis_def placed_empty split: prod.splits)
  next
    case False
    thus ?thesis using run i c by (intro exI [of _ r]) (simp add: inject_pending_sgis_def split: prod.splits)
  qed
qed

lemma inject_pending_spis_spec:
  assumes v: "v < MAX_VCPUS" and run: "inject_pending_spis v lrs s = (lrs', s')"
  shows "\<exists>rest. s' = upd_vm (hv_current_vm s) (\<lambda>g. g\<lparr>vg_pending_spis := (vg_pending_spis g)[v := rest]\<rparr>) s \<and>
    bits rest \<subseteq> bits (vg_pending_spis (current_vm_state s) ! v) \<and> (rest \<noteq> 0 \<longrightarrow> all_busy lrs') \<and>
    placed 32 (bits (vg_pending_spis (current_vm_state s) ! v) - bits rest) lrs lrs'"
proof -
  let ?all = "vg_pending_spis (current_vm_state s) ! v"
  obtain l r where i: "inject_bits place_lr 32 ?all 32 lrs = (l, r)" by fastforce
  have low: "bits ?all \<inter> {..<32} = bits ?all" by (auto dest: bit_imp_le_length)
  note c = saved_lrs.inject_conserves [OF TrueI _ i, simplified, unfolded low]
  show ?thesis
  proof (cases "?all = 0")
    case True
    hence "(vg_pending_spis (current_vm_state s))[v := 0] = vg_pending_spis (current_vm_state s)"
      using list_update_id [of "vg_pending_spis (current_vm_state s)" v] by simp
    hence "upd_vm (hv_current_vm s) (\<lambda>g. g\<lparr>vg_pending_spis := (vg_pending_spis g)[v := 0]\<rparr>) s = s"
      by (intro upd_vm_same) simp
    thus ?thesis using True run by (intro exI [of _ 0]) (simp add: inject_pending_spis_def placed_empty split: prod.splits)
  next
    case False
    thus ?thesis using run i c by (intro exI [of _ r]) (simp add: inject_pending_spis_def split: prod.splits)
  qed
qed


lemma placed_busy: "placed base bs e e' \<Longrightarrow> all_busy e \<Longrightarrow> e' = e"
proof -
  assume p: "placed base bs e e'" and b: "all_busy e"
  then obtain f where f: "length e' = length e" "\<forall>k<length e. k \<notin> f ` bs \<longrightarrow> e' ! k = e ! k"
    "\<forall>b\<in>bs. f b < length e \<and> get_lr_state (e ! f b) = 0" unfolding placed_def by blast
  have "bs = {}" using f(3) b by (auto simp: all_busy_def)
  thus ?thesis using f(1,2) by (simp add: list_eq_iff_nth_eq)
qed

lemma vm_global_upd_ok:
  "vm_global_ok g \<Longrightarrow> bits w \<subseteq> {..<16} \<Longrightarrow> vm_global_ok (g\<lparr>vg_pending_sgis := (vg_pending_sgis g)[i := w]\<rparr>)"
  "vm_global_ok g \<Longrightarrow> vm_global_ok (g\<lparr>vg_pending_spis := (vg_pending_spis g)[i := w]\<rparr>)"
  by (auto simp: vm_global_ok_def dest!: set_update_subset)

lemma inject_pending_ok:
  assumes "hv_ok pf s" "v < MAX_VCPUS" "inject_pending_sgis v lrs s = (l1, s1)" "inject_pending_spis v l1 s1 = (l2, s2)"
  shows "hv_ok pf s1 \<and> hv_ok pf s2 \<and> length l2 = length lrs"
proof -
  obtain r where r: "s1 = upd_vm (hv_current_vm s) (\<lambda>g. g\<lparr>vg_pending_sgis := (vg_pending_sgis g)[v := r]\<rparr>) s"
    "bits r \<subseteq> bits (vg_pending_sgis (current_vm_state s) ! v)" "length l1 = length lrs"
    using inject_pending_sgis_spec [OF assms(1-3)] unfolding placed_def by blast
  have cur: "hv_current_vm s < MAX_VMS" using assms(1) by (simp add: hv_ok_def)
  have "bits r \<subseteq> {..<16}" using r(2) pending_nth [OF assms(2) hv_ok_current [OF assms(1)]] by blast
  hence one: "hv_ok pf s1" unfolding r(1) by (intro upd_vm_ok [OF assms(1) cur] vm_global_upd_ok)
  obtain q where q: "s2 = upd_vm (hv_current_vm s1) (\<lambda>g. g\<lparr>vg_pending_spis := (vg_pending_spis g)[v := q]\<rparr>) s1"
    "length l2 = length l1"
    using inject_pending_spis_spec [OF assms(2,4)] unfolding placed_def by blast
  have "hv_current_vm s1 < MAX_VMS" using one by (simp add: hv_ok_def)
  hence "hv_ok pf s2" unfolding q(1) by (intro upd_vm_ok [OF one] vm_global_upd_ok)
  thus ?thesis using one q(2) r(3) by simp
qed

text \<open>C3: before a vCPU is entered, each of its pending SGIs and SPIs either gets a list register of its own or stays pending, and it
  stays pending only if no register is free; registers in use are not disturbed, and the queues of the other vCPUs and of
  the other VM are not touched.\<close>

theorem pending_interrupts_conserved:
  assumes "hv_ok pf s" "v < MAX_VCPUS" "inject_pending_sgis v lrs s = (l1, s1)" "inject_pending_spis v l1 s1 = (l2, s2)"
  defines "g \<equiv> current_vm_state s" and "g2 \<equiv> current_vm_state s2"
  shows "bits (vg_pending_sgis g2 ! v) \<subseteq> bits (vg_pending_sgis g ! v) \<and> bits (vg_pending_spis g2 ! v) \<subseteq> bits (vg_pending_spis g ! v) \<and>
    placed 0 (bits (vg_pending_sgis g ! v) - bits (vg_pending_sgis g2 ! v)) lrs l1 \<and>
    placed 32 (bits (vg_pending_spis g ! v) - bits (vg_pending_spis g2 ! v)) l1 l2 \<and>
    (vg_pending_sgis g2 ! v = 0 \<and> vg_pending_spis g2 ! v = 0 \<or> all_busy l2) \<and>
    s2 = upd_vm (hv_current_vm s) (\<lambda>g. g\<lparr>vg_pending_sgis := (vg_pending_sgis g)[v := vg_pending_sgis g2 ! v],
      vg_pending_spis := (vg_pending_spis g)[v := vg_pending_spis g2 ! v]\<rparr>) s"
proof -
  let ?i = "hv_current_vm s"
  obtain r where r: "s1 = upd_vm ?i (\<lambda>g. g\<lparr>vg_pending_sgis := (vg_pending_sgis g)[v := r]\<rparr>) s"
    "bits r \<subseteq> bits (vg_pending_sgis g ! v)" "r \<noteq> 0 \<longrightarrow> all_busy l1" "placed 0 (bits (vg_pending_sgis g ! v) - bits r) lrs l1"
    using inject_pending_sgis_spec [OF assms(1-3)] unfolding g_def by blast
  obtain q where q: "s2 = upd_vm (hv_current_vm s1) (\<lambda>g. g\<lparr>vg_pending_spis := (vg_pending_spis g)[v := q]\<rparr>) s1"
    "bits q \<subseteq> bits (vg_pending_spis (current_vm_state s1) ! v)" "q \<noteq> 0 \<longrightarrow> all_busy l2"
    "placed 32 (bits (vg_pending_spis (current_vm_state s1) ! v) - bits q) l1 l2"
    using inject_pending_spis_spec [OF assms(2,4)] by blast
  have i: "?i < length (hv_vms s)" and lens: "v < length (vg_pending_sgis g)" "v < length (vg_pending_spis g)"
    using assms(1,2) hv_ok_current [OF assms(1)] by (simp_all add: hv_ok_def vm_global_ok_def g_def)
  have s1: "current_vm_state s1 = g\<lparr>vg_pending_sgis := (vg_pending_sgis g)[v := r]\<rparr>" using i by (simp add: r(1) upd_vm_nth g_def)
  have g2: "g2 = g\<lparr>vg_pending_sgis := (vg_pending_sgis g)[v := r], vg_pending_spis := (vg_pending_spis g)[v := q]\<rparr>"
    using i s1 unfolding g2_def q(1) by (simp add: upd_vm_nth r(1))
  have "vg_pending_sgis g2 ! v = r" "vg_pending_spis g2 ! v = q" using lens by (simp_all add: g2)
  moreover have "s2 = upd_vm ?i (\<lambda>g. g\<lparr>vg_pending_sgis := (vg_pending_sgis g)[v := r], vg_pending_spis := (vg_pending_spis g)[v := q]\<rparr>) s"
    using i by (simp add: q(1) r(1) upd_vm_def)
  moreover have "r = 0 \<and> q = 0 \<or> all_busy l2" using r(3) q(3) placed_busy [OF q(4)] by blast
  ultimately show ?thesis using r(2,4) q(2-4) s1 by simp
qed

definition hv_new :: "device_manager list \<Rightarrow> hv" where
  "hv_new dms = \<lparr>hv_current_vm = 0, hv_vms = replicate MAX_VMS vm_global_new, hv_devices = dms, hv_uart_rx = uart_ring_new,
     hv_mem = (\<lambda>_. 0), hv_net = net_state_new, hv_log = []\<rparr>"

lemma vm_global_new_ok: "vm_global_ok vm_global_new"
  by (simp add: vm_global_ok_def vm_global_new_def MAX_VCPUS_def)

lemma hv_new_ok: "length dms = MAX_VMS \<Longrightarrow> \<forall>dm\<in>set dms. dm_ok pf dm \<Longrightarrow> hv_ok pf (hv_new dms)"
  by (simp add: hv_ok_def hv_new_def vm_global_new_ok uart_ring_new_ok net_state_new_ok MAX_VMS_def)

definition two_pending :: hv where
  "two_pending = upd_vm 0 (or_spis 1 (push_bit 16 1)) (upd_vm 0 (or_sgis 1 (push_bit 3 1)) (hv_new [dm_new, dm_new]))"

lemma two_pending_ok: "hv_ok qemu_virt two_pending"
  unfolding two_pending_def
  by (intro upd_vm_ok hv_new_ok or_spis_ok or_sgis_ok) (simp_all add: MAX_VMS_def dm_new_ok)

theorem pending_interrupts_conserved_witness:
  "\<exists>l1 s1 l2 s2. inject_pending_sgis 1 [0, 0, 0, 0] two_pending = (l1, s1) \<and> inject_pending_spis 1 l1 s1 = (l2, s2) \<and>
     placed 32 (bits (vg_pending_spis (current_vm_state two_pending) ! 1) - bits (vg_pending_spis (current_vm_state s2) ! 1)) l1 l2"
proof -
  obtain l1 s1 where a: "inject_pending_sgis 1 [0, 0, 0, 0] two_pending = (l1, s1)" by fastforce
  obtain l2 s2 where b: "inject_pending_spis 1 l1 s1 = (l2, s2)" by fastforce
  from pending_interrupts_conserved [OF two_pending_ok _ a b] a b show ?thesis by (auto simp: MAX_VCPUS_def)
qed


section \<open>A device interrupt from the distributor's routing to the list register\<close>

abbreviation is_gicd :: "device \<Rightarrow> bool" where
  "is_gicd d \<equiv> (case d of Gicd _ \<Rightarrow> True | _ \<Rightarrow> False)"

abbreviation irouter_addr :: "platform \<Rightarrow> nat \<Rightarrow> u64" where
  "irouter_addr pf i \<equiv> pf_gicd_base pf + (0x6100 + 8 * of_nat i)"

lemma route_spi_nat:
  assumes "gicd_ok g" "i < 32"
  shows "gicd_route_spi (g\<lparr>gd_irouter := (gd_irouter g)[i := v]\<rparr>) (32 + of_nat i) = unat (v AND 0xFF)"
proof -
  have "unat (of_nat i :: u32) = i" using assms(2) by (subst unat_of_nat) simp
  moreover from this have "unat (32 + of_nat i :: u32) = 32 + i" using assms(2) by (subst unat_word_ariths(1)) simp
  ultimately show ?thesis
    using assms by (simp add: gicd_route_spi_def gicd_ok_def word_less_nat_alt word_le_nat_alt)
qed

lemma find_dev_put:
  assumes "find_dev P ds = Some i" "P d"
  shows "find_dev P (ds[i := Some d]) = Some i"
  using assms by (auto simp: find_dev_def first_idx_Some nth_list_update)

lemma dm_route_put:
  assumes "find_dev is_gicd (dm_devices dm) = Some i"
  shows "dm_route_spi (put_dev i (Gicd g) dm) intid = gicd_route_spi g intid"
proof -
  have "i < length (dm_devices dm)" using find_dev_Some [OF assms] by blast
  thus ?thesis using find_dev_put [OF assms, of "Gicd g"] by (simp add: dm_route_spi_def put_dev_def)
qed

lemma inject_spi_target:
  assumes "hv_ok pf s" "i < 32" "dm_route_spi (hv_devices s ! hv_current_vm s) (32 + of_nat i) = t" "t < MAX_VCPUS"
  shows "inject_spi (32 + of_nat i) s = upd_vm (hv_current_vm s) (or_spis t (push_bit i 1)) s"
proof -
  have u: "unat (of_nat i :: u32) = i" using assms(2) by (subst unat_of_nat) simp
  hence "unat (32 + of_nat i :: u32) = 32 + i" using assms(2) by (subst unat_word_ariths(1)) simp
  thus ?thesis using assms u by (simp add: inject_spi_def Let_def word_less_nat_alt)
qed

lemma run_effects_logged:
  "\<forall>e\<in>set es. \<forall>intid. e \<noteq> InjectSpi intid \<Longrightarrow> fold run_effect es x = x\<lparr>hv_log := hv_log x @ es\<rparr>"
proof (induction es arbitrary: x)
  case (Cons e es)
  hence "run_effect e x = x\<lparr>hv_log := hv_log x @ [e]\<rparr>" by (cases e) simp_all
  thus ?case using Cons by simp
qed simp



definition demo_gicr :: gicr where
  "demo_gicr = \<lparr>gr_state = replicate GICR_MAX_VCPUS gicr_state_new, gr_num_vcpus = 4\<rparr>"

definition demo_hv :: hv where
  "demo_hv = hv_new [vm_devices 4 demo_gicr 0, dm_new]"

lemma demo_hv_ok: "hv_ok qemu_virt demo_hv"
proof -
  have "gicr_new 4 = Some demo_gicr" by (simp add: gicr_new_def demo_gicr_def GICR_MAX_VCPUS_def)
  thus ?thesis unfolding demo_hv_def by (intro hv_new_ok) (auto simp: MAX_VMS_def dm_new_ok vm_devices_ok)
qed



section \<open>The operations keep the global state well formed\<close>

lemma handle_mmio_net_ok:
  assumes "dm_ok pf dm" "handle_mmio pf ck a v sz is_write dm w = Some (r, dm', w', es)" "net_ok (snd w)"
  shows "net_ok (snd w')"
proof (cases "claims pf dm a")
  case None
  thus ?thesis using assms by (simp add: handle_mmio_claims)
next
  case (Some k)
  then obtain d where d: "dm_devices dm ! k = Some d" "device_ok d" using claimsD [OF assms(1)] by blast
  consider "w' = w" | d' where "device_write pf ck (a - base_address pf d) v sz d w = Some (d', w', es)"
    using assms(2) Some d by (auto simp: handle_mmio_claims [OF assms(1)] Let_def bind_eq_Some_conv split: if_splits)
  thus ?thesis using device_write_net_ok [OF d(2) _ assms(3)] assms(3) by cases auto
qed

lemma current_handle_mmio_ok:
  assumes ok: "hv_ok pf s" and run: "current_handle_mmio pf ck a v sz is_write s = Some (r, s')"
  shows "hv_ok pf s'"
proof -
  have c: "hv_current_vm s < MAX_VMS" using ok by (simp add: hv_ok_def)
  obtain dm w es where h: "handle_mmio pf ck a v sz is_write (hv_devices s ! hv_current_vm s) (hv_mem s, hv_net s) = Some (r, dm, w, es)"
    and s': "s' = fold run_effect es (set_devices (hv_current_vm s) dm (s\<lparr>hv_mem := fst w, hv_net := snd w\<rparr>))"
    using run by (auto simp: current_handle_mmio_def bind_eq_Some_conv)
  have "dm_ok pf dm" using handle_mmio_only_at [OF hv_ok_devices [OF ok c] h] by (simp add: only_at_def)
  moreover have "net_ok (snd w)" using handle_mmio_net_ok [OF hv_ok_devices [OF ok c] h] ok by (simp add: hv_ok_def)
  hence "hv_ok pf (s\<lparr>hv_mem := fst w, hv_net := snd w\<rparr>)" using ok by (simp add: hv_ok_def)
  ultimately show ?thesis unfolding s' by (intro run_effects_ok set_devices_ok)
qed

lemma dm_ok_device:
  assumes "dm_ok pf dm" "k < length (dm_devices dm)" "dm_devices dm ! k = Some d"
  shows "device_ok d \<and> unat (base_address pf d) + unat (device_size d) < 2 ^ 64"
proof -
  have "Some d \<in> set (dm_devices dm)" using assms(2,3) by (metis nth_mem)
  thus ?thesis using assms(1) unfolding dm_ok_def by blast
qed

lemma uart_mutD: "uart_mut dm = Some (k, u) \<Longrightarrow> k < length (dm_devices dm) \<and> dm_devices dm ! k = Some (Uart u)"
  by (auto simp: uart_mut_def dest!: find_dev_Some split: option.splits device.splits)

lemma virtio_net_mutD: "virtio_net_mut dm = Some (k, t) \<Longrightarrow> k < length (dm_devices dm) \<and> dm_devices dm ! k = Some (VirtioNet t)"
  by (auto simp: virtio_net_mut_def dest!: find_dev_Some split: option.splits device.splits)

lemma push_rx_ok: "uart_ok u \<Longrightarrow> uart_ok (push_rx ch u)"
  using pl011_rx.enq_law [of u ch] by auto

lemma uart_push_ok: "dm_ok pf dm \<Longrightarrow> dm_ok pf (uart_push ch dm)"
proof (cases "uart_mut dm")
  case (Some ku)
  assume ok: "dm_ok pf dm"
  obtain k u where ku: "uart_mut dm = Some (k, u)" using Some by (cases ku) simp
  note d = uart_mutD [OF ku]
  note dok = dm_ok_device [OF ok conjunct1 [OF d] conjunct2 [OF d]]
  thus ?thesis using put_dev_ok [OF ok, of "Uart (push_rx ch u)" k] push_rx_ok by (simp add: uart_push_def ku)
qed (simp add: uart_push_def)

lemma foldM_Some: "foldM (\<lambda>x b. Some (f x b)) xs b = Some (fold f xs b)"
  by (induction xs arbitrary: b) simp_all

text \<open>Draining the serial ring always ends, and hands every byte over in order.\<close>

lemma drain_uart_spec:
  assumes ok: "hv_ok pf s" and i: "i < MAX_VMS"
  defines "dm \<equiv> fold uart_push (uart_ring_contents (hv_uart_rx s)) (hv_devices s ! i)"
  shows "\<exists>ring. uart_ring_ok ring \<and> uart_ring_contents ring = [] \<and> drain_uart i s =
      Some (if uart_wants_irq dm then inject_spi 33 (set_devices i dm (s\<lparr>hv_uart_rx := ring\<rparr>))
            else set_devices i dm (s\<lparr>hv_uart_rx := ring\<rparr>))"
proof -
  have "uart_ring_ok (hv_uart_rx s)" using ok by (simp add: hv_ok_def)
  from uart_fifo.drain_ends [OF this foldM_Some [of uart_push], of "hv_devices s ! i"]
  obtain ring where "drain_loop uart_ring_pop (\<lambda>ch dm. Some (uart_push ch dm)) (hv_uart_rx s) (hv_devices s ! i) = Some (dm, ring)"
    "uart_ring_ok ring" "uart_ring_contents ring = []" unfolding dm_def by blast
  thus ?thesis by (intro exI [of _ ring]) (simp add: drain_uart_def Let_def)
qed

lemma fold_uart_push_ok: "dm_ok pf dm \<Longrightarrow> dm_ok pf (fold uart_push bs dm)"
  by (induction bs arbitrary: dm) (simp_all add: uart_push_ok)

lemma drain_uart_ok:
  assumes ok: "hv_ok pf s" and i: "i < MAX_VMS"
  shows "\<exists>s'. drain_uart i s = Some s' \<and> hv_ok pf s'"
proof -
  let ?dm = "fold uart_push (uart_ring_contents (hv_uart_rx s)) (hv_devices s ! i)"
  obtain ring where r: "uart_ring_ok ring" "drain_uart i s =
      Some (if uart_wants_irq ?dm then inject_spi 33 (set_devices i ?dm (s\<lparr>hv_uart_rx := ring\<rparr>))
            else set_devices i ?dm (s\<lparr>hv_uart_rx := ring\<rparr>))"
    using drain_uart_spec [OF ok i] by blast
  have "hv_ok pf (s\<lparr>hv_uart_rx := ring\<rparr>)" using ok r(1) by (simp add: hv_ok_def)
  hence "hv_ok pf (set_devices i ?dm (s\<lparr>hv_uart_rx := ring\<rparr>))"
    using fold_uart_push_ok [OF hv_ok_devices [OF ok i]] by (intro set_devices_ok)
  thus ?thesis using r(2) by (simp add: inject_spi_ok)
qed


lemma inject_rx_shape:
  assumes "inject_rx frame t m = Some (b, t', m', irq)"
  shows "length (tr_queues t') = length (tr_queues t) \<and> tr_base t' = tr_base t \<and> tr_device t' = tr_device t"
proof -
  obtain c q where c: "get_avail_desc m (tr_queues t ! 0) = Some (c, q)"
    using assms by (auto simp: inject_rx_def bind_eq_Some_conv)
  let ?t = "t\<lparr>tr_queues := (tr_queues t)[0 := q]\<rparr>"
  have "t' = ?t \<or> t' = fst (signal_interrupt ?t)"
  proof (cases c)
    case None
    thus ?thesis using assms c by (simp add: inject_rx_def)
  next
    case (Some chain)
    thus ?thesis using assms c
      by (cases "rx_fill (ch_descs chain) frame 0 m")
        (auto simp: inject_rx_def Let_def signal_interrupt_def bind_eq_Some_conv split: if_splits)
  qed
  thus ?thesis by (auto simp: signal_interrupt_def)
qed

lemma inject_net_rx_ok:
  assumes ok: "hv_ok pf s" and i: "i < MAX_VMS" and run: "inject_net_rx i frame s = Some (b, s')"
  shows "hv_ok pf s' \<and> hv_net s' = hv_net s"
proof (cases "virtio_net_mut (hv_devices s ! i)")
  case None
  thus ?thesis using ok run by (simp add: inject_net_rx_def)
next
  case (Some kt)
  then obtain k t where kt: "virtio_net_mut (hv_devices s ! i) = Some (k, t)" by (cases kt) simp
  then obtain t' m irq where rx: "inject_rx frame t (hv_mem s) = Some (b, t', m, irq)"
    and s': "s' = fold run_effect (spi_effect irq)
      (set_devices i (put_dev k (VirtioNet t') (hv_devices s ! i)) (s\<lparr>hv_mem := m\<rparr>))"
    using run by (auto simp: inject_net_rx_def bind_eq_Some_conv)
  note d = virtio_net_mutD [OF kt]
  note dok = dm_ok_device [OF hv_ok_devices [OF ok i] conjunct1 [OF d] conjunct2 [OF d]]
  have "dm_ok pf (put_dev k (VirtioNet t') (hv_devices s ! i))"
    using inject_rx_shape [OF rx] dok by (intro put_dev_ok [OF hv_ok_devices [OF ok i]]) simp_all
  moreover have "hv_ok pf (s\<lparr>hv_mem := m\<rparr>)" using ok by (simp add: hv_ok_def)
  ultimately have "hv_ok pf s'" unfolding s' by (intro run_effects_ok set_devices_ok)
  moreover have "hv_net (fold run_effect (spi_effect irq) x) = hv_net x" for x
    by (cases irq) (simp_all add: inject_spi_def Let_def)
  ultimately show ?thesis by (simp add: s')
qed

lemma drain_net_rx_ok:
  assumes ok: "hv_ok pf s" and i: "i < MAX_VMS" and run: "drain_net_rx i s = Some s'"
  shows "hv_ok pf s'"
proof (cases "net_ring_is_empty (port_rx (hv_net s) ! i)")
  case True
  thus ?thesis using ok run by (simp add: drain_net_rx_def)
next
  case False
  let ?r = "(replicate MAX_FRAME_SIZE 0, port_rx (hv_net s) ! i) :: u8 list \<times> net_ring"
  let ?body = "\<lambda>frame s. map_option snd (inject_net_rx i frame s)"
  have rok: "length (fst ?r) = MAX_FRAME_SIZE \<and> net_ring_ok (snd ?r)"
    using ok i by (simp add: hv_ok_def net_ok_def MAX_VMS_def MAX_PORTS_def)
  obtain s1 buf ring where loop: "drain_loop take_frame ?body ?r s = Some (s1, buf, ring)"
    and s': "s' = s1\<lparr>hv_net := (hv_net s1)\<lparr>port_rx := (port_rx (hv_net s1))[i := ring]\<rparr>\<rparr>"
    using run False by (auto simp: drain_net_rx_def Let_def bind_eq_Some_conv)
  obtain b' where f: "foldM ?body (net_ring_contents (snd ?r)) s = Some b'"
    using net_fifo.drain_panics [OF rok, of ?body s] loop by (cases "foldM ?body (net_ring_contents (snd ?r)) s") simp_all
  with net_fifo.drain_ends [OF rok f] loop have b': "b' = s1" "net_ring_ok ring" by auto
  have "hv_ok pf b' \<and> hv_net b' = hv_net s"
    by (rule foldM_inv [OF f]) (use ok inject_net_rx_ok [OF _ i] in \<open>auto\<close>)
  thus ?thesis using b' by (auto simp: s' hv_ok_def net_ok_def dest!: set_update_subset)
qed

end
