(* ===== verification/Vcpu_Context.thy ===== *)
theory Vcpu_Context
  imports Prelude
begin

text \<open>The register context of a trapped vCPU (\<open>arch/aarch64/regs.rs\<close>) and the decoder of the
  access that caused a data abort (\<open>hypervisor/decode.rs\<close>).  The general purpose registers
  are a function of the register number, as in the FF-A handlers.\<close>

section \<open>Registers\<close>

definition get_reg :: "(nat \<Rightarrow> u64) \<Rightarrow> u8 \<Rightarrow> u64" where
  "get_reg r reg = (if unat reg \<le> 30 then r (unat reg) else 0)"

definition set_reg :: "u8 \<Rightarrow> u64 \<Rightarrow> (nat \<Rightarrow> u64) \<Rightarrow> (nat \<Rightarrow> u64)" where
  "set_reg reg v r = (if unat reg \<le> 30 then r(unat reg := v) else r)"

text \<open>Of the saved system registers, the handlers use the syndrome and the fault address; the EL1
  registers are switched with the architectural state of the vCPU.\<close>

record vcpu_context =
  cx_gp :: "nat \<Rightarrow> u64"
  cx_sp_el1 :: u64
  cx_spsr_el1 :: u64
  cx_esr_el2 :: u64
  cx_far_el2 :: u64
  cx_sp :: u64
  cx_pc :: u64
  cx_spsr_el2 :: u64

definition SPSR_EL1H_DAIF_MASKED :: u64 where "SPSR_EL1H_DAIF_MASKED = 0x3C5"
definition SPSR_EL1H :: u64 where "SPSR_EL1H = 5"
definition AARCH64_INSN_SIZE :: u64 where "AARCH64_INSN_SIZE = 4"

definition context_default :: vcpu_context where
  "context_default = \<lparr>cx_gp = (\<lambda>_. 0), cx_sp_el1 = 0, cx_spsr_el1 = 0, cx_esr_el2 = 0, cx_far_el2 = 0, cx_sp = 0, cx_pc = 0,
     cx_spsr_el2 = SPSR_EL1H_DAIF_MASKED\<rparr>"

definition context_new :: "u64 \<Rightarrow> u64 \<Rightarrow> vcpu_context" where
  "context_new entry_point stack_pointer =
     context_default\<lparr>cx_pc := entry_point, cx_sp := stack_pointer, cx_sp_el1 := stack_pointer, cx_spsr_el1 := SPSR_EL1H\<rparr>"

text \<open>The program counter is advanced with a checked addition.\<close>

definition advance_pc :: "vcpu_context \<Rightarrow> vcpu_context or_panic" where
  "advance_pc cx =
     (if unat (cx_pc cx) + 4 < 2 ^ 64 then Some (cx\<lparr>cx_pc := cx_pc cx + AARCH64_INSN_SIZE\<rparr>) else None)"

datatype exit_reason =
    Unknown | WfiWfe | HvcCall | SmcCall | TrapMsrMrs | InstructionAbort | DataAbort | Other u64

definition ESR_ISS_MASK :: u64 where "ESR_ISS_MASK = 0x1FFFFFF"

definition esr_ec :: "u64 \<Rightarrow> u64" where
  "esr_ec esr = drop_bit 26 esr AND 0x3F"

definition exit_reason :: "vcpu_context \<Rightarrow> exit_reason" where
  "exit_reason cx =
     (let ec = esr_ec (cx_esr_el2 cx) in
      if ec = 0x00 then Unknown
      else if ec = 0x01 then WfiWfe
      else if ec = 0x16 then HvcCall
      else if ec = 0x17 then SmcCall
      else if ec = 0x18 then TrapMsrMrs
      else if ec = 0x20 \<or> ec = 0x21 then InstructionAbort
      else if ec = 0x24 \<or> ec = 0x25 then DataAbort
      else Other ec)"

section \<open>Decoding a load or store\<close>

datatype mmio_access =
    Load u8 u8 bool
  | Store u8 u8

fun access_reg :: "mmio_access \<Rightarrow> u8" where
  "access_reg (Load reg _ _) = reg"
| "access_reg (Store reg _) = reg"

fun access_size :: "mmio_access \<Rightarrow> u8" where
  "access_size (Load _ sz _) = sz"
| "access_size (Store _ sz) = sz"

fun is_store :: "mmio_access \<Rightarrow> bool" where
  "is_store (Store _ _) = True"
| "is_store (Load _ _ _) = False"

definition decode_instruction :: "u32 \<Rightarrow> mmio_access option" where
  "decode_instruction insn =
     (if insn AND 0x3B000000 = 0x39000000 then
        let size_bits = drop_bit 30 insn AND 3;
            sz = push_bit (unat size_bits) 1 :: u8;
            rt = ucast (insn AND 0x1F) :: u8;
            is_load = drop_bit 22 insn AND 1 in
        if is_load = 1 then Some (Load rt sz False) else Some (Store rt sz)
      else None)"

definition decode :: "u32 \<Rightarrow> u32 \<Rightarrow> mmio_access option" where
  "decode insn iss =
     (if drop_bit 24 iss AND 1 = 0 then decode_instruction insn
      else
        let sas = drop_bit 22 iss AND 3;
            srt = ucast (drop_bit 16 iss AND 0x1F) :: u8;
            wnr = drop_bit 6 iss AND 1;
            sext = drop_bit 23 iss AND 1;
            sz = (if sas = 0 then 1 else if sas = 1 then 2 else if sas = 2 then 4 else 8 :: u8) in
        if wnr = 1 then Some (Store srt sz) else Some (Load srt sz (sext \<noteq> 0)))"

section \<open>The decoder is well formed\<close>

definition access_ok :: "mmio_access \<Rightarrow> bool" where
  "access_ok a \<longleftrightarrow> access_size a \<in> {1, 2, 4, 8} \<and> unat (access_reg a) < 32"

lemma mask5_bound: "unat (ucast (x AND 0x1F) :: u8) < 32" for x :: u32
proof -
  have "x AND 0x1F = take_bit 5 x" by (simp add: take_bit_eq_mask mask_eq_exp_minus_1)
  moreover have "ucast (take_bit 5 x) = (take_bit 5 (ucast x) :: u8)"
    by (rule bit_word_eqI) (auto simp: bit_ucast_iff bit_take_bit_iff)
  moreover have "unat (take_bit 5 (ucast x) :: u8) = unat (ucast x :: u8) mod 32" by (simp add: unat_take_bit)
  ultimately show ?thesis by simp
qed

lemma two_bit_cases: "x AND 3 \<in> {0, 1, 2, 3}" for x :: u32
proof -
  have "x AND 3 = take_bit 2 x" by (simp add: take_bit_eq_mask mask_eq_exp_minus_1)
  hence u: "unat (x AND 3) = unat x mod 4" by (simp add: unat_take_bit)
  hence "unat (x AND 3) \<in> {0, 1, 2, 3}" by auto
  thus ?thesis by (auto simp: word_unat_eq_iff)
qed

lemma decode_ok: "decode insn iss = Some a \<Longrightarrow> access_ok a"
proof -
  assume d: "decode insn iss = Some a"
  have "push_bit (unat (drop_bit 30 insn AND 3)) 1 \<in> {1, 2, 4, 8 :: u8}"
    using two_bit_cases [of "drop_bit 30 insn"] by auto
  thus ?thesis using d mask5_bound [of insn] mask5_bound [of "drop_bit 16 iss"]
    by (auto simp: decode_def decode_instruction_def access_ok_def Let_def split: if_splits)
qed

text \<open>A load from the syndrome always names its target register, which is the only one a completed load changes.\<close>

lemma set_reg_other: "n \<noteq> unat reg \<Longrightarrow> set_reg reg v r n = r n"
  by (simp add: set_reg_def)

lemma get_set_reg: "get_reg (set_reg reg v r) reg = (if unat reg \<le> 30 then v else 0)"
  by (simp add: get_reg_def set_reg_def)

text \<open>Without a valid syndrome, the sign-extending loads \<open>LDRSB\<close>, \<open>LDRSH\<close> and \<open>LDRSW\<close> to a 64-bit register
  (opc 10) are decoded as stores: the hypervisor would write the destination register to the device instead of loading it.\<close>

lemma signed_load_decoded_as_store:
  assumes "insn AND 0x3BC00000 = 0x39800000" "drop_bit 24 iss AND 1 = 0"
  shows "\<exists>sz. decode insn iss = Some (Store (ucast (insn AND 0x1F)) sz)"
proof -
  have split: "insn AND 0x3B000000 = (insn AND 0x3BC00000) AND 0x3B000000"
    "insn AND 0x400000 = (insn AND 0x3BC00000) AND 0x400000" by (simp_all add: and.assoc)
  have "drop_bit 22 insn AND 1 = drop_bit 22 (insn AND 0x400000)"
    by (rule bit_word_eqI) (auto simp: bit_simps)
  moreover have "insn AND 0x3B000000 = 0x39000000" "insn AND 0x400000 = 0" unfolding split assms(1) by simp_all
  ultimately show ?thesis using assms(2) by (simp add: decode_def decode_instruction_def Let_def)
qed

end
