(* ===== verification/Vcpu.thy ===== *)
theory Vcpu
  imports Vcpu_Context List_Registers
begin

text \<open>A virtual CPU (\<open>src/vcpu.rs\<close>): its architectural state and the switch of it
  (\<open>arch/aarch64/vcpu_arch_state.rs\<close>), the pending virtual interrupt (\<open>src/vcpu_interrupt.rs\<close>), and
  the run operation.  The registers of the processor are the record \<open>hw\<close>; what the guest does between entry and exit is
  the parameter \<open>enter_guest\<close>, which may change the context, the registers and the state \<open>'s\<close> of the hypervisor its exits are handled in.\<close>

section \<open>Architectural state\<close>

definition NUM_LRS :: nat where "NUM_LRS = 4"

record arch_state =
  ich_lr :: "u64 list"
  ich_vmcr :: u64
  ich_hcr :: u64
  cntv_ctl :: u64
  cntv_cval :: u64
  vmpidr :: u64
  sctlr_el1 :: u64
  ttbr0_el1 :: u64
  ttbr1_el1 :: u64
  tcr_el1 :: u64
  mair_el1 :: u64
  vbar_el1 :: u64
  cpacr_el1 :: u64
  contextidr_el1 :: u64
  tpidr_el1 :: u64
  tpidrro_el0 :: u64
  tpidr_el0 :: u64
  par_el1 :: u64
  cntkctl_el1 :: u64
  sp_el1 :: u64
  elr_el1 :: u64
  spsr_el1 :: u64
  afsr0_el1 :: u64
  afsr1_el1 :: u64
  esr_el1 :: u64
  far_el1 :: u64
  amair_el1 :: u64
  mdscr_el1 :: u64
  sp_el0 :: u64
  apia_key_lo :: u64
  apia_key_hi :: u64
  apib_key_lo :: u64
  apib_key_hi :: u64
  apda_key_lo :: u64
  apda_key_hi :: u64
  apdb_key_lo :: u64
  apdb_key_hi :: u64
  apga_key_lo :: u64
  apga_key_hi :: u64

definition arch_state_new :: arch_state where
  "arch_state_new = \<lparr>ich_lr = replicate NUM_LRS 0, ich_vmcr = 0, ich_hcr = 0, cntv_ctl = 0, cntv_cval = 0, vmpidr = 0,
     sctlr_el1 = 0, ttbr0_el1 = 0, ttbr1_el1 = 0, tcr_el1 = 0, mair_el1 = 0, vbar_el1 = 0, cpacr_el1 = 0,
     contextidr_el1 = 0, tpidr_el1 = 0, tpidrro_el0 = 0, tpidr_el0 = 0, par_el1 = 0, cntkctl_el1 = 0,
     sp_el1 = 0, elr_el1 = 0, spsr_el1 = 0, afsr0_el1 = 0, afsr1_el1 = 0, esr_el1 = 0, far_el1 = 0,
     amair_el1 = 0, mdscr_el1 = 0, sp_el0 = 0, apia_key_lo = 0, apia_key_hi = 0, apib_key_lo = 0,
     apib_key_hi = 0, apda_key_lo = 0, apda_key_hi = 0, apdb_key_lo = 0, apdb_key_hi = 0, apga_key_lo = 0,
     apga_key_hi = 0\<rparr>"

definition init_for_vcpu :: "u64 \<Rightarrow> nat \<Rightarrow> arch_state \<Rightarrow> arch_state" where
  "init_for_vcpu mpidr vcpu_id a =
     a\<lparr>vmpidr := (mpidr AND NOT 0xFF) OR (of_nat vcpu_id AND 0xFF), ich_hcr := push_bit 13 1 OR 1,
       ich_vmcr := push_bit 24 0xFF OR push_bit 1 1, ich_lr := replicate NUM_LRS 0, cntv_ctl := 0, cntv_cval := 0\<rparr>"

text \<open>The processor: the registers that are switched, the read-only \<open>ICH_VTR_EL2\<close> and \<open>MPIDR_EL1\<close>, and \<open>HCR_EL2\<close>.\<close>

record hw =
  hw_regs :: arch_state
  hw_vtr :: u32
  hw_mpidr :: u64
  hw_hcr_el2 :: u64

abbreviation hw_lrs :: "hw \<Rightarrow> u64 list" where
  "hw_lrs h \<equiv> ich_lr (hw_regs h)"

definition set_hw_lrs :: "u64 list \<Rightarrow> hw \<Rightarrow> hw" where
  "set_hw_lrs lrs h = h\<lparr>hw_regs := (hw_regs h)\<lparr>ich_lr := lrs\<rparr>\<rparr>"

text \<open>\<open>save\<close> reads every register except \<open>VMPIDR_EL2\<close>; \<open>restore\<close> writes every one.\<close>

definition save :: "hw \<Rightarrow> arch_state \<Rightarrow> arch_state" where
  "save h a = (let r = hw_regs h in
     a\<lparr>ich_lr := [ich_lr r ! 0, ich_lr r ! 1, ich_lr r ! 2, ich_lr r ! 3],
       ich_vmcr := ich_vmcr r, ich_hcr := ich_hcr r, cntv_ctl := cntv_ctl r, cntv_cval := cntv_cval r,
       sctlr_el1 := sctlr_el1 r, ttbr0_el1 := ttbr0_el1 r, ttbr1_el1 := ttbr1_el1 r, tcr_el1 := tcr_el1 r,
       mair_el1 := mair_el1 r, vbar_el1 := vbar_el1 r, cpacr_el1 := cpacr_el1 r,
       contextidr_el1 := contextidr_el1 r, tpidr_el1 := tpidr_el1 r, tpidrro_el0 := tpidrro_el0 r,
       tpidr_el0 := tpidr_el0 r, par_el1 := par_el1 r, cntkctl_el1 := cntkctl_el1 r, sp_el1 := sp_el1 r,
       elr_el1 := elr_el1 r, spsr_el1 := spsr_el1 r, afsr0_el1 := afsr0_el1 r, afsr1_el1 := afsr1_el1 r,
       esr_el1 := esr_el1 r, far_el1 := far_el1 r, amair_el1 := amair_el1 r, mdscr_el1 := mdscr_el1 r,
       sp_el0 := sp_el0 r, apia_key_lo := apia_key_lo r, apia_key_hi := apia_key_hi r,
       apib_key_lo := apib_key_lo r, apib_key_hi := apib_key_hi r, apda_key_lo := apda_key_lo r,
       apda_key_hi := apda_key_hi r, apdb_key_lo := apdb_key_lo r, apdb_key_hi := apdb_key_hi r,
       apga_key_lo := apga_key_lo r, apga_key_hi := apga_key_hi r\<rparr>)"

definition restore :: "arch_state \<Rightarrow> hw \<Rightarrow> hw" where
  "restore a h = h\<lparr>hw_regs := (hw_regs h)
     \<lparr>vmpidr := vmpidr a, ich_lr := [ich_lr a ! 0, ich_lr a ! 1, ich_lr a ! 2, ich_lr a ! 3],
       ich_vmcr := ich_vmcr a, ich_hcr := ich_hcr a, cntv_ctl := cntv_ctl a, cntv_cval := cntv_cval a,
       sctlr_el1 := sctlr_el1 a, ttbr0_el1 := ttbr0_el1 a, ttbr1_el1 := ttbr1_el1 a, tcr_el1 := tcr_el1 a,
       mair_el1 := mair_el1 a, vbar_el1 := vbar_el1 a, cpacr_el1 := cpacr_el1 a,
       contextidr_el1 := contextidr_el1 a, tpidr_el1 := tpidr_el1 a, tpidrro_el0 := tpidrro_el0 a,
       tpidr_el0 := tpidr_el0 a, par_el1 := par_el1 a, cntkctl_el1 := cntkctl_el1 a, sp_el1 := sp_el1 a,
       elr_el1 := elr_el1 a, spsr_el1 := spsr_el1 a, afsr0_el1 := afsr0_el1 a, afsr1_el1 := afsr1_el1 a,
       esr_el1 := esr_el1 a, far_el1 := far_el1 a, amair_el1 := amair_el1 a, mdscr_el1 := mdscr_el1 a,
       sp_el0 := sp_el0 a, apia_key_lo := apia_key_lo a, apia_key_hi := apia_key_hi a,
       apib_key_lo := apib_key_lo a, apib_key_hi := apib_key_hi a, apda_key_lo := apda_key_lo a,
       apda_key_hi := apda_key_hi a, apdb_key_lo := apdb_key_lo a, apdb_key_hi := apdb_key_hi a,
       apga_key_lo := apga_key_lo a, apga_key_hi := apga_key_hi a\<rparr>\<rparr>"

section \<open>The pending virtual interrupt\<close>

record virt_irq =
  irq_pending :: bool
  fiq_pending :: bool
  pending_irq_num :: "u32 option"
  use_gicv3 :: bool

definition virt_irq_new :: virt_irq where
  "virt_irq_new = \<lparr>irq_pending = False, fiq_pending = False, pending_irq_num = None, use_gicv3 = True\<rparr>"

text \<open>A failed injection sets the same fields as a successful one.\<close>

definition irq_inject :: "u32 \<Rightarrow> virt_irq \<Rightarrow> hw \<Rightarrow> virt_irq \<times> hw" where
  "irq_inject irq_num s h =
     (s\<lparr>irq_pending := True, pending_irq_num := Some irq_num\<rparr>,
      if use_gicv3 s then
        (case inject_interrupt (hw_vtr h) irq_num 0xA0 (hw_lrs h) of
           Inr lrs \<Rightarrow> set_hw_lrs lrs h
         | Inl _ \<Rightarrow> h)
      else h)"

definition fiq_inject :: "virt_irq \<Rightarrow> virt_irq" where
  "fiq_inject s = s\<lparr>fiq_pending := True\<rparr>"

definition irq_clear :: "virt_irq \<Rightarrow> hw \<Rightarrow> virt_irq \<times> hw" where
  "irq_clear s h =
     (s\<lparr>irq_pending := False, pending_irq_num := None\<rparr>,
      case pending_irq_num s of
        Some irq_num \<Rightarrow> if use_gicv3 s then set_hw_lrs (clear_interrupt (hw_vtr h) irq_num (hw_lrs h)) h else h
      | None \<Rightarrow> h)"

definition has_pending :: "virt_irq \<Rightarrow> bool" where
  "has_pending s \<longleftrightarrow> irq_pending s \<or> fiq_pending s"

definition apply_to_hcr :: "virt_irq \<Rightarrow> u64 \<Rightarrow> u64" where
  "apply_to_hcr s hcr =
     (if use_gicv3 s then hcr
      else
        let hcr1 = (if irq_pending s then hcr OR push_bit 7 1 else hcr AND NOT (push_bit 7 1)) in
        if fiq_pending s then hcr1 OR push_bit 6 1 else hcr1 AND NOT (push_bit 6 1))"

section \<open>The virtual CPU\<close>

datatype vcpu_state = VcpuUninitialized | VcpuReady | VcpuRunning | VcpuStopped

record vcpu =
  vc_id :: nat
  vc_state :: vcpu_state
  vc_context :: vcpu_context
  vc_virt_irq :: virt_irq
  vc_arch :: arch_state

definition vcpu_new :: "u64 \<Rightarrow> nat \<Rightarrow> u64 \<Rightarrow> u64 \<Rightarrow> vcpu" where
  "vcpu_new mpidr i entry_point stack_pointer =
     \<lparr>vc_id = i, vc_state = VcpuReady, vc_context = context_new entry_point stack_pointer, vc_virt_irq = virt_irq_new,
      vc_arch = init_for_vcpu mpidr i arch_state_new\<rparr>"

datatype vcpu_exit = ExitOk | ExitWfi | ExitError | NotReady

type_synonym 's guest = "vcpu_context \<Rightarrow> hw \<Rightarrow> 's \<Rightarrow> u64 \<times> vcpu_context \<times> hw \<times> 's"

definition vcpu_run :: "'s guest \<Rightarrow> vcpu \<Rightarrow> hw \<Rightarrow> 's \<Rightarrow> vcpu_exit \<times> vcpu \<times> hw \<times> 's" where
  "vcpu_run enter_guest v h s =
     (if vc_state v \<noteq> VcpuReady then (NotReady, v, h, s)
      else
        let h1 = restore (vc_arch v) h;
            h2 = h1\<lparr>hw_hcr_el2 := apply_to_hcr (vc_virt_irq v) (hw_hcr_el2 h1)\<rparr>;
            (result, cx, h3, s') = enter_guest (vc_context v) h2 s;
            v1 = v\<lparr>vc_context := cx, vc_arch := save h3 (vc_arch v), vc_state := VcpuReady\<rparr>;
            (irq, h4) = (if has_pending (vc_virt_irq v1) then irq_clear (vc_virt_irq v1) h3 else (vc_virt_irq v1, h3)) in
        (if result = 0 then ExitOk else if result = 1 then ExitWfi else ExitError, v1\<lparr>vc_virt_irq := irq\<rparr>, h4, s'))"

definition vcpu_stop :: "vcpu \<Rightarrow> vcpu" where
  "vcpu_stop v = v\<lparr>vc_state := VcpuStopped\<rparr>"

definition vcpu_reset :: "u64 \<Rightarrow> u64 \<Rightarrow> vcpu \<Rightarrow> vcpu" where
  "vcpu_reset entry_point stack_pointer v =
     v\<lparr>vc_context := context_new entry_point stack_pointer, vc_state := VcpuReady\<rparr>"

definition vcpu_inject_irq :: "u32 \<Rightarrow> vcpu \<Rightarrow> hw \<Rightarrow> vcpu \<times> hw" where
  "vcpu_inject_irq irq_num v h =
     (let (irq, h') = irq_inject irq_num (vc_virt_irq v) h in (v\<lparr>vc_virt_irq := irq\<rparr>, h'))"

section \<open>Switching\<close>

lemma four_list: "length xs = 4 \<Longrightarrow> [xs ! 0, xs ! Suc 0, xs ! 2, xs ! 3] = xs"
  by (simp add: list_eq_iff_nth_eq numeral_eq_Suc All_less_Suc)

lemma restore_regs: "length (ich_lr a) = 4 \<Longrightarrow> hw_regs (restore a h) = a"
  by (rule arch_state.equality) (simp_all add: restore_def four_list)

lemma restore_other [simp]:
  "hw_vtr (restore a h) = hw_vtr h" "hw_hcr_el2 (restore a h) = hw_hcr_el2 h" "hw_mpidr (restore a h) = hw_mpidr h"
  by (simp_all add: restore_def)

lemma save_regs: "length (hw_lrs h) = 4 \<Longrightarrow> save h a = (hw_regs h)\<lparr>vmpidr := vmpidr a\<rparr>"
  by (rule arch_state.equality) (simp_all add: save_def four_list Let_def)

lemma save_length [simp]: "length (ich_lr (save h a)) = 4"
  by (simp add: save_def Let_def)

text \<open>What the guest finds on entry: exactly the saved registers of its vCPU, whatever ran before.\<close>

lemma vcpu_run_entry:
  assumes "vc_state v = VcpuReady" "length (ich_lr (vc_arch v)) = 4"
  shows "\<exists>h2. hw_regs h2 = vc_arch v \<and> hw_hcr_el2 h2 = apply_to_hcr (vc_virt_irq v) (hw_hcr_el2 h) \<and>
    (case enter_guest (vc_context v) h2 s of (r, cx, h3, s') \<Rightarrow>
       vc_context (fst (snd (vcpu_run enter_guest v h s))) = cx \<and> vc_arch (fst (snd (vcpu_run enter_guest v h s))) = save h3 (vc_arch v) \<and>
       vc_state (fst (snd (vcpu_run enter_guest v h s))) = VcpuReady \<and> vc_id (fst (snd (vcpu_run enter_guest v h s))) = vc_id v \<and>
       snd (snd (snd (vcpu_run enter_guest v h s))) = s')"
proof -
  let ?h = "(restore (vc_arch v) h)\<lparr>hw_hcr_el2 := apply_to_hcr (vc_virt_irq v) (hw_hcr_el2 h)\<rparr>"
  obtain r cx h3 s' where g: "enter_guest (vc_context v) ?h s = (r, cx, h3, s')" by (metis prod_cases4)
  show ?thesis
    by (rule exI [of _ ?h]) (use assms g in \<open>simp add: vcpu_run_def restore_regs Let_def split: prod.split\<close>)
qed


definition running_state :: arch_state where
  "running_state = (init_for_vcpu 0x80000000 1 arch_state_new)\<lparr>sctlr_el1 := 0x30D00800, elr_el1 := 0x48000000, apga_key_hi := 7\<rparr>"

definition running_hw :: hw where
  "running_hw = \<lparr>hw_regs = running_state, hw_vtr = 3, hw_mpidr = 0x80000000, hw_hcr_el2 = 0x80000001\<rparr>"


text \<open>An interrupt injected into a vCPU that is not running is never delivered: in the default mode the guest enters with the
  list registers that were saved with it and with the hypervisor configuration unchanged.\<close>

lemma vcpu_inject_irq_lost:
  assumes "vcpu_inject_irq irq_num v h = (v', h')" "vc_state v = VcpuReady" "use_gicv3 (vc_virt_irq v)"
    and "length (ich_lr (vc_arch v)) = 4"
    and "vcpu_run (\<lambda>cx g s. (0, cx, g, g # s)) v' h' [] = (e, v'', h'', seen)"
  shows "map hw_lrs seen = [ich_lr (vc_arch v)] \<and> map hw_hcr_el2 seen = [hw_hcr_el2 h]"
proof -
  obtain irq where v': "v' = v\<lparr>vc_virt_irq := irq\<rparr>" "use_gicv3 irq" "hw_hcr_el2 h' = hw_hcr_el2 h"
    using assms(1,3) by (auto simp: vcpu_inject_irq_def irq_inject_def set_hw_lrs_def split: sum.splits)
  thus ?thesis
    using assms(2,4,5) by (auto simp: vcpu_run_def apply_to_hcr_def restore_regs Let_def split: prod.splits)
qed

end
