(* ===== verification/Exceptions.thy ===== *)
theory Exceptions
  imports Hv_State Vcpu Ffa_Call_Props
begin

text \<open>The exception handlers (\<open>arch/aarch64/hypervisor/exception.rs\<close>), in the build that hosts guests
  on one physical CPU: traps of system registers and software interrupts, PSCI and
  hypercalls, SMC dispatch, emulated memory accesses, idle detection, physical interrupts.  A handler returns
  whether the guest continues, its context and the state of the machine; \<^term>\<open>None\<close> is a panic or a halt.
  Messages on the console are left out; a character the guest prints is an effect.\<close>

record machine =
  mc_hv :: hv
  mc_hw :: hw
  mc_ffa :: ffa_state
  mc_exception_count :: u32
  mc_wfi_count :: u32
  mc_last_wfi_pc :: u64

text \<open>What the handlers read from outside: the platform and its clock, the environment of the FF-A proxy, the answer of
  EL3 to an unknown call, and the serial port's receive FIFO.\<close>

record exc_env =
  ee_pf :: platform
  ee_ck :: clock
  ee_ffa :: ffa_env
  ee_smc :: "gp_regs \<Rightarrow> gp_regs"
  ee_uart_fifo :: "u8 list"

definition upd_hv :: "(hv \<Rightarrow> hv) \<Rightarrow> machine \<Rightarrow> machine" where
  "upd_hv f m = m\<lparr>mc_hv := f (mc_hv m)\<rparr>"

definition upd_current :: "(vm_global \<Rightarrow> vm_global) \<Rightarrow> machine \<Rightarrow> machine" where
  "upd_current f = upd_hv (\<lambda>s. upd_vm (hv_current_vm s) f s)"

abbreviation vm_now :: "machine \<Rightarrow> vm_global" where
  "vm_now m \<equiv> current_vm_state (mc_hv m)"

definition set_x :: "nat \<Rightarrow> u64 \<Rightarrow> vcpu_context \<Rightarrow> vcpu_context" where
  "set_x n v cx = cx\<lparr>cx_gp := (cx_gp cx)(n := v)\<rparr>"

definition MAX_CONSECUTIVE_EXCEPTIONS :: u32 where "MAX_CONSECUTIVE_EXCEPTIONS = 100"
definition MAX_CONSECUTIVE_WFI :: u32 where "MAX_CONSECUTIVE_WFI = 500000"
definition VTIMER_IRQ :: u32 where "VTIMER_IRQ = 27"

definition reset_exception_count :: "machine \<Rightarrow> machine" where
  "reset_exception_count m = m\<lparr>mc_exception_count := 0\<rparr>"

definition reset_exception_counters :: "machine \<Rightarrow> machine" where
  "reset_exception_counters m = m\<lparr>mc_exception_count := 0, mc_wfi_count := 0, mc_last_wfi_pc := 0\<rparr>"

section \<open>Interrupts into the hardware list registers\<close>

definition hw_place :: "u32 \<Rightarrow> u32 \<Rightarrow> u64 list \<Rightarrow> u64 list option" where
  "hw_place vtr intid lrs = (case inject_interrupt vtr intid IRQ_DEFAULT_PRIORITY lrs of Inr l \<Rightarrow> Some l | Inl _ \<Rightarrow> None)"

text \<open>\<open>let _ = GicV3VirtualInterface::inject_interrupt(...)\<close>\<close>

definition hw_inject :: "u32 \<Rightarrow> machine \<Rightarrow> machine" where
  "hw_inject intid m = (case hw_place (hw_vtr (mc_hw m)) intid (hw_lrs (mc_hw m)) of
     Some l \<Rightarrow> m\<lparr>mc_hw := set_hw_lrs l (mc_hw m)\<rparr>
   | None \<Rightarrow> m)"

definition hw_inject_hw :: "u32 \<Rightarrow> u32 \<Rightarrow> machine \<Rightarrow> machine" where
  "hw_inject_hw intid pintid m =
     m\<lparr>mc_hw := set_hw_lrs (snd (inject_hw_interrupt (hw_vtr (mc_hw m)) intid pintid IRQ_DEFAULT_PRIORITY (hw_lrs (mc_hw m)))) (mc_hw m)\<rparr>"

definition flush_pending_spis :: "machine \<Rightarrow> machine" where
  "flush_pending_spis m =
     (let v = current_vcpu_id (mc_hv m); pending = vg_pending_spis (vm_now m) ! v in
      if v \<ge> MAX_VCPUS \<or> pending = 0 then m
      else
        let (l, requeued) = inject_bits (hw_place (hw_vtr (mc_hw m))) 32 pending 32 (hw_lrs (mc_hw m)) in
        upd_current (\<lambda>g. g\<lparr>vg_pending_spis := (vg_pending_spis g)[v := requeued]\<rparr>) (m\<lparr>mc_hw := set_hw_lrs l (mc_hw m)\<rparr>))"

section \<open>Trapped system registers\<close>

definition emulate_mrs :: "machine \<Rightarrow> u32 \<times> u32 \<times> u32 \<times> u32 \<times> u32 \<Rightarrow> u64" where
  "emulate_mrs m reg =
     (if reg = (2, 0, 0, 2, 2) then mdscr_el1 (hw_regs (mc_hw m))
      else if reg = (2, 0, 1, 1, 4) then push_bit 3 1
      else 0)"

definition sgi_intid :: "u64 \<Rightarrow> nat" where
  "sgi_intid v = unat (drop_bit 24 v AND 0xF)"

definition queue_sgi :: "nat \<Rightarrow> nat \<Rightarrow> machine \<Rightarrow> machine" where
  "queue_sgi intid target = upd_current (or_sgis target (push_bit intid 1))"

definition handle_sgi_trap :: "u64 \<Rightarrow> machine \<Rightarrow> machine" where
  "handle_sgi_trap v m =
     (let target_list = ucast (v AND 0xFFFF) :: u32;
          intid = sgi_intid v;
          irm = drop_bit 40 v AND 1;
          current = current_vcpu_id (mc_hv m);
          online = vg_online (vm_now m) in
      if irm = 1 then
        fold (\<lambda>i m. if i \<noteq> current \<and> bit online i then queue_sgi intid i m else m) [0..<MAX_VCPUS] m
      else
        fold (\<lambda>b m. if \<not> bit target_list b then m
                    else if b = current then hw_inject (of_nat intid) m
                    else queue_sgi intid b m) [0..<MAX_VCPUS] m)"

text \<open>A write to the OS lock register goes to the hardware and is not visible here.\<close>

definition emulate_msr :: "u32 \<times> u32 \<times> u32 \<times> u32 \<times> u32 \<Rightarrow> u64 \<Rightarrow> machine \<Rightarrow> machine" where
  "emulate_msr reg v m =
     (if reg = (3, 0, 12, 11, 5) then handle_sgi_trap v m
      else if reg = (2, 0, 0, 2, 2) then m\<lparr>mc_hw := (mc_hw m)\<lparr>hw_regs := (hw_regs (mc_hw m))\<lparr>mdscr_el1 := v\<rparr>\<rparr>\<rparr>
      else m)"

definition handle_msr_mrs_trap :: "u64 \<Rightarrow> vcpu_context \<Rightarrow> machine \<Rightarrow> vcpu_context \<times> machine" where
  "handle_msr_mrs_trap esr cx m =
     (let iss = ucast (esr AND ESR_ISS_MASK) :: u32;
          op0 = drop_bit 20 iss AND 3; op2 = drop_bit 17 iss AND 7; op1 = drop_bit 14 iss AND 7;
          crn = drop_bit 10 iss AND 0xF; rt = ucast (drop_bit 5 iss AND 0x1F) :: u8; crm = drop_bit 1 iss AND 0xF in
      if iss AND 1 = 1
      then (if rt < 31 then cx\<lparr>cx_gp := set_reg rt (emulate_mrs m (op0, op1, crn, crm, op2)) (cx_gp cx)\<rparr> else cx, m)
      else (cx, emulate_msr (op0, op1, crn, crm, op2) (if rt < 31 then get_reg (cx_gp cx) rt else 0) m))"


section \<open>PSCI\<close>

definition PSCI_VERSION :: u64 where "PSCI_VERSION = 0x84000000"
definition PSCI_CPU_SUSPEND_32 :: u64 where "PSCI_CPU_SUSPEND_32 = 0x84000001"
definition PSCI_CPU_OFF :: u64 where "PSCI_CPU_OFF = 0x84000002"
definition PSCI_CPU_ON_32 :: u64 where "PSCI_CPU_ON_32 = 0x84000003"
definition PSCI_CPU_ON_64 :: u64 where "PSCI_CPU_ON_64 = 0xC4000003"
definition PSCI_AFFINITY_INFO_32 :: u64 where "PSCI_AFFINITY_INFO_32 = 0x84000004"
definition PSCI_AFFINITY_INFO_64 :: u64 where "PSCI_AFFINITY_INFO_64 = 0xC4000004"
definition PSCI_MIGRATE_INFO_TYPE :: u64 where "PSCI_MIGRATE_INFO_TYPE = 0x84000006"
definition PSCI_SYSTEM_OFF :: u64 where "PSCI_SYSTEM_OFF = 0x84000008"
definition PSCI_SYSTEM_RESET :: u64 where "PSCI_SYSTEM_RESET = 0x84000009"
definition PSCI_FEATURES :: u64 where "PSCI_FEATURES = 0x8400000A"
definition PSCI_SUCCESS :: u64 where "PSCI_SUCCESS = 0"
definition PSCI_NOT_SUPPORTED :: u64 where "PSCI_NOT_SUPPORTED = 0xFFFFFFFF"

lemmas psci_ids = PSCI_VERSION_def PSCI_CPU_SUSPEND_32_def PSCI_CPU_OFF_def PSCI_CPU_ON_32_def PSCI_CPU_ON_64_def
  PSCI_AFFINITY_INFO_32_def PSCI_AFFINITY_INFO_64_def PSCI_MIGRATE_INFO_TYPE_def PSCI_SYSTEM_OFF_def PSCI_SYSTEM_RESET_def
  PSCI_FEATURES_def

definition is_psci_function :: "u64 \<Rightarrow> bool" where
  "is_psci_function fid \<longleftrightarrow> fid \<in> {PSCI_VERSION, PSCI_CPU_SUSPEND_32, PSCI_CPU_OFF, PSCI_CPU_ON_32, PSCI_CPU_ON_64,
     PSCI_AFFINITY_INFO_32, PSCI_AFFINITY_INFO_64, PSCI_MIGRATE_INFO_TYPE, PSCI_SYSTEM_OFF, PSCI_SYSTEM_RESET, PSCI_FEATURES}"

definition is_ffa_function :: "u64 \<Rightarrow> bool" where
  "is_ffa_function fid \<longleftrightarrow>
     (fid AND 0xFFFFFF00 = 0x84000000 \<or> fid AND 0xFFFFFF00 = 0xC4000000) \<and> fid AND 0xFF \<ge> 0x60"

definition set_terminal_exit :: "machine \<Rightarrow> machine" where
  "set_terminal_exit m =
     upd_current (\<lambda>g. g\<lparr>vg_terminal_exit := (vg_terminal_exit g)[current_vcpu_id (mc_hv m) := True]\<rparr>) m"

text \<open>\<open>online_mask & (1 << vcpu_id)\<close>: the shift panics in a checked build when the guest names a CPU above 63, and is
  taken modulo 64 otherwise.\<close>

definition affinity_bit :: "bool \<Rightarrow> u64 \<Rightarrow> u64 \<Rightarrow> bool or_panic" where
  "affinity_bit checked online vcpu_id =
     (if unat vcpu_id < 64 then Some (bit online (unat vcpu_id))
      else if checked then None else Some (bit online (unat vcpu_id mod 64)))"

definition handle_psci :: "exc_env \<Rightarrow> u64 \<Rightarrow> vcpu_context \<Rightarrow> machine \<Rightarrow> (bool \<times> vcpu_context \<times> machine) or_panic" where
  "handle_psci env fid cx m =
     (let x1 = cx_gp cx 1 in
      if fid = PSCI_VERSION then Some (True, set_x 0 2 cx, m)
      else if fid = PSCI_FEATURES then
        Some (True, set_x 0 (if x1 \<in> {PSCI_VERSION, PSCI_CPU_OFF, PSCI_SYSTEM_OFF, PSCI_SYSTEM_RESET, PSCI_FEATURES,
            PSCI_CPU_ON_32, PSCI_CPU_ON_64, PSCI_AFFINITY_INFO_32, PSCI_AFFINITY_INFO_64} then PSCI_SUCCESS else PSCI_NOT_SUPPORTED) cx, m)
      else if fid = PSCI_CPU_OFF then Some (False, set_x 0 PSCI_SUCCESS cx, set_terminal_exit m)
      else if fid = PSCI_CPU_ON_32 \<or> fid = PSCI_CPU_ON_64 then
        Some (False, set_x 0 PSCI_SUCCESS cx,
          upd_current (\<lambda>g. g\<lparr>vg_cpu_on := cpu_on_request x1 (cx_gp cx 2) (cx_gp cx 3) (vg_cpu_on g)\<rparr>) m)
      else if fid = PSCI_AFFINITY_INFO_32 \<or> fid = PSCI_AFFINITY_INFO_64 then do {
        on \<leftarrow> affinity_bit (pf_checked (ee_pf env)) (vg_online (vm_now m)) (x1 AND 0xFF);
        Some (True, set_x 0 (if on then 0 else 1) cx, m) }
      else if fid = PSCI_MIGRATE_INFO_TYPE then Some (True, set_x 0 2 cx, m)
      else if fid = PSCI_SYSTEM_OFF \<or> fid = PSCI_SYSTEM_RESET then Some (False, cx, set_terminal_exit m)
      else if fid = PSCI_CPU_SUSPEND_32 then Some (True, set_x 0 PSCI_SUCCESS cx, m)
      else Some (True, set_x 0 PSCI_NOT_SUPPORTED cx, m))"

section \<open>Hypercalls and SMCs\<close>

definition print_char :: "u8 \<Rightarrow> machine \<Rightarrow> machine" where
  "print_char ch = upd_hv (\<lambda>s. s\<lparr>hv_log := hv_log s @ [UartOut ch]\<rparr>)"

definition handle_jailhouse :: "exc_env \<Rightarrow> vcpu_context \<Rightarrow> machine \<Rightarrow> vcpu_context \<times> machine" where
  "handle_jailhouse env cx m =
     (if cx_gp cx 0 = 8 then (set_x 0 0 cx, print_char (ucast (cx_gp cx 1)) m)
      else if cx_gp cx 0 = 9 then
        (case ee_uart_fifo env of ch # _ \<Rightarrow> (set_x 0 (ucast ch) cx, m) | [] \<Rightarrow> (set_x 0 (NOT 0) cx, m))
      else (set_x 0 0 cx, m))"

definition handle_hypercall :: "exc_env \<Rightarrow> vcpu_context \<Rightarrow> machine \<Rightarrow> (bool \<times> vcpu_context \<times> machine) or_panic" where
  "handle_hypercall env cx m =
     (if cx_esr_el2 cx AND 0xFFFF = 0x4a48
      then Some (True, handle_jailhouse env cx m)
      else
        let hypercall_num = cx_gp cx 0 in
        if hypercall_num AND 0x80000000 \<noteq> 0 then handle_psci env hypercall_num cx m
        else if hypercall_num = 0 then Some (True, set_x 0 0 cx, print_char (ucast (cx_gp cx 1)) m)
        else if hypercall_num = 1 then Some (False, set_x 0 0 cx, m)
        else Some (False, set_x 0 (NOT 0) cx, m))"

text \<open>The FF-A proxy works on the same memory and the same VM as the rest of the state.\<close>

definition ffa_view :: "machine \<Rightarrow> ffa_state" where
  "ffa_view m = (mc_ffa m)\<lparr>fs_mem := hv_mem (mc_hv m), fs_vm_id := hv_current_vm (mc_hv m)\<rparr>"

definition handle_smc :: "exc_env \<Rightarrow> vcpu_context \<Rightarrow> machine \<Rightarrow> (bool \<times> vcpu_context \<times> machine) or_panic" where
  "handle_smc env cx m =
     (let fid = cx_gp cx 0 in
      if is_psci_function fid then handle_psci env fid cx m
      else if is_ffa_function fid then do {
        (r, s) \<leftarrow> handle_ffa_call (ee_ffa env) (cx_gp cx) (ffa_view m);
        Some (True, cx\<lparr>cx_gp := r\<rparr>, m\<lparr>mc_ffa := s, mc_hv := (mc_hv m)\<lparr>hv_mem := fs_mem s\<rparr>\<rparr>) }
      else
        let res = ee_smc env (smc_args (map (cx_gp cx) [0..<8])) in
        Some (True, cx\<lparr>cx_gp := (cx_gp cx)(0 := res 0, 1 := res 1, 2 := res 2, 3 := res 3)\<rparr>, m))"

section \<open>Emulated memory accesses\<close>

definition handle_mmio_abort :: "exc_env \<Rightarrow> u64 \<Rightarrow> vcpu_context \<Rightarrow> machine \<Rightarrow> (bool \<times> vcpu_context \<times> machine) option" where
  "handle_mmio_abort env addr cx m =
     (let iss = ucast (cx_esr_el2 cx AND ESR_ISS_MASK) :: u32;
          isv = drop_bit 24 iss AND 1;
          fetched = (if isv = 1 then Some 0
                     else if cx_pc cx < 0x800000000000 then Some (rd32 (hv_mem (mc_hv m)) (cx_pc cx)) else None) in
      case fetched of
        None \<Rightarrow> Some (False, cx, m)
      | Some insn \<Rightarrow>
          (case decode insn iss of
             None \<Rightarrow> Some (False, cx, m)
           | Some access \<Rightarrow>
               if is_store access then do {
                 (_, s) \<leftarrow> current_handle_mmio (ee_pf env) (ee_ck env) addr (get_reg (cx_gp cx) (access_reg access))
                   (access_size access) True (mc_hv m);
                 Some (True, cx, m\<lparr>mc_hv := s\<rparr>) }
               else do {
                 (r, s) \<leftarrow> current_handle_mmio (ee_pf env) (ee_ck env) addr 0 (access_size access) False (mc_hv m);
                 (case r of
                    Some v \<Rightarrow> Some (True, cx\<lparr>cx_gp := set_reg (access_reg access) v (cx_gp cx)\<rparr>, m\<lparr>mc_hv := s\<rparr>)
                  | None \<Rightarrow> Some (False, cx, m\<lparr>mc_hv := s\<rparr>)) }))"


section \<open>Idling\<close>

text \<open>\<open>is_guest_vtimer_pending\<close> and \<open>mask_guest_vtimer\<close> of \<open>peripherals/timer.rs\<close>: enable is bit 0, mask bit 1, status bit 2.\<close>

definition vtimer_pending :: "hw \<Rightarrow> bool" where
  "vtimer_pending h \<longleftrightarrow> (let ctl = cntv_ctl (hw_regs h) in bit ctl 0 \<and> bit ctl 2 \<and> \<not> bit ctl 1)"

definition mask_vtimer :: "machine \<Rightarrow> machine" where
  "mask_vtimer m = m\<lparr>mc_hw := (mc_hw m)\<lparr>hw_regs := (hw_regs (mc_hw m))\<lparr>cntv_ctl := cntv_ctl (hw_regs (mc_hw m)) OR push_bit 1 1\<rparr>\<rparr>\<rparr>"

definition handle_wfi :: "vcpu_context \<Rightarrow> machine \<Rightarrow> (bool \<times> machine) or_panic" where
  "handle_wfi cx m =
     (if cx_pc cx \<noteq> mc_last_wfi_pc m
      then Some (True, hw_inject VTIMER_IRQ (m\<lparr>mc_wfi_count := 0, mc_last_wfi_pc := cx_pc cx\<rparr>))
      else if mc_wfi_count m = 0xFFFFFFFF then None
      else
        let count = mc_wfi_count m + 1; m = m\<lparr>mc_wfi_count := count\<rparr> in
        if count > MAX_CONSECUTIVE_WFI then Some (False, m)
        else if vtimer_pending (mc_hw m) then Some (True, hw_inject VTIMER_IRQ (mask_vtimer (m\<lparr>mc_wfi_count := 0\<rparr>)))
        else if pending_count (hw_vtr (mc_hw m)) (hw_lrs (mc_hw m)) > 0 then Some (True, m\<lparr>mc_wfi_count := 0\<rparr>)
        else Some (True, if count mod 100 = 0 then hw_inject VTIMER_IRQ m else m))"

section \<open>Dispatch\<close>

text \<open>\<open>online != 0 && (online & (online - 1)) != 0\<close>: more than one vCPU is online.\<close>

definition multi_vcpu :: "vm_global \<Rightarrow> bool" where
  "multi_vcpu g \<longleftrightarrow> vg_online g \<noteq> 0 \<and> vg_online g AND (vg_online g - 1) \<noteq> 0"

definition data_abort_ipa :: "u64 \<Rightarrow> u64 \<Rightarrow> u64" where
  "data_abort_ipa hpfar far = push_bit 8 (hpfar AND 0x00000FFFFFFFFFF0) OR (far AND 0xFFF)"

text \<open>\<open>handle_exception\<close>, from the point where the syndrome registers have been read into \<open>esr\<close>, \<open>far\<close> and \<open>hpfar\<close>.
  An instruction abort only prints the registers; more than 100 exceptions in a row halt the system.\<close>

definition handle_exception :: "exc_env \<Rightarrow> u64 \<Rightarrow> u64 \<Rightarrow> u64 \<Rightarrow> vcpu_context \<Rightarrow> machine \<Rightarrow> (bool \<times> vcpu_context \<times> machine) option" where
  "handle_exception env esr far hpfar cx m =
     (let cx = cx\<lparr>cx_esr_el2 := esr, cx_far_el2 := far\<rparr>; m = m\<lparr>mc_exception_count := mc_exception_count m + 1\<rparr> in
      if mc_exception_count m > MAX_CONSECUTIVE_EXCEPTIONS then None
      else (case exit_reason cx of
        WfiWfe \<Rightarrow> do {
          let m = reset_exception_count m;
          (go_on, m') \<leftarrow> handle_wfi cx m;
          if multi_vcpu (vm_now m) then do { cx \<leftarrow> advance_pc cx; Some (False, cx, m') }
          else if go_on then do { cx \<leftarrow> advance_pc cx; Some (True, cx, m') }
          else Some (False, cx, m') }
      | HvcCall \<Rightarrow> handle_hypercall env cx (reset_exception_count m)
      | SmcCall \<Rightarrow> do {
          (go_on, cx, m) \<leftarrow> handle_smc env cx (reset_exception_count m);
          cx \<leftarrow> advance_pc cx;
          Some (go_on, cx, m) }
      | TrapMsrMrs \<Rightarrow> do {
          let (cx, m) = handle_msr_mrs_trap esr cx (reset_exception_count m);
          cx \<leftarrow> advance_pc cx;
          Some (True, cx, m) }
      | InstructionAbort \<Rightarrow> Some (False, cx, m)
      | DataAbort \<Rightarrow> do {
          (handled, cx, m) \<leftarrow> handle_mmio_abort env (data_abort_ipa hpfar (cx_far_el2 cx)) cx m;
          if handled then do {
            let m = reset_exception_count m;
            cx \<leftarrow> advance_pc cx;
            Some (True, cx, flush_pending_spis m) }
          else Some (False, cx, m) }
      | Other ec \<Rightarrow>
          if ec \<in> {0x07, 0x09, 0x19} then do { cx \<leftarrow> advance_pc cx; Some (True, cx, m) }
          else Some (False, cx, m)
      | Unknown \<Rightarrow> Some (False, cx, m)))"

section \<open>Physical interrupts\<close>

text \<open>How the handler finishes an interrupt: not at all when it is spurious, by a priority drop, or by a drop and a deactivation.\<close>

datatype irq_ack = NoAck | Drop | DropDeactivate

definition handle_irq :: "exc_env \<Rightarrow> u32 \<Rightarrow> machine \<Rightarrow> (bool \<times> irq_ack \<times> machine) or_panic" where
  "handle_irq env intid m0 =
     (let m = reset_exception_count m0 in
      if intid \<ge> 1020 then Some (True, NoAck, m)
      else if intid \<le> 15 then
        Some (True, DropDeactivate, if current_vcpu_id (mc_hv m) = 0 then hw_inject intid m else queue_sgi (unat intid) 0 m)
      else if intid = 26 then
        (if multi_vcpu (vm_now m) then Some (False, DropDeactivate, upd_current (\<lambda>g. g\<lparr>vg_preemption := True\<rparr>) m)
         else Some (True, DropDeactivate, m))
      else if intid = 33 then do {
        ring \<leftarrow> foldM uart_ring_push (ee_uart_fifo env) (hv_uart_rx (mc_hv m));
        Some (False, DropDeactivate, upd_hv (\<lambda>s. s\<lparr>hv_uart_rx := ring\<rparr>) m) }
      else if intid = 27 then
        let m = hw_inject_hw VTIMER_IRQ VTIMER_IRQ (mask_vtimer m) in
        (if multi_vcpu (vm_now m) \<and>
            (\<exists>i\<in>set [0..<MAX_VCPUS]. i \<noteq> current_vcpu_id (mc_hv m) \<and> vg_pending_sgis (vm_now m) ! i \<noteq> 0)
         then Some (False, Drop, upd_current (\<lambda>g. g\<lparr>vg_preemption := True\<rparr>) m)
         else Some (True, Drop, m))
      else Some (True, DropDeactivate, m))"


section \<open>Injection into the hardware registers\<close>

text \<open>With the four registers the code addresses, the search is that of the saved registers.\<close>

lemma find_first_idx: "find (\<lambda>i. P (xs ! i)) [0..<length xs] = first_idx P xs"
proof (cases "first_idx P xs")
  case None
  hence "\<forall>i<length xs. \<not> P (xs ! i)" by (simp add: first_idx_None)
  thus ?thesis using None by (simp add: find_None_iff)
next
  case (Some i)
  hence "i < length xs" "P (xs ! i)" "\<forall>j<i. \<not> P (xs ! j)" by (auto simp: first_idx_Some)
  hence "find (\<lambda>i. P (xs ! i)) [0..<length xs] = Some i" by (simp add: find_Some_iff) (intro exI [of _ i], simp)
  thus ?thesis using Some by simp
qed

lemma scan_lrs_four:
  assumes "num_list_registers vtr = 4" "length lrs = 4"
  shows "scan_lrs vtr P lrs = first_idx P lrs"
proof -
  have "scan_lrs vtr P lrs = find (\<lambda>i. P (lrs ! i)) [0..<length lrs]"
    unfolding scan_lrs_def assms by (rule find_cong) (auto simp: read_lr_def)
  thus ?thesis by (simp add: find_first_idx)
qed

lemma hw_place_four:
  assumes "num_list_registers vtr = 4" "length lrs = 4"
  shows "hw_place vtr intid lrs = place_lr intid lrs"
proof (cases "first_idx (\<lambda>lr. get_lr_state lr = 0) lrs")
  case (Some i)
  hence "i < 4" using assms(2) by (auto simp: first_idx_Some)
  thus ?thesis using Some assms by (simp add: hw_place_def inject_interrupt_def scan_lrs_four place_lr_def write_lr_def)
qed (use assms in \<open>simp add: hw_place_def inject_interrupt_def scan_lrs_four place_lr_def\<close>)

interpretation hw_lrs4: lr_injector "\<lambda>l. length l = 4" id "hw_place 3"
proof unfold_locales
  fix l l' :: "u64 list" and i
  have four: "num_list_registers 3 = 4" by (simp add: num_list_registers_def VTR_LISTREGS_MASK_def)
  assume l: "length l = 4"
  { assume "hw_place 3 i l = Some l'"
    hence "place_lr i l = Some l'" using hw_place_four [OF four l] by simp
    from saved_lrs.place_Some [OF TrueI this]
    show "length l' = 4 \<and> (\<exists>k<length (id l). get_lr_state (id l ! k) = 0 \<and> id l' = (id l)[k := build_lr i IRQ_DEFAULT_PRIORITY])"
      using l by auto }
  { assume "hw_place 3 i l = None"
    hence "place_lr i l = None" using hw_place_four [OF four l] by simp
    from saved_lrs.place_None [OF TrueI this] show "all_busy (id l)" . }
qed

text \<open>A register that the hardware reports and the code does not address reads as free.\<close>

lemma hw_place_beyond:
  assumes "num_list_registers vtr > 4" "length lrs = 4" "all_busy lrs"
  shows "hw_place vtr intid lrs = Some lrs"
proof -
  have busy: "get_lr_state (read_lr lrs i) \<noteq> 0" if "i < 4" for i
    using assms(2,3) that by (simp add: all_busy_def read_lr_def)
  have free: "get_lr_state (read_lr lrs 4) = 0" by (simp add: read_lr_def get_lr_state_def)
  have "find (\<lambda>i. get_lr_state (read_lr lrs i) = 0) [0..<num_list_registers vtr] = Some 4"
    using assms(1) busy free by (simp add: find_Some_iff) (intro exI [of _ 4], simp)
  thus ?thesis by (simp add: hw_place_def inject_interrupt_def scan_lrs_def write_lr_def)
qed

definition machine_ok :: "platform \<Rightarrow> machine \<Rightarrow> bool" where
  "machine_ok pf m \<longleftrightarrow> hv_ok pf (mc_hv m) \<and> length (hw_lrs (mc_hw m)) = 4"


section \<open>The handlers keep the machine well formed\<close>

lemma write_lr_length [simp]: "length (write_lr i v lrs) = length lrs"
  by (simp add: write_lr_def)

lemma hw_place_length: "hw_place vtr i lrs = Some l \<Longrightarrow> length l = length lrs"
  by (auto simp: hw_place_def inject_interrupt_def split: option.splits sum.splits)

lemma drop_stale_length [simp]: "length (drop_stale vtr i lrs) = length lrs"
proof -
  have "length (fold (\<lambda>i lrs. if P i lrs then write_lr i 0 lrs else lrs) is lrs) = length lrs" for P "is"
    by (induction "is" arbitrary: lrs) simp_all
  thus ?thesis by (simp add: drop_stale_def)
qed

lemma set_hw_lrs_sel [simp]: "hw_lrs (set_hw_lrs l h) = l" "hw_vtr (set_hw_lrs l h) = hw_vtr h"
  by (simp_all add: set_hw_lrs_def)

lemma hw_inject_ok [intro]: "machine_ok pf m \<Longrightarrow> machine_ok pf (hw_inject i m)"
  by (auto simp: machine_ok_def hw_inject_def dest: hw_place_length split: option.splits)

lemma hw_inject_hv [simp]: "mc_hv (hw_inject i m) = mc_hv m"
  by (simp add: hw_inject_def split: option.split)

lemma hw_inject_hw_ok [intro]: "machine_ok pf m \<Longrightarrow> machine_ok pf (hw_inject_hw i p m)"
  by (auto simp: machine_ok_def hw_inject_hw_def inject_hw_interrupt_def Let_def split: option.splits)

lemma mask_vtimer_ok [intro]: "machine_ok pf m \<Longrightarrow> machine_ok pf (mask_vtimer m)"
  by (simp add: machine_ok_def mask_vtimer_def)

lemma counters_ok [simp]:
  "machine_ok pf (m\<lparr>mc_exception_count := n\<rparr>) = machine_ok pf m" "machine_ok pf (m\<lparr>mc_wfi_count := n\<rparr>) = machine_ok pf m"
  "machine_ok pf (m\<lparr>mc_last_wfi_pc := a\<rparr>) = machine_ok pf m" "machine_ok pf (reset_exception_count m) = machine_ok pf m"
  by (simp_all add: machine_ok_def reset_exception_count_def)

lemma upd_current_ok:
  assumes "machine_ok pf m" "vm_global_ok (vm_now m) \<Longrightarrow> vm_global_ok (f (vm_now m))"
  shows "machine_ok pf (upd_current f m)"
proof -
  have "hv_current_vm (mc_hv m) < MAX_VMS" using assms(1) by (simp add: machine_ok_def hv_ok_def)
  thus ?thesis using assms upd_vm_ok [of pf "mc_hv m" "hv_current_vm (mc_hv m)" f]
    by (simp add: machine_ok_def upd_current_def upd_hv_def)
qed

lemma upd_current_hw [simp]: "mc_hw (upd_current f m) = mc_hw m"
  by (simp add: upd_current_def upd_hv_def)

lemma queue_sgi_ok: "machine_ok pf m \<Longrightarrow> intid < 16 \<Longrightarrow> machine_ok pf (queue_sgi intid t m)"
  unfolding queue_sgi_def by (intro upd_current_ok or_sgis_ok)

lemma sgi_intid_bound: "sgi_intid v < 16"
proof -
  have "drop_bit 24 v AND 0xF = take_bit 4 (drop_bit 24 v)" by (simp add: take_bit_eq_mask mask_eq_exp_minus_1)
  thus ?thesis by (simp add: sgi_intid_def unat_take_bit)
qed

lemma fold_inv: "I s \<Longrightarrow> (\<And>x s. I s \<Longrightarrow> I (f x s)) \<Longrightarrow> I (fold f xs s)"
  by (induction xs arbitrary: s) simp_all

lemma handle_sgi_trap_ok: "machine_ok pf m \<Longrightarrow> machine_ok pf (handle_sgi_trap v m)"
  unfolding handle_sgi_trap_def Let_def
  by (auto intro!: fold_inv [where I = "machine_ok pf"] queue_sgi_ok sgi_intid_bound)

lemma emulate_msr_ok: "machine_ok pf m \<Longrightarrow> machine_ok pf (emulate_msr r v m)"
  by (auto simp: emulate_msr_def handle_sgi_trap_ok) (simp add: machine_ok_def)

lemma set_terminal_exit_ok: "machine_ok pf m \<Longrightarrow> machine_ok pf (set_terminal_exit m)"
  unfolding set_terminal_exit_def by (rule upd_current_ok) (auto simp: vm_global_ok_def)

lemma handle_psci_ok: "machine_ok pf m \<Longrightarrow> handle_psci env fid cx m = Some (b, cx', m') \<Longrightarrow> machine_ok pf m'"
  by (auto simp: handle_psci_def Let_def set_terminal_exit_ok bind_eq_Some_conv split: if_splits
      intro!: upd_current_ok) (simp_all add: vm_global_ok_def)

lemma print_char_ok: "machine_ok pf m \<Longrightarrow> machine_ok pf (print_char ch m)"
  by (simp add: machine_ok_def print_char_def upd_hv_def hv_ok_def)

lemma handle_hypercall_ok: "machine_ok pf m \<Longrightarrow> handle_hypercall env cx m = Some (b, cx', m') \<Longrightarrow> machine_ok pf m'"
  by (auto simp: handle_hypercall_def handle_jailhouse_def Let_def print_char_ok handle_psci_ok split: if_splits list.splits)

lemma handle_smc_ok: "machine_ok pf m \<Longrightarrow> handle_smc env cx m = Some (b, cx', m') \<Longrightarrow> machine_ok pf m'"
  by (auto simp: handle_smc_def Let_def handle_psci_ok bind_eq_Some_conv split: if_splits)
    (simp add: machine_ok_def hv_ok_def)

lemma handle_wfi_ok: "machine_ok pf m \<Longrightarrow> handle_wfi cx m = Some (b, m') \<Longrightarrow> machine_ok pf m'"
  by (auto simp: handle_wfi_def Let_def intro: hw_inject_ok [OF mask_vtimer_ok] split: if_splits)


text \<open>What an emulated access does to the machine: nothing, or one access to the devices of the current VM.\<close>

lemma handle_mmio_abort_access:
  assumes "handle_mmio_abort env addr cx m = Some (b, cx', m')"
  obtains "m' = m" | v sz w r s where "current_handle_mmio (ee_pf env) (ee_ck env) addr v sz w (mc_hv m) = Some (r, s)" "m' = m\<lparr>mc_hv := s\<rparr>"
proof -
  define iss :: u32 where "iss = ucast (cx_esr_el2 cx AND ESR_ISS_MASK)"
  define f :: "u32 option" where "f = (if drop_bit 24 iss AND 1 = 1 then Some 0
     else if cx_pc cx < 0x800000000000 then Some (rd32 (hv_mem (mc_hv m)) (cx_pc cx)) else None)"
  note run = assms [unfolded handle_mmio_abort_def Let_def, folded iss_def, folded f_def]
  show thesis
  proof (cases f)
    case None
    hence "m' = m" using run by simp
    thus thesis by (rule that(1))
  next
    case (Some insn)
    show thesis
    proof (cases "decode insn iss")
      case None
      hence "m' = m" using run Some by simp
      thus thesis by (rule that(1))
    next
      case dec: (Some access)
      show thesis
      proof (cases "is_store access")
        case True
        then obtain r s where "current_handle_mmio (ee_pf env) (ee_ck env) addr (get_reg (cx_gp cx) (access_reg access))
            (access_size access) True (mc_hv m) = Some (r, s)" "m' = m\<lparr>mc_hv := s\<rparr>"
          using run Some dec by (auto simp: bind_eq_Some_conv)
        thus thesis by (rule that(2))
      next
        case False
        then obtain r s where "current_handle_mmio (ee_pf env) (ee_ck env) addr 0 (access_size access) False (mc_hv m) = Some (r, s)"
          "m' = m\<lparr>mc_hv := s\<rparr>"
          using run Some dec by (auto simp: bind_eq_Some_conv split: option.splits)
        thus thesis by (rule that(2))
      qed
    qed
  qed
qed

lemma handle_mmio_abort_ok:
  assumes "machine_ok (ee_pf env) m" "handle_mmio_abort env addr cx m = Some (b, cx', m')"
  shows "machine_ok (ee_pf env) m'"
proof -
  have "hv_ok (ee_pf env) (mc_hv m)" using assms(1) by (simp add: machine_ok_def)
  note h = current_handle_mmio_ok [OF this]
  from assms(2) show ?thesis
  proof (cases rule: handle_mmio_abort_access)
    case (2 v sz w r s)
    thus ?thesis using h [OF 2(1)] assms(1) by (simp add: machine_ok_def)
  qed (use assms(1) in simp)
qed

lemma inject_bits_length:
  "inject_bits (hw_place vtr) base all n lrs = (l, r) \<Longrightarrow> length l = length lrs"
proof -
  assume i: "inject_bits (hw_place vtr) base all n lrs = (l, r)"
  have "length (fst (fold (inject_bit (hw_place vtr) base all) [0..<n] (lrs, 0))) = length lrs"
    by (rule fold_inv [where I = "\<lambda>s. length (fst s) = length lrs"])
      (auto simp: inject_bit_def dest!: hw_place_length split: option.splits)
  thus ?thesis using i by (simp add: inject_bits_def)
qed

lemma flush_pending_spis_ok: "machine_ok pf m \<Longrightarrow> machine_ok pf (flush_pending_spis m)"
  unfolding flush_pending_spis_def Let_def
  by (auto split: prod.split intro!: upd_current_ok dest!: inject_bits_length) (simp_all add: machine_ok_def vm_global_upd_ok)

lemma uart_irq_ok:
  assumes "machine_ok pf m" "foldM uart_ring_push bs (hv_uart_rx (mc_hv m)) = Some ring"
  shows "machine_ok pf (upd_hv (\<lambda>s. s\<lparr>hv_uart_rx := ring\<rparr>) m)"
proof -
  have "uart_ring_ok (hv_uart_rx (mc_hv m))" using assms(1) by (simp add: machine_ok_def hv_ok_def)
  hence "uart_ring_ok ring"
  proof (rule foldM_inv [OF assms(2)])
    fix x r r'
    assume "uart_ring_ok r" "uart_ring_push x r = Some r'"
    thus "uart_ring_ok r'" using uart_fifo.enq_law [of r x] by auto
  qed
  thus ?thesis using assms(1) by (simp add: machine_ok_def upd_hv_def hv_ok_def)
qed

lemma preemption_ok: "machine_ok pf m \<Longrightarrow> machine_ok pf (upd_current (\<lambda>g. g\<lparr>vg_preemption := True\<rparr>) m)"
  by (rule upd_current_ok) (simp_all add: vm_global_ok_def)

lemma handle_irq_ok:
  assumes "machine_ok pf m" "handle_irq env intid m = Some (b, a, m')"
  shows "machine_ok pf m'"
proof -
  have m: "machine_ok pf (reset_exception_count m)" using assms(1) by simp
  have "unat intid < 16" if "intid \<le> 15" using that by (simp add: word_le_nat_alt)
  thus ?thesis
    using assms(2) uart_irq_ok [OF m] queue_sgi_ok [OF m] hw_inject_ok [OF m] preemption_ok
      hw_inject_hw_ok [OF mask_vtimer_ok [OF m]] m
    unfolding handle_irq_def Let_def by (auto simp: bind_eq_Some_conv split: if_splits)
qed

lemma handle_exception_ok:
  assumes "machine_ok (ee_pf env) m" and r: "handle_exception env esr far hpfar cx m = Some (b, cx', m')"
  shows "machine_ok (ee_pf env) m'"
proof -
  let ?cx = "cx\<lparr>cx_esr_el2 := esr, cx_far_el2 := far\<rparr>"
  show ?thesis
  proof (cases "exit_reason ?cx")
    case TrapMsrMrs
    thus ?thesis using r assms
      by (auto simp: handle_exception_def Let_def handle_msr_mrs_trap_def bind_eq_Some_conv emulate_msr_ok split: if_splits)
  next
    case DataAbort
    then obtain c h m1 where m1: "handle_mmio_abort env (data_abort_ipa hpfar far) ?cx
        (m\<lparr>mc_exception_count := mc_exception_count m + 1\<rparr>) = Some (h, c, m1)"
      "m' = m1 \<or> m' = flush_pending_spis (reset_exception_count m1)"
      using r by (auto simp: handle_exception_def Let_def bind_eq_Some_conv split: if_splits)
    have "machine_ok (ee_pf env) m1" using handle_mmio_abort_ok [OF _ m1(1)] assms by simp
    thus ?thesis using m1(2) flush_pending_spis_ok [of "ee_pf env" "reset_exception_count m1"] by auto
  qed (use r assms in \<open>auto simp: handle_exception_def Let_def bind_eq_Some_conv split: if_splits
      dest: handle_wfi_ok [rotated] handle_hypercall_ok [rotated] handle_smc_ok [rotated]\<close>)
qed


definition demo_env :: exc_env where
  "demo_env = \<lparr>ee_pf = qemu_virt, ee_ck = \<lparr>ck_freq = 62500000, ck_now = 0\<rparr>, ee_ffa = linux_env, ee_smc = (\<lambda>_ _. 0), ee_uart_fifo = [0x41]\<rparr>"

definition demo_machine :: "hv \<Rightarrow> machine" where
  "demo_machine s = \<lparr>mc_hv = s, mc_hw = running_hw, mc_ffa = guest_state (\<lambda>_. 0) mailbox_new,
     mc_exception_count = 0, mc_wfi_count = 0, mc_last_wfi_pc = 0\<rparr>"

definition hvc_esr :: u64 where "hvc_esr = 0x58000000"

lemma running_hw_lrs: "hw_lrs running_hw = [0, 0, 0, 0]"
  by (simp add: running_hw_def running_state_def init_for_vcpu_def NUM_LRS_def numeral_eq_Suc)

lemma demo_machine_ok: "hv_ok pf s \<Longrightarrow> machine_ok pf (demo_machine s)"
  by (simp add: machine_ok_def demo_machine_def running_hw_lrs)

lemma hvc_exit: "exit_reason (cx\<lparr>cx_esr_el2 := hvc_esr, cx_far_el2 := far\<rparr>) = HvcCall"
  by (simp add: exit_reason_def esr_ec_def hvc_esr_def)

lemma handle_exception_hvc:
  "mc_exception_count m = 0 \<Longrightarrow> handle_exception env hvc_esr far hpfar cx m =
     handle_hypercall env (cx\<lparr>cx_esr_el2 := hvc_esr, cx_far_el2 := far\<rparr>) (reset_exception_count m)"
  unfolding handle_exception_def Let_def hvc_exit
  by (simp add: MAX_CONSECUTIVE_EXCEPTIONS_def reset_exception_count_def)

lemma hypercall_psci:
  "cx_esr_el2 cx = hvc_esr \<Longrightarrow> cx_gp cx 0 AND 0x80000000 \<noteq> 0 \<Longrightarrow> handle_hypercall env cx m = handle_psci env (cx_gp cx 0) cx m"
  by (simp add: handle_hypercall_def hvc_esr_def Let_def)


section \<open>Flushing device interrupts to the hardware\<close>

lemma flush_spec:
  assumes "machine_ok pf m" "current_vcpu_id (mc_hv m) = v"
    and "inject_bits (hw_place (hw_vtr (mc_hw m))) 32 (vg_pending_spis (vm_now m) ! v) 32 (hw_lrs (mc_hw m)) = (l, rest)"
  shows "vg_pending_spis (vm_now (flush_pending_spis m)) ! v = rest \<and> hw_lrs (mc_hw (flush_pending_spis m)) = l"
proof -
  have g: "vm_global_ok (vm_now m)" and c: "hv_current_vm (mc_hv m) < length (hv_vms (mc_hv m))"
    using assms(1) hv_ok_current by (auto simp: machine_ok_def hv_ok_def)
  hence v: "v < MAX_VCPUS" "v < length (vg_pending_spis (vm_now m))" using assms(2) by (auto simp: vm_global_ok_def)
  show ?thesis
  proof (cases "vg_pending_spis (vm_now m) ! v = 0")
    case True
    have "fold (inject_bit p b 0) is s = s" for p b "is" and s :: "u64 list \<times> u32"
      by (induction "is" arbitrary: s) (simp_all add: inject_bit_def)
    thus ?thesis using True assms(2,3) by (simp add: flush_pending_spis_def inject_bits_def)
  next
    case False
    thus ?thesis using assms(2,3) v c
      by (simp add: flush_pending_spis_def Let_def upd_current_def upd_hv_def upd_vm_nth)
  qed
qed

text \<open>On hardware with the four list registers the code addresses, handing the pending SPIs of the running vCPU to the hardware loses none: each gets a
  register of its own, or stays pending because all four are in use.\<close>

lemma flush_conserves:
  assumes "machine_ok pf m" "hw_vtr (mc_hw m) = 3" "current_vcpu_id (mc_hv m) = v"
  shows "bits (vg_pending_spis (vm_now (flush_pending_spis m)) ! v) \<subseteq> bits (vg_pending_spis (vm_now m) ! v) \<and>
    (vg_pending_spis (vm_now (flush_pending_spis m)) ! v = 0 \<or> all_busy (hw_lrs (mc_hw (flush_pending_spis m)))) \<and>
    placed 32 (bits (vg_pending_spis (vm_now m) ! v) - bits (vg_pending_spis (vm_now (flush_pending_spis m)) ! v))
      (hw_lrs (mc_hw m)) (hw_lrs (mc_hw (flush_pending_spis m)))"
proof -
  let ?all = "vg_pending_spis (vm_now m) ! v"
  obtain l rest where i: "inject_bits (hw_place (hw_vtr (mc_hw m))) 32 ?all 32 (hw_lrs (mc_hw m)) = (l, rest)" by fastforce
  have four: "length (hw_lrs (mc_hw m)) = 4" using assms(1) by (simp add: machine_ok_def)
  have "bits ?all \<inter> {..<32} = bits ?all" by (auto dest: bit_imp_le_length)
  with hw_lrs4.inject_conserves [OF four _ i [unfolded assms(2)]] flush_spec [OF assms(1,3) i]
  show ?thesis by auto
qed


text \<open>On hardware that reports more than four list registers, the code takes a register it does not address for a free one: when the four it does address are in use,
  handing the pending SPIs of the running vCPU to the hardware clears them all and delivers none.\<close>

lemma flush_loses:
  assumes "machine_ok pf m" "num_list_registers (hw_vtr (mc_hw m)) > 4" "all_busy (hw_lrs (mc_hw m))"
    and "current_vcpu_id (mc_hv m) = v"
  shows "vg_pending_spis (vm_now (flush_pending_spis m)) ! v = 0 \<and> hw_lrs (mc_hw (flush_pending_spis m)) = hw_lrs (mc_hw m)"
proof -
  let ?l = "hw_lrs (mc_hw m)"
  have "length ?l = 4" using assms(1) by (simp add: machine_ok_def)
  note place = hw_place_beyond [OF assms(2) this assms(3)]
  have "fold (inject_bit (hw_place (hw_vtr (mc_hw m))) b all) is (?l, 0) = (?l, 0)" for b all "is"
    by (induction "is") (simp_all add: inject_bit_def place)
  hence "inject_bits (hw_place (hw_vtr (mc_hw m))) 32 (vg_pending_spis (vm_now m) ! v) 32 ?l = (?l, 0)"
    by (simp add: inject_bits_def)
  from flush_spec [OF assms(1,4) this] show ?thesis .
qed

section \<open>Software interrupts and PSCI\<close>

text \<open>A software interrupt to a list of targets reaches the queue of every other vCPU named, and of no one else.\<close>

lemma queue_sgi_nth:
  assumes "machine_ok pf m" "t < MAX_VCPUS"
  shows "vg_pending_sgis (vm_now (queue_sgi intid b m)) ! t =
    (if t = b then vg_pending_sgis (vm_now m) ! t OR push_bit intid 1 else vg_pending_sgis (vm_now m) ! t)"
    "vg_current (vm_now (queue_sgi intid b m)) = vg_current (vm_now m)"
proof -
  have "hv_current_vm (mc_hv m) < length (hv_vms (mc_hv m))" "vm_global_ok (vm_now m)"
    using assms(1) hv_ok_current by (auto simp: machine_ok_def hv_ok_def)
  thus "vg_pending_sgis (vm_now (queue_sgi intid b m)) ! t =
    (if t = b then vg_pending_sgis (vm_now m) ! t OR push_bit intid 1 else vg_pending_sgis (vm_now m) ! t)"
    "vg_current (vm_now (queue_sgi intid b m)) = vg_current (vm_now m)"
    using assms(2) by (simp_all add: queue_sgi_def upd_current_def upd_hv_def upd_vm_nth or_sgis_def vm_global_ok_def nth_list_update)
qed

lemma sgi_list_delivers:
  assumes "machine_ok pf m" "drop_bit 40 v AND 1 \<noteq> 1" "t < MAX_VCPUS"
  shows "vg_pending_sgis (vm_now (handle_sgi_trap v m)) ! t =
    (if bit (ucast (v AND 0xFFFF) :: u32) t \<and> t \<noteq> current_vcpu_id (mc_hv m)
     then vg_pending_sgis (vm_now m) ! t OR push_bit (sgi_intid v) 1 else vg_pending_sgis (vm_now m) ! t)"
proof -
  let ?list = "ucast (v AND 0xFFFF) :: u32" and ?cur = "current_vcpu_id (mc_hv m)"
  let ?f = "\<lambda>b m. if \<not> bit ?list b then m else if b = ?cur then hw_inject (of_nat (sgi_intid v)) m else queue_sgi (sgi_intid v) b m"
  have "machine_ok pf (fold ?f is m) \<and> vg_pending_sgis (vm_now (fold ?f is m)) ! t =
      (if t \<in> set is \<and> bit ?list t \<and> t \<noteq> ?cur then vg_pending_sgis (vm_now m) ! t OR push_bit (sgi_intid v) 1
       else vg_pending_sgis (vm_now m) ! t)" if "distinct is" for "is"
    using that
  proof (induction "is" rule: rev_induct)
    case Nil
    thus ?case using assms(1) by simp
  next
    case (snoc b "is")
    hence IH: "machine_ok pf (fold ?f is m)" "vg_pending_sgis (vm_now (fold ?f is m)) ! t =
        (if t \<in> set is \<and> bit ?list t \<and> t \<noteq> ?cur then vg_pending_sgis (vm_now m) ! t OR push_bit (sgi_intid v) 1
         else vg_pending_sgis (vm_now m) ! t)" "b \<notin> set is" by simp_all
    show ?case
    proof (cases "bit ?list b \<and> b \<noteq> ?cur")
      case True
      thus ?thesis using queue_sgi_nth(1) [OF IH(1) assms(3)] queue_sgi_ok [OF IH(1) sgi_intid_bound] IH(2,3)
        by (cases "t = b") auto
    next
      case False
      thus ?thesis using IH hw_inject_ok [OF IH(1)] by auto
    qed
  qed
  from this [of "[0..<MAX_VCPUS]"] show ?thesis using assms(2,3) by (simp add: handle_sgi_trap_def Let_def)
qed

text \<open>One sent to the sender itself is lost when the four list registers are in use: it is neither injected nor queued.\<close>

lemma self_sgi_lost:
  assumes "machine_ok pf m" "hw_vtr (mc_hw m) = 3" "all_busy (hw_lrs (mc_hw m))"
  shows "hw_inject intid m = m"
  using hw_lrs4.busy_stays [of "hw_lrs (mc_hw m)" intid] assms by (simp add: hw_inject_def machine_ok_def)

text \<open>In a checked build a guest stops the hypervisor by asking for the affinity of a CPU above 63.\<close>

lemma psci_affinity_panics:
  assumes "fid = PSCI_AFFINITY_INFO_32 \<or> fid = PSCI_AFFINITY_INFO_64" "pf_checked (ee_pf env)" "unat (cx_gp cx 1 AND 0xFF) \<ge> 64"
  shows "handle_psci env fid cx m = None"
  using assms by (auto simp: handle_psci_def psci_ids affinity_bit_def Let_def)

end
