(* ===== verification/Vm.thy ===== *)
theory Vm
  imports Exceptions
begin

text \<open>A virtual machine and its run loop (\<open>src/vm.rs\<close>), in the build for one physical CPU.  A guest is the parameter of
  the vCPU's run operation; arming the preemption timer and waking the physical redistributor are left
  to the hardware.\<close>

datatype vm_run_state = VmUninitialized | VmReady | VmRunning | VmPaused | VmStopped

record vm =
  vm_id :: nat
  vm_state :: vm_run_state
  vm_vcpus :: "vcpu option list"
  vm_vcpu_count :: nat
  vm_memory_initialized :: bool
  vm_scheduler :: scheduler
  vm_vttbr :: u64
  vm_vtcr :: u64

definition vm_record :: "nat \<Rightarrow> vm" where
  "vm_record i = \<lparr>vm_id = i, vm_state = VmUninitialized, vm_vcpus = replicate MAX_VCPUS None, vm_vcpu_count = 0,
     vm_memory_initialized = False, vm_scheduler = sched_new, vm_vttbr = 0, vm_vtcr = 0\<rparr>"

text \<open>\<open>Vm::new\<close> also empties the VM's device manager and registers the default devices (Linux guest build).\<close>

definition vm_new :: "nat \<Rightarrow> u64 \<Rightarrow> nat \<Rightarrow> hv \<Rightarrow> (vm \<times> hv) or_panic" where
  "vm_new num_cpus cntvct i s =
     (if i < length (hv_devices s)
      then do {
        gr \<leftarrow> gicr_new num_cpus;
        let dm = fold (\<lambda>d dm. snd (register_device d dm))
          [Uart uart_new, Gicd (gicd_new (of_nat num_cpus)), Gicr gr, RtcPl031 (pl031_new cntvct)] (dm_reset (hv_devices s ! i));
        Some (vm_record i, set_devices i dm s) }
      else None)"

datatype vm_error = VcpuOutOfRange | VcpuExists | MaxVcpus | VmNotReady | NoVcpus | VcpuNotFound | NotRunning | NotPaused
  | NoCurrent | RunFailed vcpu_exit

definition make_ready :: "vm \<Rightarrow> vm" where
  "make_ready v = (if vm_state v = VmUninitialized then v\<lparr>vm_state := VmReady\<rparr> else v)"

definition create_vcpu :: "u64 \<Rightarrow> nat \<Rightarrow> vm \<Rightarrow> vm_error + vm" where
  "create_vcpu mpidr vcpu_id v =
     (if vcpu_id \<ge> MAX_VCPUS then Inl VcpuOutOfRange
      else if vm_vcpus v ! vcpu_id \<noteq> None then Inl VcpuExists
      else Inr (make_ready (v\<lparr>vm_vcpus := (vm_vcpus v)[vcpu_id := Some (vcpu_new mpidr vcpu_id 0 0)],
        vm_vcpu_count := vm_vcpu_count v + 1, vm_scheduler := sched_add_vcpu vcpu_id (vm_scheduler v)\<rparr>)))"

definition add_vcpu :: "u64 \<Rightarrow> u64 \<Rightarrow> u64 \<Rightarrow> vm \<Rightarrow> vm_error + nat \<times> vm" where
  "add_vcpu mpidr entry_point stack_pointer v =
     (if vm_vcpu_count v \<ge> MAX_VCPUS then Inl MaxVcpus
      else let vcpu_id = vm_vcpu_count v in
        Inr (vcpu_id, make_ready (v\<lparr>vm_vcpus := (vm_vcpus v)[vcpu_id := Some (vcpu_new mpidr vcpu_id entry_point stack_pointer)],
          vm_vcpu_count := vm_vcpu_count v + 1\<rparr>)))"

definition vm_vcpu :: "nat \<Rightarrow> vm \<Rightarrow> vcpu option or_panic" where
  "vm_vcpu vcpu_id v =
     (if vcpu_id < vm_vcpu_count v
      then (if vcpu_id < length (vm_vcpus v) then Some (vm_vcpus v ! vcpu_id) else None)
      else Some None)"

definition put_vcpu :: "nat \<Rightarrow> vcpu \<Rightarrow> vm \<Rightarrow> vm" where
  "put_vcpu i c v = v\<lparr>vm_vcpus := (vm_vcpus v)[i := Some c]\<rparr>"

definition upd_sched :: "(scheduler \<Rightarrow> scheduler) \<Rightarrow> vm \<Rightarrow> vm" where
  "upd_sched f v = v\<lparr>vm_scheduler := f (vm_scheduler v)\<rparr>"

text \<open>Running a vCPU on the machine.\<close>

definition run_on :: "machine guest \<Rightarrow> vcpu \<Rightarrow> machine \<Rightarrow> vcpu_exit \<times> vcpu \<times> machine" where
  "run_on guest c m = (case vcpu_run guest c (mc_hw m) m of (e, c', h, m') \<Rightarrow> (e, c', m'\<lparr>mc_hw := h\<rparr>))"

definition exit_result :: "vcpu_exit \<Rightarrow> vm_error + unit" where
  "exit_result e = (if e = ExitOk then Inr () else Inl (RunFailed e))"

definition vm_run :: "machine guest \<Rightarrow> vm \<Rightarrow> machine \<Rightarrow> (vm_error + unit) \<times> vm \<times> machine" where
  "vm_run guest v m =
     (if vm_state v \<noteq> VmReady then (Inl VmNotReady, v, m)
      else if vm_vcpu_count v = 0 then (Inl NoVcpus, v, m)
      else (case vm_vcpus v ! 0 of
          Some c \<Rightarrow> (case run_on guest c m of (e, c', m') \<Rightarrow> (exit_result e, put_vcpu 0 c' v, m'))
        | None \<Rightarrow> (Inl VcpuNotFound, v, m)))"

definition vm_pause :: "vm \<Rightarrow> vm_error + vm" where
  "vm_pause v = (if vm_state v \<noteq> VmRunning then Inl NotRunning else Inr (v\<lparr>vm_state := VmPaused\<rparr>))"

definition vm_resume :: "vm \<Rightarrow> vm_error + vm" where
  "vm_resume v = (if vm_state v \<noteq> VmPaused then Inl NotPaused else Inr (v\<lparr>vm_state := VmRunning\<rparr>))"

definition vm_stop :: "vm \<Rightarrow> vm" where
  "vm_stop v = v\<lparr>vm_vcpus := map (map_option vcpu_stop) (vm_vcpus v), vm_state := VmStopped\<rparr>"

definition vm_schedule :: "vm \<Rightarrow> nat option \<times> vm" where
  "vm_schedule v = (case pick_next (vm_scheduler v) of (r, s) \<Rightarrow> (r, v\<lparr>vm_scheduler := s\<rparr>))"

definition run_current :: "machine guest \<Rightarrow> vm \<Rightarrow> machine \<Rightarrow> (vm_error + unit) \<times> vm \<times> machine" where
  "run_current guest v m =
     (case sch_current (vm_scheduler v) of
        None \<Rightarrow> (Inl NoCurrent, v, m)
      | Some i \<Rightarrow> (case vm_vcpus v ! i of
            None \<Rightarrow> (Inl VcpuNotFound, v, m)
          | Some c \<Rightarrow> (case run_on guest c m of (e, c', m') \<Rightarrow> (exit_result e, put_vcpu i c' v, m'))))"

definition mark_current_done :: "vm \<Rightarrow> vm" where
  "mark_current_done v = (case sch_current (vm_scheduler v) of
     Some i \<Rightarrow> upd_sched (sched_remove_vcpu i) v | None \<Rightarrow> v)"

section \<open>One iteration of the run loop\<close>

definition boot_secondary_vcpu :: "nat \<Rightarrow> u64 \<Rightarrow> u64 \<Rightarrow> vm \<Rightarrow> machine \<Rightarrow> vm \<times> machine" where
  "boot_secondary_vcpu i entry ctx_id v m =
     (let mpidr = hw_mpidr (mc_hw m); c = vcpu_new mpidr i entry 0;
          c = c\<lparr>vc_context := (set_x 0 ctx_id (vc_context c))\<lparr>cx_spsr_el2 := SPSR_EL1H_DAIF_MASKED\<rparr>,
            vc_arch := init_for_vcpu mpidr i ((vc_arch c)\<lparr>sctlr_el1 := 0x30D00800, cpacr_el1 := push_bit 20 3\<rparr>)\<rparr> in
      (upd_sched (sched_add_vcpu i) ((put_vcpu i c v)\<lparr>vm_vcpu_count := vm_vcpu_count v + 1\<rparr>),
       reset_exception_counters (upd_hv (upd_vm (vm_id v) (\<lambda>g. g\<lparr>vg_online := vg_online g OR push_bit i 1\<rparr>)) m)))"

definition handle_cpu_on :: "vm \<Rightarrow> machine \<Rightarrow> vm \<times> machine" where
  "handle_cpu_on v m =
     (case cpu_on_take (vg_cpu_on (hv_vms (mc_hv m) ! vm_id v)) of
        (req, p) \<Rightarrow>
          let m = upd_hv (upd_vm (vm_id v) (\<lambda>g. g\<lparr>vg_cpu_on := p\<rparr>)) m in
          (case req of
             None \<Rightarrow> (v, m)
           | Some (target, entry, ctx_id) \<Rightarrow>
               let i = unat (target AND 0xFF) in
               if i < MAX_VCPUS \<and> vm_vcpus v ! i = None then boot_secondary_vcpu i entry ctx_id v m else (v, m)))"

definition wake_pending_vcpus :: "vm_global \<Rightarrow> vm \<Rightarrow> vm" where
  "wake_pending_vcpus g v =
     upd_sched (fold (\<lambda>i s. if vm_vcpus v ! i \<noteq> None \<and> (vg_pending_sgis g ! i \<noteq> 0 \<or> vg_pending_spis g ! i \<noteq> 0)
       then unblock i s else s) [0..<MAX_VCPUS]) v"

text \<open>When every vCPU is blocked, those online are unblocked; the VM is done when there is none.\<close>

definition online_vcpus :: "vm_global \<Rightarrow> vm \<Rightarrow> nat list" where
  "online_vcpus g v = filter (\<lambda>i. bit (vg_online g) i \<and> vm_vcpus v ! i \<noteq> None) [0..<MAX_VCPUS]"

definition after_run :: "nat \<Rightarrow> vcpu_exit \<Rightarrow> vm \<Rightarrow> machine \<Rightarrow> vm \<times> machine" where
  "after_run i e v m =
     (case e of
        ExitOk \<Rightarrow>
          let g = hv_vms (mc_hv m) ! vm_id v in
          if vg_terminal_exit g ! i
          then (upd_sched (sched_remove_vcpu i) v,
                upd_hv (upd_vm (vm_id v) (\<lambda>g. g\<lparr>vg_terminal_exit := (vg_terminal_exit g)[i := False]\<rparr>)) m)
          else if co_requested (vg_cpu_on g) then (upd_sched yield_current v, m)
          else if vg_preemption g then (upd_sched yield_current v, upd_hv (upd_vm (vm_id v) (\<lambda>g. g\<lparr>vg_preemption := False\<rparr>)) m)
          else (upd_sched yield_current v, m)
      | ExitWfi \<Rightarrow> (upd_sched block_current v, m)
      | _ \<Rightarrow> (upd_sched yield_current v, m))"

definition run_scheduled :: "machine guest \<Rightarrow> nat \<Rightarrow> vm \<Rightarrow> machine \<Rightarrow> (vm \<times> machine) option" where
  "run_scheduled guest i v m = do {
     let s = upd_vm (vm_id v) (\<lambda>g. g\<lparr>vg_current := i\<rparr>) (mc_hv m);
     s \<leftarrow> drain_uart (vm_id v) s;
     s \<leftarrow> drain_net_rx (vm_id v) s;
     c \<leftarrow> vm_vcpus v ! i;
     let (lrs, s) = inject_pending_sgis (vc_id c) (ich_lr (vc_arch c)) s;
     let (lrs, s) = inject_pending_spis (vc_id c) lrs s;
     let (e, c, m) = run_on guest (c\<lparr>vc_arch := (vc_arch c)\<lparr>ich_lr := lrs\<rparr>\<rparr>) (m\<lparr>mc_hv := s\<rparr>);
     Some (after_run i e (put_vcpu i c v) m) }"

definition run_one_iteration :: "machine guest \<Rightarrow> vm \<Rightarrow> machine \<Rightarrow> (bool \<times> vm \<times> machine) option" where
  "run_one_iteration guest v m =
     (let (v, m) = handle_cpu_on v m;
          v = wake_pending_vcpus (hv_vms (mc_hv m) ! vm_id v) v;
          (next, v) = vm_schedule v in
      case next of
        None \<Rightarrow>
          let ids = online_vcpus (hv_vms (mc_hv m) ! vm_id v) v in
          Some (ids = [], upd_sched (fold unblock ids) v, m)
      | Some i \<Rightarrow> do {
          (v, m) \<leftarrow> run_scheduled guest i v m;
          Some (False, v, m) })"

partial_function (option) smp_loop :: "machine guest \<Rightarrow> vm \<Rightarrow> machine \<Rightarrow> (vm \<times> machine) option" where
  "smp_loop guest v m = do {
     (finished, v, m) \<leftarrow> run_one_iteration guest v m;
     if finished then Some (v, m) else smp_loop guest v m }"

definition run_smp :: "machine guest \<Rightarrow> vm \<Rightarrow> machine \<Rightarrow> ((vm_error + unit) \<times> vm \<times> machine) option" where
  "run_smp guest v m =
     (if vm_state v \<noteq> VmReady then Some (Inl VmNotReady, v, m)
      else if vm_vcpu_count v = 0 then Some (Inl NoVcpus, v, m)
      else do {
        let m = upd_hv (\<lambda>s. upd_vm (vm_id v) (\<lambda>g. g\<lparr>vg_online := vg_online g OR 1\<rparr>) (s\<lparr>hv_current_vm := vm_id v\<rparr>)) m;
        (v, m) \<leftarrow> smp_loop guest (v\<lparr>vm_state := VmRunning\<rparr>) m;
        Some (Inr (), v\<lparr>vm_state := VmReady\<rparr>, m) })"


text \<open>Several VMs in turn on one physical CPU; a VM that is not ready is not started, but still takes its turns.\<close>

definition multi_start :: "vm \<Rightarrow> machine \<Rightarrow> vm \<times> machine" where
  "multi_start v m =
     (if vm_state v \<noteq> VmReady then (v, m)
      else (v\<lparr>vm_state := VmRunning\<rparr>, upd_hv (upd_vm (vm_id v) (\<lambda>g. g\<lparr>vg_online := vg_online g OR 1\<rparr>)) m))"

definition multi_turn :: "machine guest \<Rightarrow> nat \<Rightarrow> vm list \<times> bool list \<times> machine \<Rightarrow> (vm list \<times> bool list \<times> machine) option" where
  "multi_turn guest k st =
     (case st of (vms, finished, m) \<Rightarrow>
        let v = vms ! k in
        if finished ! vm_id v then Some st
        else do {
          let m = m\<lparr>mc_hv := (mc_hv m)\<lparr>hv_current_vm := vm_id v\<rparr>, mc_ffa := (mc_ffa m)\<lparr>fs_vttbr := vm_vttbr v\<rparr>\<rparr>;
          (fin, v, m) \<leftarrow> run_one_iteration guest v m;
          Some (if fin then (vms[k := v\<lparr>vm_state := VmReady\<rparr>], finished[vm_id v := True], m) else (vms[k := v], finished, m)) })"

partial_function (option) multi_loop :: "machine guest \<Rightarrow> vm list \<times> bool list \<times> machine \<Rightarrow> (vm list \<times> bool list \<times> machine) option" where
  "multi_loop guest st =
     (if \<forall>v\<in>set (fst st). fst (snd st) ! vm_id v then Some st
      else do { st \<leftarrow> foldM (multi_turn guest) [0..<length (fst st)] st; multi_loop guest st })"

definition run_multi_vm :: "machine guest \<Rightarrow> vm list \<Rightarrow> machine \<Rightarrow> (vm list \<times> bool list \<times> machine) option" where
  "run_multi_vm guest vms m =
     (let (vms, m) = fold (\<lambda>v (vs, m). case multi_start v m of (v, m) \<Rightarrow> (vs @ [v], m)) vms ([], m) in
      multi_loop guest (vms, replicate MAX_VMS False, m))"

section \<open>The run loop never schedules a vCPU that does not exist\<close>

text \<open>The vCPUs the scheduler may hand out.\<close>

definition known :: "scheduler \<Rightarrow> nat set" where
  "known s = {i. i < MAX_VCPUS \<and> (sch_states s ! i \<noteq> Unregistered \<or> sch_current s = Some i)}"

lemma known_yield: "sched_inv s \<Longrightarrow> known (yield_current s) \<subseteq> known s"
  by (auto simp: known_def yield_current_def sched_inv_def nth_list_update split: option.splits if_splits)

lemma known_block: "sched_inv s \<Longrightarrow> known (block_current s) \<subseteq> known s"
  by (auto simp: known_def block_current_def sched_inv_def nth_list_update split: option.splits if_splits)

lemma known_unblock: "sched_inv s \<Longrightarrow> known (unblock i s) \<subseteq> known s"
  by (auto simp: known_def unblock_def sched_inv_def nth_list_update split: if_splits)

lemma known_remove: "sched_inv s \<Longrightarrow> known (sched_remove_vcpu i s) \<subseteq> known s"
  by (auto simp: known_def sched_remove_vcpu_def sched_inv_def nth_list_update split: if_splits)

lemma known_add: "sched_inv s \<Longrightarrow> i < MAX_VCPUS \<Longrightarrow> known (sched_add_vcpu i s) \<subseteq> insert i (known s)"
  by (auto simp: known_def sched_add_vcpu_def sched_inv_def nth_list_update split: if_splits)

lemma pick_ready_known:
  assumes "sched_inv s"
  shows "known (snd (pick_ready s)) \<subseteq> known s" "pick_ready s = (Some i, s') \<Longrightarrow> i \<in> known s"
proof -
  have n: "sch_next_idx s < MAX_VCPUS" "length (sch_states s) = MAX_VCPUS" using assms by (simp_all add: sched_inv_def)
  obtain r t where p: "pick_ready s = (r, t)" by fastforce
  show "known (snd (pick_ready s)) \<subseteq> known s"
  proof (cases r)
    case None
    thus ?thesis using pick_ready_None(1) [OF _ n(1)] p by auto
  next
    case (Some j)
    note q = pick_ready_Some [OF p [unfolded Some] n(1)]
    thus ?thesis using p n(2) by (auto simp: known_def nth_list_update split: if_splits)
  qed
  assume "pick_ready s = (Some i, s')"
  from pick_ready_Some(1,2) [OF this n(1)] show "i \<in> known s" by (simp add: known_def)
qed

lemma pick_next_known:
  assumes "sched_inv s"
  shows "known (snd (pick_next s)) \<subseteq> known s" "pick_next s = (Some i, s') \<Longrightarrow> i \<in> known s"
  using pick_ready_known [OF assms] assms
  by (auto simp: pick_next_def known_def sched_inv_def split: option.splits if_splits)

definition vm_inv :: "vm \<Rightarrow> bool" where
  "vm_inv v \<longleftrightarrow> vm_id v < MAX_VMS \<and> length (vm_vcpus v) = MAX_VCPUS \<and> sched_inv (vm_scheduler v) \<and>
     (\<forall>i\<in>known (vm_scheduler v). vm_vcpus v ! i \<noteq> None) \<and>
     (\<forall>i<MAX_VCPUS. \<forall>c. vm_vcpus v ! i = Some c \<longrightarrow> vc_id c = i \<and> length (ich_lr (vc_arch c)) = 4)"

lemma upd_sched_inv:
  assumes "vm_inv v" "sched_inv (f (vm_scheduler v))" "known (f (vm_scheduler v)) \<subseteq> known (vm_scheduler v)"
  shows "vm_inv (upd_sched f v)"
  using assms by (auto simp: vm_inv_def upd_sched_def)

lemma sched_ops_inv:
  assumes "vm_inv v"
  shows "vm_inv (upd_sched yield_current v)" "vm_inv (upd_sched block_current v)" "vm_inv (upd_sched (sched_remove_vcpu i) v)"
proof -
  have "sched_inv (vm_scheduler v)" using assms by (simp add: vm_inv_def)
  thus "vm_inv (upd_sched yield_current v)" "vm_inv (upd_sched block_current v)" "vm_inv (upd_sched (sched_remove_vcpu i) v)"
    using assms by (auto intro!: upd_sched_inv known_yield known_block known_remove simp: inv_intros)
qed

lemma fold_unblock_known:
  "sched_inv s \<Longrightarrow> sched_inv (fold (\<lambda>i s. if P i then unblock i s else s) is s) \<and>
     known (fold (\<lambda>i s. if P i then unblock i s else s) is s) \<subseteq> known s"
proof (induction "is" arbitrary: s)
  case (Cons i "is")
  show ?case
  proof (cases "P i")
    case True
    have "sched_inv (unblock i s)" using Cons.prems by (simp add: inv_intros)
    from Cons.IH [OF this] known_unblock [OF Cons.prems, of i] show ?thesis using True by auto
  qed (use Cons in simp)
qed simp

lemma wake_inv: "vm_inv v \<Longrightarrow> vm_inv (wake_pending_vcpus g v)"
proof -
  assume v: "vm_inv v"
  hence "sched_inv (vm_scheduler v)" by (simp add: vm_inv_def)
  note k = fold_unblock_known [OF this]
  show ?thesis unfolding wake_pending_vcpus_def
    by (intro upd_sched_inv [OF v] conjunct1 [OF k] conjunct2 [OF k])
qed

lemma unblock_all_inv: "vm_inv v \<Longrightarrow> vm_inv (upd_sched (fold unblock is) v)"
proof -
  assume v: "vm_inv v"
  hence "sched_inv (vm_scheduler v)" by (simp add: vm_inv_def)
  from fold_unblock_known [OF this, of "\<lambda>_. True" "is"] show ?thesis by (intro upd_sched_inv [OF v]) simp_all
qed

lemma schedule_inv:
  assumes "vm_inv v" "vm_schedule v = (r, v')"
  shows "vm_inv v' \<and> vm_id v' = vm_id v \<and> vm_vcpus v' = vm_vcpus v \<and>
    (\<forall>i. r = Some i \<longrightarrow> i < MAX_VCPUS \<and> vm_vcpus v ! i \<noteq> None)"
proof -
  have s: "sched_inv (vm_scheduler v)" using assms(1) by (simp add: vm_inv_def)
  obtain s' where p: "pick_next (vm_scheduler v) = (r, s')" "v' = upd_sched (snd \<circ> pick_next) v"
    using assms(2) by (auto simp: vm_schedule_def upd_sched_def split: prod.splits)
  have "vm_inv v'" unfolding p(2) using pick_next_inv [OF s] pick_next_known(1) [OF s] by (intro upd_sched_inv [OF assms(1)]) simp_all
  moreover have "i \<in> known (vm_scheduler v)" if "r = Some i" for i using pick_next_known(2) [OF s] p(1) that by blast
  ultimately show ?thesis using assms(1) p(2) by (auto simp: vm_inv_def known_def upd_sched_def)
qed


section \<open>One iteration of the run loop keeps the VM and the machine well formed\<close>

text \<open>What is asked of a guest run: it leaves the hypervisor's state well formed and four list registers.  The hypervisor's
  own code in such a run is the exception and interrupt handlers, which do.\<close>

definition guest_ok :: "platform \<Rightarrow> machine guest \<Rightarrow> bool" where
  "guest_ok pf guest \<longleftrightarrow> (\<forall>cx h m r cx' h' m'. machine_ok pf m \<longrightarrow> length (hw_lrs h) = 4 \<longrightarrow>
     guest cx h m = (r, cx', h', m') \<longrightarrow> machine_ok pf m' \<and> length (hw_lrs h') = 4)"

lemma clear_interrupt_length [simp]: "length (clear_interrupt vtr i lrs) = length lrs"
  by (simp add: clear_interrupt_def split: option.split)

lemma irq_clear_lrs: "length (hw_lrs (snd (irq_clear s h))) = length (hw_lrs h)"
  by (simp add: irq_clear_def split: option.split)

lemma restore_lrs [simp]: "length (hw_lrs (restore a h)) = 4"
  by (simp add: restore_def)

lemma run_on_ok:
  assumes g: "guest_ok pf guest" and m: "machine_ok pf m" and c: "length (ich_lr (vc_arch c)) = 4"
    and r: "run_on guest c m = (e, c', m')"
  shows "machine_ok pf m' \<and> vc_id c' = vc_id c \<and> length (ich_lr (vc_arch c')) = 4"
proof (cases "vc_state c = VcpuReady")
  case True
  let ?h = "(restore (vc_arch c) (mc_hw m))\<lparr>hw_hcr_el2 := apply_to_hcr (vc_virt_irq c) (hw_hcr_el2 (restore (vc_arch c) (mc_hw m)))\<rparr>"
  obtain q cx h m1 where q: "guest (vc_context c) ?h m = (q, cx, h, m1)" by (rule prod_cases4)
  have "length (hw_lrs ?h) = 4" by simp
  with g m q have ok: "machine_ok pf m1" "length (hw_lrs h) = 4" unfolding guest_ok_def by blast+
  show ?thesis using r True q ok irq_clear_lrs [of "vc_virt_irq c" h]
    by (auto simp: run_on_def vcpu_run_def Let_def machine_ok_def split: prod.splits if_splits)
qed (use assms in \<open>auto simp: run_on_def vcpu_run_def\<close>)

lemma upd_vm_machine_ok:
  "machine_ok pf m \<Longrightarrow> i < MAX_VMS \<Longrightarrow> (\<And>g. vm_global_ok g \<Longrightarrow> vm_global_ok (f g)) \<Longrightarrow> machine_ok pf (upd_hv (upd_vm i f) m)"
  by (auto simp: machine_ok_def upd_hv_def intro!: upd_vm_ok)

lemma nth_update: "xs[i := a] ! j = (if i = j \<and> j < length xs then a else xs ! j)"
  by (cases "i < length xs") (auto simp: nth_list_update list_update_beyond)

lemma put_vcpu_inv:
  "vm_inv v \<Longrightarrow> vc_id c = i \<Longrightarrow> length (ich_lr (vc_arch c)) = 4 \<Longrightarrow> vm_inv (put_vcpu i c v)"
  by (auto simp: vm_inv_def put_vcpu_def known_def nth_update split: if_splits)

lemma upd_sched_sel [simp]: "vm_id (upd_sched f v) = vm_id v" "vm_vcpus (upd_sched f v) = vm_vcpus v"
  "vm_scheduler (upd_sched f v) = f (vm_scheduler v)"
  by (simp_all add: upd_sched_def)

lemma after_run_ok:
  assumes "vm_inv v" "machine_ok pf m" "after_run i e v m = (v', m')"
  shows "vm_inv v' \<and> machine_ok pf m' \<and> vm_id v' = vm_id v"
proof -
  have "vm_id v < MAX_VMS" using assms(1) by (simp add: vm_inv_def)
  thus ?thesis using assms
    by (auto simp: after_run_def Let_def sched_ops_inv vm_global_ok_def intro!: upd_vm_machine_ok
        split: vcpu_exit.splits if_splits)
qed

lemma vcpu_new_arch [simp]: "vc_id (vcpu_new mpidr i e s) = i" "length (ich_lr (vc_arch (vcpu_new mpidr i e s))) = 4"
  by (simp_all add: vcpu_new_def init_for_vcpu_def arch_state_new_def NUM_LRS_def)

lemma boot_secondary_ok:
  assumes v: "vm_inv v" and m: "machine_ok pf m" and i: "i < MAX_VCPUS" and b: "boot_secondary_vcpu i entry ctx v m = (v', m')"
  shows "vm_inv v' \<and> machine_ok pf m' \<and> vm_id v' = vm_id v"
proof -
  let ?mp = "hw_mpidr (mc_hw m)"
  let ?c = "vcpu_new ?mp i entry 0"
  define c where "c = ?c\<lparr>vc_context := (set_x 0 ctx (vc_context ?c))\<lparr>cx_spsr_el2 := SPSR_EL1H_DAIF_MASKED\<rparr>,
      vc_arch := init_for_vcpu ?mp i ((vc_arch ?c)\<lparr>sctlr_el1 := 0x30D00800, cpacr_el1 := push_bit 20 3\<rparr>)\<rparr>"
  have c: "vc_id c = i" "length (ich_lr (vc_arch c)) = 4"
    "v' = upd_sched (sched_add_vcpu i) ((put_vcpu i c v)\<lparr>vm_vcpu_count := vm_vcpu_count v + 1\<rparr>)"
    using b by (simp_all add: c_def boot_secondary_vcpu_def Let_def init_for_vcpu_def NUM_LRS_def)
  have s: "sched_inv (vm_scheduler v)" and id: "vm_id v < MAX_VMS" using v by (simp_all add: vm_inv_def)
  have "(vm_vcpus v)[i := Some c] ! j \<noteq> None" if "j \<in> known (sched_add_vcpu i (vm_scheduler v))" for j
    using that known_add [OF s i] v i by (auto simp: vm_inv_def nth_update)
  moreover have "vm_inv (put_vcpu i c v)" using put_vcpu_inv [OF v c(1,2)] .
  ultimately have "vm_inv v'" using c(3) i add_vcpu_inv [OF s, of i]
    by (simp add: vm_inv_def put_vcpu_def)
  thus ?thesis using b c(3) m id
    by (auto simp: boot_secondary_vcpu_def Let_def reset_exception_counters_def put_vcpu_def vm_global_ok_def intro!: upd_vm_machine_ok)
qed

lemma handle_cpu_on_ok:
  assumes v: "vm_inv v" and m: "machine_ok pf m" and h: "handle_cpu_on v m = (v', m')"
  shows "vm_inv v' \<and> machine_ok pf m' \<and> vm_id v' = vm_id v"
proof -
  have "vm_id v < MAX_VMS" using v by (simp add: vm_inv_def)
  hence "machine_ok pf (upd_hv (upd_vm (vm_id v) (\<lambda>g. g\<lparr>vg_cpu_on := p\<rparr>)) m)" for p
    using m by (intro upd_vm_machine_ok) (simp_all add: vm_global_ok_def)
  from boot_secondary_ok [OF v this] this h v show ?thesis
    by (auto simp: handle_cpu_on_def Let_def split: prod.splits option.splits if_splits)
qed


lemma no_net_iff: "virtio_net_mut dm = None \<longleftrightarrow> (\<forall>t. Some (VirtioNet t) \<notin> set (dm_devices dm))"
proof -
  let ?P = "\<lambda>slot. case slot of Some d \<Rightarrow> (case d of VirtioNet _ \<Rightarrow> True | _ \<Rightarrow> False) | None \<Rightarrow> False"
  have P: "?P x \<Longrightarrow> \<exists>t. x = Some (VirtioNet t)" for x by (auto split: option.splits device.splits)
  show ?thesis
  proof (cases "first_idx ?P (dm_devices dm)")
    case None
    hence "\<forall>x\<in>set (dm_devices dm). \<not> ?P x" by (simp only: first_idx_None)
    hence "Some (VirtioNet t) \<notin> set (dm_devices dm)" for t by fastforce
    thus ?thesis using None by (simp add: virtio_net_mut_def find_dev_def)
  next
    case (Some k)
    note k = first_idx_SomeD(1,2) [OF Some]
    from P [OF k(2)] obtain t where t: "dm_devices dm ! k = Some (VirtioNet t)" by blast
    hence "Some (VirtioNet t) \<in> set (dm_devices dm)" using k(1) nth_mem by metis
    thus ?thesis using Some t by (auto simp: virtio_net_mut_def find_dev_def)
  qed
qed

lemma uart_push_no_net: "virtio_net_mut dm = None \<Longrightarrow> virtio_net_mut (uart_push ch dm) = None"
  by (auto simp: no_net_iff uart_push_def put_dev_def split: option.splits dest!: set_update_subset)

lemma fold_uart_push_no_net: "virtio_net_mut dm = None \<Longrightarrow> virtio_net_mut (fold uart_push chs dm) = None"
  by (induction chs arbitrary: dm) (simp_all add: uart_push_no_net)

lemma inject_spi_devices [simp]: "hv_devices (inject_spi i s) = hv_devices s"
  by (simp add: inject_spi_def Let_def)

lemma drain_uart_no_net:
  assumes "hv_ok pf s" "i < MAX_VMS" "drain_uart i s = Some s'" "virtio_net_mut (hv_devices s ! i) = None"
  shows "virtio_net_mut (hv_devices s' ! i) = None"
proof -
  have "i < length (hv_devices s)" using assms(1,2) by (simp add: hv_ok_def)
  with drain_uart_spec [OF assms(1,2)] assms(3) fold_uart_push_no_net [OF assms(4)] show ?thesis
    by (auto simp: set_devices_def split: if_splits)
qed

lemma drain_net_rx_no_net:
  assumes "hv_ok pf s" "i < MAX_VMS" "virtio_net_mut (hv_devices s ! i) = None"
  shows "\<exists>s'. drain_net_rx i s = Some s'"
proof -
  let ?r = "(replicate MAX_FRAME_SIZE 0, port_rx (hv_net s) ! i) :: u8 list \<times> net_ring"
  let ?body = "\<lambda>frame s. map_option snd (inject_net_rx i frame s)"
  have "length (fst ?r) = MAX_FRAME_SIZE \<and> net_ring_ok (snd ?r)"
    using assms(1,2) by (simp add: hv_ok_def net_ok_def MAX_VMS_def MAX_PORTS_def)
  moreover have "foldM ?body fs s = Some s" for fs
    by (induction fs) (simp_all add: inject_net_rx_def assms(3))
  ultimately show ?thesis using net_fifo.drain_ends [of ?r ?body s s]
    by (auto simp: drain_net_rx_def Let_def)
qed

lemma run_scheduled_ok:
  assumes g: "guest_ok pf guest" and v: "vm_inv v" and m: "machine_ok pf m" and i: "i < MAX_VCPUS" "vm_vcpus v ! i \<noteq> None"
  shows "case run_scheduled guest i v m of
    Some (v', m') \<Rightarrow> vm_inv v' \<and> machine_ok pf m' \<and> vm_id v' = vm_id v
  | None \<Rightarrow> virtio_net_mut (hv_devices (mc_hv m) ! vm_id v) \<noteq> None"
proof -
  let ?s = "upd_vm (vm_id v) (\<lambda>g. g\<lparr>vg_current := i\<rparr>) (mc_hv m)"
  have id: "vm_id v < MAX_VMS" using v by (simp add: vm_inv_def)
  have s: "hv_ok pf ?s" using m i(1) id by (auto simp: machine_ok_def vm_global_ok_def intro!: upd_vm_ok)
  obtain c where c: "vm_vcpus v ! i = Some c" "vc_id c = i" "length (ich_lr (vc_arch c)) = 4" using v i by (auto simp: vm_inv_def)
  obtain s1 where s1: "drain_uart (vm_id v) ?s = Some s1" "hv_ok pf s1" using drain_uart_ok [OF s id] by blast
  show ?thesis
  proof (cases "drain_net_rx (vm_id v) s1")
    case None
    have "virtio_net_mut (hv_devices (mc_hv m) ! vm_id v) \<noteq> None"
    proof
      assume "virtio_net_mut (hv_devices (mc_hv m) ! vm_id v) = None"
      with drain_net_rx_no_net [OF s1(2) id] drain_uart_no_net [OF s id s1(1)] None show False by simp
    qed
    thus ?thesis using None s1(1) by (simp add: run_scheduled_def Let_def)
  next
    case (Some s2)
    note s2 = drain_net_rx_ok [OF s1(2) id Some]
    obtain l3 s3 l4 s4 where l: "inject_pending_sgis i (ich_lr (vc_arch c)) s2 = (l3, s3)" "inject_pending_spis i l3 s3 = (l4, s4)" by fastforce
    note ok = inject_pending_ok [OF s2 i(1) l]
    let ?c = "c\<lparr>vc_arch := (vc_arch c)\<lparr>ich_lr := l4\<rparr>\<rparr>" and ?m = "m\<lparr>mc_hv := s4\<rparr>"
    obtain e c' m' where r: "run_on guest ?c ?m = (e, c', m')" by (rule prod_cases3)
    have "machine_ok pf m' \<and> vc_id c' = i \<and> length (ich_lr (vc_arch c')) = 4"
      using run_on_ok [OF g _ _ r] ok m c by (simp add: machine_ok_def)
    with after_run_ok [OF put_vcpu_inv [OF v], of c' i pf m' i e] s1(1) Some c l r show ?thesis
      by (cases "after_run i e (put_vcpu i c' v) m'") (simp add: run_scheduled_def Let_def put_vcpu_def)
  qed
qed



lemma vm_record_inv: "i < MAX_VMS \<Longrightarrow> vm_inv (vm_record i)"
  using sched_new_inv by (auto simp: vm_inv_def vm_record_def known_def sched_new_def)

lemma vm_new_ok:
  assumes s: "hv_ok qemu_virt s" and run: "vm_new n c i s = Some (v, s')"
  shows "vm_inv v \<and> hv_ok qemu_virt s' \<and> vm_id v = i"
proof -
  obtain gr where gr: "gicr_new n = Some gr" and i: "i < length (hv_devices s)" and v: "v = vm_record i"
    and s': "s' = set_devices i (fold (\<lambda>d dm. snd (register_device d dm))
          [Uart uart_new, Gicd (gicd_new (of_nat n)), Gicr gr, RtcPl031 (pl031_new c)] (dm_reset (hv_devices s ! i))) s"
    using run by (auto simp: vm_new_def Let_def bind_eq_Some_conv split: if_splits)
  have "dm_ok qemu_virt (hv_devices s ! i)" and m: "i < MAX_VMS" using s i by (auto simp: hv_ok_def)
  hence "dm_reset (hv_devices s ! i) = dm_reset dm_new" by (simp add: dm_reset_def dm_new_def dm_ok_def map_replicate_const)
  hence "s' = set_devices i (vm_devices (of_nat n) gr c) s" by (simp add: s' vm_devices_def)
  thus ?thesis using vm_devices_ok [OF gr] s i v vm_record_inv [OF m]
    by (auto simp: hv_ok_def set_devices_def vm_record_def dest!: set_update_subset)
qed

lemma create_vcpu_inv:
  assumes v: "vm_inv v" and c: "create_vcpu mpidr i v = Inr v'"
  shows "vm_inv v'"
proof -
  have s: "sched_inv (vm_scheduler v)" and i: "i < MAX_VCPUS" using assms by (auto simp: vm_inv_def create_vcpu_def split: if_splits)
  have "(vm_vcpus v)[i := Some (vcpu_new mpidr i 0 0)] ! j \<noteq> None" if "j \<in> known (sched_add_vcpu i (vm_scheduler v))" for j
    using that known_add [OF s i] v i by (auto simp: vm_inv_def nth_update)
  moreover have "vm_inv (put_vcpu i (vcpu_new mpidr i 0 0) v)" by (rule put_vcpu_inv [OF v]) simp_all
  ultimately have "vm_inv (v\<lparr>vm_vcpus := (vm_vcpus v)[i := Some (vcpu_new mpidr i 0 0)], vm_vcpu_count := vm_vcpu_count v + 1,
      vm_scheduler := sched_add_vcpu i (vm_scheduler v)\<rparr>)" (is "vm_inv ?v")
    using add_vcpu_inv [OF s, of i] by (simp add: vm_inv_def put_vcpu_def)
  thus ?thesis using c by (auto simp: create_vcpu_def make_ready_def vm_inv_def split: if_splits)
qed

text \<open>A guest that makes one hypercall and returns to the host.\<close>

definition exit_guest :: "exc_env \<Rightarrow> machine guest" where
  "exit_guest env cx h m =
     (case handle_exception env hvc_esr 0 0 cx (m\<lparr>mc_hw := h\<rparr>) of
        Some (_, cx', m') \<Rightarrow> (0, cx', mc_hw m', m')
      | None \<Rightarrow> (0, cx, h, m))"

lemma exit_guest_ok: "guest_ok (ee_pf env) (exit_guest env)"
proof -
  have "machine_ok (ee_pf env) m' \<and> length (hw_lrs (mc_hw m')) = 4"
    if "machine_ok (ee_pf env) m" "length (hw_lrs h) = 4" "handle_exception env hvc_esr 0 0 cx (m\<lparr>mc_hw := h\<rparr>) = Some (b, cx', m')"
    for m h cx b cx' m'
    using handle_exception_ok [OF _ that(3)] that(1,2) by (simp add: machine_ok_def)
  thus ?thesis unfolding guest_ok_def exit_guest_def by (auto split: option.splits)
qed

definition demo_vm :: vm where
  "demo_vm = (case create_vcpu 0 0 (vm_record 0) of Inr v \<Rightarrow> v | Inl _ \<Rightarrow> vm_record 0)"

lemma demo_vm_inv: "vm_inv demo_vm"
  using create_vcpu_inv [OF vm_record_inv [of 0], of 0 0] vm_record_inv [of 0]
  by (auto simp: demo_vm_def MAX_VMS_def split: sum.split)


section \<open>After the last vCPU has stopped\<close>

definition all_gone :: "vm \<Rightarrow> machine \<Rightarrow> nat \<Rightarrow> bool" where
  "all_gone v m k \<longleftrightarrow> vm_inv v \<and> (\<forall>i<MAX_VCPUS. sch_states (vm_scheduler v) ! i = Unregistered) \<and>
     \<not> co_requested (vg_cpu_on (hv_vms (mc_hv m) ! vm_id v)) \<and>
     k < MAX_VCPUS \<and> bit (vg_online (hv_vms (mc_hv m) ! vm_id v)) k \<and> vm_vcpus v ! k \<noteq> None"

lemma unblock_gone:
  "\<forall>i<MAX_VCPUS. sch_states s ! i = Unregistered \<Longrightarrow> set is \<subseteq> {..<MAX_VCPUS} \<Longrightarrow>
     fold (\<lambda>i s. if P i then unblock i s else s) is s = s"
  by (induction "is") (simp_all add: unblock_def)

lemma pick_next_gone:
  assumes "sched_inv s" "\<forall>i<MAX_VCPUS. sch_states s ! i = Unregistered"
  shows "pick_next s = (None, s)"
proof -
  have n: "sch_next_idx s < MAX_VCPUS" and c: "\<And>i. sch_current s = Some i \<Longrightarrow> i < MAX_VCPUS"
    using assms(1) by (auto simp: sched_inv_def)
  obtain r s' where p: "pick_ready s = (r, s')" by fastforce
  have "r = None" using pick_ready_Some(1,2) [of s _ s'] p n assms(2) by (cases r) auto
  hence "pick_ready s = (None, s)" using pick_ready_None(1) [OF _ n] p by simp
  thus ?thesis using c assms(2) by (auto simp: pick_next_def split: option.split)
qed

lemma gone_iteration:
  assumes "all_gone v m k"
  shows "run_one_iteration guest v m = Some (False, v, m)"
proof -
  let ?g = "hv_vms (mc_hv m) ! vm_id v"
  have gone: "\<forall>i<MAX_VCPUS. sch_states (vm_scheduler v) ! i = Unregistered"
    and inv: "sched_inv (vm_scheduler v)" using assms by (simp_all add: all_gone_def vm_inv_def)
  have "handle_cpu_on v m = (v, m)"
    using assms by (simp add: handle_cpu_on_def cpu_on_take_def all_gone_def upd_hv_def upd_vm_same)
  moreover have "wake_pending_vcpus ?g v = v"
    using unblock_gone [OF gone] by (simp add: wake_pending_vcpus_def upd_sched_def atLeast0LessThan)
  moreover have "vm_schedule v = (None, v)"
    using pick_next_gone [OF inv gone] by (simp add: vm_schedule_def)
  moreover have "k \<in> set (online_vcpus ?g v)" using assms by (simp add: all_gone_def online_vcpus_def)
  hence "online_vcpus ?g v \<noteq> []" by auto
  moreover have "upd_sched (fold unblock (online_vcpus ?g v)) v = v"
  proof -
    have "set (online_vcpus ?g v) \<subseteq> {..<MAX_VCPUS}" by (auto simp: online_vcpus_def)
    from unblock_gone [OF gone this, of "\<lambda>_. True"] show ?thesis by (simp add: upd_sched_def)
  qed
  ultimately show ?thesis by (simp add: run_one_iteration_def Let_def)
qed



end
