(* ===== verification/Smp_Wakeup.thy ===== *)
theory Smp_Wakeup
  imports Hv_State
begin

text \<open>Interrupts between physical CPUs, in the build with one vCPU per physical CPU.  A sender sets bits in the
  target's pending mask and then raises a physical SGI; the target's run loop takes the mask with a swap, moves the bits into list
  registers one by one, sets those that find no register again, and enters its guest, where the physical SGI brings it back
  to the loop (\<open>handle_sgi_trap\<close>, \<open>inject_spi\<close>, \<open>inject_pending_sgis\<close>, \<open>inject_pending_spis\<close>, \<open>handle_irq_exception\<close>).
  Every atomic access to a mask is one step, and the steps of the CPUs interleave in any order.  A broadcast reads the mask
  of online vCPUs twice, to queue and to raise the physical SGI; the two are taken to agree.  A CPU that is not started yet, or
  has been turned off, is at the start of its loop, which it will run first when it is turned on.\<close>

datatype pending_kind = Sgi | Spi

fun kind_base :: "pending_kind \<Rightarrow> u32" where
  "kind_base Sgi = 0"
| "kind_base Spi = 32"

fun kind_width :: "pending_kind \<Rightarrow> nat" where
  "kind_width Sgi = 16"
| "kind_width Spi = 32"

text \<open>Where a CPU is: in its guest; about to swap a mask; moving the bits it took; or setting a bit for some targets.\<close>

datatype pcpu_at =
    InGuest
  | AtSwap pending_kind
  | Placing pending_kind u32 nat \<comment> \<open>the mask taken, the next bit\<close>
  | Queueing pending_kind nat "nat list" "nat set" pcpu_at \<comment> \<open>the bit, targets to do, targets done, where to go on\<close>

record smp =
  mp_pend :: "pending_kind \<Rightarrow> nat \<Rightarrow> u32"
  mp_phys :: "nat \<Rightarrow> bool" \<comment> \<open>a physical SGI is pending at the CPU\<close>
  mp_at :: "nat \<Rightarrow> pcpu_at"
  mp_lr :: "nat \<Rightarrow> u64 list" \<comment> \<open>the vCPU's list registers, saved or in the hardware\<close>
  mp_owed :: "pending_kind \<Rightarrow> nat \<Rightarrow> nat set" \<comment> \<open>history: bits queued and not yet in a list register\<close>
  mp_held :: "pending_kind \<Rightarrow> nat \<Rightarrow> nat set" \<comment> \<open>history: bits queued again because every register was in use\<close>

definition smp_new :: smp where
  "smp_new = \<lparr>mp_pend = (\<lambda>_ _. 0), mp_phys = (\<lambda>_. False), mp_at = (\<lambda>_. AtSwap Sgi), mp_lr = (\<lambda>_. replicate 4 0),
     mp_owed = (\<lambda>_ _. {}), mp_held = (\<lambda>_ _. {})\<rparr>"

definition upd2 :: "(pending_kind \<Rightarrow> nat \<Rightarrow> 'a) \<Rightarrow> pending_kind \<Rightarrow> nat \<Rightarrow> ('a \<Rightarrow> 'a) \<Rightarrow> pending_kind \<Rightarrow> nat \<Rightarrow> 'a" where
  "upd2 f k t g = f(k := (f k)(t := g (f k t)))"

text \<open>\<open>fetch_or\<close> by a sender, and by the target for a bit that found no register.\<close>

definition queue_bit :: "pending_kind \<Rightarrow> nat \<Rightarrow> nat \<Rightarrow> smp \<Rightarrow> smp" where
  "queue_bit k b t s = s\<lparr>mp_pend := upd2 (mp_pend s) k t (\<lambda>w. w OR push_bit b 1), mp_owed := upd2 (mp_owed s) k t (insert b)\<rparr>"

definition requeue_bit :: "pending_kind \<Rightarrow> nat \<Rightarrow> nat \<Rightarrow> smp \<Rightarrow> smp" where
  "requeue_bit k b t s = s\<lparr>mp_pend := upd2 (mp_pend s) k t (\<lambda>w. w OR push_bit b 1), mp_held := upd2 (mp_held s) k t (insert b)\<rparr>"

definition go :: "nat \<Rightarrow> pcpu_at \<Rightarrow> smp \<Rightarrow> smp" where
  "go i p s = s\<lparr>mp_at := (mp_at s)(i := p)\<rparr>"

text \<open>After the SGIs come the SPIs, and then the guest.\<close>

fun after_placing :: "pending_kind \<Rightarrow> pcpu_at" where
  "after_placing Sgi = AtSwap Spi"
| "after_placing Spi = InGuest"

definition swap_mask :: "pending_kind \<Rightarrow> nat \<Rightarrow> smp \<Rightarrow> smp" where
  "swap_mask k i s = go i (Placing k (mp_pend s k i) 0)
     (s\<lparr>mp_pend := upd2 (mp_pend s) k i (\<lambda>_. 0), mp_held := upd2 (mp_held s) k i (\<lambda>_. {})\<rparr>)"

definition place_bit :: "pending_kind \<Rightarrow> u32 \<Rightarrow> nat \<Rightarrow> nat \<Rightarrow> smp \<Rightarrow> smp" where
  "place_bit k all b i s =
     (if \<not> bit all b then s
      else (case place_lr (of_nat b + kind_base k) (mp_lr s i) of
          Some l \<Rightarrow> s\<lparr>mp_lr := (mp_lr s)(i := l), mp_owed := upd2 (mp_owed s) k i (\<lambda>B. B - {b})\<rparr>
        | None \<Rightarrow> requeue_bit k b i s))"

text \<open>An SGI the guest sends goes to any targets but the sender itself.  A device interrupt raised while the guest's access is
  emulated, or by the run loop before it injects, has one target; when that is the CPU itself no physical SGI is raised, the
  bit is moved by \<open>flush_pending_spis_to_hardware\<close> or by the rest of the loop.  Any handled access ends with that flush, and any
  other exit leads to the start of the loop.  In between, the guest and the timer change the list registers at will.\<close>

inductive smp_step :: "smp \<Rightarrow> smp \<Rightarrow> bool" where
  sgi_trap: "mp_at s i = InGuest \<Longrightarrow> b < 16 \<Longrightarrow> i \<notin> set ts \<Longrightarrow> smp_step s (go i (Queueing Sgi b ts {} InGuest) s)"
| device_spi: "mp_at s i = InGuest \<Longrightarrow> b < 32 \<Longrightarrow> t \<noteq> i \<Longrightarrow> smp_step s (go i (Queueing Spi b [t] {} (AtSwap Spi)) s)"
| device_spi_self: "mp_at s i = InGuest \<Longrightarrow> b < 32 \<Longrightarrow> smp_step s (go i (AtSwap Spi) (queue_bit Spi b i s))"
| loop_spi: "mp_at s i = AtSwap Sgi \<Longrightarrow> b < 32 \<Longrightarrow> t \<noteq> i \<Longrightarrow> smp_step s (go i (Queueing Spi b [t] {} (AtSwap Sgi)) s)"
| loop_spi_self: "mp_at s i = AtSwap Sgi \<Longrightarrow> b < 32 \<Longrightarrow> smp_step s (queue_bit Spi b i s)"
| queue: "mp_at s i = Queueing k b (t # ts) ds nxt \<Longrightarrow> smp_step s (go i (Queueing k b ts (insert t ds) nxt) (queue_bit k b t s))"
| kick: "mp_at s i = Queueing k b [] ds nxt \<Longrightarrow>
    smp_step s (go i nxt (s\<lparr>mp_phys := (\<lambda>t. t \<in> ds \<or> mp_phys s t)\<rparr>))"
| swap: "mp_at s i = AtSwap k \<Longrightarrow> smp_step s (swap_mask k i s)"
| place: "mp_at s i = Placing k all b \<Longrightarrow> b < kind_width k \<Longrightarrow> smp_step s (go i (Placing k all (b + 1)) (place_bit k all b i s))"
| placed_all: "mp_at s i = Placing k all (kind_width k) \<Longrightarrow> smp_step s (go i (after_placing k) s)"
| physical_sgi: "mp_at s i = InGuest \<Longrightarrow> mp_phys s i \<Longrightarrow> smp_step s (go i (AtSwap Sgi) (s\<lparr>mp_phys := (mp_phys s)(i := False)\<rparr>))"
| mmio_exit: "mp_at s i = InGuest \<Longrightarrow> smp_step s (go i (AtSwap Spi) s)"
| other_exit: "mp_at s i = InGuest \<Longrightarrow> smp_step s (go i (AtSwap Sgi) s)"
| guest: "mp_at s i = InGuest \<Longrightarrow> length l = 4 \<Longrightarrow> smp_step s (s\<lparr>mp_lr := (mp_lr s)(i := l)\<rparr>)"

inductive smp_reach :: "smp \<Rightarrow> bool" where
  start: "smp_reach smp_new"
| step: "smp_reach s \<Longrightarrow> smp_step s s' \<Longrightarrow> smp_reach s'"

section \<open>No interrupt is lost and no wake-up is missed\<close>

text \<open>Some sender has set bits for \<open>t\<close> and has not raised the physical SGI yet.\<close>

fun kicks :: "pcpu_at \<Rightarrow> nat set" where
  "kicks (Queueing k b ts ds nxt) = ds"
| "kicks _ = {}"

definition kick_coming :: "smp \<Rightarrow> nat \<Rightarrow> bool" where
  "kick_coming s t \<longleftrightarrow> (\<exists>i. t \<in> kicks (mp_at s i))"

text \<open>The CPU will swap the mask of kind \<open>k\<close> before it enters its guest.\<close>

fun swap_coming :: "pending_kind \<Rightarrow> pcpu_at \<Rightarrow> bool" where
  "swap_coming k InGuest \<longleftrightarrow> False"
| "swap_coming k (AtSwap Sgi) \<longleftrightarrow> True"
| "swap_coming k (AtSwap Spi) \<longleftrightarrow> k = Spi"
| "swap_coming k (Placing Sgi all b) \<longleftrightarrow> k = Spi"
| "swap_coming k (Placing Spi all b) \<longleftrightarrow> False"
| "swap_coming k (Queueing k' b ts ds nxt) \<longleftrightarrow> swap_coming k nxt"

text \<open>The bits a CPU holds in its hand.\<close>

fun in_hand :: "pending_kind \<Rightarrow> pcpu_at \<Rightarrow> nat set" where
  "in_hand k (Placing k' all b) = (if k' = k then bits all - {..<b} else {})"
| "in_hand k _ = {}"

fun at_ok :: "pcpu_at \<Rightarrow> bool" where
  "at_ok (Queueing k b ts ds nxt) \<longleftrightarrow> b < kind_width k \<and> nxt \<in> {InGuest, AtSwap Spi, AtSwap Sgi}"
| "at_ok (Placing k all b) \<longleftrightarrow> bits all \<subseteq> {..<kind_width k} \<and> b \<le> kind_width k"
| "at_ok _ \<longleftrightarrow> True"

text \<open>The invariant of one mask: no bit is out of range, a pending bit is held back, announced or about to be taken, and a bit that
  is owed is pending or in the CPU's hand.\<close>

definition mask_ok :: "smp \<Rightarrow> pending_kind \<Rightarrow> nat \<Rightarrow> bool" where
  "mask_ok s k t \<longleftrightarrow>
     (\<forall>b. bit (mp_pend s k t) b \<longrightarrow> b < kind_width k \<and>
        (b \<in> mp_held s k t \<or> mp_phys s t \<or> kick_coming s t \<or> swap_coming k (mp_at s t))) \<and>
     (\<forall>b\<in>mp_owed s k t. bit (mp_pend s k t) b \<or> b \<in> in_hand k (mp_at s t))"

definition smp_inv :: "smp \<Rightarrow> bool" where
  "smp_inv s \<longleftrightarrow> (\<forall>i. at_ok (mp_at s i)) \<and> (\<forall>k t. mask_ok s k t)"

lemma upd2_apply [simp]: "upd2 f k t g k' t' = (if k' = k \<and> t' = t then g (f k t) else f k' t')"
  by (simp add: upd2_def)

lemma go_sel [simp]: "mp_pend (go i p s) = mp_pend s" "mp_phys (go i p s) = mp_phys s" "mp_lr (go i p s) = mp_lr s"
  "mp_owed (go i p s) = mp_owed s" "mp_held (go i p s) = mp_held s" "mp_at (go i p s) = (mp_at s)(i := p)"
  by (simp_all add: go_def)

lemma queue_bit_sel [simp]: "mp_lr (queue_bit k b t s) = mp_lr s" "mp_phys (queue_bit k b t s) = mp_phys s" "mp_at (queue_bit k b t s) = mp_at s"
  "mp_held (queue_bit k b t s) = mp_held s" "mp_owed (queue_bit k b t s) = upd2 (mp_owed s) k t (insert b)"
  "mp_pend (queue_bit k b t s) = upd2 (mp_pend s) k t (\<lambda>w. w OR push_bit b 1)"
  by (simp_all add: queue_bit_def)

lemma width_le [simp]: "kind_width k \<le> 32"
  by (cases k) simp_all

lemma bit_or_push: "b < 32 \<Longrightarrow> bit (w OR push_bit b 1) c \<longleftrightarrow> c = b \<or> bit w c" for w :: u32
  using bits_or_push [of b w] by auto

lemma bit_or_exp: "b < 32 \<Longrightarrow> bit (w OR 2 ^ b) c \<longleftrightarrow> c = b \<or> bit w c" for w :: u32
  using bit_or_push [of b w c] by simp

lemma kick_coming_go: "kick_coming (go i p s) t \<longleftrightarrow> t \<in> kicks p \<or> (\<exists>j. j \<noteq> i \<and> t \<in> kicks (mp_at s j))"
  by (auto simp: kick_coming_def)

lemma kick_coming_same: "mp_at s' = mp_at s \<Longrightarrow> kick_coming s' t = kick_coming s t"
  by (simp add: kick_coming_def)

lemma kick_coming_move: "mp_at s' = (mp_at s)(i := p) \<Longrightarrow> kicks p = kicks (mp_at s i) \<Longrightarrow> kick_coming s' t = kick_coming s t"
  by (auto simp: kick_coming_def)

text \<open>A step of CPU \<open>i\<close> that only moves on.\<close>

lemma mask_ok_go:
  assumes "mask_ok s k t" "in_hand k (mp_at s i) \<subseteq> in_hand k p"
    and "kicks (mp_at s i) \<subseteq> kicks p" "swap_coming k (mp_at s i) \<Longrightarrow> swap_coming k p"
  shows "mask_ok (go i p s) k t"
proof -
  have "kick_coming s t \<Longrightarrow> kick_coming (go i p s) t"
    using assms(3) by (auto simp: kick_coming_def)
  thus ?thesis using assms(1,2,4) by (cases "t = i") (auto simp: mask_ok_def)
qed

lemma mask_ok_queue:
  assumes "mask_ok s k t" "b < kind_width k0" "in_hand k (mp_at s i) \<subseteq> in_hand k p"
    and "kicks (mp_at s i) \<subseteq> kicks p" "swap_coming k (mp_at s i) \<Longrightarrow> swap_coming k p"
    and "t0 \<in> kicks p \<or> t0 = i \<and> swap_coming k0 p"
  shows "mask_ok (go i p (queue_bit k0 b t0 s)) k t"
proof -
  let ?s = "go i p (queue_bit k0 b t0 s)"
  have g: "mask_ok (go i p s) k t" using mask_ok_go assms(1,3,4,5) by blast
  have kc: "kick_coming ?s t = kick_coming (go i p s) t" by (rule kick_coming_same) simp
  have w: "b < 32" using assms(2) width_le [of k0] by linarith
  have "kick_coming (go i p s) t0 \<or> swap_coming k0 (mp_at (go i p s) t0)" using assms(6) by (auto simp: kick_coming_go)
  thus ?thesis using g kc assms(2) w by (auto simp: mask_ok_def bit_or_exp)
qed

lemma mask_ok_kick:
  assumes "mask_ok s k t" "mp_at s i = Queueing k0 b [] ds nxt" "at_ok (mp_at s i)"
  shows "mask_ok (go i nxt (s\<lparr>mp_phys := (\<lambda>t. t \<in> ds \<or> mp_phys s t)\<rparr>)) k t"
proof -
  let ?s = "go i nxt (s\<lparr>mp_phys := (\<lambda>t. t \<in> ds \<or> mp_phys s t)\<rparr>)"
  have "kick_coming s t \<Longrightarrow> kick_coming ?s t \<or> t \<in> ds"
    using assms(2) by (auto simp: kick_coming_def) (metis kicks.simps(1))
  moreover have "in_hand k nxt = {}" using assms(2,3) by auto
  ultimately show ?thesis using assms(1,2) by (cases "t = i") (auto simp: mask_ok_def)
qed

lemma mask_ok_swap:
  assumes "mask_ok s k t" "mp_at s i = AtSwap k0"
  shows "mask_ok (swap_mask k0 i s) k t"
proof -
  have kc: "kick_coming (swap_mask k0 i s) t = kick_coming s t"
    by (rule kick_coming_move [of _ _ i "Placing k0 (mp_pend s k0 i) 0"]) (simp_all add: swap_mask_def assms(2))
  show ?thesis
  proof (cases "t = i")
    case True
    thus ?thesis using assms kc by (cases k; cases k0) (auto simp: mask_ok_def swap_mask_def)
  next
    case False
    thus ?thesis using assms kc by (auto simp: mask_ok_def swap_mask_def)
  qed
qed

lemma swap_at_ok: "mask_ok s k i \<Longrightarrow> at_ok (Placing k (mp_pend s k i) 0)"
  by (auto simp: mask_ok_def)

lemma mask_ok_place:
  assumes "mask_ok s k t" "mp_at s i = Placing k0 all b" "b < kind_width k0"
  shows "mask_ok (go i (Placing k0 all (b + 1)) (place_bit k0 all b i s)) k t"
proof -
  let ?s = "go i (Placing k0 all (b + 1)) (place_bit k0 all b i s)"
  have "mp_at (place_bit k0 all b i s) = mp_at s" "mp_phys (place_bit k0 all b i s) = mp_phys s"
    by (simp_all add: place_bit_def requeue_bit_def split: option.split)
  note eq = this
  have kc: "kick_coming ?s t = kick_coming s t" by (rule kick_coming_move [of _ _ i "Placing k0 all (b + 1)"]) (simp_all add: eq assms(2))
  have w: "b < 32" using assms(3) width_le [of k0] by linarith
  show ?thesis
  proof (cases "t = i \<and> k = k0")
    case True
    hence h: "in_hand k (mp_at s t) = bits all - {..<b}" "in_hand k (mp_at ?s t) = bits all - {..<Suc b}"
      "swap_coming k (mp_at s t) = swap_coming k (mp_at ?s t)"
      using assms(2) by (cases k0; simp)+
    have "c = b \<or> c \<in> bits all - {..<Suc b}" if "c \<in> bits all - {..<b}" for c using that by auto
    thus ?thesis using assms(1,3) kc h w True
      by (auto simp: mask_ok_def place_bit_def requeue_bit_def bit_or_exp eq less_Suc_eq split: option.split)
  next
    case False
    hence h: "t = i \<Longrightarrow> in_hand k (mp_at s t) = {}" "t = i \<Longrightarrow> swap_coming k (mp_at s t) = swap_coming k (mp_at ?s t)"
      using assms(2) by (cases k; cases k0; simp)+
    have same: "mp_pend ?s k t = mp_pend s k t" "mp_owed ?s k t = mp_owed s k t" "mp_held ?s k t = mp_held s k t"
      using False by (auto simp: place_bit_def requeue_bit_def split: option.split)
    show ?thesis using assms(1) kc h same eq by (cases "t = i") (auto simp: mask_ok_def)
  qed
qed

lemma mask_ok_irq:
  assumes "mask_ok s k t" "mp_at s i = InGuest"
  shows "mask_ok (go i (AtSwap Sgi) (s\<lparr>mp_phys := (mp_phys s)(i := False)\<rparr>)) k t"
proof -
  have "kick_coming (go i (AtSwap Sgi) (s\<lparr>mp_phys := (mp_phys s)(i := False)\<rparr>)) t = kick_coming s t"
    by (rule kick_coming_move [of _ _ i "AtSwap Sgi"]) (simp_all add: assms(2))
  thus ?thesis using assms by (cases "t = i") (auto simp: mask_ok_def)
qed

lemma go_id: "go i (mp_at s i) s = s"
  by (simp add: go_def)

lemma smp_step_masks:
  assumes "smp_inv s" "smp_step s s'"
  shows "mask_ok s' k t"
proof -
  have m: "mask_ok s k t" and a: "\<And>i. at_ok (mp_at s i)" using assms(1) by (simp_all add: smp_inv_def)
  from assms(2) show ?thesis
  proof cases
    case (device_spi_self i b)
    thus ?thesis using mask_ok_queue [OF m, of b Spi i "AtSwap Spi" i] by simp
  next
    case (loop_spi_self i b)
    hence "go i (AtSwap Sgi) (queue_bit Spi b i s) = s'" using go_id [of i "queue_bit Spi b i s"] by simp
    thus ?thesis using loop_spi_self mask_ok_queue [OF m, of b Spi i "AtSwap Sgi" i] by simp
  next
    case (queue i k0 b t0 ts ds nxt)
    hence "b < kind_width k0" using a [of i] by simp
    thus ?thesis using queue mask_ok_queue [OF m, of b k0 i "Queueing k0 b ts (insert t0 ds) nxt" t0] by auto
  next
    case (kick i k0 b ds nxt)
    thus ?thesis using mask_ok_kick [OF m kick(2) a] by simp
  next
    case (swap i k0)
    thus ?thesis using mask_ok_swap [OF m] by simp
  next
    case (place i k0 all b)
    thus ?thesis using mask_ok_place [OF m] by simp
  next
    case (placed_all i k0 all)
    hence "in_hand k (mp_at s i) = {}" "kicks (mp_at s i) = {}" "swap_coming k (mp_at s i) \<Longrightarrow> swap_coming k (after_placing k0)"
      using a [of i] by (cases k; cases k0; auto)+
    thus ?thesis unfolding placed_all(1) by (intro mask_ok_go [OF m]) auto
  next
    case (physical_sgi i)
    thus ?thesis using mask_ok_irq [OF m] by simp
  next
    case (guest i l)
    moreover have "kick_coming s' t = kick_coming s t" by (rule kick_coming_same) (simp add: guest)
    ultimately show ?thesis using m by (auto simp: mask_ok_def)
  qed (hypsubst, rule mask_ok_go [OF m], simp, simp, simp)+
qed

lemma smp_step_at:
  assumes "smp_inv s" "smp_step s s'"
  shows "at_ok (mp_at s' i)"
proof -
  have a: "\<And>i. at_ok (mp_at s i)" using assms(1) by (simp add: smp_inv_def)
  from assms(2) show ?thesis
  proof cases
    case (queue j k b t ts ds nxt)
    thus ?thesis using a [of j] a [of i] by auto
  next
    case (kick j k b ds nxt)
    thus ?thesis using a [of j] a [of i] by auto
  next
    case (swap j k)
    have "mask_ok s k j" using assms(1) by (simp add: smp_inv_def)
    from swap_at_ok [OF this] show ?thesis using swap a [of i] by (simp add: swap_mask_def)
  next
    case (place j k all b)
    have "mp_at (place_bit k all b j s) = mp_at s" by (simp add: place_bit_def requeue_bit_def split: option.split)
    thus ?thesis using place a [of j] a [of i] by auto
  next
    case (placed_all j k all)
    thus ?thesis using a [of i] by (cases k) auto
  qed (use a [of i] in auto)
qed

lemma smp_reach_inv: "smp_reach s \<Longrightarrow> smp_inv s"
proof (induction rule: smp_reach.induct)
  case start
  show ?case by (simp add: smp_inv_def mask_ok_def smp_new_def)
next
  case (step s s')
  have "mask_ok s' k t" for k t by (rule smp_step_masks [OF step.IH step.hyps(2)])
  moreover have "at_ok (mp_at s' i)" for i by (rule smp_step_at [OF step.IH step.hyps(2)])
  ultimately show ?case by (simp add: smp_inv_def)
qed

section \<open>The run loop's steps, taken without interruption\<close>

lemma place_bit_sel [simp]: "mp_at (place_bit k all b i s) = mp_at s" "mp_phys (place_bit k all b i s) = mp_phys s"
  by (simp_all add: place_bit_def requeue_bit_def split: option.split)

lemma place_bit_go: "place_bit k all b i (go i p s) = go i p (place_bit k all b i s)"
  by (simp add: place_bit_def requeue_bit_def go_def split: option.split)

lemma go_go [simp]: "go i p (go i q s) = go i p s"
  by (simp add: go_def)

lemma place_steps:
  assumes "b \<le> kind_width k"
  shows "smp_step\<^sup>*\<^sup>* (go i (Placing k all 0) s) (go i (Placing k all b) (fold (\<lambda>b. place_bit k all b i) [0..<b] s))"
  using assms
proof (induction b)
  case (Suc b)
  let ?s = "fold (\<lambda>b. place_bit k all b i) [0..<b] s"
  have "smp_step (go i (Placing k all b) ?s) (go i (Placing k all (b + 1)) (place_bit k all b i (go i (Placing k all b) ?s)))"
    by (rule smp_step.place) (use Suc.prems in simp_all)
  hence "smp_step (go i (Placing k all b) ?s) (go i (Placing k all (Suc b)) (place_bit k all b i ?s))" by (simp add: place_bit_go)
  thus ?case using Suc.IH Suc.prems by simp
qed simp

text \<open>What the loop leaves is what \<^const>\<open>inject_bits\<close> computes.\<close>

lemma place_fold:
  assumes "m \<le> 32" "mp_pend s k i = 0"
  shows "mp_lr (fold (\<lambda>b. place_bit k all b i) [0..<m] s) = (mp_lr s)(i := fst (inject_bits place_lr (kind_base k) all m (mp_lr s i))) \<and>
    mp_pend (fold (\<lambda>b. place_bit k all b i) [0..<m] s) = upd2 (mp_pend s) k i (\<lambda>_. snd (inject_bits place_lr (kind_base k) all m (mp_lr s i))) \<and>
    mp_at (fold (\<lambda>b. place_bit k all b i) [0..<m] s) = mp_at s \<and> mp_phys (fold (\<lambda>b. place_bit k all b i) [0..<m] s) = mp_phys s"
  using assms(1)
proof (induction m)
  case 0
  show ?case using assms(2) by (auto simp: inject_bits_def upd2_def fun_eq_iff)
next
  case (Suc m)
  obtain l r where lr: "inject_bits place_lr (kind_base k) all m (mp_lr s i) = (l, r)" by fastforce
  hence "inject_bits place_lr (kind_base k) all (Suc m) (mp_lr s i) = inject_bit place_lr (kind_base k) all m (l, r)"
    by (simp add: inject_bits_def)
  thus ?case using Suc lr by (auto simp: place_bit_def requeue_bit_def inject_bit_def upd2_def fun_eq_iff split: option.splits)
qed

lemma round_runs:
  assumes "mp_at s i = AtSwap k"
  shows "\<exists>s'. smp_step\<^sup>*\<^sup>* s s' \<and> mp_at s' = (mp_at s)(i := after_placing k) \<and> mp_phys s' = mp_phys s \<and>
    mp_lr s' = (mp_lr s)(i := fst (inject_bits place_lr (kind_base k) (mp_pend s k i) (kind_width k) (mp_lr s i))) \<and>
    mp_pend s' = upd2 (mp_pend s) k i (\<lambda>w. snd (inject_bits place_lr (kind_base k) w (kind_width k) (mp_lr s i)))"
proof -
  let ?all = "mp_pend s k i"
  let ?t = "s\<lparr>mp_pend := upd2 (mp_pend s) k i (\<lambda>_. 0), mp_held := upd2 (mp_held s) k i (\<lambda>_. {})\<rparr>"
  let ?u = "fold (\<lambda>b. place_bit k ?all b i) [0..<kind_width k] ?t"
  have "smp_step s (go i (Placing k ?all 0) ?t)" using smp_step.swap [of s i k, OF assms] by (simp add: swap_mask_def)
  moreover have "smp_step\<^sup>*\<^sup>* (go i (Placing k ?all 0) ?t) (go i (Placing k ?all (kind_width k)) ?u)" by (rule place_steps) simp
  moreover have "smp_step (go i (Placing k ?all (kind_width k)) ?u) (go i (after_placing k) ?u)"
    using smp_step.placed_all [of "go i (Placing k ?all (kind_width k)) ?u" i k ?all] by simp
  ultimately have "smp_step\<^sup>*\<^sup>* s (go i (after_placing k) ?u)" by simp
  moreover note place_fold [of "kind_width k" ?t k i ?all, OF width_le]
  ultimately show ?thesis by (intro exI [of _ "go i (after_placing k) ?u"]) (auto simp: upd2_def fun_eq_iff)
qed

lemma smp_reach_steps: "smp_step\<^sup>*\<^sup>* s s' \<Longrightarrow> smp_reach s \<Longrightarrow> smp_reach s'"
  by (induction rule: rtranclp_induct) (auto intro: smp_reach.step)

text \<open>C11: no interrupt is lost on its way to another CPU and no wake-up is missed.  In every interleaving of the CPUs, when a
  vCPU runs its guest, each interrupt that was queued for it and is not yet in a list register is in its pending mask, and
  it will be noticed: a physical SGI is pending at its CPU, or a sender that has queued it is about to raise one. The only exception are
  interrupts the run loop put back because all list registers were in use when it last looked.\<close>

theorem wakeup_not_lost:
  assumes "smp_reach s" "mp_at s t = InGuest" "b \<in> mp_owed s k t"
  shows "bit (mp_pend s k t) b \<and> (mp_phys s t \<or> kick_coming s t \<or> b \<in> mp_held s k t)"
proof -
  have "mask_ok s k t" using smp_reach_inv [OF assms(1)] by (simp add: smp_inv_def)
  thus ?thesis using assms(2,3) by (auto simp: mask_ok_def)
qed


lemma inject_none: "inject_bits place base 0 n l = (l, 0)"
  by (induction n) (simp_all add: inject_bits_def inject_bit_def)

lemma upd2_same: "upd2 f k t (\<lambda>_. f k t) = f"
  by (auto simp: upd2_def)

lemma enters_guest:
  assumes "mp_at s i = AtSwap Sgi" "mp_pend s = (\<lambda>_ _. 0)"
  shows "\<exists>s'. smp_step\<^sup>*\<^sup>* s s' \<and> mp_at s' = (mp_at s)(i := InGuest) \<and> mp_phys s' = mp_phys s \<and> mp_lr s' = mp_lr s \<and> mp_pend s' = mp_pend s"
proof -
  obtain s1 where s1: "smp_step\<^sup>*\<^sup>* s s1" "mp_at s1 = (mp_at s)(i := AtSwap Spi)" "mp_phys s1 = mp_phys s" "mp_lr s1 = mp_lr s" "mp_pend s1 = mp_pend s"
    using round_runs [OF assms(1)] assms(2) by (auto simp: inject_none upd2_def fun_upd_idem)
  obtain s2 where s2: "smp_step\<^sup>*\<^sup>* s1 s2" "mp_at s2 = (mp_at s1)(i := InGuest)" "mp_phys s2 = mp_phys s1" "mp_lr s2 = mp_lr s1" "mp_pend s2 = mp_pend s1"
    using round_runs [of s1 i Spi] s1(2,5) assms(2) by (auto simp: inject_none upd2_def fun_upd_idem)
  show ?thesis using s1 s2 by (intro exI [of _ s2]) (auto intro: rtranclp_trans)
qed

text \<open>Two vCPUs in their guests.\<close>

lemma two_guests:
  obtains s where "smp_reach s" "mp_at s 0 = InGuest" "mp_at s 1 = InGuest" "mp_pend s = (\<lambda>_ _. 0)" "\<not> kick_coming s t" "\<not> mp_phys s 1"
proof -
  obtain s0 where s0: "smp_step\<^sup>*\<^sup>* smp_new s0" "mp_at s0 = (mp_at smp_new)(0 := InGuest)" "mp_pend s0 = mp_pend smp_new" "mp_phys s0 = mp_phys smp_new"
    using enters_guest [of smp_new 0] by (auto simp: smp_new_def)
  obtain s1 where s1: "smp_step\<^sup>*\<^sup>* s0 s1" "mp_at s1 = (mp_at s0)(1 := InGuest)" "mp_pend s1 = mp_pend s0" "mp_phys s1 = mp_phys s0"
    using enters_guest [of s0 1] s0(2,3) by (auto simp: smp_new_def)
  have "smp_reach s1" using smp_reach_steps [OF rtranclp_trans [OF s0(1) s1(1)] smp_reach.start] .
  moreover have "kicks (mp_at s1 i) = {}" for i using s0(2) s1(2) by (simp add: smp_new_def)
  ultimately show ?thesis using that [of s1] s0 s1 by (simp add: smp_new_def kick_coming_def)
qed

text \<open>CPU 0 sends SGI 3 to CPU 1 and has not raised the physical SGI yet.\<close>

lemma sgi_queued:
  obtains s where "smp_reach s" "mp_at s 1 = InGuest" "3 \<in> mp_owed s Sgi 1" "mp_at s 0 = Queueing Sgi 3 [] {1} InGuest"
    "bit (mp_pend s Sgi 1) 3" "\<not> mp_phys s 1"
proof -
  obtain s where s: "smp_reach s" "mp_at s 0 = InGuest" "mp_at s 1 = InGuest" "\<not> mp_phys s 1" using two_guests by blast
  let ?s1 = "go 0 (Queueing Sgi 3 [1] {} InGuest) s"
  let ?s2 = "go 0 (Queueing Sgi 3 [] {1} InGuest) (queue_bit Sgi 3 1 ?s1)"
  have "smp_reach ?s1" by (rule smp_reach.step [OF s(1)]) (rule smp_step.sgi_trap, use s in simp_all)
  moreover have "smp_step ?s1 ?s2" using smp_step.queue [of ?s1 0 Sgi 3 1 "[]" "{}" InGuest] by simp
  ultimately have "smp_reach ?s2" by (rule smp_reach.step)
  thus ?thesis by (rule that) (use s in \<open>simp_all add: bit_or_iff\<close>)
qed

theorem wakeup_not_lost_witness:
  "\<exists>s. smp_reach s \<and> mp_at s 1 = InGuest \<and> 3 \<in> mp_owed s Sgi 1 \<and> bit (mp_pend s Sgi 1) 3 \<and>
     (mp_phys s 1 \<or> kick_coming s 1 \<or> 3 \<in> mp_held s Sgi 1)"
proof -
  obtain s where "smp_reach s" "mp_at s 1 = InGuest" "3 \<in> mp_owed s Sgi 1" using sgi_queued by blast
  thus ?thesis using wakeup_not_lost [of s 1 3 Sgi] by blast
qed


lemma inject_busy:
  assumes "all_busy l" "n \<le> 32" "inject_bits place_lr base all n l = (l', r)"
  shows "l' = l \<and> bits r = bits all \<inter> {..<n}"
proof -
  note c = saved_lrs.inject_conserves [OF TrueI assms(2,3)]
  hence p: "placed base (bits all \<inter> {..<n} - bits r) l l'" by simp
  have "bits all \<inter> {..<n} - bits r = {}"
    using p assms(1) unfolding placed_def all_busy_def by (metis equals0I nth_mem)
  thus ?thesis using c placed_busy [OF p assms(1)] by auto
qed

lemma round_busy:
  assumes "mp_at s i = AtSwap k" "all_busy (mp_lr s i)" "bit (mp_pend s k i) b" "b < kind_width k"
  shows "\<exists>s'. smp_step\<^sup>*\<^sup>* s s' \<and> mp_at s' = (mp_at s)(i := after_placing k) \<and> mp_phys s' = mp_phys s \<and> bit (mp_pend s' k i) b"
proof -
  obtain l r where lr: "inject_bits place_lr (kind_base k) (mp_pend s k i) (kind_width k) (mp_lr s i) = (l, r)" by fastforce
  from inject_busy [OF assms(2) width_le this] have "bits r = bits (mp_pend s k i) \<inter> {..<kind_width k}" by simp
  hence "bit r b" using assms(3,4) by auto
  thus ?thesis using round_runs [OF assms(1)] lr by auto
qed

text \<open>An SGI is queued for a vCPU whose guest has all four registers in use, and brings it back to the loop.\<close>

lemma sgi_meets_busy:
  obtains s where "smp_reach s" "mp_at s 1 = AtSwap Sgi" "all_busy (mp_lr s 1)" "bit (mp_pend s Sgi 1) 3" "\<not> mp_phys s 1" "\<not> kick_coming s 1"
proof -
  obtain s where s: "smp_reach s" "mp_at s 0 = InGuest" "mp_at s 1 = InGuest" "\<not> kick_coming s 1" "\<not> mp_phys s 1"
    using two_guests [of 1] by metis
  let ?l = "replicate 4 (build_lr 5 IRQ_DEFAULT_PRIORITY)"
  let ?s1 = "s\<lparr>mp_lr := (mp_lr s)(1 := ?l)\<rparr>"
  let ?s2 = "go 0 (Queueing Sgi 3 [1] {} InGuest) ?s1"
  let ?s3 = "go 0 (Queueing Sgi 3 [] {1} InGuest) (queue_bit Sgi 3 1 ?s2)"
  let ?s4 = "go 0 InGuest (?s3\<lparr>mp_phys := (\<lambda>t. t \<in> {1} \<or> mp_phys ?s3 t)\<rparr>)"
  let ?s5 = "go 1 (AtSwap Sgi) (?s4\<lparr>mp_phys := (mp_phys ?s4)(1 := False)\<rparr>)"
  have "smp_step s ?s1" using s(3) by (rule smp_step.guest) simp
  moreover have "smp_step ?s1 ?s2" by (rule smp_step.sgi_trap) (use s in simp_all)
  moreover have "smp_step ?s2 ?s3" using smp_step.queue [of ?s2 0 Sgi 3 1 "[]" "{}" InGuest] by simp
  moreover have "smp_step ?s3 ?s4" by (rule smp_step.kick [of _ _ Sgi 3]) simp
  moreover have "smp_step ?s4 ?s5" by (rule smp_step.physical_sgi) (use s in simp_all)
  ultimately have r: "smp_reach ?s5" using s(1) by (meson smp_reach.step)
  have "kicks (mp_at ?s5 i) = kicks (mp_at s i)" for i using s by simp
  hence k: "\<not> kick_coming ?s5 1" using s(4) by (simp only: kick_coming_def) simp
  have "all_busy ?l" by (simp add: all_busy_def build_lr_fields LR_STATE_PENDING_def)
  hence "all_busy (mp_lr ?s5 1)" by simp
  from that [OF r _ this _ _ k] show thesis by (simp add: bit_or_iff)
qed

text \<open>The exception of \<open>wakeup_not_lost\<close> can last: an SGI that found all four registers in use stays pending while the guest
  works them off, and when it has, the vCPU sits in its guest with four free registers, no physical SGI and no sender under way.
  Only an unrelated exit to the run loop will deliver it.\<close>

lemma requeued_sgi_stuck:
  "\<exists>s. smp_reach s \<and> mp_at s 1 = InGuest \<and> bit (mp_pend s Sgi 1) 3 \<and> mp_lr s 1 = replicate 4 0 \<and> \<not> mp_phys s 1 \<and> \<not> kick_coming s 1"
proof -
  obtain s where s: "smp_reach s" "mp_at s 1 = AtSwap Sgi" "all_busy (mp_lr s 1)" "bit (mp_pend s Sgi 1) 3" "\<not> mp_phys s 1" "\<not> kick_coming s 1"
    using sgi_meets_busy by blast
  obtain s1 where s1: "smp_step\<^sup>*\<^sup>* s s1" "mp_at s1 = (mp_at s)(1 := AtSwap Spi)" "mp_phys s1 = mp_phys s" "bit (mp_pend s1 Sgi 1) 3"
    using round_busy [OF s(2,3,4)] by auto
  obtain s2 where s2: "smp_step\<^sup>*\<^sup>* s1 s2" "mp_at s2 = (mp_at s1)(1 := InGuest)" "mp_phys s2 = mp_phys s1" "mp_pend s2 Sgi 1 = mp_pend s1 Sgi 1"
    using round_runs [of s1 1 Spi] s1(2) by auto
  let ?t = "s2\<lparr>mp_lr := (mp_lr s2)(1 := replicate 4 0)\<rparr>"
  have "smp_step s2 ?t" by (rule smp_step.guest) (simp_all add: s2)
  hence "smp_reach ?t" using smp_reach_steps [OF s2(1) smp_reach_steps [OF s1(1) s(1)]] by (auto intro: smp_reach.step)
  moreover have "kick_coming ?t 1 = kick_coming s 1"
    by (rule kick_coming_move [of _ _ 1 InGuest]) (use s(2) in \<open>simp_all add: s1 s2\<close>)
  ultimately show ?thesis using s s1 s2 by (intro exI [of _ ?t]) simp
qed

end
