(* ===== verification/Sp_Context.thy ===== *)
theory Sp_Context
  imports Ffa_Types Vcpu_Context Guest_Memory
begin

text \<open>The context of a Secure Partition, its life cycle and the store of booted partitions (\<open>src/sp_context.rs\<close>).  A
  mutable reference into the store is the index of the slot it points to.\<close>

text \<open>The eight argument and result registers of a call (\<open>SmcResult8\<close> of \<open>ffa/smc_forward.rs\<close>).\<close>

record smc8 =
  smc_x0 :: u64
  smc_x1 :: u64
  smc_x2 :: u64
  smc_x3 :: u64
  smc_x4 :: u64
  smc_x5 :: u64
  smc_x6 :: u64
  smc_x7 :: u64

datatype sp_life = SpReset | SpIdle | SpRunning | SpBlocked | SpPreempted

record sp_context =
  sp_ctx :: vcpu_context
  sp_id :: u16
  sp_state :: sp_life
  sp_entry :: u64
  sp_vsttbr :: u64
  sp_uuid :: "u32 list"

definition sp_new :: "u16 \<Rightarrow> u64 \<Rightarrow> u64 \<Rightarrow> u32 list \<Rightarrow> sp_context" where
  "sp_new i entry_point stack_top uuid =
     \<lparr>sp_ctx = context_default\<lparr>cx_pc := entry_point, cx_sp := stack_top, cx_sp_el1 := stack_top, cx_spsr_el2 := SPSR_EL1H_DAIF_MASKED\<rparr>,
      sp_id = i, sp_state = SpReset, sp_entry = entry_point, sp_vsttbr = 0, sp_uuid = uuid\<rparr>"

fun sp_step_valid :: "sp_life \<Rightarrow> sp_life \<Rightarrow> bool" where
  "sp_step_valid SpReset SpIdle = True"
| "sp_step_valid SpIdle SpRunning = True"
| "sp_step_valid SpRunning SpIdle = True"
| "sp_step_valid SpRunning SpBlocked = True"
| "sp_step_valid SpBlocked SpRunning = True"
| "sp_step_valid SpRunning SpPreempted = True"
| "sp_step_valid SpPreempted SpRunning = True"
| "sp_step_valid _ _ = False"

definition transition_to :: "sp_life \<Rightarrow> sp_context \<Rightarrow> sp_context option" where
  "transition_to new_state sp = (if sp_step_valid (sp_state sp) new_state then Some (sp\<lparr>sp_state := new_state\<rparr>) else None)"

definition set_args :: "smc8 \<Rightarrow> sp_context \<Rightarrow> sp_context" where
  "set_args a sp = sp\<lparr>sp_ctx := (sp_ctx sp)\<lparr>cx_gp := (cx_gp (sp_ctx sp))(0 := smc_x0 a, 1 := smc_x1 a, 2 := smc_x2 a,
     3 := smc_x3 a, 4 := smc_x4 a, 5 := smc_x5 a, 6 := smc_x6 a, 7 := smc_x7 a)\<rparr>\<rparr>"

definition get_args :: "sp_context \<Rightarrow> smc8" where
  "get_args sp = (let x = cx_gp (sp_ctx sp) in
     \<lparr>smc_x0 = x 0, smc_x1 = x 1, smc_x2 = x 2, smc_x3 = x 3, smc_x4 = x 4, smc_x5 = x 5, smc_x6 = x 6, smc_x7 = x 7\<rparr>)"

definition MAX_SPS :: nat where "MAX_SPS = 4"

type_synonym sp_store = "sp_context option list"

definition sp_store_new :: sp_store where "sp_store_new = replicate MAX_SPS None"

definition register_sp :: "sp_context \<Rightarrow> sp_store \<Rightarrow> sp_store or_panic" where
  "register_sp sp st = (case first_idx (\<lambda>slot. slot = None) st of Some i \<Rightarrow> Some (st[i := Some sp]) | None \<Rightarrow> None)"

definition get_sp_mut :: "u16 \<Rightarrow> sp_store \<Rightarrow> nat option" where
  "get_sp_mut i st = first_idx (\<lambda>slot. case slot of Some sp \<Rightarrow> sp_id sp = i | None \<Rightarrow> False) st"

definition is_registered_sp :: "u16 \<Rightarrow> sp_store \<Rightarrow> bool" where
  "is_registered_sp i st \<longleftrightarrow> (\<exists>slot\<in>set st. case slot of Some sp \<Rightarrow> sp_id sp = i | None \<Rightarrow> False)"

definition for_each_sp :: "(sp_context \<Rightarrow> 'a \<Rightarrow> 'a) \<Rightarrow> sp_store \<Rightarrow> 'a \<Rightarrow> 'a" where
  "for_each_sp f st = fold (\<lambda>slot a. case slot of Some sp \<Rightarrow> f sp a | None \<Rightarrow> a) st"

section \<open>The store\<close>

lemma args_roundtrip [simp]: "get_args (set_args a sp) = a"
  by (simp add: get_args_def set_args_def)

lemma set_args_sel [simp]: "sp_id (set_args a sp) = sp_id sp" "sp_state (set_args a sp) = sp_state sp"
  "sp_vsttbr (set_args a sp) = sp_vsttbr sp" "sp_uuid (set_args a sp) = sp_uuid sp"
  by (simp_all add: set_args_def)

text \<open>The partitions of a store, in the order the loops visit them.\<close>

definition sps_of :: "sp_store \<Rightarrow> sp_context list" where
  "sps_of st = concat (map (\<lambda>slot. case slot of Some sp \<Rightarrow> [sp] | None \<Rightarrow> []) st)"

lemma for_each_sp_sps: "for_each_sp f st = fold f (sps_of st)"
  unfolding for_each_sp_def sps_of_def by (induction st) (auto split: option.split)

lemma sps_of_set: "set (sps_of st) = {sp. Some sp \<in> set st}"
  by (auto simp: sps_of_def split: option.splits)

lemma sps_of_length: "length (sps_of st) \<le> length st"
  by (induction st) (auto simp: sps_of_def split: option.split)

lemma is_registered_iff: "is_registered_sp i st \<longleftrightarrow> get_sp_mut i st \<noteq> None"
  by (auto simp: is_registered_sp_def get_sp_mut_def first_idx_None)

lemma get_sp_mut_SomeD:
  assumes "get_sp_mut i st = Some k"
  shows "k < length st" "\<exists>sp. st ! k = Some sp \<and> sp_id sp = i"
  using first_idx_SomeD(1,2) [OF assms [unfolded get_sp_mut_def]] by (auto split: option.splits)

end
