(* ===== verification/Guest_Stage2.thy ===== *)
theory Guest_Stage2
  imports Stage2_Props
begin

text \<open>The Stage-2 translation a VM boots with (\<open>Vm::init_memory\<close> and \<open>init_memory_dynamic\<close> of \<open>src/vm.rs\<close>): guest
  memory around the hypervisor's heap, the GIC region as device memory, and holes where the emulated distributor and
  redistributors trap.  The translation is computed in closed form, and building it is shown to succeed: six heap pages
  and one for each page unmapped are always enough below 4GB.\<close>

definition GIC_REGION_BASE :: u64 where "GIC_REGION_BASE = 0x08000000"
definition GIC_REGION_SIZE :: u64 where "GIC_REGION_SIZE = 8 * BLOCK_SIZE_2MB"

text \<open>\<open>mapper.map_region(...).expect(...)\<close>.\<close>

definition map_or_panic :: "dyn_mapper \<Rightarrow> u64 \<Rightarrow> u64 \<Rightarrow> memory_attribute \<Rightarrow> heap \<Rightarrow> (dyn_mapper \<times> heap) or_panic" where
  "map_or_panic d ipa sz attr h = (case map_region d ipa sz attr h of (Inr _, d, h) \<Rightarrow> Some (d, h) | (Inl _, _) \<Rightarrow> None)"

definition map_guest_ram :: "u64 \<Rightarrow> u64 \<Rightarrow> dyn_mapper \<Rightarrow> heap \<Rightarrow> (dyn_mapper \<times> heap) or_panic" where
  "map_guest_ram start sz d h =
     (let heap_start = HEAP_START; heap_end = heap_start + HEAP_SIZE; end_aligned = start + sz;
          overlap_start = (if heap_start > start then heap_start else start);
          overlap_end = (if heap_end < end_aligned then heap_end else end_aligned) in
      if overlap_start < overlap_end
      then do {
        (d, h) \<leftarrow> if start < overlap_start then map_or_panic d start (overlap_start - start) AttrNormal h else Some (d, h);
        if overlap_end < end_aligned then map_or_panic d overlap_end (end_aligned - overlap_end) AttrNormal h else Some (d, h) }
      else map_or_panic d start sz AttrNormal h)"

definition gicr_rd_base :: "u64 \<Rightarrow> nat \<Rightarrow> u64" where
  "gicr_rd_base gicr_base cpu_id = gicr_base + of_nat cpu_id * 0x20000"

definition gicr_sgi_base :: "u64 \<Rightarrow> nat \<Rightarrow> u64" where
  "gicr_sgi_base gicr_base cpu_id = gicr_rd_base gicr_base cpu_id + 0x10000"

text \<open>The pages that are unmapped so that the guest's accesses trap: sixteen of the distributor and thirty-two of each
  redistributor.\<close>

definition trap_pages :: "u64 \<Rightarrow> u64 \<Rightarrow> nat \<Rightarrow> u64 list" where
  "trap_pages gicd_base gicr_base num_cpus =
     map (\<lambda>page. gicd_base + of_nat page * PAGE_SIZE_4KB) [0..<16] @
     concat (map (\<lambda>cpu. map (\<lambda>page. gicr_rd_base gicr_base cpu + of_nat page * PAGE_SIZE_4KB) [0..<32]) [0..<num_cpus])"

primrec unmap_all :: "dyn_mapper \<Rightarrow> u64 list \<Rightarrow> heap \<Rightarrow> heap or_panic" where
  "unmap_all d [] h = Some h"
| "unmap_all d (p # ps) h = (case unmap_4kb_page d p h of (Inr _, h) \<Rightarrow> unmap_all d ps h | (Inl _, _) \<Rightarrow> None)"

definition init_memory_dynamic :: "u64 \<Rightarrow> u64 \<Rightarrow> nat \<Rightarrow> u64 \<Rightarrow> u64 \<Rightarrow> heap \<Rightarrow> (dyn_mapper \<times> heap) or_panic" where
  "init_memory_dynamic gicd_base gicr_base num_cpus start_aligned size_aligned h = do {
     (d, h) \<leftarrow> mapper_new h;
     (d, h) \<leftarrow> map_guest_ram start_aligned size_aligned d h;
     (d, h) \<leftarrow> map_or_panic d GIC_REGION_BASE GIC_REGION_SIZE AttrDevice h;
     h \<leftarrow> unmap_all d (trap_pages gicd_base gicr_base num_cpus) h;
     Some (d, h) }"

section \<open>Enough heap pages\<close>

text \<open>\<open>avail n h\<close>: the heap has handed back no page yet and can still give out \<open>n\<close>.\<close>

definition avail :: "nat \<Rightarrow> heap \<Rightarrow> bool" where
  "avail n h \<longleftrightarrow> (\<exists>a. h_alloc h = Some a \<and> al_free_head a = 0 \<and> 4096 dvd unat (al_next a) \<and>
     unat (al_next a) + n * 4096 \<le> unat (al_end a) \<and> unat (al_end a) \<le> 2 ^ 48)"

lemma avail_mem [simp]: "avail n (h\<lparr>h_mem := m\<rparr>) = avail n h"
  by (simp add: avail_def)

lemma avail_mono: "avail n h \<Longrightarrow> k \<le> n \<Longrightarrow> avail k h"
proof -
  assume "avail n h" "k \<le> n"
  moreover from this have "k * 4096 \<le> n * 4096" by simp
  ultimately show ?thesis unfolding avail_def by (meson add_left_mono le_trans)
qed

lemma alloc_avail:
  assumes "avail (Suc n) h"
  shows "\<exists>p h'. alloc_page h = (Some p, h') \<and> avail n h' \<and> h_mem h' = h_mem h"
proof -
  obtain a where a: "h_alloc h = Some a" "al_free_head a = 0" "4096 dvd unat (al_next a)"
    "unat (al_next a) + Suc n * 4096 \<le> unat (al_end a)" "unat (al_end a) \<le> 2 ^ 48"
    using assms unfolding avail_def by blast
  let ?p = "(al_next a + 4096 - 1) AND NOT (4096 - 1)"
  have b: "unat (al_next a) + 4096 < 2 ^ 64" using a(4,5) by simp
  have u: "unat ?p = unat (al_next a)"
  proof -
    have "unat ?p = (unat (al_next a) + (2 ^ 12 - 1)) div 2 ^ 12 * 2 ^ 12"
      using unat_align_up(1) [of "al_next a" 12] b by simp
    also have "\<dots> = unat (al_next a)" using a(3) by (auto simp: dvd_def)
    finally show ?thesis .
  qed
  hence p: "?p = al_next a" by (simp add: word_unat_eq_iff)
  have n: "unat (al_next a + 4096) = unat (al_next a) + 4096" using b by (simp add: unat_add_exact)
  hence "\<not> al_end a < al_next a + 4096" using a(4) by (simp add: word_less_nat_alt)
  hence al: "alloc_page h = (Some (al_next a), \<lparr>h_mem = h_mem h,
      h_alloc = Some (a\<lparr>al_next := al_next a + 4096, al_allocated := al_allocated a + 4096\<rparr>)\<rparr>)"
    using a(1,2) p by (simp add: alloc_page_def bump_alloc_page_def alloc_aligned_def Let_def)
  show ?thesis
    by (intro exI conjI, rule al) (use a n in \<open>simp_all add: avail_def dvd_add\<close>)
qed


text \<open>A step leaves every live page alone that is not a table of its tree.\<close>

definition leaves :: "u64 set \<Rightarrow> u64 set \<Rightarrow> heap \<Rightarrow> u64 set \<Rightarrow> u64 set \<Rightarrow> heap \<Rightarrow> bool" where
  "leaves U T h U' T' h' \<longleftrightarrow> U - T \<subseteq> U' - T' \<and> (\<forall>x. page_of x \<in> U - T \<longrightarrow> h_mem h' x = h_mem h x)"

lemma leaves_refl: "leaves U T h U T h"
  by (simp add: leaves_def)

lemma leaves_trans: "leaves U T h U1 T1 h1 \<Longrightarrow> leaves U1 T1 h1 U2 T2 h2 \<Longrightarrow> leaves U T h U2 T2 h2"
  unfolding leaves_def by (metis subset_eq)

lemma leaves_grows: "s2_grows U T r h T' h' \<Longrightarrow> leaves U T h (U \<union> T') T' h'"
  by (auto simp: leaves_def s2_grows_def)

text \<open>The budget of a mapper: a page for each of the four L2 tables that is still missing, and \<open>k\<close> more.\<close>

definition missing :: "dyn_mapper \<Rightarrow> heap \<Rightarrow> u64 set" where
  "missing d h = {i. i < 4 \<and> \<not> pte_is_table (h_mem h (entry_addr (dm_l1_table d) i))}"

definition bud :: "nat \<Rightarrow> dyn_mapper \<Rightarrow> heap \<Rightarrow> bool" where
  "bud k d h \<longleftrightarrow> avail (k + card (missing d h)) h \<and> dm_l2_count d + card (missing d h) \<le> 4"

lemma l1_indices: "{i :: u64. i < 4} = {0, 1, 2, 3}"
proof -
  have "i \<in> {0, 1, 2, 3}" if "i < 4" for i :: u64
  proof -
    have "unat i < 4" using that by (simp add: word_less_nat_alt)
    hence "unat i = unat (0 :: u64) \<or> unat i = unat (1 :: u64) \<or> unat i = unat (2 :: u64) \<or> unat i = unat (3 :: u64)" by auto
    thus ?thesis by (auto simp only: word_unat_eq_iff [symmetric] insert_iff)
  qed
  thus ?thesis by auto
qed

lemma missing_finite: "finite (missing d h)" "card (missing d h) \<le> 4"
proof -
  have s: "missing d h \<subseteq> {0, 1, 2, 3}" using l1_indices by (auto simp: missing_def)
  thus "finite (missing d h)" by (rule finite_subset) simp
  show "card (missing d h) \<le> 4" using card_mono [OF _ s] by simp
qed

lemma get_or_create_l2_ok:
  assumes ok: "mapper_ok U T d h" and b: "bud k d h" and i: "i < 4"
  obtains t d' h' where "get_or_create_l2 d i h = (Inr t, d', h')" "bud k d' h'"
proof -
  let ?t = "dm_l1_table d"
  have i5: "i < 512" using i by (simp add: word_less_nat_alt)
  show thesis
  proof (cases "pte_is_table (h_mem h (entry_addr ?t i))")
    case True
    thus thesis using that b by (simp add: get_or_create_l2_def pte_conds)
  next
    case False
    hence im: "i \<in> missing d h" using i by (simp add: missing_def)
    then obtain c where c: "card (missing d h) = Suc c" using missing_finite(1) by (metis card_Suc_Diff1)
    have av: "avail (Suc (k + c)) h" "dm_l2_count d < 4" "dm_l2_count d + 1 + c \<le> 4" using b c by (simp_all add: bud_def)
    obtain n h1 where n: "alloc_page h = (Some n, h1)" "avail (k + c) h1" "h_mem h1 = h_mem h" using alloc_avail [OF av(1)] by blast
    have hok: "heap_ok U h" and T: "T \<subseteq> U" and wf: "wf_tables T (h_mem h) (dm_l0_table d)"
      and w0: "walk (h_mem h) (dm_l0_table d) [0] = Some ?t" using ok by (simp_all add: mapper_ok_def s2_ok_def)
    note a = alloc_page_spec [OF hok n(1)]
    have tT: "?t \<in> T" "page_aligned ?t"
      using wf_tablesD(3) [OF wf _ w0] walk_aligned [OF wf_tablesD(1) [OF wf] w0] by (simp_all add: is_path_def)
    define m where "m = (zero_page n (h_mem h1))(entry_addr ?t i := n OR PTE_VALID OR PTE_TABLE)"
    let ?d = "d\<lparr>dm_l2_tables := (dm_l2_tables d)[dm_l2_count d := n], dm_l2_count := dm_l2_count d + 1\<rparr>"
    have g: "get_or_create_l2 d i h = (Inr n, ?d, h1\<lparr>h_mem := m\<rparr>)"
      using False n(1) av(2) by (simp add: get_or_create_l2_def pte_conds m_def Let_def)
    have e: "m (entry_addr ?t j) = (if j = i then n OR PTE_VALID OR PTE_TABLE else h_mem h (entry_addr ?t j))" if "j < 512" for j
    proof -
      have "page_of (entry_addr ?t j) \<noteq> n" using tT that a(1) T by (auto simp: page_of_entry)
      moreover have "entry_addr ?t j = entry_addr ?t i \<longleftrightarrow> j = i" using entry_addr_inj [OF tT(2,2) that i5] by blast
      ultimately show ?thesis using a(2) by (simp add: m_def zero_page_apply n(3))
    qed
    have "missing ?d (h1\<lparr>h_mem := m\<rparr>) = missing d h - {i}"
      using e link_desc(1) [OF a(2,4)] by (auto simp: missing_def word_less_nat_alt split: if_splits)
    hence "card (missing ?d (h1\<lparr>h_mem := m\<rparr>)) = c" using c im missing_finite(1) by simp
    hence "bud k ?d (h1\<lparr>h_mem := m\<rparr>)" using n(2) av(3) by (simp add: bud_def)
    thus thesis using that g by blast
  qed
qed

lemma map_block_ok:
  assumes ok: "mapper_ok U T d h" and b: "bud k d h" and x: "l0_idx ipa = 0" "l1_idx ipa < 4"
  obtains d' h' where "map_block d ipa attr h = (Inr (), d', h')" "bud k d' h'"
proof -
  obtain t d1 h1 where g: "get_or_create_l2 d (l1_idx ipa) h = (Inr t, d1, h1)" "bud k d1 h1"
    by (rule get_or_create_l2_ok [OF ok b x(2)])
  obtain T1 where T1: "mapper_ok (U \<union> T1) T1 d1 h1" "dm_l0_table d1 = dm_l0_table d"
    "walk (h_mem h1) (dm_l0_table d) [0, l1_idx ipa] = Some t"
    by (rule get_or_create_l2_spec [OF ok idx_less(2) g(1)]) metis
  let ?h = "h1\<lparr>h_mem := (h_mem h1)(entry_addr t (l2_idx ipa) := make_block_entry ipa attr)\<rparr>"
  have P: "is_path [0, l1_idx ipa]" by (simp add: is_path_def idx_less)
  have "entry_addr (dm_l1_table d1) j \<noteq> entry_addr t (l2_idx ipa)" if "j < 512" for j
    using mapper_l1_entry(1) [OF T1(1) that P _ _ idx_less(3)] T1(2,3) by simp
  hence "missing d1 ?h = missing d1 h1" by (auto simp: missing_def word_less_nat_alt)
  hence "bud k d1 ?h" using g(2) by (simp add: bud_def)
  moreover have "map_block d ipa attr h = (Inr (), d1, ?h)" using g(1) by (simp add: map_block_def)
  ultimately show thesis using that by blast
qed

lemma l1_idx_low: "unat x < 2 ^ 32 \<Longrightarrow> l1_idx x < 4"
proof -
  assume x: "unat x < 2 ^ 32"
  have "n < 2" if "bit x (30 + n)" for n
    using less_pow_bits [OF x, of "30 + n"] that by fastforce
  hence "take_bit 2 (l1_idx x) = l1_idx x" by (auto simp: u64_eq_iff bit_take_bit_iff bit_idx)
  hence "unat (l1_idx x) = unat (l1_idx x) mod 2 ^ 2" by (metis unat_take_bit)
  also have "\<dots> < 4" by simp
  finally show ?thesis by (simp add: word_less_nat_alt)
qed

lemma map_blocks_ok:
  assumes "mapper_ok U T d h" "bud k d h" "unat ipa + unat off + n * 2 ^ 21 \<le> 2 ^ 32"
  shows "\<exists>d' h'. map_blocks n off d ipa attr h = (Inr (), d', h') \<and> bud k d' h'"
  using assms
proof (induction n arbitrary: off d h U T)
  case (Suc n)
  let ?x = "ipa + off"
  have x: "unat ?x < 2 ^ 32" using Suc.prems(3) by (simp add: unat_add_exact)
  hence l0: "l0_idx ?x = 0" by (intro l0_idx_low) simp
  obtain d1 h1 where mb: "map_block d ?x attr h = (Inr (), d1, h1)" "bud k d1 h1"
    by (rule map_block_ok [OF Suc.prems(1,2) l0 l1_idx_low [OF x]])
  obtain T1 where T1: "mapper_ok (U \<union> T1) T1 d1 h1"
    by (rule map_block_spec [OF Suc.prems(1) l0 mb(1)]) metis
  have "unat (off + BLOCK_SIZE_2MB) = unat off + 2 ^ 21"
    using Suc.prems(3) by (simp add: unat_add_exact BLOCK_SIZE_2MB_def)
  hence "unat ipa + unat (off + BLOCK_SIZE_2MB) + n * 2 ^ 21 \<le> 2 ^ 32" using Suc.prems(3) by simp
  from Suc.IH [OF T1 mb(2) this] mb(1) show ?case by simp
qed simp


lemma mapper_new_ok:
  assumes hok: "heap_ok U h" and av: "avail (k + 6) h"
  obtains d h' where "mapper_new h = Some (d, h')" "bud k d h'"
proof -
  obtain l0 h1 where a0: "alloc_page h = (Some l0, h1)" "avail (Suc (k + 4)) h1" "h_mem h1 = h_mem h"
    using alloc_avail [of "k + 5" h] av by (auto simp: numeral_eq_Suc)
  obtain l1 h2 where a1: "alloc_page h1 = (Some l1, h2)" "avail (k + 4) h2" "h_mem h2 = h_mem h1"
    using alloc_avail [OF a0(2)] by blast
  let ?m = "(zero_page l1 (zero_page l0 (h_mem h2)))(l0 := l1 OR (PTE_VALID OR PTE_TABLE))"
  let ?d = "\<lparr>dm_l0_table = l0, dm_l1_table = l1, dm_l2_tables = replicate 4 0, dm_l2_count = 0\<rparr>"
  have n: "mapper_new h = Some (?d, h2\<lparr>h_mem := ?m\<rparr>)" by (simp add: mapper_new_def a0(1) a1(1) Let_def)
  have "bud k ?d (h2\<lparr>h_mem := ?m\<rparr>)"
    using a1(2) missing_finite(2) [of ?d "h2\<lparr>h_mem := ?m\<rparr>"] by (simp add: bud_def avail_mono)
  thus thesis using that n by blast
qed

section \<open>Unmapping never runs into an invalid entry\<close>

text \<open>A page can be unmapped when it is mapped, or when its 2MB region has already been split into pages.\<close>

definition can_unmap :: "dyn_mapper \<Rightarrow> heap \<Rightarrow> u64 \<Rightarrow> bool" where
  "can_unmap d h x \<longleftrightarrow> walk (h_mem h) (dm_l0_table d) (ipa_path x) \<noteq> None \<or> s2_desc (h_mem h) (dm_l0_table d) x \<noteq> None"

lemma mapped_l2:
  assumes ok: "mapper_ok U T d h" and x: "l0_idx x = 0" and c: "can_unmap d h x"
  shows "\<exists>t2. walk (h_mem h) (dm_l0_table d) [0, l1_idx x] = Some t2 \<and> pte_is_valid (h_mem h (entry_addr t2 (l2_idx x)))"
proof -
  let ?r = "dm_l0_table d" and ?m = "h_mem h"
  have ng: "no_gblocks ?m ?r" and w0: "walk ?m ?r [0] = Some (dm_l1_table d)" using ok by (simp_all add: mapper_ok_def s2_ok_def)
  have p: "ipa_path x = [0, l1_idx x] @ [l2_idx x]" using x by (simp add: ipa_path_def)
  have w3: "walk ?m ?r (ipa_path x) = Option.bind (walk ?m ?r [0, l1_idx x]) (\<lambda>t. follow ?m t (l2_idx x))"
    unfolding p by (rule walk_snoc)
  have f: "follow ?m t i \<noteq> None \<Longrightarrow> pte_is_valid (?m (entry_addr t i))" for t i
    using pte_table_valid by (auto simp: follow_def Let_def split: if_splits)
  show ?thesis
  proof (cases "walk ?m ?r (ipa_path x)")
    case (Some t3)
    then obtain t2 where "walk ?m ?r [0, l1_idx x] = Some t2" "follow ?m t2 (l2_idx x) = Some t3"
      using w3 by (cases "walk ?m ?r [0, l1_idx x]") auto
    with f [of t2 "l2_idx x"] show ?thesis by auto
  next
    case None
    hence s: "s2_desc ?m ?r x \<noteq> None" using c by (simp add: can_unmap_def)
    show ?thesis
    proof (cases "walk ?m ?r [0, l1_idx x]")
      case None
      with s x w0 no_gblocks_l1 [OF ng, of x "dm_l1_table d"] show ?thesis
        by (auto simp: s2_desc_walk valid_desc_def follow_def walk_Cons split: if_splits)
    next
      case (Some t2)
      with s None x w0 show ?thesis by (auto simp: s2_desc_walk valid_desc_def split: if_splits)
    qed
  qed
qed

lemma mapper_l3_mono:
  assumes ok: "mapper_ok U T d h"
    and t2: "walk (h_mem h) (dm_l0_table d) [0, l1_idx x] = Some t2" "pte_is_valid (h_mem h (entry_addr t2 (l2_idx x)))"
    and l3: "mapper_l3 False t2 (l2_idx x) h = (r2, h2)" "r2 = Inr t3"
    and q: "is_path q" "walk (h_mem h) (dm_l0_table d) q \<noteq> None"
  shows "walk (h_mem h2) (dm_l0_table d) q \<noteq> None"
proof (cases "pte_is_table (h_mem h (entry_addr t2 (l2_idx x)))")
  case True
  hence "h2 = h" using l3 t2(2) by (auto simp: mapper_l3_def pte_conds pte_table_cond Let_def)
  thus ?thesis using q by simp
next
  case False
  let ?e = "h_mem h (entry_addr t2 (l2_idx x))"
  obtain n h1 where al: "alloc_page h = (Some n, h1)"
    using l3 t2(2) False by (cases "alloc_page h"; cases "fst (alloc_page h)")
      (auto simp: mapper_l3_def split_2mb_block_def pte_conds pte_table_cond Let_def)
  define m where "m = (fill_table n (mapper_block_page ?e) (h_mem h1))(entry_addr t2 (l2_idx x) := n OR PTE_VALID OR PTE_TABLE)"
  have h2: "h2 = h1\<lparr>h_mem := m\<rparr>"
    using l3 t2(2) False al by (auto simp: mapper_l3_def split_2mb_block_def pte_conds pte_table_cond Let_def m_def)
  have s2: "s2_ok U T (dm_l0_table d) h" and P: "is_path [0, l1_idx x]"
    using ok by (simp_all add: mapper_ok_def is_path_def idx_less)
  note L = s2_link_split [OF s2 al P t2(1) _ idx_less(3) t2(2) False mapper_block_page_eq refl m_def, simplified]
  show ?thesis using L(3) L(5) [OF q(1)] q(2) by (cases "q = [0, l1_idx x, l2_idx x]") (simp_all add: h2)
qed

lemma unmap_4kb_ok:
  assumes ok: "mapper_ok U T d h" and x: "l0_idx x = 0" and c: "can_unmap d h x" and av: "avail (Suc n) h"
  obtains h' where "unmap_4kb_page d x h = (Inr (), h')" "avail n h'"
    "\<And>y. l0_idx y = 0 \<Longrightarrow> can_unmap d h y \<Longrightarrow> can_unmap d h' y"
proof -
  let ?r = "dm_l0_table d"
  obtain t2 where t2: "walk (h_mem h) ?r [0, l1_idx x] = Some t2" "pte_is_valid (h_mem h (entry_addr t2 (l2_idx x)))"
    using mapped_l2 [OF ok x c] by blast
  let ?e1 = "h_mem h (entry_addr (dm_l1_table d) (l1_idx x))" and ?e = "h_mem h (entry_addr t2 (l2_idx x))"
  have w0: "walk (h_mem h) ?r [0] = Some (dm_l1_table d)" using ok by (simp add: mapper_ok_def)
  have e1: "pte_is_table ?e1" "pte_addr ?e1 = t2"
    using t2(1) walk_snoc [of "h_mem h" ?r "[0]" "l1_idx x"] w0 by (auto simp: follow_def Let_def split: if_splits)
  obtain n1 h1 where al: "alloc_page h = (Some n1, h1)" "avail n h1" "h_mem h1 = h_mem h" using alloc_avail [OF av] by blast
  obtain r2 h2 where l3: "mapper_l3 False t2 (l2_idx x) h = (r2, h2)" by fastforce
  have "\<exists>t3. r2 = Inr t3 \<and> avail n h2"
    using l3 al av t2(2) avail_mono [OF av, of n]
    by (auto simp: mapper_l3_def split_2mb_block_def pte_conds pte_table_cond Let_def split: if_splits)
  then obtain t3 where t3: "r2 = Inr t3" "avail n h2" by blast
  let ?h = "h2\<lparr>h_mem := (h_mem h2)(entry_addr t3 (l3_idx x) := 0)\<rparr>"
  have um: "unmap_4kb_page d x h = (Inr (), ?h)" using e1 l3 t3(1) by (simp add: unmap_4kb_page_def pte_conds)
  have mono: "walk (h_mem h2) ?r q \<noteq> None" if "is_path q" "walk (h_mem h) ?r q \<noteq> None" for q
    using mapper_l3_mono [OF ok t2 l3 t3(1) that] .
  obtain T2 where T2: "mapper_ok (U \<union> T2) T2 d h2" "walk (h_mem h2) ?r [0, l1_idx x, l2_idx x] = Some t3"
    by (rule mapper_l3_spec [OF ok idx_less(2,3) t2(1) l3]) (use t3(1) in metis)
  have w3: "walk (h_mem h2) ?r (ipa_path x) = Some t3" using T2(2) x by (simp add: ipa_path_def)
  have wf: "wf_tables T2 (h_mem h2) ?r" using T2(1) by (simp add: mapper_ok_def s2_ok_def)
  have leaf: "walk (h_mem ?h) ?r q = walk (h_mem h2) ?r q" if "is_path q" for q
    using walk_write [OF wf is_path_ipa(3) w3 idx_less(4) _ that] by (simp add: ipa_path_def)
  have desc: "s2_desc (h_mem ?h) ?r y = (if same_page y x then None else s2_desc (h_mem h) ?r y)" for y
    by (rule unmap_4kb_page_spec [OF ok x um]) metis
  have "can_unmap d ?h y" if "can_unmap d h y" for y
    using that mono [OF is_path_ipa(3) [of y]] leaf [OF is_path_ipa(3)] desc [of y] w3
    by (cases "same_page y x") (auto simp: can_unmap_def same_page_def)
  thus thesis using that um t3(2) by simp
qed


lemma unmap_all_ok:
  assumes "mapper_ok U T d h" "\<forall>p\<in>set ps. unat p < 2 ^ 39 \<and> can_unmap d h p" "avail (length ps + k) h"
  shows "\<exists>h' U' T'. unmap_all d ps h = Some h' \<and> mapper_ok U' T' d h' \<and> avail k h' \<and> leaves U T h U' T' h' \<and>
    (\<forall>y. s2_desc (h_mem h') (dm_l0_table d) y =
      (if \<exists>p\<in>set ps. same_page y p then None else s2_desc (h_mem h) (dm_l0_table d) y))"
  using assms
proof (induction ps arbitrary: h U T)
  case (Cons p ps)
  have p: "l0_idx p = 0" "can_unmap d h p" "avail (Suc (length ps + k)) h" using Cons.prems by (simp_all add: l0_idx_low)
  obtain h1 where h1: "unmap_4kb_page d p h = (Inr (), h1)" "avail (length ps + k) h1"
    "\<And>y. l0_idx y = 0 \<Longrightarrow> can_unmap d h y \<Longrightarrow> can_unmap d h1 y"
    by (rule unmap_4kb_ok [OF Cons.prems(1) p]) blast
  obtain T1 where T1: "mapper_ok (U \<union> T1) T1 d h1"
    "\<forall>y. s2_desc (h_mem h1) (dm_l0_table d) y = (if same_page y p then None else s2_desc (h_mem h) (dm_l0_table d) y)"
    "s2_grows U T (dm_l0_table d) h T1 h1"
    by (rule unmap_4kb_page_spec [OF Cons.prems(1) p(1) h1(1)]) metis
  have "\<forall>q\<in>set ps. unat q < 2 ^ 39 \<and> can_unmap d h1 q" using Cons.prems(2) h1(3) l0_idx_low by simp
  from Cons.IH [OF T1(1) this h1(2)] obtain h' U' T' where r: "unmap_all d ps h1 = Some h'" "mapper_ok U' T' d h'"
    "avail k h'" "leaves (U \<union> T1) T1 h1 U' T' h'" "\<forall>y. s2_desc (h_mem h') (dm_l0_table d) y =
      (if \<exists>p\<in>set ps. same_page y p then None else s2_desc (h_mem h1) (dm_l0_table d) y)" by blast
  hence "\<forall>y. s2_desc (h_mem h') (dm_l0_table d) y =
      (if \<exists>p\<in>set (p # ps). same_page y p then None else s2_desc (h_mem h) (dm_l0_table d) y)" using T1(2) by simp
  moreover have "unmap_all d (p # ps) h = Some h'" using h1(1) r(1) by simp
  moreover have "leaves U T h U' T' h'" using leaves_trans [OF leaves_grows [OF T1(3)] r(4)] .
  ultimately show ?case using r(2,3) by blast
qed (auto intro: leaves_refl)

section \<open>The translation that is built\<close>

text \<open>The descriptor that maps an address to itself.\<close>

definition self_desc :: "u64 \<Rightarrow> memory_attribute \<Rightarrow> u64" where
  "self_desc y attr = block_page (make_block_entry y attr) (l3_idx y)"

lemma map_blocks_high:
  assumes "mapper_ok U T d h" "unat ipa + unat off + n * 2 ^ 21 \<le> 2 ^ 39" "map_blocks n off d ipa attr h = (Inr (), d', h')"
    and "l0_idx y \<noteq> 0"
  shows "s2_desc (h_mem h') (dm_l0_table d) y = s2_desc (h_mem h) (dm_l0_table d) y"
  using assms
proof (induction n arbitrary: off d h U T)
  case (Suc n)
  let ?x = "ipa + off"
  have x: "l0_idx ?x = 0" using Suc.prems(2) by (intro l0_idx_low) (simp add: unat_add_exact)
  obtain r1 d1 h1 where mb: "map_block d ?x attr h = (r1, d1, h1)" by (rule prod_cases3)
  with Suc.prems(3) have r1: "r1 = Inr ()" and rec: "map_blocks n (off + BLOCK_SIZE_2MB) d1 ipa attr h1 = (Inr (), d', h')"
    by (auto split: sum.splits)
  obtain T1 where T1: "mapper_ok (U \<union> T1) T1 d1 h1" "dm_l0_table d1 = dm_l0_table d"
    "\<forall>y. s2_desc (h_mem h1) (dm_l0_table d) y =
      (if ipa_path y = ipa_path ?x then Some (block_page (make_block_entry ?x attr) (l3_idx y))
       else s2_desc (h_mem h) (dm_l0_table d) y)"
    by (rule map_block_spec [OF Suc.prems(1) x mb]) (use r1 in metis)
  have "unat (off + BLOCK_SIZE_2MB) = unat off + 2 ^ 21" using Suc.prems(2) by (simp add: unat_add_exact BLOCK_SIZE_2MB_def)
  hence "unat ipa + unat (off + BLOCK_SIZE_2MB) + n * 2 ^ 21 \<le> 2 ^ 39" using Suc.prems(2) by simp
  from Suc.IH [OF T1(1) this rec Suc.prems(4)] T1(2,3) x Suc.prems(4) show ?case by (simp add: ipa_path_def)
qed simp

lemma num_blocks_exact: "2 ^ 21 dvd unat sz \<Longrightarrow> num_blocks sz * 2 ^ 21 = unat sz"
proof -
  assume "2 ^ 21 dvd unat sz"
  then obtain k where "unat sz = 2 ^ 21 * k" by (rule dvdE)
  thus ?thesis by (simp add: num_blocks_def BLOCK_SIZE_2MB_def)
qed

text \<open>What one call of \<open>map_region\<close> does to the translation of a mapper that has enough heap.\<close>

definition maps :: "(u64 \<Rightarrow> u64 option) \<Rightarrow> (u64 \<Rightarrow> u64 option) \<Rightarrow> nat \<Rightarrow> nat \<Rightarrow> memory_attribute \<Rightarrow> bool" where
  "maps f g a b attr \<longleftrightarrow> (\<forall>y. unat y < 2 ^ 48 \<longrightarrow> g y = (if a \<le> unat y \<and> unat y < b then Some (self_desc y attr) else f y))"

lemma l0_idx_high: "2 ^ 39 \<le> unat y \<Longrightarrow> unat y < 2 ^ 48 \<Longrightarrow> l0_idx y \<noteq> 0"
proof
  assume y: "2 ^ 39 \<le> unat y" "unat y < 2 ^ 48" and z: "l0_idx y = 0"
  have "\<not> bit y m" if m: "39 \<le> m" for m
  proof (cases "m < 48")
    case True
    have "\<not> bit (l0_idx y) (m - 39)" using z by simp
    thus ?thesis using True m by (simp add: bit_idx)
  qed (use less_pow_bits [OF y(2)] in simp)
  hence "take_bit 39 y = y" by (auto simp: u64_eq_iff bit_take_bit_iff not_le [symmetric])
  hence "unat y = unat y mod 2 ^ 39" by (metis unat_take_bit)
  hence "unat y < 2 ^ 39" by (metis mod_less_divisor zero_less_numeral zero_less_power)
  thus False using y(1) by simp
qed

lemma map_or_panic_ok:
  assumes ok: "mapper_ok U T d h" and b: "bud k d h" and al: "2 ^ 21 dvd unat ipa" "2 ^ 21 dvd unat sz"
    and le: "unat ipa + unat sz \<le> 2 ^ 32"
  obtains d' h' U' T' where "map_or_panic d ipa sz attr h = Some (d', h')" "mapper_ok U' T' d' h'" "bud k d' h'"
    "dm_l0_table d' = dm_l0_table d" "leaves U T h U' T' h'"
    "maps (s2_desc (h_mem h) (dm_l0_table d)) (s2_desc (h_mem h') (dm_l0_table d)) (unat ipa) (unat ipa + unat sz) attr"
proof -
  let ?n = "num_blocks sz" and ?r = "dm_l0_table d"
  have n: "?n * 2 ^ 21 = unat sz" by (rule num_blocks_exact [OF al(2)])
  have le': "unat ipa + unat (0 :: u64) + ?n * 2 ^ 21 \<le> 2 ^ 32" using le n by simp
  obtain d' h' where mb: "map_blocks ?n 0 d ipa attr h = (Inr (), d', h')" "bud k d' h'"
    using map_blocks_ok [OF ok b le'] by blast
  have le39: "unat ipa + unat (0 :: u64) + ?n * 2 ^ 21 \<le> 2 ^ 39" using le' by (rule order_trans) simp
  obtain T' where T': "mapper_ok (U \<union> T') T' d' h'" "dm_l0_table d' = ?r"
    "\<forall>y. unat y < 2 ^ 39 \<longrightarrow> s2_desc (h_mem h') ?r y =
      (if unat ipa + unat (0 :: u64) \<le> unat y \<and> unat y < unat ipa + unat (0 :: u64) + ?n * 2 ^ 21
       then Some (block_page (make_block_entry y attr) (l3_idx y)) else s2_desc (h_mem h) ?r y)" "s2_grows U T ?r h T' h'"
    using map_blocks_spec [OF ok al(1) _ le39 mb(1)] by auto
  have "maps (s2_desc (h_mem h) ?r) (s2_desc (h_mem h') ?r) (unat ipa) (unat ipa + unat sz) attr"
    unfolding maps_def
  proof (intro allI impI)
    fix y :: u64 assume y: "unat y < 2 ^ 48"
    show "s2_desc (h_mem h') ?r y = (if unat ipa \<le> unat y \<and> unat y < unat ipa + unat sz then Some (self_desc y attr)
        else s2_desc (h_mem h) ?r y)"
    proof (cases "unat y < 2 ^ 39")
      case True
      thus ?thesis using T'(3) n by (simp add: self_desc_def)
    next
      case False
      with map_blocks_high [OF ok le39 mb(1) l0_idx_high] y le show ?thesis by simp
    qed
  qed
  moreover have "map_or_panic d ipa sz attr h = Some (d', h')" using mb(1) by (simp add: map_or_panic_def map_region_def)
  ultimately show thesis using that T'(1,2) mb(2) leaves_grows [OF T'(4)] by blast
qed


lemma map_part_ok:
  assumes ok: "mapper_ok U T d h" and bd: "bud k d h" and al: "2 ^ 21 dvd unat a" "2 ^ 21 dvd unat b" and le: "unat b \<le> 2 ^ 32"
  obtains d' h' U' T' where "(if a < b then map_or_panic d a (b - a) attr h else Some (d, h)) = Some (d', h')"
    "mapper_ok U' T' d' h'" "bud k d' h'" "dm_l0_table d' = dm_l0_table d" "leaves U T h U' T' h'"
    "maps (s2_desc (h_mem h) (dm_l0_table d)) (s2_desc (h_mem h') (dm_l0_table d)) (unat a) (unat b) attr"
proof (cases "a < b")
  case True
  have u: "unat (b - a) = unat b - unat a" using True by (intro unat_sub) simp
  have l: "unat a < unat b" using True by (simp add: word_less_nat_alt)
  have "2 ^ 21 dvd unat (b - a)" "unat a + unat (b - a) \<le> 2 ^ 32" using al le l by (simp_all add: u dvd_diff_nat)
  then obtain d' h' U' T' where m: "map_or_panic d a (b - a) attr h = Some (d', h')" "mapper_ok U' T' d' h'" "bud k d' h'"
    "dm_l0_table d' = dm_l0_table d" "leaves U T h U' T' h'"
    "maps (s2_desc (h_mem h) (dm_l0_table d)) (s2_desc (h_mem h') (dm_l0_table d)) (unat a) (unat a + unat (b - a)) attr"
    by (rule map_or_panic_ok [OF ok bd al(1)])
  show thesis using that [OF _ m(2-5)] m(1,6) True l by (simp add: u)
next
  case False
  show thesis by (rule that [OF _ ok bd refl leaves_refl]) (use False in \<open>auto simp: maps_def word_less_nat_alt\<close>)
qed

text \<open>The intended translation: the trapped pages are unmapped, the rest of the GIC region is device memory, guest memory
  is normal memory except for the hypervisor's heap, and nothing else is mapped.\<close>

definition guest_layout :: "u64 list \<Rightarrow> u64 \<Rightarrow> u64 \<Rightarrow> u64 \<Rightarrow> memory_attribute option" where
  "guest_layout traps start sz y =
     (if \<exists>p\<in>set traps. same_page y p then None
      else if unat GIC_REGION_BASE \<le> unat y \<and> unat y < unat GIC_REGION_BASE + unat GIC_REGION_SIZE then Some AttrDevice
      else if unat start \<le> unat y \<and> unat y < unat start + unat sz \<and>
        \<not> (unat HEAP_START \<le> unat y \<and> unat y < unat HEAP_START + unat HEAP_SIZE) then Some AttrNormal
      else None)"

lemma map_guest_ram_ok:
  assumes ok: "mapper_ok U T d h" and bd: "bud k d h" and al: "2 ^ 21 dvd unat start" "2 ^ 21 dvd unat sz"
    and le: "unat start + unat sz \<le> 2 ^ 32" and none: "\<And>y. s2_desc (h_mem h) (dm_l0_table d) y = None"
  obtains d' h' U' T' where "map_guest_ram start sz d h = Some (d', h')" "mapper_ok U' T' d' h'" "bud k d' h'"
    "dm_l0_table d' = dm_l0_table d" "leaves U T h U' T' h'"
    "\<And>y. unat y < 2 ^ 48 \<Longrightarrow> s2_desc (h_mem h') (dm_l0_table d) y =
      (if unat start \<le> unat y \<and> unat y < unat start + unat sz \<and> \<not> (0x41000000 \<le> unat y \<and> unat y < 0x42000000)
       then Some (self_desc y AttrNormal) else None)"
proof -
  let ?r = "dm_l0_table d" and ?e = "start + sz"
  have e: "unat ?e = unat start + unat sz" using le by (simp add: unat_add_exact)
  define os oe where "os = (if HEAP_START > start then HEAP_START else start)"
    and "oe = (if HEAP_START + HEAP_SIZE < ?e then HEAP_START + HEAP_SIZE else ?e)"
  note hd = HEAP_START_def HEAP_SIZE_def
  have os: "unat os = max 0x41000000 (unat start)" and oe: "unat oe = min 0x42000000 (unat ?e)"
    by (auto simp: os_def oe_def hd word_less_nat_alt max_def min_def)
  have dv: "2 ^ 21 dvd unat os" "2 ^ 21 dvd unat oe" "2 ^ 21 dvd unat ?e"
    using al by (auto simp: os oe e max_def min_def)
  have run: "map_guest_ram start sz d h =
      (if os < oe then do {
         (d, h) \<leftarrow> if start < os then map_or_panic d start (os - start) AttrNormal h else Some (d, h);
         if oe < ?e then map_or_panic d oe (?e - oe) AttrNormal h else Some (d, h) }
       else map_or_panic d start sz AttrNormal h)"
    unfolding map_guest_ram_def Let_def os_def oe_def by (rule refl)
  show thesis
  proof (cases "os < oe")
    case False
    obtain d' h' U' T' where m: "map_or_panic d start sz AttrNormal h = Some (d', h')" "mapper_ok U' T' d' h'" "bud k d' h'"
      "dm_l0_table d' = ?r" "leaves U T h U' T' h'"
      "maps (s2_desc (h_mem h) ?r) (s2_desc (h_mem h') ?r) (unat start) (unat start + unat sz) AttrNormal"
      by (rule map_or_panic_ok [OF ok bd al le])
    show thesis
    proof (rule that [OF _ m(2-5)])
      show "map_guest_ram start sz d h = Some (d', h')" using run False m(1) by simp
      fix y :: u64 assume "unat y < 2 ^ 48"
      with m(6) False os oe e none show "s2_desc (h_mem h') ?r y =
          (if unat start \<le> unat y \<and> unat y < unat start + unat sz \<and> \<not> (0x41000000 \<le> unat y \<and> unat y < 0x42000000)
           then Some (self_desc y AttrNormal) else None)"
        by (auto simp: maps_def word_less_nat_alt)
    qed
  next
    case True
    hence lt: "unat os < unat oe" by (simp add: word_less_nat_alt)
    have b: "unat os \<le> 2 ^ 32" "unat ?e \<le> 2 ^ 32" using le lt by (simp_all add: oe e)
    obtain d1 h1 U1 T1 where m1: "(if start < os then map_or_panic d start (os - start) AttrNormal h else Some (d, h)) = Some (d1, h1)"
      "mapper_ok U1 T1 d1 h1" "bud k d1 h1" "dm_l0_table d1 = ?r" "leaves U T h U1 T1 h1"
      "maps (s2_desc (h_mem h) ?r) (s2_desc (h_mem h1) ?r) (unat start) (unat os) AttrNormal"
      by (rule map_part_ok [OF ok bd al(1) dv(1) b(1)])
    obtain d2 h2 U2 T2 where m2: "(if oe < ?e then map_or_panic d1 oe (?e - oe) AttrNormal h1 else Some (d1, h1)) = Some (d2, h2)"
      "mapper_ok U2 T2 d2 h2" "bud k d2 h2" "dm_l0_table d2 = dm_l0_table d1" "leaves U1 T1 h1 U2 T2 h2"
      "maps (s2_desc (h_mem h1) (dm_l0_table d1)) (s2_desc (h_mem h2) (dm_l0_table d1)) (unat oe) (unat ?e) AttrNormal"
      by (rule map_part_ok [OF m1(2,3) dv(2,3) b(2)])
    show thesis
    proof (rule that [OF _ m2(2,3)])
      show "map_guest_ram start sz d h = Some (d2, h2)" unfolding run if_P [OF True] m1(1) using m2(1) by simp
      show "dm_l0_table d2 = ?r" using m1(4) m2(4) by simp
      show "leaves U T h U2 T2 h2" by (rule leaves_trans [OF m1(5) m2(5)])
      fix y :: u64 assume "unat y < 2 ^ 48"
      with m1(4,6) m2(6) lt os oe e none show "s2_desc (h_mem h2) ?r y =
          (if unat start \<le> unat y \<and> unat y < unat start + unat sz \<and> \<not> (0x41000000 \<le> unat y \<and> unat y < 0x42000000)
           then Some (self_desc y AttrNormal) else None)"
        by (auto simp: maps_def)
    qed
  qed
qed


lemma gic_region: "unat GIC_REGION_BASE = 0x08000000" "unat GIC_REGION_SIZE = 0x01000000"
  by (simp_all add: GIC_REGION_BASE_def GIC_REGION_SIZE_def BLOCK_SIZE_2MB_def)

lemma heap_region: "unat HEAP_START = 0x41000000" "unat HEAP_SIZE = 0x01000000"
  by (simp_all add: HEAP_START_def HEAP_SIZE_def)

definition traps_in_gic :: "u64 list \<Rightarrow> bool" where
  "traps_in_gic ps \<longleftrightarrow> (\<forall>p\<in>set ps. 0x08000000 \<le> unat p \<and> unat p < 0x09000000)"

lemma new_leaves:
  assumes "heap_ok U h" "mapper_new h = Some (d, h')"
  obtains U' T' where "mapper_ok U' T' d h'" "\<And>y. s2_desc (h_mem h') (dm_l0_table d) y = None" "leaves U {} h U' T' h'"
proof -
  obtain l0 l1 where n: "dm_l0_table d = l0" "l0 \<notin> U" "l1 \<notin> U" "mapper_ok (insert l1 (insert l0 U)) {l0, l1} d h'"
    "\<And>x. s2_desc (h_mem h') l0 x = None" "\<And>x. page_of x \<notin> {l0, l1} \<Longrightarrow> h_mem h' x = h_mem h x"
    by (rule mapper_new_spec [OF assms]) blast
  have "h_mem h' x = h_mem h x" if "page_of x \<in> U" for x by (rule n(6)) (use that n(2,3) in auto)
  hence "leaves U {} h (insert l1 (insert l0 U)) {l0, l1} h'" using n(2,3) by (auto simp: leaves_def)
  thus thesis using that n(1,4,5) by simp
qed

lemma init_memory_built:
  assumes hok: "heap_ok U h" and av: "avail (length (trap_pages gicd gicr n) + k + 6) h"
    and al: "2 ^ 21 dvd unat start" "2 ^ 21 dvd unat sz" and le: "unat start + unat sz \<le> 2 ^ 32"
    and tr: "traps_in_gic (trap_pages gicd gicr n)"
  shows "\<exists>d h' U' T'. init_memory_dynamic gicd gicr n start sz h = Some (d, h') \<and> mapper_ok U' T' d h' \<and>
    avail k h' \<and> leaves U {} h U' T' h' \<and>
    (\<forall>y. unat y < 2 ^ 48 \<longrightarrow> s2_desc (h_mem h') (dm_l0_table d) y =
       map_option (self_desc y) (guest_layout (trap_pages gicd gicr n) start sz y))"
proof -
  let ?ps = "trap_pages gicd gicr n"
  obtain d0 h0 where m0: "mapper_new h = Some (d0, h0)" "bud (length ?ps + k) d0 h0" by (rule mapper_new_ok [OF hok av])
  obtain U0 T0 where ok0: "mapper_ok U0 T0 d0 h0" and none: "\<And>y. s2_desc (h_mem h0) (dm_l0_table d0) y = None"
    and l0: "leaves U {} h U0 T0 h0" by (rule new_leaves [OF hok m0(1)]) blast
  obtain d1 h1 U1 T1 where m1: "map_guest_ram start sz d0 h0 = Some (d1, h1)" "mapper_ok U1 T1 d1 h1" "bud (length ?ps + k) d1 h1"
    "dm_l0_table d1 = dm_l0_table d0" "leaves U0 T0 h0 U1 T1 h1"
    "\<And>y. unat y < 2 ^ 48 \<Longrightarrow> s2_desc (h_mem h1) (dm_l0_table d0) y =
      (if unat start \<le> unat y \<and> unat y < unat start + unat sz \<and> \<not> (0x41000000 \<le> unat y \<and> unat y < 0x42000000)
       then Some (self_desc y AttrNormal) else None)"
    by (rule map_guest_ram_ok [OF ok0 m0(2) al le none]) blast
  have gal: "2 ^ 21 dvd unat GIC_REGION_BASE" "2 ^ 21 dvd unat GIC_REGION_SIZE" "unat GIC_REGION_BASE + unat GIC_REGION_SIZE \<le> 2 ^ 32"
    by (simp_all add: gic_region)
  obtain d2 h2 U2 T2 where m2: "map_or_panic d1 GIC_REGION_BASE GIC_REGION_SIZE AttrDevice h1 = Some (d2, h2)" "mapper_ok U2 T2 d2 h2"
    "bud (length ?ps + k) d2 h2" "dm_l0_table d2 = dm_l0_table d1" "leaves U1 T1 h1 U2 T2 h2" "maps (s2_desc (h_mem h1) (dm_l0_table d1))
      (s2_desc (h_mem h2) (dm_l0_table d1)) (unat GIC_REGION_BASE) (unat GIC_REGION_BASE + unat GIC_REGION_SIZE) AttrDevice"
    by (rule map_or_panic_ok [OF m1(2,3) gal])
  have t: "0x08000000 \<le> unat p \<and> unat p < 0x09000000" if "p \<in> set ?ps" for p using tr that by (simp add: traps_in_gic_def)
  have c: "unat p < 2 ^ 39 \<and> can_unmap d2 h2 p" if "p \<in> set ?ps" for p
  proof -
    have "unat p < 2 ^ 48" "unat p < 2 ^ 39" using t [OF that] by simp_all
    moreover have "s2_desc (h_mem h2) (dm_l0_table d1) p = Some (self_desc p AttrDevice)"
      using m2(6) t [OF that] \<open>unat p < 2 ^ 48\<close> by (simp add: maps_def gic_region)
    ultimately show ?thesis by (simp add: can_unmap_def m2(4))
  qed
  have "avail (length ?ps + k) h2" using m2(3) by (auto simp: bud_def intro: avail_mono)
  from unmap_all_ok [OF m2(2) _ this] c obtain h3 U3 T3 where m3: "unmap_all d2 ?ps h2 = Some h3" "mapper_ok U3 T3 d2 h3"
    "avail k h3" "leaves U2 T2 h2 U3 T3 h3" "\<And>y. s2_desc (h_mem h3) (dm_l0_table d2) y = (if \<exists>p\<in>set ?ps. same_page y p then None else s2_desc (h_mem h2) (dm_l0_table d2) y)"
    by blast
  have "init_memory_dynamic gicd gicr n start sz h = Some (d2, h3)"
    unfolding init_memory_dynamic_def by (simp add: m0(1) m1(1) m2(1) m3(1))
  moreover have "s2_desc (h_mem h3) (dm_l0_table d2) y = map_option (self_desc y) (guest_layout ?ps start sz y)"
    if "unat y < 2 ^ 48" for y
    using that m1(4) m1(6) [of y] m2(4,6) m3(5) [of y] by (auto simp: guest_layout_def maps_def gic_region heap_region)
  moreover have "leaves U {} h U3 T3 h3" using leaves_trans l0 m1(5) m2(5) m3(4) by meson
  ultimately show ?thesis using m3(2,3) by blast
qed

lemma page_range: "a * 4096 \<le> n div 4096 * 4096 \<and> n div 4096 * 4096 < b * 4096 \<longleftrightarrow> a * 4096 \<le> n \<and> n < b * (4096 :: nat)"
  by (simp add: less_eq_div_iff_mult_less_eq div_less_iff_less_mult)

lemma self_desc_props:
  "unat y < 2 ^ 48 \<Longrightarrow> pte_addr (self_desc y attr) = page_of y" "s2ap_of (self_desc y attr) = (if attr = AttrReadOnly then 1 else 3)"
  by (simp_all add: self_desc_def identity_pa block_page_attrs idx_less block_entry_s2ap)



lemma boot_avail: "n \<le> 4096 \<Longrightarrow> avail n boot_heap"
  by (simp add: avail_def boot_heap_def heap_init_def heap_init_at_def allocator_new_def heap_region HEAP_START_def HEAP_SIZE_def)

lemma boot_heap_ok: "heap_ok {} boot_heap"
  unfolding boot_heap_def by (rule heap_init_ok)

text \<open>The trapped pages of the QEMU board.\<close>

lemma qemu_traps: "n \<le> 8 \<Longrightarrow> traps_in_gic (trap_pages 0x08000000 0x080A0000 n)"
proof -
  assume n: "n \<le> 8"
  have d: "unat ((0x08000000 :: u64) + of_nat p * PAGE_SIZE_4KB) = 0x08000000 + p * 4096" if "p < 16" for p
  proof -
    have "unat ((of_nat p :: u64) * 4096) = p * 4096" using that by (subst unat_mult_exact) (simp_all add: unsigned_of_nat take_bit_nat_eq_self)
    thus ?thesis using that by (simp add: PAGE_SIZE_4KB_def unat_add_exact)
  qed
  have r: "unat (gicr_rd_base 0x080A0000 c + of_nat p * PAGE_SIZE_4KB) = 0x080A0000 + c * 0x20000 + p * 4096"
    if "c < 8" "p < 32" for c p
  proof -
    have "unat ((of_nat p :: u64) * 4096) = p * 4096" "unat ((of_nat c :: u64) * 0x20000) = c * 0x20000"
      using that by (subst unat_mult_exact; simp add: unsigned_of_nat take_bit_nat_eq_self)+
    thus ?thesis using that by (simp add: PAGE_SIZE_4KB_def gicr_rd_base_def unat_add_exact)
  qed
  show ?thesis using n d r by (auto simp: traps_in_gic_def trap_pages_def)
qed

lemma trap_page_gicr:
  "c < n \<Longrightarrow> k < 32 \<Longrightarrow> gicr_rd_base gicr c + of_nat k * PAGE_SIZE_4KB \<in> set (trap_pages gicd gicr n)"
  by (force simp: trap_pages_def)

lemma trap_pages_length: "length (trap_pages gicd gicr n) = 16 + 32 * n"
  by (simp add: trap_pages_def length_concat comp_def sum_list_triv)


end
