(* ===== verification/Spmc.thy ===== *)
theory Spmc
  imports Sp_Context Guest_Stage2
begin

text \<open>The hypervisor booted at S-EL2 as the Secure Partition Manager Core (\<open>src/spmc_handler.rs\<close>, \<open>src/secure_stage2.rs\<close>,
  \<open>src/manifest.rs\<close> and \<open>rust_main_sel2\<close> of \<open>src/main.rs\<close>): it boots one Secure Partition and then answers the requests the
  SPMD at EL3 forwards from the Normal World, forever.  Running a partition and the SPMD are arguments, as is the device-tree
  parser.  A partition leaves its run by one of the traps below; the S-EL2 arms of the exception handlers follow it.\<close>

section \<open>Secure Stage-2\<close>

record secure_stage2 =
  ss_vsttbr :: u64
  ss_vstcr :: u64

definition VSTCR_VALUE :: u64 where
  "VSTCR_VALUE = 16 OR push_bit 6 2 OR push_bit 8 1 OR push_bit 10 1 OR push_bit 12 3 OR push_bit 14 0 OR push_bit 16 5"

definition secure_stage2_new :: "u64 \<Rightarrow> secure_stage2" where
  "secure_stage2_new page_table_addr = \<lparr>ss_vsttbr = page_table_addr AND 0x0000FFFFFFFFFFFE, ss_vstcr = VSTCR_VALUE\<rparr>"

definition new_from_vsttbr :: "u64 \<Rightarrow> secure_stage2" where
  "new_from_vsttbr vsttbr = \<lparr>ss_vsttbr = vsttbr, ss_vstcr = VSTCR_VALUE\<rparr>"

definition SP_UART_BASE :: u64 where "SP_UART_BASE = 0x09000000"

text \<open>The first failing \<open>map_region\<close> is returned by \<open>?\<close>; the constructor panics when the heap is exhausted.\<close>

definition build_sp_stage2 :: "u64 \<Rightarrow> u64 \<Rightarrow> heap \<Rightarrow> ((string + dyn_mapper) \<times> heap) or_panic" where
  "build_sp_stage2 sp_base sp_size h = do {
     (d, h) \<leftarrow> mapper_new h;
     (case map_region d sp_base sp_size AttrNormal h of
        (Inl e, d, h) \<Rightarrow> Some (Inl e, h)
      | (Inr _, d, h) \<Rightarrow> (case map_region d SP_UART_BASE BLOCK_SIZE_2MB AttrDevice h of
            (Inl e, d, h) \<Rightarrow> Some (Inl e, h)
          | (Inr _, d, h) \<Rightarrow> Some (Inr d, h))) }"

section \<open>State\<close>

record nwd_rxtx =
  nw_tx_pa :: u64
  nw_rx_pa :: u64
  nw_page_count :: u32
  nw_mapped :: bool

definition nwd_rxtx_new :: nwd_rxtx where
  "nwd_rxtx_new = \<lparr>nw_tx_pa = 0, nw_rx_pa = 0, nw_page_count = 0, nw_mapped = False\<rparr>"

record spmc =
  sm_sps :: sp_store
  sm_rxtx :: nwd_rxtx
  sm_mem :: gmem
  sm_preempted :: bool
  sm_vsttbr :: u64
  sm_vstcr :: u64
  sm_timer_armed :: bool

definition secure_install :: "secure_stage2 \<Rightarrow> spmc \<Rightarrow> spmc" where
  "secure_install c s = s\<lparr>sm_vsttbr := ss_vsttbr c, sm_vstcr := ss_vstcr c\<rparr>"

definition put_sp :: "nat \<Rightarrow> sp_context \<Rightarrow> spmc \<Rightarrow> spmc" where
  "put_sp k sp s = s\<lparr>sm_sps := (sm_sps s)[k := Some sp]\<rparr>"

text \<open>The result literals of the source.\<close>

definition smc_result :: "u64 \<Rightarrow> u64 \<Rightarrow> smc8" where
  "smc_result a c = \<lparr>smc_x0 = a, smc_x1 = 0, smc_x2 = c, smc_x3 = 0, smc_x4 = 0, smc_x5 = 0, smc_x6 = 0, smc_x7 = 0\<rparr>"

definition make_error :: "u64 \<Rightarrow> smc8" where
  "make_error error_code = smc_result FFA_ERROR error_code"

text \<open>The error codes are \<open>i32\<close> constants widened with \<open>as u64\<close>, which extends the sign.\<close>

definition spmc_error :: "u32 \<Rightarrow> smc8" where
  "spmc_error e = make_error (scast e)"

section \<open>Running a partition\<close>

datatype sp_trap = SpSmc | SpWfi | SpIrq u32 | SpFault

text \<open>Given \<open>VSTTBR_EL2\<close>, the registers and the memory, a run of a partition ends in a trap with new registers and memory.\<close>

type_synonym sp_run = "u64 \<Rightarrow> vcpu_context \<Rightarrow> gmem \<Rightarrow> sp_trap \<times> vcpu_context \<times> gmem"

text \<open>The S-EL2 arms of \<open>handle_exception\<close> and \<open>handle_irq_exception\<close> that leave the partition: a call or a WFI steps over
  the instruction, an interrupt sets the preemption flag, any other exit leaves the registers as they are.\<close>

fun sp_exit :: "sp_trap \<Rightarrow> vcpu_context \<Rightarrow> (vcpu_context \<times> bool) or_panic" where
  "sp_exit SpSmc cx = map_option (\<lambda>cx. (cx, False)) (advance_pc cx)"
| "sp_exit SpWfi cx = map_option (\<lambda>cx. (cx, False)) (advance_pc cx)"
| "sp_exit (SpIrq intid) cx = Some (cx, True)"
| "sp_exit SpFault cx = Some (cx, False)"

text \<open>\<open>enter_guest\<close> with the handlers above.\<close>

definition enter_sp :: "sp_run \<Rightarrow> sp_context \<Rightarrow> spmc \<Rightarrow> (sp_context \<times> spmc) or_panic" where
  "enter_sp run sp s =
     (case run (sm_vsttbr s) (sp_ctx sp) (sm_mem s) of (trap, cx, mem) \<Rightarrow> do {
        (cx, irq) \<leftarrow> sp_exit trap cx;
        Some (sp\<lparr>sp_ctx := cx\<rparr>, s\<lparr>sm_mem := mem, sm_preempted := sm_preempted s \<or> irq\<rparr>) })"

text \<open>The part \<open>dispatch_to_sp\<close> and \<open>resume_preempted_sp\<close> share word for word.\<close>

definition run_sp :: "sp_run \<Rightarrow> nat \<Rightarrow> sp_context \<Rightarrow> spmc \<Rightarrow> (smc8 \<times> spmc) or_panic" where
  "run_sp run k sp s = do {
     sp \<leftarrow> transition_to SpRunning sp;
     let s = s\<lparr>sm_preempted := False, sm_timer_armed := True\<rparr>;
     (sp, s) \<leftarrow> enter_sp run sp (secure_install (new_from_vsttbr (sp_vsttbr sp)) s);
     let preempted = sm_preempted s;
     let s = s\<lparr>sm_timer_armed := False, sm_preempted := False\<rparr>;
     if preempted
     then do {
       sp \<leftarrow> transition_to SpPreempted sp;
       Some (smc_result FFA_INTERRUPT 0, put_sp k sp s) }
     else do {
       sp \<leftarrow> transition_to SpIdle sp;
       Some (get_args sp, put_sp k sp s) } }"

definition dispatch_to_sp :: "sp_run \<Rightarrow> smc8 \<Rightarrow> u16 \<Rightarrow> spmc \<Rightarrow> (smc8 \<times> spmc) or_panic" where
  "dispatch_to_sp run req i s =
     (case get_sp_mut i (sm_sps s) of
        None \<Rightarrow> Some (spmc_error FFA_INVALID_PARAMETERS, s)
      | Some k \<Rightarrow>
          let sp = the (sm_sps s ! k) in
          if sp_state sp \<noteq> SpIdle then Some (spmc_error FFA_BUSY, s) else run_sp run k (set_args req sp) s)"

definition resume_preempted_sp :: "sp_run \<Rightarrow> u16 \<Rightarrow> spmc \<Rightarrow> (smc8 \<times> spmc) or_panic" where
  "resume_preempted_sp run i s =
     (case get_sp_mut i (sm_sps s) of
        None \<Rightarrow> Some (spmc_error FFA_INVALID_PARAMETERS, s)
      | Some k \<Rightarrow>
          let sp = the (sm_sps s ! k) in
          if sp_state sp \<noteq> SpPreempted then Some (spmc_error FFA_DENIED, s) else run_sp run k sp s)"

section \<open>Requests the SPMC answers itself\<close>

definition spmc_features :: "u64 set" where
  "spmc_features = {FFA_VERSION, FFA_ID_GET, FFA_FEATURES, FFA_SPM_ID_GET, FFA_PARTITION_INFO_GET, FFA_MSG_SEND_DIRECT_REQ_32,
     FFA_MSG_SEND_DIRECT_REQ_64, FFA_RXTX_MAP, FFA_RX_RELEASE, FFA_RUN}"

definition spmc_rxtx_map :: "smc8 \<Rightarrow> spmc \<Rightarrow> smc8 \<times> spmc" where
  "spmc_rxtx_map req s =
     (let tx_pa = smc_x1 req; rx_pa = smc_x2 req; page_count = ucast (smc_x3 req) :: u32 in
      if tx_pa AND 0xFFF \<noteq> 0 \<or> rx_pa AND 0xFFF \<noteq> 0 \<or> page_count = 0 then (spmc_error FFA_INVALID_PARAMETERS, s)
      else if nw_mapped (sm_rxtx s) then (spmc_error FFA_DENIED, s)
      else (smc_result FFA_SUCCESS_32 0,
            s\<lparr>sm_rxtx := \<lparr>nw_tx_pa = tx_pa, nw_rx_pa = rx_pa, nw_page_count = page_count, nw_mapped = True\<rparr>\<rparr>))"

definition spmc_rxtx_unmap :: "spmc \<Rightarrow> smc8 \<times> spmc" where
  "spmc_rxtx_unmap s =
     (if \<not> nw_mapped (sm_rxtx s) then (spmc_error FFA_DENIED, s)
      else (smc_result FFA_SUCCESS_32 0, s\<lparr>sm_rxtx := \<lparr>nw_tx_pa = 0, nw_rx_pa = 0, nw_page_count = 0, nw_mapped = False\<rparr>\<rparr>))"

definition spmc_rx_release :: "spmc \<Rightarrow> smc8 \<times> spmc" where
  "spmc_rx_release s =
     (if \<not> nw_mapped (sm_rxtx s) then (spmc_error FFA_DENIED, s) else (smc_result FFA_SUCCESS_32 0, s))"

definition write_sp_info :: "u64 \<Rightarrow> sp_context \<Rightarrow> gmem \<Rightarrow> gmem" where
  "write_sp_info p sp m =
     put_bytes (wr32 (wr16 (wr16 m p (sp_id sp)) (p + 2) 1) (p + 4) 1) (p + 8) (concat (map (to_le 4) (sp_uuid sp)))"

definition spmc_partition_info_get :: "spmc \<Rightarrow> smc8 \<times> spmc" where
  "spmc_partition_info_get s =
     (let mapped = nw_mapped (sm_rxtx s); rx_pa = nw_rx_pa (sm_rxtx s);
          max_bytes = (if mapped then unat (nw_page_count (sm_rxtx s)) * 4096 else 0);
          (count, mem) = for_each_sp (\<lambda>sp (count, m).
            let offset = count * 24 in
            (count + 1, if mapped \<and> offset + 24 \<le> max_bytes then write_sp_info (rx_pa + of_nat offset) sp m else m))
            (sm_sps s) (0, sm_mem s) in
      (smc_result FFA_SUCCESS_32 (of_nat count), s\<lparr>sm_mem := mem\<rparr>))"

text \<open>The echo of a direct message: source and destination are swapped.\<close>

definition swap_ids :: "u64 \<Rightarrow> u64" where
  "swap_ids x = (let source = drop_bit 16 x AND 0xFFFF; dest = x AND 0xFFFF in push_bit 16 dest OR source)"

definition echo :: "u64 \<Rightarrow> smc8 \<Rightarrow> smc8" where
  "echo resp req = req\<lparr>smc_x0 := resp, smc_x1 := swap_ids (smc_x1 req), smc_x2 := 0\<rparr>"

definition handle_direct_req_32 :: "smc8 \<Rightarrow> smc8" where
  "handle_direct_req_32 req =
     (if smc_x2 req AND FFA_FWK_MSG_BIT \<noteq> 0
      then (if smc_x2 req AND NOT FFA_FWK_MSG_BIT = SPMD_FWK_MSG_FFA_VERSION_REQ
            then (smc_result FFA_MSG_SEND_DIRECT_RESP_32 (FFA_FWK_MSG_BIT OR SPMD_FWK_MSG_FFA_VERSION_RESP))
              \<lparr>smc_x1 := swap_ids (smc_x1 req), smc_x3 := ucast FFA_VERSION_1_1\<rparr>
            else spmc_error FFA_NOT_SUPPORTED)
      else echo FFA_MSG_SEND_DIRECT_RESP_32 req)"

definition dispatch_ffa :: "smc8 \<Rightarrow> spmc \<Rightarrow> smc8 \<times> spmc" where
  "dispatch_ffa req s =
     (let f = smc_x0 req in
      if f = FFA_VERSION then (smc_result (ucast FFA_VERSION_1_1) 0, s)
      else if f = FFA_ID_GET then (smc_result FFA_SUCCESS_32 (ucast FFA_SPMC_ID), s)
      else if f = FFA_SPM_ID_GET then (smc_result FFA_SUCCESS_32 (ucast FFA_SPMC_ID), s)
      else if f = FFA_FEATURES then
        (if smc_x1 req \<in> spmc_features then smc_result FFA_SUCCESS_32 0 else spmc_error FFA_NOT_SUPPORTED, s)
      else if f = FFA_RUN then
        (case get_sp_mut (ucast (drop_bit 16 (smc_x1 req) AND 0xFFFF)) (sm_sps s) of
           None \<Rightarrow> (spmc_error FFA_INVALID_PARAMETERS, s)
         | Some k \<Rightarrow> (if sp_state (the (sm_sps s ! k)) \<noteq> SpPreempted then spmc_error FFA_DENIED else spmc_error FFA_NOT_SUPPORTED, s))
      else if f = FFA_RXTX_MAP then spmc_rxtx_map req s
      else if f = FFA_RXTX_UNMAP then spmc_rxtx_unmap s
      else if f = FFA_RX_RELEASE then spmc_rx_release s
      else if f = FFA_PARTITION_INFO_GET then spmc_partition_info_get s
      else if f = FFA_MSG_SEND_DIRECT_REQ_32 then (handle_direct_req_32 req, s)
      else if f = FFA_MSG_SEND_DIRECT_REQ_64 then (echo FFA_MSG_SEND_DIRECT_RESP_64 req, s)
      else (spmc_error FFA_NOT_SUPPORTED, s))"

section \<open>The event loop\<close>

definition dispatch_request :: "sp_run \<Rightarrow> smc8 \<Rightarrow> spmc \<Rightarrow> (smc8 \<times> spmc) or_panic" where
  "dispatch_request run req s =
     (let dest = ucast (smc_x1 req AND 0xFFFF) in
      if (smc_x0 req = FFA_MSG_SEND_DIRECT_REQ_32 \<or> smc_x0 req = FFA_MSG_SEND_DIRECT_REQ_64) \<and> is_registered_sp dest (sm_sps s)
      then dispatch_to_sp run req dest s
      else if smc_x0 req = FFA_RUN then resume_preempted_sp run (ucast (drop_bit 16 (smc_x1 req) AND 0xFFFF)) s
      else Some (dispatch_ffa req s))"

text \<open>The SPMD and the Normal World behind it: given the answer to the last request and the memory, the next request and
  what memory has become, with a state of their own.\<close>

type_synonym 'e spmd = "smc8 \<Rightarrow> 'e \<Rightarrow> gmem \<Rightarrow> smc8 \<times> 'e \<times> gmem"

text \<open>The loop never ends; the model is its first \<open>n\<close> rounds.\<close>

primrec run_event_loop :: "sp_run \<Rightarrow> 'e spmd \<Rightarrow> nat \<Rightarrow> smc8 \<times> 'e \<times> spmc \<Rightarrow> (smc8 \<times> 'e \<times> spmc) or_panic" where
  "run_event_loop run smc 0 st = Some st"
| "run_event_loop run smc (Suc n) st =
     (case st of (req, e, s) \<Rightarrow> do {
        (resp, s) \<leftarrow> dispatch_request run req s;
        let (req, e, mem) = smc resp e (sm_mem s);
        run_event_loop run smc n (req, e, s\<lparr>sm_mem := mem\<rparr>) })"

section \<open>Boot\<close>

record manifest =
  mf_spmc_id :: u16
  mf_maj_ver :: u16
  mf_min_ver :: u16

text \<open>The parser gives, for a tree it accepts, the numeric value of a property of a node.\<close>

definition manifest_init :: "(u64 \<Rightarrow> (string \<Rightarrow> string \<Rightarrow> u64 option) option) \<Rightarrow> u64 \<Rightarrow> manifest" where
  "manifest_init fdt manifest_addr =
     (let defaults = \<lparr>mf_spmc_id = 0x8000, mf_maj_ver = 1, mf_min_ver = 1\<rparr> in
      if manifest_addr = 0 then defaults
      else (case fdt manifest_addr of
          None \<Rightarrow> defaults
        | Some prop \<Rightarrow>
            let num = (\<lambda>name d. ucast (case prop ''/attribute'' name of Some v \<Rightarrow> v | None \<Rightarrow> d)) in
            \<lparr>mf_spmc_id = num ''spmc_id'' 0x8000, mf_maj_ver = num ''maj_ver'' 1, mf_min_ver = num ''min_ver'' 1\<rparr>))"

definition SP1_LOAD_ADDR :: u64 where "SP1_LOAD_ADDR = 0x0e300000"
definition SP1_MEM_SIZE :: u64 where "SP1_MEM_SIZE = 0x100000"
definition SP1_PARTITION_ID :: u16 where "SP1_PARTITION_ID = 0x8001"
definition SECURE_HEAP_START :: u64 where "SECURE_HEAP_START = 0x0e500000"
definition SECURE_HEAP_SIZE :: u64 where "SECURE_HEAP_SIZE = 0x0f000000 - SECURE_HEAP_START"

definition sp1_context :: "gmem \<Rightarrow> u64 \<Rightarrow> sp_context" where
  "sp1_context mem vsttbr =
     (sp_new SP1_PARTITION_ID (SP1_LOAD_ADDR + ucast (rd32 mem (SP1_LOAD_ADDR + 16))) (SP1_LOAD_ADDR + SP1_MEM_SIZE)
        (replicate 4 0x12345678))\<lparr>sp_vsttbr := vsttbr\<rparr>"

text \<open>From the secure heap to the first request; \<open>s\<close> is the state of the statics at reset.\<close>

definition rust_main_sel2 :: "sp_run \<Rightarrow> 'e spmd \<Rightarrow> 'e \<Rightarrow> spmc \<Rightarrow> heap \<Rightarrow> (heap \<times> smc8 \<times> 'e \<times> spmc) or_panic" where
  "rust_main_sel2 run smc e s h = do {
     (r, h) \<leftarrow> build_sp_stage2 SP1_LOAD_ADDR SP1_MEM_SIZE (heap_init_at SECURE_HEAP_START SECURE_HEAP_SIZE h);
     mapper \<leftarrow> (case r of Inr d \<Rightarrow> Some d | Inl _ \<Rightarrow> None);
     let s2_config = secure_stage2_new (dm_l0_table mapper);
     let s = secure_install s2_config s;
     (sp1, s) \<leftarrow> enter_sp run (sp1_context (sm_mem s) (ss_vsttbr s2_config)) s;
     sp1 \<leftarrow> (if smc_x0 (get_args sp1) = FFA_MSG_WAIT then transition_to SpIdle sp1 else Some sp1);
     sps \<leftarrow> register_sp sp1 (sm_sps s);
     let s = s\<lparr>sm_sps := sps\<rparr>;
     let (req, e, mem) = smc (smc_result FFA_MSG_WAIT 0) e (sm_mem s);
     Some (h, req, e, s\<lparr>sm_mem := mem\<rparr>) }"

section \<open>One run of a partition\<close>

text \<open>What is asked of a run: an instruction that traps is not in the last word of the address space.\<close>

definition run_pc_ok :: "sp_run \<Rightarrow> bool" where
  "run_pc_ok run \<longleftrightarrow> (\<forall>v cx m trap cx' m'. run v cx m = (trap, cx', m') \<longrightarrow> trap = SpSmc \<or> trap = SpWfi \<longrightarrow> unat (cx_pc cx') + 4 < 2 ^ 64)"

lemma sp_exit_ok:
  assumes "run_pc_ok run" "run v cx m = (trap, cx', m')"
  obtains cx'' where "sp_exit trap cx' = Some (cx'', \<exists>i. trap = SpIrq i)" "cx_gp cx'' = cx_gp cx'"
proof -
  have "trap = SpSmc \<or> trap = SpWfi \<Longrightarrow> advance_pc cx' = Some (cx'\<lparr>cx_pc := cx_pc cx' + AARCH64_INSN_SIZE\<rparr>)"
  proof -
    assume "trap = SpSmc \<or> trap = SpWfi"
    hence "unat (cx_pc cx') + 4 < 2 ^ 64" using assms unfolding run_pc_ok_def by blast
    thus ?thesis by (simp add: advance_pc_def)
  qed
  thus thesis by (cases trap) (simp_all add: that)
qed

lemma run_sp_eq:
  assumes "sp_state sp = SpIdle \<or> sp_state sp = SpPreempted"
  shows "run_sp run k sp s =
    (case run (sp_vsttbr sp) (sp_ctx sp) (sm_mem s) of (trap, cx, mem) \<Rightarrow> do {
       (cx, irq) \<leftarrow> sp_exit trap cx;
       let sp' = sp\<lparr>sp_ctx := cx, sp_state := (if irq then SpPreempted else SpIdle)\<rparr>;
       Some (if irq then smc_result FFA_INTERRUPT 0 else get_args sp',
         put_sp k sp' (s\<lparr>sm_mem := mem, sm_preempted := False, sm_timer_armed := False, sm_vsttbr := sp_vsttbr sp, sm_vstcr := VSTCR_VALUE\<rparr>)) })"
proof -
  obtain trap cx mem where r: "run (sp_vsttbr sp) (sp_ctx sp) (sm_mem s) = (trap, cx, mem)" by (rule prod_cases3)
  have "transition_to SpRunning sp = Some (sp\<lparr>sp_state := SpRunning\<rparr>)" using assms by (auto simp: transition_to_def)
  thus ?thesis using r
    by (auto simp: run_sp_def enter_sp_def Let_def secure_install_def new_from_vsttbr_def put_sp_def transition_to_def get_args_def
        split: option.splits prod.splits bind_splits)
qed

lemma run_sp_ok:
  assumes "run_pc_ok run" "sp_state sp = SpIdle \<or> sp_state sp = SpPreempted"
  obtains resp sp' s1 where "run_sp run k sp s = Some (resp, put_sp k sp' s1)" "sp_state sp' = SpIdle \<or> sp_state sp' = SpPreempted"
    "sp_id sp' = sp_id sp" "sp_uuid sp' = sp_uuid sp" "sm_sps s1 = sm_sps s" "sm_rxtx s1 = sm_rxtx s" "\<not> sm_timer_armed s1"
proof -
  obtain trap cx mem where r: "run (sp_vsttbr sp) (sp_ctx sp) (sm_mem s) = (trap, cx, mem)" by (rule prod_cases3)
  obtain cx' where x: "sp_exit trap cx = Some (cx', \<exists>i. trap = SpIrq i)" by (rule sp_exit_ok [OF assms(1) r])
  let ?sp = "sp\<lparr>sp_ctx := cx', sp_state := (if \<exists>i. trap = SpIrq i then SpPreempted else SpIdle)\<rparr>"
  let ?s = "s\<lparr>sm_mem := mem, sm_preempted := False, sm_timer_armed := False, sm_vsttbr := sp_vsttbr sp, sm_vstcr := VSTCR_VALUE\<rparr>"
  show thesis by (rule that [of _ ?sp ?s]) (use r x run_sp_eq [OF assms(2), of run k s] in \<open>simp_all add: Let_def\<close>)
qed

section \<open>The event loop never panics\<close>

definition spmc_inv :: "spmc \<Rightarrow> bool" where
  "spmc_inv s \<longleftrightarrow> length (sm_sps s) = MAX_SPS \<and> (\<forall>sp\<in>set (sps_of (sm_sps s)). sp_state sp \<noteq> SpRunning \<and> length (sp_uuid sp) = 4) \<and>
     (nw_mapped (sm_rxtx s) \<longrightarrow> nw_page_count (sm_rxtx s) \<noteq> 0) \<and> \<not> sm_timer_armed s"

lemma spmc_inv_mem [simp]: "spmc_inv (s\<lparr>sm_mem := m\<rparr>) = spmc_inv s"
  by (simp add: spmc_inv_def)

lemma get_sp_inv:
  assumes "spmc_inv s" "get_sp_mut i (sm_sps s) = Some k"
  obtains sp where "k < MAX_SPS" "sm_sps s ! k = Some sp" "sp_id sp = i" "sp_state sp \<noteq> SpRunning" "length (sp_uuid sp) = 4"
proof -
  note g = get_sp_mut_SomeD [OF assms(2)]
  then obtain sp where sp: "sm_sps s ! k = Some sp" "sp_id sp = i" by blast
  hence "sp \<in> set (sps_of (sm_sps s))" using nth_mem [OF g(1)] by (simp add: sps_of_set)
  thus thesis using that [of sp] sp g(1) assms(1) by (simp add: spmc_inv_def)
qed

lemma run_sp_inv:
  assumes "run_pc_ok run" "spmc_inv s" "sp_state sp = SpIdle \<or> sp_state sp = SpPreempted" "length (sp_uuid sp) = 4"
  shows "\<exists>resp s'. run_sp run k sp s = Some (resp, s') \<and> spmc_inv s'"
proof -
  obtain resp sp' s1 where r: "run_sp run k sp s = Some (resp, put_sp k sp' s1)" "sp_state sp' = SpIdle \<or> sp_state sp' = SpPreempted"
    "sp_id sp' = sp_id sp" "sp_uuid sp' = sp_uuid sp" "sm_sps s1 = sm_sps s" "sm_rxtx s1 = sm_rxtx s" "\<not> sm_timer_armed s1"
    by (rule run_sp_ok [OF assms(1,3)])
  hence "spmc_inv (put_sp k sp' s1)" using assms(2,4)
    by (auto simp: spmc_inv_def put_sp_def sps_of_set dest!: set_update_subset)
  thus ?thesis using r(1) by blast
qed

lemma dispatch_ffa_inv: "spmc_inv s \<Longrightarrow> spmc_inv (snd (dispatch_ffa req s)) \<and> sm_sps (snd (dispatch_ffa req s)) = sm_sps s"
  by (simp add: dispatch_ffa_def Let_def spmc_rxtx_map_def spmc_rxtx_unmap_def spmc_rx_release_def
      spmc_partition_info_get_def split: option.split prod.split) (simp add: spmc_inv_def)

lemma dispatch_request_inv:
  assumes "run_pc_ok run" "spmc_inv s"
  shows "\<exists>resp s'. dispatch_request run req s = Some (resp, s') \<and> spmc_inv s'"
proof -
  have to_sp: "\<exists>resp s'. dispatch_to_sp run r i s = Some (resp, s') \<and> spmc_inv s'" for r i
  proof (cases "get_sp_mut i (sm_sps s)")
    case (Some k)
    then obtain sp where "sm_sps s ! k = Some sp" "length (sp_uuid sp) = 4" by (rule get_sp_inv [OF assms(2)])
    thus ?thesis using run_sp_inv [OF assms, of "set_args r sp" k] assms(2) Some by (auto simp: dispatch_to_sp_def)
  qed (simp add: dispatch_to_sp_def assms)
  have resume: "\<exists>resp s'. resume_preempted_sp run i s = Some (resp, s') \<and> spmc_inv s'" for i
  proof (cases "get_sp_mut i (sm_sps s)")
    case (Some k)
    then obtain sp where "sm_sps s ! k = Some sp" "length (sp_uuid sp) = 4" by (rule get_sp_inv [OF assms(2)])
    thus ?thesis using run_sp_inv [OF assms, of sp k] assms(2) Some by (auto simp: resume_preempted_sp_def)
  qed (simp add: resume_preempted_sp_def assms)
  have "\<exists>resp s'. Some (dispatch_ffa req s) = Some (resp, s') \<and> spmc_inv s'"
    using dispatch_ffa_inv [OF assms(2), of req] by (cases "dispatch_ffa req s") simp
  thus ?thesis using to_sp resume by (simp add: dispatch_request_def Let_def)
qed

lemma event_loop_inv:
  assumes "run_pc_ok run" "spmc_inv s"
  shows "\<exists>req' e' s'. run_event_loop run smc n (req, e, s) = Some (req', e', s') \<and> spmc_inv s'"
  using assms(2)
proof (induction n arbitrary: req e s)
  case (Suc n)
  obtain resp s1 where d: "dispatch_request run req s = Some (resp, s1)" "spmc_inv s1"
    using dispatch_request_inv [OF assms(1) Suc.prems] by blast
  obtain req1 e1 mem where "smc resp e (sm_mem s1) = (req1, e1, mem)" by (rule prod_cases3)
  thus ?case using d Suc.IH [of "s1\<lparr>sm_mem := mem\<rparr>" req1 e1] by simp
qed simp


section \<open>Preemption\<close>

text \<open>A partition whose run goes on when an interrupt ends it, \<open>n\<close> times at most.\<close>

primrec fused :: "sp_run \<Rightarrow> nat \<Rightarrow> sp_run" where
  "fused run 0 v cx m = run v cx m"
| "fused run (Suc n) v cx m = (case run v cx m of (SpIrq i, cx', m') \<Rightarrow> fused run n v cx' m' | r \<Rightarrow> r)"

text \<open>The Normal World's side of it: \<open>FFA_RUN\<close> as long as the answer is \<open>FFA_INTERRUPT\<close>.\<close>

primrec resume_until_done :: "sp_run \<Rightarrow> u16 \<Rightarrow> nat \<Rightarrow> smc8 \<times> spmc \<Rightarrow> (smc8 \<times> spmc) or_panic" where
  "resume_until_done run i 0 rs = Some rs"
| "resume_until_done run i (Suc n) rs =
     (if smc_x0 (fst rs) = FFA_INTERRUPT then Option.bind (resume_preempted_sp run i (snd rs)) (resume_until_done run i n) else Some rs)"

text \<open>A partition does not itself answer with \<open>FFA_INTERRUPT\<close>.\<close>

definition no_fake_interrupt :: "sp_run \<Rightarrow> bool" where
  "no_fake_interrupt run \<longleftrightarrow> (\<forall>v cx m trap cx' m'. run v cx m = (trap, cx', m') \<longrightarrow> (\<forall>i. trap \<noteq> SpIrq i) \<longrightarrow> cx_gp cx' 0 \<noteq> FFA_INTERRUPT)"

lemma get_sp_put:
  assumes "get_sp_mut i st = Some k" "sp_id sp = i"
  shows "get_sp_mut i (st[k := Some sp]) = Some k" "st[k := Some sp] ! k = Some sp"
proof -
  have "k < length st" "\<forall>j<k. \<not> (case st ! j of Some sp \<Rightarrow> sp_id sp = i | None \<Rightarrow> False)"
    using assms(1) unfolding get_sp_mut_def first_idx_Some by blast+
  thus "get_sp_mut i (st[k := Some sp]) = Some k" "st[k := Some sp] ! k = Some sp"
    using assms(2) unfolding get_sp_mut_def first_idx_Some by simp_all
qed

lemma get_args_x0: "smc_x0 (get_args sp) = cx_gp (sp_ctx sp) 0"
  by (simp add: get_args_def Let_def)

lemma put_sp_twice: "put_sp k a ((put_sp k b s)\<lparr>sm_mem := m, sm_preempted := p, sm_timer_armed := t, sm_vsttbr := v, sm_vstcr := c\<rparr>) =
    put_sp k a (s\<lparr>sm_mem := m, sm_preempted := p, sm_timer_armed := t, sm_vsttbr := v, sm_vstcr := c\<rparr>)"
  by (simp add: put_sp_def)

lemma run_sp_fused:
  assumes pc: "run_pc_ok run" and nf: "no_fake_interrupt run"
  shows "sp_state sp = SpIdle \<or> sp_state sp = SpPreempted \<Longrightarrow> sp_id sp = i \<Longrightarrow> get_sp_mut i (sm_sps s) = Some k \<Longrightarrow>
    Option.bind (run_sp run k sp s) (resume_until_done run i n) = run_sp (fused run n) k sp s"
proof (induction n arbitrary: sp s)
  case 0
  have "fused run 0 = run" by (intro ext) simp
  thus ?case by simp
next
  case (Suc n)
  obtain trap cx mem where r: "run (sp_vsttbr sp) (sp_ctx sp) (sm_mem s) = (trap, cx, mem)" by (rule prod_cases3)
  obtain cx' where x: "sp_exit trap cx = Some (cx', \<exists>i. trap = SpIrq i)" "cx_gp cx' = cx_gp cx" by (rule sp_exit_ok [OF pc r])
  note eq = run_sp_eq [OF Suc.prems(1)]
  show ?case
  proof (cases "\<exists>j. trap = SpIrq j")
    case True
    let ?sp = "sp\<lparr>sp_ctx := cx, sp_state := SpPreempted\<rparr>"
    let ?s = "put_sp k ?sp (s\<lparr>sm_mem := mem, sm_preempted := False, sm_timer_armed := False, sm_vsttbr := sp_vsttbr sp, sm_vstcr := VSTCR_VALUE\<rparr>)"
    from True have run: "run_sp run k sp s = Some (smc_result FFA_INTERRUPT 0, ?s)"
      using r x(1) eq [of run k s] by auto
    have g: "get_sp_mut i (sm_sps ?s) = Some k" "sm_sps ?s ! k = Some ?sp"
      using get_sp_put [OF Suc.prems(3), of ?sp] Suc.prems(2) by (simp_all add: put_sp_def)
    hence res: "resume_preempted_sp run i ?s = run_sp run k ?sp ?s" by (simp add: resume_preempted_sp_def Let_def)
    have "Option.bind (run_sp run k sp s) (resume_until_done run i (Suc n)) = Option.bind (run_sp run k ?sp ?s) (resume_until_done run i n)"
      by (simp add: run res smc_result_def)
    also have "\<dots> = run_sp (fused run n) k ?sp ?s" using Suc.IH [of ?sp ?s] Suc.prems(2) g(1) by simp
    also have "\<dots> = run_sp (fused run (Suc n)) k sp s"
      using True r run_sp_eq [of ?sp "fused run n" k ?s] eq [of "fused run (Suc n)" k s]
      by (auto simp: put_sp_twice put_sp_def Let_def split: prod.splits)
    finally show ?thesis .
  next
    case False
    hence f: "fused run (Suc n) (sp_vsttbr sp) (sp_ctx sp) (sm_mem s) = (trap, cx, mem)"
      using r by (cases trap) simp_all
    have "cx_gp cx 0 \<noteq> FFA_INTERRUPT" using nf r False unfolding no_fake_interrupt_def by blast
    thus ?thesis using False r f x eq [of run k s] eq [of "fused run (Suc n)" k s]
      by (simp add: Let_def get_args_x0 del: fused.simps(2))
  qed
qed

text \<open>C4: preemption is transparent to the Normal World.  Sending a direct request and answering every \<open>FFA_INTERRUPT\<close>
  with \<open>FFA_RUN\<close>, up to \<open>n\<close> times, gives the response and leaves the state that the same request gives when the partition
  runs on through the first \<open>n\<close> interrupts, whatever the partition does and wherever it is interrupted.\<close>

theorem preemption_transparent:
  assumes "run_pc_ok run" "no_fake_interrupt run"
  shows "Option.bind (dispatch_to_sp run req i s) (resume_until_done run i n) = dispatch_to_sp (fused run n) req i s"
proof -
  have err: "resume_until_done run i n (spmc_error e, s) = Some (spmc_error e, s)" for e
    by (cases n) (simp_all add: spmc_error_def make_error_def smc_result_def FFA_ERROR_def FFA_INTERRUPT_def)
  show ?thesis
  proof (cases "get_sp_mut i (sm_sps s)")
    case (Some k)
    then obtain sp where "sm_sps s ! k = Some sp" "sp_id sp = i" using get_sp_mut_SomeD(2) by blast
    thus ?thesis using run_sp_fused [OF assms, of "set_args req sp" i s k n] Some err by (simp add: dispatch_to_sp_def)
  qed (simp add: dispatch_to_sp_def err)
qed


text \<open>A partition that is interrupted once in every request and then answers with the request's \<open>x3\<close> plus one.\<close>

definition demo_run :: sp_run where
  "demo_run v cx m =
     (if cx_gp cx 9 = 0 then (SpIrq 30, cx\<lparr>cx_gp := (cx_gp cx)(9 := 1)\<rparr>, m)
      else (SpSmc, cx\<lparr>cx_pc := 0x0e304000, cx_gp := (cx_gp cx)(0 := FFA_MSG_SEND_DIRECT_RESP_32, 3 := cx_gp cx 3 + 1, 9 := 0)\<rparr>, m))"

definition demo_spmc :: spmc where
  "demo_spmc = \<lparr>sm_sps = [Some ((sp_new 0x8001 0x0e304000 0x0e400000 [1, 2, 3, 4])\<lparr>sp_state := SpIdle\<rparr>), None, None, None],
     sm_rxtx = nwd_rxtx_new, sm_mem = (\<lambda>_. 0), sm_preempted = False, sm_vsttbr = 0, sm_vstcr = 0, sm_timer_armed = False\<rparr>"

definition demo_req :: smc8 where
  "demo_req = (smc_result FFA_MSG_SEND_DIRECT_REQ_32 0)\<lparr>smc_x1 := 0x8001, smc_x3 := 41\<rparr>"

lemma demo_run_ok: "run_pc_ok demo_run" "no_fake_interrupt demo_run"
  by (auto simp: run_pc_ok_def no_fake_interrupt_def demo_run_def FFA_MSG_SEND_DIRECT_RESP_32_def FFA_INTERRUPT_def split: if_splits)

theorem preemption_transparent_witness:
  "\<exists>resp s'. Option.bind (dispatch_to_sp demo_run demo_req 0x8001 demo_spmc) (resume_until_done demo_run 0x8001 1) = Some (resp, s') \<and>
     smc_x0 resp = FFA_MSG_SEND_DIRECT_RESP_32 \<and> smc_x3 resp = 42"
proof -
  have "get_sp_mut 0x8001 (sm_sps demo_spmc) = Some 0" by (simp add: get_sp_mut_def demo_spmc_def sp_new_def)
  moreover have "\<exists>resp s'. dispatch_to_sp (fused demo_run 1) demo_req 0x8001 demo_spmc = Some (resp, s') \<and>
     smc_x0 resp = FFA_MSG_SEND_DIRECT_RESP_32 \<and> smc_x3 resp = 42"
    using calculation
    by (simp add: dispatch_to_sp_def demo_spmc_def sp_new_def run_sp_eq demo_run_def demo_req_def set_args_def smc_result_def
        context_default_def advance_pc_def get_args_def Let_def)
  ultimately show ?thesis unfolding preemption_transparent [OF demo_run_ok] by blast
qed

section \<open>The translation of a Secure Partition\<close>

lemma secure_heap:
  shows "heap_ok {} (heap_init_at SECURE_HEAP_START SECURE_HEAP_SIZE h)" "avail 6 (heap_init_at SECURE_HEAP_START SECURE_HEAP_SIZE h)"
proof -
  have "alloc_ok {} [] m (allocator_new SECURE_HEAP_START SECURE_HEAP_SIZE)" for m
    by (simp add: alloc_ok_def allocator_new_def SECURE_HEAP_START_def SECURE_HEAP_SIZE_def pages_ok_def)
  thus "heap_ok {} (heap_init_at SECURE_HEAP_START SECURE_HEAP_SIZE h)" by (auto simp: heap_ok_def heap_init_at_def)
  show "avail 6 (heap_init_at SECURE_HEAP_START SECURE_HEAP_SIZE h)"
    by (simp add: avail_def heap_init_at_def allocator_new_def SECURE_HEAP_START_def SECURE_HEAP_SIZE_def)
qed

text \<open>The partition's megabyte is mapped by the 2MB block around it.\<close>

lemma map_sp_region: "map_region d SP1_LOAD_ADDR SP1_MEM_SIZE attr h = map_region d 0x0e200000 0x200000 attr h"
proof -
  have "map_block d 0x0e300000 attr h = map_block d 0x0e200000 attr h"
  proof -
    have "l1_idx 0x0e300000 = l1_idx 0x0e200000" "l2_idx 0x0e300000 = l2_idx 0x0e200000"
      "make_block_entry 0x0e300000 attr = make_block_entry 0x0e200000 attr"
      by (simp_all add: idx_defs PT_INDEX_MASK_def make_block_entry_def BLOCK_MASK_2MB_def BLOCK_SIZE_2MB_def)
    thus ?thesis by (simp only: map_block_def)
  qed
  moreover have "num_blocks 0x100000 = Suc 0" "num_blocks 0x200000 = Suc 0" by (simp_all add: num_blocks_def BLOCK_SIZE_2MB_def)
  ultimately show ?thesis by (simp add: map_region_def SP1_LOAD_ADDR_def SP1_MEM_SIZE_def split: prod.split sum.split)
qed

lemma map_or_panic_region: "map_or_panic d a n attr h = Some (d', h') \<Longrightarrow> map_region d a n attr h = (Inr (), d', h')"
  by (auto simp: map_or_panic_def split: prod.splits sum.splits)

lemma build_sp_stage2_built:
  obtains d h' where "build_sp_stage2 SP1_LOAD_ADDR SP1_MEM_SIZE (heap_init_at SECURE_HEAP_START SECURE_HEAP_SIZE h) = Some (Inr d, h')"
    "\<And>y. unat y < 2 ^ 48 \<Longrightarrow> s2_desc (h_mem h') (dm_l0_table d) y =
      (if 0x09000000 \<le> unat y \<and> unat y < 0x09200000 then Some (self_desc y AttrDevice)
       else if 0x0e200000 \<le> unat y \<and> unat y < 0x0e400000 then Some (self_desc y AttrNormal) else None)"
proof -
  obtain d0 h0 where m0: "mapper_new (heap_init_at SECURE_HEAP_START SECURE_HEAP_SIZE h) = Some (d0, h0)" "bud 0 d0 h0"
    using mapper_new_ok [of _ _ 0] secure_heap by (metis add_0)
  obtain U0 T0 where ok0: "mapper_ok U0 T0 d0 h0" and none: "\<And>y. s2_desc (h_mem h0) (dm_l0_table d0) y = None"
    by (rule mapper_new_spec [OF secure_heap(1) m0(1)]) metis
  obtain d1 h1 U1 T1 where m1: "map_or_panic d0 0x0e200000 0x200000 AttrNormal h0 = Some (d1, h1)" "mapper_ok U1 T1 d1 h1" "bud 0 d1 h1"
    "dm_l0_table d1 = dm_l0_table d0" "leaves U0 T0 h0 U1 T1 h1"
    "maps (s2_desc (h_mem h0) (dm_l0_table d0)) (s2_desc (h_mem h1) (dm_l0_table d0)) (unat (0x0e200000 :: u64))
      (unat (0x0e200000 :: u64) + unat (0x200000 :: u64)) AttrNormal"
    by (rule map_or_panic_ok [OF ok0 m0(2), of "0x0e200000" "0x200000"]) simp_all
  obtain d2 h2 U2 T2 where m2: "map_or_panic d1 SP_UART_BASE BLOCK_SIZE_2MB AttrDevice h1 = Some (d2, h2)"
    "dm_l0_table d2 = dm_l0_table d1" "leaves U1 T1 h1 U2 T2 h2"
    "maps (s2_desc (h_mem h1) (dm_l0_table d1)) (s2_desc (h_mem h2) (dm_l0_table d1)) (unat SP_UART_BASE)
      (unat SP_UART_BASE + unat BLOCK_SIZE_2MB) AttrDevice"
    by (rule map_or_panic_ok [OF m1(2,3), of SP_UART_BASE BLOCK_SIZE_2MB])
      (simp_all add: SP_UART_BASE_def BLOCK_SIZE_2MB_def)
  have "build_sp_stage2 SP1_LOAD_ADDR SP1_MEM_SIZE (heap_init_at SECURE_HEAP_START SECURE_HEAP_SIZE h) = Some (Inr d2, h2)"
    using m0(1) map_or_panic_region [OF m1(1)] map_or_panic_region [OF m2(1)] by (simp add: build_sp_stage2_def map_sp_region)
  moreover have "s2_desc (h_mem h2) (dm_l0_table d2) y =
      (if 0x09000000 \<le> unat y \<and> unat y < 0x09200000 then Some (self_desc y AttrDevice)
       else if 0x0e200000 \<le> unat y \<and> unat y < 0x0e400000 then Some (self_desc y AttrNormal) else None)" if "unat y < 2 ^ 48" for y
    using m1(4,6) m2(2,4) that none by (simp add: maps_def SP_UART_BASE_def BLOCK_SIZE_2MB_def)
  ultimately show thesis using that by blast
qed


text \<open>C37: the translation the SPMC builds for its Secure Partition is an identity map of exactly two 2MB blocks: that of the
  UART, and the one from \<open>0x0e200000\<close> to \<open>0x0e400000\<close>.  The partition was given one megabyte, from \<open>0x0e300000\<close> on; the
  megabyte below it, which the memory layout reserves for the SPMC itself, is readable and writable by the partition as well.\<close>

theorem sp_stage2_reach:
  "\<exists>d h'. build_sp_stage2 SP1_LOAD_ADDR SP1_MEM_SIZE (heap_init_at SECURE_HEAP_START SECURE_HEAP_SIZE h) = Some (Inr d, h') \<and>
     {y. unat y < 2 ^ 48 \<and> s2_desc (h_mem h') (dm_l0_table d) y \<noteq> None} =
       {y. 0x09000000 \<le> unat y \<and> unat y < 0x09200000} \<union> {y. 0x0e200000 \<le> unat y \<and> unat y < 0x0e400000} \<and>
     (\<exists>e. s2_desc (h_mem h') (dm_l0_table d) 0x0e200000 = Some e \<and> pte_addr e = 0x0e200000 \<and> s2ap_of e = 3)"
proof -
  obtain d h' where b: "build_sp_stage2 SP1_LOAD_ADDR SP1_MEM_SIZE (heap_init_at SECURE_HEAP_START SECURE_HEAP_SIZE h) = Some (Inr d, h')"
    and v: "\<And>y. unat y < 2 ^ 48 \<Longrightarrow> s2_desc (h_mem h') (dm_l0_table d) y =
      (if 0x09000000 \<le> unat y \<and> unat y < 0x09200000 then Some (self_desc y AttrDevice)
       else if 0x0e200000 \<le> unat y \<and> unat y < 0x0e400000 then Some (self_desc y AttrNormal) else None)"
    by (rule build_sp_stage2_built [of h]) (rule that, assumption)
  have "unat y < 2 ^ 48 \<and> s2_desc (h_mem h') (dm_l0_table d) y \<noteq> None \<longleftrightarrow>
      0x09000000 \<le> unat y \<and> unat y < 0x09200000 \<or> 0x0e200000 \<le> unat y \<and> unat y < 0x0e400000" for y
    using v [of y] by (auto split: if_splits)
  hence "{y. unat y < 2 ^ 48 \<and> s2_desc (h_mem h') (dm_l0_table d) y \<noteq> None} =
       {y. 0x09000000 \<le> unat y \<and> unat y < 0x09200000} \<union> {y. 0x0e200000 \<le> unat y \<and> unat y < 0x0e400000}" by auto
  moreover have "s2_desc (h_mem h') (dm_l0_table d) 0x0e200000 = Some (self_desc 0x0e200000 AttrNormal)"
    using v [of "0x0e200000"] by simp
  moreover have "pte_addr (self_desc 0x0e200000 AttrNormal) = 0x0e200000" "s2ap_of (self_desc 0x0e200000 AttrNormal) = 3"
    using self_desc_props [of "0x0e200000" AttrNormal] by (simp_all add: page_of_def)
  ultimately show ?thesis using b by blast
qed

section \<open>Boot\<close>

definition spmc_reset :: "gmem \<Rightarrow> spmc" where
  "spmc_reset mem = \<lparr>sm_sps = sp_store_new, sm_rxtx = nwd_rxtx_new, sm_mem = mem, sm_preempted = False, sm_vsttbr = 0, sm_vstcr = 0,
     sm_timer_armed = False\<rparr>"

lemma sel2_boot:
  assumes "run_pc_ok run"
  shows "\<exists>h' req e' s. rust_main_sel2 run smc e (spmc_reset mem) h = Some (h', req, e', s) \<and> spmc_inv s \<and>
    (\<exists>sp. sm_sps s = [Some sp, None, None, None] \<and> sp_id sp = SP1_PARTITION_ID \<and> (sp_state sp = SpIdle \<or> sp_state sp = SpReset))"
proof -
  obtain d h' where b: "build_sp_stage2 SP1_LOAD_ADDR SP1_MEM_SIZE (heap_init_at SECURE_HEAP_START SECURE_HEAP_SIZE h) = Some (Inr d, h')"
    by (rule build_sp_stage2_built [of h])
  let ?c = "secure_stage2_new (dm_l0_table d)"
  let ?s = "secure_install ?c (spmc_reset mem)" and ?sp = "sp1_context mem (ss_vsttbr ?c)"
  obtain trap cx mem' where r: "run (sm_vsttbr ?s) (sp_ctx ?sp) (sm_mem ?s) = (trap, cx, mem')" by (rule prod_cases3)
  obtain cx' where x: "sp_exit trap cx = Some (cx', \<exists>i. trap = SpIrq i)" by (rule sp_exit_ok [OF assms r])
  have e: "enter_sp run ?sp ?s = Some (?sp\<lparr>sp_ctx := cx'\<rparr>, ?s\<lparr>sm_mem := mem', sm_preempted := \<exists>i. trap = SpIrq i\<rparr>)"
    using r x by (simp add: enter_sp_def secure_install_def spmc_reset_def)
  obtain req e1 m1 where q: "smc (smc_result FFA_MSG_WAIT 0) e mem' = (req, e1, m1)" by (rule prod_cases3)
  have st: "sp_state ?sp = SpReset" "sp_id ?sp = SP1_PARTITION_ID" "length (sp_uuid ?sp) = 4" by (simp_all add: sp1_context_def sp_new_def)
  have reg: "register_sp sp (sm_sps ?s) = Some [Some sp, None, None, None]" for sp
    by (simp add: register_sp_def secure_install_def spmc_reset_def sp_store_new_def MAX_SPS_def eval_nat_numeral)
  have m: "sm_mem ?s = mem" by (simp add: secure_install_def spmc_reset_def)
  let ?sp1 = "?sp\<lparr>sp_ctx := cx', sp_state := (if cx_gp cx' 0 = FFA_MSG_WAIT then SpIdle else SpReset)\<rparr>"
  have t: "(if smc_x0 (get_args (?sp\<lparr>sp_ctx := cx'\<rparr>)) = FFA_MSG_WAIT then transition_to SpIdle (?sp\<lparr>sp_ctx := cx'\<rparr>) else Some (?sp\<lparr>sp_ctx := cx'\<rparr>)) =
      Some ?sp1"
    using st(1) by (simp add: get_args_x0 transition_to_def)
  let ?s1 = "?s\<lparr>sm_mem := m1, sm_preempted := \<exists>i. trap = SpIrq i, sm_sps := [Some ?sp1, None, None, None]\<rparr>"
  have "rust_main_sel2 run smc e (spmc_reset mem) h = Some (h', req, e1, ?s1)"
    unfolding rust_main_sel2_def using b e q t reg m by (simp add: Let_def secure_install_def)
  moreover have "spmc_inv ?s1"
    using st by (simp add: spmc_inv_def sps_of_def MAX_SPS_def secure_install_def spmc_reset_def nwd_rxtx_new_def)
  moreover have "\<exists>sp. sm_sps ?s1 = [Some sp, None, None, None] \<and> sp_id sp = SP1_PARTITION_ID \<and> (sp_state sp = SpIdle \<or> sp_state sp = SpReset)"
    by (rule exI [of _ ?sp1]) (simp add: st)
  ultimately show ?thesis by blast
qed




section \<open>A partition that does not run keeps its context\<close>

text \<open>A request that resumes partition \<open>i\<close>, and a Normal World that never sends one.\<close>

definition resumes :: "u16 \<Rightarrow> smc8 \<Rightarrow> bool" where
  "resumes i req \<longleftrightarrow> smc_x0 req = FFA_RUN \<and> ucast (drop_bit 16 (smc_x1 req) AND 0xFFFF) = i"

lemma run_sp_others:
  assumes "run_sp run k sp s = Some (resp, s')" "sp_state sp = SpIdle \<or> sp_state sp = SpPreempted" "j \<noteq> k"
  shows "sm_sps s' ! j = sm_sps s ! j"
  using assms(1,3) unfolding run_sp_eq [OF assms(2)]
  by (auto simp: put_sp_def Let_def bind_eq_Some_conv split: prod.splits)

lemma dispatch_keeps:
  assumes d: "dispatch_request run req s = Some (resp, s')" and inv: "spmc_inv s"
    and sp: "sm_sps s ! k = Some sp" "sp_state sp \<noteq> SpIdle" and nr: "sp_state sp = SpPreempted \<Longrightarrow> \<not> resumes (sp_id sp) req"
  shows "sm_sps s' ! k = Some sp"
proof -
  have kept: "sm_sps t ! k = Some sp"
    if r: "run_sp run j c s = Some (p, t)" "sp_state c = SpIdle \<or> sp_state c = SpPreempted" and "j \<noteq> k" for j c p t
    using run_sp_others [OF r, of k] that(3) sp(1) by simp
  have to_sp: "sm_sps t ! k = Some sp" if "dispatch_to_sp run r i s = Some (p, t)" for r i p t
  proof (cases "get_sp_mut i (sm_sps s)")
    case (Some j)
    then obtain c where c: "sm_sps s ! j = Some c" by (rule get_sp_inv [OF inv])
    show ?thesis using kept [of j "set_args r c"] that Some c sp by (cases "j = k") (auto simp: dispatch_to_sp_def split: if_splits)
  qed (use that sp in \<open>simp add: dispatch_to_sp_def\<close>)
  have resume: "sm_sps t ! k = Some sp" if "resume_preempted_sp run i s = Some (p, t)" "sp_state sp = SpPreempted \<Longrightarrow> i \<noteq> sp_id sp" for i p t
  proof (cases "get_sp_mut i (sm_sps s)")
    case (Some j)
    then obtain c where c: "sm_sps s ! j = Some c" "sp_id c = i" by (rule get_sp_inv [OF inv])
    show ?thesis using kept [of j c] that Some c sp by (cases "j = k") (auto simp: resume_preempted_sp_def split: if_splits)
  qed (use that sp in \<open>simp add: resume_preempted_sp_def\<close>)
  have "sm_sps t ! k = Some sp" if "dispatch_ffa req s = (p, t)" for p t
    using dispatch_ffa_inv [OF inv, of req] that sp(1) by simp
  thus ?thesis using d to_sp resume nr
    by (auto simp: dispatch_request_def Let_def resumes_def split: if_splits)
qed

lemma loop_keeps:
  assumes pc: "run_pc_ok run" and nr: "\<And>resp e m. sp_state sp = SpPreempted \<Longrightarrow> \<not> resumes (sp_id sp) (fst (smc resp e m))"
    and sp: "sp_state sp \<noteq> SpIdle"
  shows "spmc_inv s \<Longrightarrow> sm_sps s ! k = Some sp \<Longrightarrow> (sp_state sp = SpPreempted \<Longrightarrow> \<not> resumes (sp_id sp) req) \<Longrightarrow>
    run_event_loop run smc n (req, e, s) = Some (req', e', s') \<Longrightarrow> sm_sps s' ! k = Some sp"
proof (induction n arbitrary: req e s)
  case (Suc n)
  obtain resp s1 where d: "dispatch_request run req s = Some (resp, s1)" "spmc_inv s1"
    using dispatch_request_inv [OF pc Suc.prems(1)] by blast
  have k: "sm_sps s1 ! k = Some sp" by (rule dispatch_keeps [OF d(1) Suc.prems(1,2) sp Suc.prems(3)])
  obtain req1 e1 mem where q: "smc resp e (sm_mem s1) = (req1, e1, mem)" by (rule prod_cases3)
  have "sp_state sp = SpPreempted \<Longrightarrow> \<not> resumes (sp_id sp) req1" using nr [of resp e "sm_mem s1"] q by simp
  thus ?case using Suc.IH [of "s1\<lparr>sm_mem := mem\<rparr>" req1 e1] Suc.prems(4) d k q by simp
qed simp

text \<open>C17: a partition that is not idle is left alone.  While the Normal World does not resume it, no sequence of requests,
  whatever they are and whatever other partitions do, changes any register or the state of a preempted partition; and a
  partition that never announced itself with \<open>FFA_MSG_WAIT\<close> at boot stays in its reset state for good, resumed or not.
  Every direct request to either is answered with \<open>FFA_BUSY\<close>.\<close>

theorem suspended_sp_kept:
  assumes "run_pc_ok run" "spmc_inv s" "get_sp_mut i (sm_sps s) = Some k" "sm_sps s ! k = Some sp"
    and "sp_state sp = SpReset \<or> sp_state sp = SpPreempted \<and> \<not> resumes i req \<and> (\<forall>resp e m. \<not> resumes i (fst (smc resp e m)))"
    and "run_event_loop run smc n (req, e, s) = Some (req', e', s')"
  shows "sm_sps s' ! k = Some sp \<and> dispatch_to_sp run r i s = Some (spmc_error FFA_BUSY, s)"
proof -
  have "sp_id sp = i" using get_sp_mut_SomeD(2) [OF assms(3)] assms(4) by simp
  hence "sm_sps s' ! k = Some sp"
    using loop_keeps [OF assms(1) _ _ assms(2,4) _ assms(6)] assms(5) by auto
  moreover have "dispatch_to_sp run r i s = Some (spmc_error FFA_BUSY, s)"
    using assms(3-5) by (auto simp: dispatch_to_sp_def)
  ultimately show ?thesis by blast
qed

lemma demo_inv: "spmc_inv (demo_spmc\<lparr>sm_sps := [Some ((sp_new 0x8001 0x0e304000 0x0e400000 [1, 2, 3, 4])\<lparr>sp_state := st\<rparr>), None, None, None]\<rparr>)"
  if "st \<noteq> SpRunning"
  using that by (simp add: spmc_inv_def demo_spmc_def sps_of_def MAX_SPS_def nwd_rxtx_new_def sp_new_def)

theorem suspended_sp_kept_witness:
  "\<exists>sp req' e' s'. sp_state sp = SpPreempted \<and>
     run_event_loop demo_run (\<lambda>_ e m. (demo_req, e, m)) 7 (demo_req, (), demo_spmc\<lparr>sm_sps := [Some sp, None, None, None]\<rparr>) = Some (req', e', s') \<and>
     sm_sps s' ! 0 = Some sp"
proof -
  let ?smc = "\<lambda>_ (e :: unit) m. (demo_req, e, m)"
  let ?sp = "(sp_new 0x8001 0x0e304000 0x0e400000 [1, 2, 3, 4])\<lparr>sp_state := SpPreempted\<rparr>"
  let ?s = "demo_spmc\<lparr>sm_sps := [Some ?sp, None, None, None]\<rparr>"
  have inv: "spmc_inv ?s" by (rule demo_inv) simp
  obtain req' e' s' where l: "run_event_loop demo_run ?smc 7 (demo_req, (), ?s) = Some (req', e', s')"
    using event_loop_inv [OF demo_run_ok(1) inv, of ?smc 7 demo_req "()"] by blast
  have "get_sp_mut 0x8001 (sm_sps ?s) = Some 0" "\<not> resumes 0x8001 demo_req"
    by (simp_all add: get_sp_mut_def sp_new_def resumes_def demo_req_def smc_result_def FFA_RUN_def FFA_MSG_SEND_DIRECT_REQ_32_def)
  hence "sm_sps s' ! 0 = Some ?sp" using suspended_sp_kept [OF demo_run_ok(1) inv _ _ _ l, of "0x8001" 0 ?sp] by simp
  thus ?thesis using l by (intro exI [of _ ?sp] exI conjI) (simp, assumption, assumption)
qed


section \<open>Partition information\<close>

text \<open>The descriptor of a partition: identifier, one execution context, direct requests supported, UUID.\<close>

definition sp_info_bytes :: "sp_context \<Rightarrow> u8 list" where
  "sp_info_bytes sp = to_le 2 (sp_id sp) @ to_le 2 (1 :: u16) @ to_le 4 (1 :: u32) @ concat (map (to_le 4) (sp_uuid sp))"

lemma put_bytes_append:
  assumes "length xs + length ys \<le> 2 ^ 63"
  shows "put_bytes m a (xs @ ys) = put_bytes (put_bytes m a xs) (a + of_nat (length xs)) ys"
proof
  fix x
  define d where "d = x - a"
  let ?l = "of_nat (length xs) :: u64"
  have l: "unat ?l = length xs" using assms by (subst unat_of_nat) simp
  have e: "x - (a + ?l) = d - ?l" by (simp add: d_def)
  have "unat (d - ?l) = (if length xs \<le> unat d then unat d - length xs else unat d + 2 ^ 64 - length xs)"
    using unat_sub_if_size [of d ?l] l assms by (simp add: word_size word_le_nat_alt)
  hence u: "unat (x - (a + ?l)) = (if length xs \<le> unat d then unat d - length xs else unat d + 2 ^ 64 - length xs)"
    by (simp only: e)
  show "put_bytes m a (xs @ ys) x = put_bytes (put_bytes m a xs) (a + ?l) ys x"
    using assms u by (auto simp: put_bytes_apply d_def [symmetric] nth_append)
qed

lemma sp_info_length: "length (sp_uuid sp) = 4 \<Longrightarrow> length (sp_info_bytes sp) = 24"
  by (simp add: sp_info_bytes_def length_concat o_def sum_list_replicate map_replicate_const)

lemma write_sp_info_bytes:
  assumes "length (sp_uuid sp) = 4"
  shows "write_sp_info p sp m = put_bytes m p (sp_info_bytes sp)"
proof -
  have "length (concat (map (to_le 4) (sp_uuid sp))) = 16"
    using assms by (simp add: length_concat o_def map_replicate_const sum_list_replicate)
  thus ?thesis
    by (simp add: write_sp_info_def sp_info_bytes_def wr16_def wr32_def put_bytes_append add.assoc)
qed

lemma write_all_sps:
  assumes "\<forall>sp\<in>set sps. length (sp_uuid sp) = 4" "(c + length sps) * 24 \<le> mx" "mx \<le> 2 ^ 60"
  shows "fold (\<lambda>sp (count, m). (count + 1, if count * 24 + 24 \<le> mx then write_sp_info (rx + of_nat (count * 24)) sp m else m)) sps (c, m) =
    (c + length sps, put_bytes m (rx + of_nat (c * 24)) (concat (map sp_info_bytes sps)))"
  using assms
proof (induction sps arbitrary: c m)
  case (Cons sp sps)
  have len: "length (concat (map sp_info_bytes sps)) = 24 * length sps"
    using Cons.prems(1) by (induction sps) (simp_all add: sp_info_length)
  have "put_bytes m (rx + of_nat (c * 24)) (sp_info_bytes sp @ concat (map sp_info_bytes sps)) =
      put_bytes (put_bytes m (rx + of_nat (c * 24)) (sp_info_bytes sp)) (rx + of_nat (c * 24) + of_nat 24) (concat (map sp_info_bytes sps))"
    using put_bytes_append [of "sp_info_bytes sp" "concat (map sp_info_bytes sps)"] Cons.prems len sp_info_length [of sp] by simp
  moreover have "rx + of_nat (c * 24) + of_nat 24 = rx + of_nat ((c + 1) * 24)" by (simp add: algebra_simps)
  ultimately show ?case using Cons.IH [of "c + 1" "put_bytes m (rx + of_nat (c * 24)) (sp_info_bytes sp)"] Cons.prems
    by (simp add: write_sp_info_bytes algebra_simps)
qed simp

text \<open>C36: \<open>FFA_PARTITION_INFO_GET\<close> after a successful \<open>FFA_RXTX_MAP\<close> answers with the number of partitions, and memory
  differs from before exactly in that the receive buffer starts with their descriptors, which always fit.  The buffer is
  wherever the Normal World said: any page of the address space is accepted, also one that belongs to the SPMC.\<close>

theorem partition_info_written:
  assumes "spmc_inv s" "\<not> nw_mapped (sm_rxtx s)"
    and "smc_x0 req = FFA_RXTX_MAP" "smc_x1 req AND 0xFFF = 0" "smc_x2 req AND 0xFFF = 0" "ucast (smc_x3 req) \<noteq> (0 :: u32)"
    and "smc_x0 req2 = FFA_PARTITION_INFO_GET"
  shows "\<exists>s1 s2. dispatch_request run req s = Some (smc_result FFA_SUCCESS_32 0, s1) \<and>
    dispatch_request run req2 s1 = Some (smc_result FFA_SUCCESS_32 (of_nat (length (sps_of (sm_sps s)))), s2) \<and>
    sm_mem s2 = put_bytes (sm_mem s) (smc_x2 req) (concat (map sp_info_bytes (sps_of (sm_sps s))))"
proof -
  let ?pc = "ucast (smc_x3 req) :: u32"
  define s1 where "s1 = s\<lparr>sm_rxtx := \<lparr>nw_tx_pa = smc_x1 req, nw_rx_pa = smc_x2 req, nw_page_count = ?pc, nw_mapped = True\<rparr>\<rparr>"
  let ?sps = "sps_of (sm_sps s)" and ?mx = "unat ?pc * 4096"
  have d1: "dispatch_request run req s = Some (smc_result FFA_SUCCESS_32 0, s1)"
    using assms(2-6) by (simp add: dispatch_request_def dispatch_ffa_def spmc_rxtx_map_def Let_def s1_def FFA_RXTX_MAP_def FFA_VERSION_def
        FFA_ID_GET_def FFA_SPM_ID_GET_def FFA_FEATURES_def FFA_RUN_def FFA_MSG_SEND_DIRECT_REQ_32_def FFA_MSG_SEND_DIRECT_REQ_64_def)
  have "0 < unat ?pc" "unat ?pc < 2 ^ 32" using assms(6) unat_gt_0 [of ?pc] unsigned_less [of ?pc] by simp_all
  moreover have "length ?sps \<le> 4" using sps_of_length [of "sm_sps s"] assms(1) by (simp add: spmc_inv_def MAX_SPS_def)
  ultimately have b: "(0 + length ?sps) * 24 \<le> ?mx" "?mx \<le> 2 ^ 60" by simp_all
  have "\<forall>sp\<in>set ?sps. length (sp_uuid sp) = 4" using assms(1) by (simp add: spmc_inv_def)
  note w = write_all_sps [OF this b, of "smc_x2 req" "sm_mem s"]
  have "dispatch_request run req2 s1 = Some (spmc_partition_info_get s1)"
    using assms(7) by (simp add: dispatch_request_def dispatch_ffa_def Let_def FFA_RXTX_MAP_def FFA_VERSION_def FFA_PARTITION_INFO_GET_def
        FFA_ID_GET_def FFA_SPM_ID_GET_def FFA_FEATURES_def FFA_RUN_def FFA_MSG_SEND_DIRECT_REQ_32_def FFA_MSG_SEND_DIRECT_REQ_64_def
        FFA_RXTX_UNMAP_def FFA_RX_RELEASE_def)
  moreover have "spmc_partition_info_get s1 = (smc_result FFA_SUCCESS_32 (of_nat (length ?sps)),
      s1\<lparr>sm_mem := put_bytes (sm_mem s) (smc_x2 req) (concat (map sp_info_bytes ?sps))\<rparr>)"
    using w by (simp add: spmc_partition_info_get_def for_each_sp_sps Let_def s1_def)
  ultimately have "dispatch_request run req2 s1 = Some (smc_result FFA_SUCCESS_32 (of_nat (length ?sps)),
      s1\<lparr>sm_mem := put_bytes (sm_mem s) (smc_x2 req) (concat (map sp_info_bytes ?sps))\<rparr>)" by simp
  with d1 show ?thesis by (intro exI conjI) (assumption, assumption, simp)
qed

text \<open>The buffer may be the SPMC's own heap, where the partition's translation tables are.\<close>

theorem partition_info_written_witness:
  "\<exists>s1 s2. dispatch_request demo_run ((smc_result FFA_RXTX_MAP SECURE_HEAP_START)\<lparr>smc_x3 := 1\<rparr>) demo_spmc = Some (smc_result FFA_SUCCESS_32 0, s1) \<and>
     dispatch_request demo_run (smc_result FFA_PARTITION_INFO_GET 0) s1 = Some (smc_result FFA_SUCCESS_32 1, s2) \<and>
     get_bytes (sm_mem s2) SECURE_HEAP_START 24 = sp_info_bytes (hd (sps_of (sm_sps demo_spmc)))"
proof -
  let ?req = "(smc_result FFA_RXTX_MAP SECURE_HEAP_START)\<lparr>smc_x3 := 1\<rparr>"
  have "spmc_inv demo_spmc" "\<not> nw_mapped (sm_rxtx demo_spmc)"
    using demo_inv [of SpIdle] by (simp_all add: demo_spmc_def nwd_rxtx_new_def)
  moreover have "smc_x0 ?req = FFA_RXTX_MAP" "smc_x1 ?req AND 0xFFF = 0" "smc_x2 ?req AND 0xFFF = 0" "ucast (smc_x3 ?req) \<noteq> (0 :: u32)"
    "smc_x0 (smc_result FFA_PARTITION_INFO_GET 0) = FFA_PARTITION_INFO_GET" and x2: "smc_x2 ?req = SECURE_HEAP_START"
    by (simp_all add: smc_result_def SECURE_HEAP_START_def)
  ultimately obtain s1 s2 where p: "dispatch_request demo_run ?req demo_spmc = Some (smc_result FFA_SUCCESS_32 0, s1)"
    "dispatch_request demo_run (smc_result FFA_PARTITION_INFO_GET 0) s1 =
      Some (smc_result FFA_SUCCESS_32 (of_nat (length (sps_of (sm_sps demo_spmc)))), s2)"
    "sm_mem s2 = put_bytes (sm_mem demo_spmc) (smc_x2 ?req) (concat (map sp_info_bytes (sps_of (sm_sps demo_spmc))))"
    using partition_info_written [of demo_spmc ?req "smc_result FFA_PARTITION_INFO_GET 0" demo_run] by blast
  obtain sp where sp: "sps_of (sm_sps demo_spmc) = [sp]" "length (sp_uuid sp) = 4"
    by (simp add: demo_spmc_def sps_of_def sp_new_def)
  have "get_bytes (put_bytes m SECURE_HEAP_START (sp_info_bytes sp)) SECURE_HEAP_START 24 = sp_info_bytes sp" for m
    by (rule get_put_same) (simp_all add: sp_info_length sp)
  hence "get_bytes (sm_mem s2) SECURE_HEAP_START 24 = sp_info_bytes (hd (sps_of (sm_sps demo_spmc)))" by (simp add: p(3) x2 sp)
  moreover have "dispatch_request demo_run (smc_result FFA_PARTITION_INFO_GET 0) s1 = Some (smc_result FFA_SUCCESS_32 1, s2)"
    using p(2) by (simp add: sp)
  ultimately show ?thesis using p(1) by blast
qed

end
