(* ===== verification/Guest_Loader.thy ===== *)
theory Guest_Loader
  imports Vm Guest_Stage2
begin

text \<open>Loading and booting guests (\<open>src/guest_loader.rs\<close> and \<open>Vm::init_memory\<close> of \<open>src/vm.rs\<close>), in the Linux builds: the
  memory layout of the one or two VMs, finding the entry point in the image that was loaded, and everything \<open>run_guest\<close> and
  \<open>run_multi_vm_guests\<close> do before the run loop starts.  Of the physical devices only the writes made to them are recorded;
  the boot-time self test of \<open>run_multi_vm_guests\<close> is left out.\<close>

datatype guest_type = Zephyr | Linux

record guest_config =
  gc_guest_type :: guest_type
  gc_load_addr :: u64
  gc_mem_size :: u64
  gc_entry_point :: u64
  gc_dtb_addr :: u64

definition GUEST_RAM_BASE :: u64 where "GUEST_RAM_BASE = 0x40000000"
definition LINUX_DTB_ADDR :: u64 where "LINUX_DTB_ADDR = 0x47000000"
definition ZEPHYR_MEM_SIZE :: u64 where "ZEPHYR_MEM_SIZE = 128 * 1024 * 1024"
definition GUEST_STACK_RESERVE :: u64 where "GUEST_STACK_RESERVE = 0x1000"
definition VIRTIO_DISK_ADDR :: u64 where "VIRTIO_DISK_ADDR = 0x58000000"
definition VIRTIO_DISK_SIZE :: u64 where "VIRTIO_DISK_SIZE = 2 * 1024 * 1024"
definition VM1_GUEST_LOAD_ADDR :: u64 where "VM1_GUEST_LOAD_ADDR = 0x68000000"
definition VM1_LINUX_DTB_ADDR :: u64 where "VM1_LINUX_DTB_ADDR = 0x67000000"
definition VM1_LINUX_MEM_SIZE :: u64 where "VM1_LINUX_MEM_SIZE = 256 * 1024 * 1024"
definition VM1_VIRTIO_DISK_ADDR :: u64 where "VM1_VIRTIO_DISK_ADDR = 0x78000000"

section \<open>Entry points\<close>

text \<open>An ELF image gives its entry point; a raw image that starts with an unconditional branch is entered at its target.  The
  offset is an \<open>i32\<close>.\<close>

definition branch_offset :: "u32 \<Rightarrow> u32" where
  "branch_offset imm26 = (if imm26 AND 0x02000000 \<noteq> 0 then (imm26 OR 0xFC000000) * 4 else imm26 * 4)"

definition zephyr_entry :: "gmem \<Rightarrow> u64 \<Rightarrow> u64" where
  "zephyr_entry m load_addr =
     (if get_bytes m load_addr 4 = [0x7F, 0x45, 0x4C, 0x46] then rd64 m (load_addr + 0x18)
      else
        let first_instr = rd32 m load_addr in
        if drop_bit 26 first_instr = 5 then load_addr + scast (branch_offset (first_instr AND 0x03FFFFFF)) else load_addr)"

definition linux_entry :: "gmem \<Rightarrow> u64 \<Rightarrow> u64" where
  "linux_entry m kernel_addr =
     (if rd32 m (kernel_addr + 0x38) = 0x644d5241
      then (let text_offset = rd64 m (kernel_addr + 0x08) in
        if text_offset \<noteq> 0 \<and> text_offset < 0x100000 then kernel_addr + text_offset else kernel_addr)
      else kernel_addr)"

definition zephyr_default :: "gmem \<Rightarrow> guest_config" where
  "zephyr_default m = \<lparr>gc_guest_type = Zephyr, gc_load_addr = GUEST_LOAD_ADDR, gc_mem_size = ZEPHYR_MEM_SIZE,
     gc_entry_point = zephyr_entry m GUEST_LOAD_ADDR, gc_dtb_addr = 0\<rparr>"

definition linux_default :: "gmem \<Rightarrow> guest_config" where
  "linux_default m = \<lparr>gc_guest_type = Linux, gc_load_addr = GUEST_RAM_BASE,
     gc_mem_size = (GUEST_LOAD_ADDR - GUEST_RAM_BASE) + LINUX_MEM_SIZE,
     gc_entry_point = linux_entry m GUEST_LOAD_ADDR, gc_dtb_addr = LINUX_DTB_ADDR\<rparr>"

definition linux_vm1 :: "gmem \<Rightarrow> guest_config" where
  "linux_vm1 m =
     (let mem_start = VM1_GUEST_LOAD_ADDR - 0x08000000 in
      \<lparr>gc_guest_type = Linux, gc_load_addr = mem_start, gc_mem_size = (VM1_GUEST_LOAD_ADDR - mem_start) + VM1_LINUX_MEM_SIZE,
       gc_entry_point = linux_entry m VM1_GUEST_LOAD_ADDR, gc_dtb_addr = VM1_LINUX_DTB_ADDR\<rparr>)"

section \<open>Memory of a VM\<close>

text \<open>What boot reads from outside: the interrupt controllers and the number of CPUs (from the host's device tree), the
  counter, \<open>MIDR_EL1\<close> and the serial port's interrupt mask.\<close>

record boot_env =
  be_gicd_base :: u64
  be_gicr_base :: u64
  be_num_cpus :: nat
  be_cntvct :: u64
  be_midr :: u64
  be_uartimsc :: u32

text \<open>\<open>init_memory\<close>, with the installation of the translation: \<open>VTTBR_EL2\<close> is the register of the machine's FF-A state, and
  Stage-2 is enabled in \<open>HCR_EL2\<close>.  Both additions are checked.\<close>

definition install_stage2 :: "stage2_config \<Rightarrow> machine \<Rightarrow> machine" where
  "install_stage2 c m = m\<lparr>mc_hw := (mc_hw m)\<lparr>hw_hcr_el2 := hw_hcr_el2 (mc_hw m) OR 1\<rparr>, mc_ffa := (mc_ffa m)\<lparr>fs_vttbr := s2_vttbr c\<rparr>\<rparr>"

definition init_memory :: "boot_env \<Rightarrow> u64 \<Rightarrow> u64 \<Rightarrow> vm \<Rightarrow> machine \<Rightarrow> (vm \<times> machine) or_panic" where
  "init_memory be guest_mem_start guest_mem_size v m =
     (if vm_memory_initialized v then Some (v, m)
      else if unat guest_mem_size + unat BLOCK_SIZE_2MB \<ge> 2 ^ 64 then None
      else
        let start_aligned = guest_mem_start AND NOT BLOCK_MASK_2MB;
            size_aligned = (guest_mem_size + BLOCK_SIZE_2MB - 1) div BLOCK_SIZE_2MB * BLOCK_SIZE_2MB in
        if unat start_aligned + unat size_aligned \<ge> 2 ^ 64 then None
        else do {
          (d, h) \<leftarrow> init_memory_dynamic (be_gicd_base be) (be_gicr_base be) (be_num_cpus be) start_aligned size_aligned (fs_heap (mc_ffa m));
          let c = stage2_config_new (dm_l0_table d) (of_nat (vm_id v));
          let f = (mc_ffa m)\<lparr>fs_heap := h, fs_per_vm_vttbr := (fs_per_vm_vttbr (mc_ffa m))[vm_id v := s2_vttbr c AND PTE_ADDR_MASK]\<rparr>;
          Some (v\<lparr>vm_vttbr := s2_vttbr c, vm_vtcr := s2_vtcr c, vm_memory_initialized := True\<rparr>, install_stage2 c (m\<lparr>mc_ffa := f\<rparr>)) })"

section \<open>The boot vCPU\<close>

definition guest_sp :: "guest_config \<Rightarrow> u64 or_panic" where
  "guest_sp c =
     (if unat (gc_load_addr c) + unat (gc_mem_size c) < 2 ^ 64 \<and> GUEST_STACK_RESERVE \<le> gc_load_addr c + gc_mem_size c
      then Some (gc_load_addr c + gc_mem_size c - GUEST_STACK_RESERVE) else None)"

definition el1_boot_state :: "vcpu \<Rightarrow> vcpu" where
  "el1_boot_state k = k\<lparr>vc_arch := (vc_arch k)\<lparr>sctlr_el1 := 0x30D00800, cpacr_el1 := push_bit 20 3\<rparr>\<rparr>"

definition boot_vcpu :: "guest_config \<Rightarrow> u64 \<Rightarrow> vcpu \<Rightarrow> vcpu" where
  "boot_vcpu c sp k =
     (let cx = (vc_context k)\<lparr>cx_pc := gc_entry_point c, cx_sp := sp\<rparr> in
      if gc_guest_type c = Linux
      then el1_boot_state (k\<lparr>vc_context := cx\<lparr>cx_gp := (cx_gp cx)(0 := gc_dtb_addr c, 1 := 0, 2 := 0, 3 := 0)\<rparr>\<rparr>)
      else k\<lparr>vc_context := cx\<rparr>)"

text \<open>The same in \<open>run_multi_vm_guests\<close>, which leaves \<open>x1\<close> to \<open>x3\<close> as they are and sets \<open>SPSR_EL2\<close>.\<close>

definition multi_boot_vcpu :: "guest_config \<Rightarrow> u64 \<Rightarrow> vcpu \<Rightarrow> vcpu" where
  "multi_boot_vcpu c sp k =
     (let cx = (vc_context k)\<lparr>cx_pc := gc_entry_point c, cx_sp := sp\<rparr> in
      el1_boot_state (k\<lparr>vc_context := cx\<lparr>cx_gp := (cx_gp cx)(0 := gc_dtb_addr c), cx_spsr_el2 := SPSR_EL1H_DAIF_MASKED\<rparr>\<rparr>))"

definition upd_vcpu0 :: "(vcpu \<Rightarrow> vcpu) \<Rightarrow> vm \<Rightarrow> vm" where
  "upd_vcpu0 f v = (case vm_vcpus v ! 0 of Some k \<Rightarrow> put_vcpu 0 (f k) v | None \<Rightarrow> v)"

section \<open>Registers of EL2 and physical devices\<close>

record el2_regs =
  el_cptr :: u64
  el_mdcr :: u64
  el_vpidr :: u64
  el_cnthctl :: u64
  el_cntvoff :: u64

record phys_write =
  pw_addr :: u64
  pw_bytes :: nat
  pw_value :: u64

record boot_state =
  bs_machine :: machine
  bs_el2 :: el2_regs
  bs_writes :: "phys_write list"

definition upd_machine :: "(machine \<Rightarrow> machine) \<Rightarrow> boot_state \<Rightarrow> boot_state" where
  "upd_machine f s = s\<lparr>bs_machine := f (bs_machine s)\<rparr>"

definition init_guest_timer :: "el2_regs \<Rightarrow> el2_regs" where
  "init_guest_timer r = r\<lparr>el_cnthctl := el_cnthctl r OR 1, el_cntvoff := 0\<rparr>"

text \<open>Floating point, SVE, SME and \<open>CPACR\<close> accesses no longer trap.\<close>

definition configure_el2 :: "u64 \<Rightarrow> el2_regs \<Rightarrow> el2_regs" where
  "configure_el2 midr r = r\<lparr>el_cptr := el_cptr r AND NOT (push_bit 8 1) AND NOT (push_bit 10 1) AND NOT (push_bit 12 1) AND NOT (push_bit 20 1),
     el_mdcr := 0, el_vpidr := midr\<rparr>"

definition clear_twe :: "machine \<Rightarrow> machine" where
  "clear_twe m = m\<lparr>mc_hw := (mc_hw m)\<lparr>hw_hcr_el2 := hw_hcr_el2 (mc_hw m) AND NOT (push_bit 14 1)\<rparr>\<rparr>"

definition enable_physical_uart_irq :: "u32 \<Rightarrow> boot_state \<Rightarrow> boot_state" where
  "enable_physical_uart_irq imsc s =
     (let w = (\<lambda>a n v. \<lparr>pw_addr = a, pw_bytes = n, pw_value = v\<rparr>) in
      s\<lparr>bs_writes := bs_writes s @
        [w (0x08000000 + 0x104) 4 (push_bit 1 1), w (0x08000000 + 0x421) 1 0xA0, w (0x08000000 + 0x6100 + (33 - 32) * 8) 8 0,
         w (0x09000000 + 0x038) 4 (ucast (imsc OR push_bit 4 1))]\<rparr>)"

definition attach_virtio :: "nat \<Rightarrow> u64 \<Rightarrow> hv \<Rightarrow> hv" where
  "attach_virtio i disk_addr s =
     (let dm = attach_virtio_blk disk_addr VIRTIO_DISK_SIZE (hv_devices s ! i);
          (dm, net) = attach_virtio_net i dm (hv_net s) in
      (set_devices i dm s)\<lparr>hv_net := net\<rparr>)"

section \<open>Booting\<close>

text \<open>A VM with its memory and a vCPU whose registers \<open>f\<close> sets up.\<close>

definition make_vm :: "boot_env \<Rightarrow> nat \<Rightarrow> guest_config \<Rightarrow> (u64 \<Rightarrow> vcpu \<Rightarrow> vcpu) \<Rightarrow> machine \<Rightarrow> ((vm_error + vm) \<times> machine) or_panic" where
  "make_vm be i c f m = do {
     (v, s) \<leftarrow> vm_new (be_num_cpus be) (be_cntvct be) i (mc_hv m);
     (v, m) \<leftarrow> init_memory be (gc_load_addr c) (gc_mem_size c) v (m\<lparr>mc_hv := s\<rparr>);
     sp \<leftarrow> guest_sp c;
     Some (case create_vcpu (hw_mpidr (mc_hw m)) 0 v of Inl e \<Rightarrow> (Inl e, m) | Inr v \<Rightarrow> (Inr (upd_vcpu0 (f sp) v), m)) }"

definition prepare_guest :: "boot_env \<Rightarrow> guest_config \<Rightarrow> boot_state \<Rightarrow> ((vm_error + vm) \<times> boot_state) or_panic" where
  "prepare_guest be c s = do {
     (r, m) \<leftarrow> make_vm be 0 c (boot_vcpu c) (bs_machine s);
     let s = s\<lparr>bs_machine := m\<rparr>;
     Some (case r of
         Inl e \<Rightarrow> (Inl e, s)
       | Inr v \<Rightarrow>
           let s = s\<lparr>bs_el2 := init_guest_timer (bs_el2 s)\<rparr> in
           (Inr v,
            if gc_guest_type c = Linux
            then upd_machine reset_exception_counters (enable_physical_uart_irq (be_uartimsc be)
              (upd_machine (upd_hv (attach_virtio 0 VIRTIO_DISK_ADDR) \<circ> clear_twe) (s\<lparr>bs_el2 := configure_el2 (be_midr be) (bs_el2 s)\<rparr>)))
            else s)) }"

definition run_guest :: "machine guest \<Rightarrow> boot_env \<Rightarrow> guest_config \<Rightarrow> boot_state \<Rightarrow> ((vm_error + unit) \<times> boot_state) option" where
  "run_guest guest be c s = do {
     (r, s) \<leftarrow> prepare_guest be c s;
     (case r of
        Inl e \<Rightarrow> Some (Inl e, s)
      | Inr v \<Rightarrow> do {
          (r, v, m) \<leftarrow> (if gc_guest_type c = Linux then run_smp guest v (bs_machine s) else Some (vm_run guest v (bs_machine s)));
          Some (r, s\<lparr>bs_machine := m\<rparr>) }) }"

text \<open>Two VMs, up to the self test and the call of \<open>run_multi_vm\<close>.\<close>

definition prepare_multi_vm :: "boot_env \<Rightarrow> boot_state \<Rightarrow> ((vm_error + vm \<times> vm) \<times> boot_state) or_panic" where
  "prepare_multi_vm be s = do {
     let config0 = linux_default (hv_mem (mc_hv (bs_machine s)));
     (r0, m) \<leftarrow> make_vm be 0 config0 (multi_boot_vcpu config0) (bs_machine s);
     (case r0 of
        Inl e \<Rightarrow> Some (Inl e, s\<lparr>bs_machine := m\<rparr>)
      | Inr vm0 \<Rightarrow> do {
          let m = upd_hv (attach_virtio 0 VIRTIO_DISK_ADDR) m;
          let config1 = linux_vm1 (hv_mem (mc_hv m));
          (r1, m) \<leftarrow> make_vm be 1 config1 (multi_boot_vcpu config1) m;
          (case r1 of
             Inl e \<Rightarrow> Some (Inl e, s\<lparr>bs_machine := m\<rparr>)
           | Inr vm1 \<Rightarrow>
               let m = upd_hv (attach_virtio 1 VM1_VIRTIO_DISK_ADDR) m;
                   m = clear_twe (m\<lparr>mc_ffa := (mc_ffa m)\<lparr>fs_vttbr := vm_vttbr vm0\<rparr>\<rparr>);
                   el2 = init_guest_timer (configure_el2 (be_midr be) (bs_el2 s)) in
               Some (Inr (vm0, vm1), upd_machine reset_exception_counters
                 (enable_physical_uart_irq (be_uartimsc be) (s\<lparr>bs_machine := m, bs_el2 := el2\<rparr>)))) }) }"

section \<open>A VM is built\<close>

text \<open>The translation of VM \<open>i\<close>, from the root recorded for it.\<close>

definition vm_view :: "nat \<Rightarrow> machine \<Rightarrow> u64 \<Rightarrow> u64 option" where
  "vm_view i m y = s2_desc (h_mem (fs_heap (mc_ffa m))) (fs_per_vm_vttbr (mc_ffa m) ! i) y"

definition qemu_board :: "boot_env \<Rightarrow> bool" where
  "qemu_board be \<longleftrightarrow> be_gicd_base be = 0x08000000 \<and> be_gicr_base be = 0x080A0000 \<and> be_num_cpus be \<le> 8"

definition layout_ok :: "guest_config \<Rightarrow> bool" where
  "layout_ok c \<longleftrightarrow> gc_load_addr c AND NOT BLOCK_MASK_2MB = gc_load_addr c \<and>
     (gc_mem_size c + BLOCK_SIZE_2MB - 1) div BLOCK_SIZE_2MB * BLOCK_SIZE_2MB = gc_mem_size c \<and>
     2 ^ 21 dvd unat (gc_load_addr c) \<and> 2 ^ 21 dvd unat (gc_mem_size c) \<and>
     unat (gc_load_addr c) + unat (gc_mem_size c) \<le> 2 ^ 32 \<and> 0x1000 \<le> unat (gc_load_addr c)"

lemma root_of_vttbr:
  assumes "page_aligned p" "unat p < 2 ^ 48"
  shows "s2_vttbr (stage2_config_new p vmid) AND PTE_ADDR_MASK = p"
proof -
  have e: "(0x0000FFFFFFFFFFFE :: u64) = mask 48 AND NOT 1" "PTE_ADDR_MASK = mask 48 AND NOT (mask 12)"
    by (simp_all add: mask_eq_exp_minus_1 PTE_ADDR_MASK_def)
  have "p AND mask 12 = 0" using assms(1) by (simp add: page_aligned_def mask_eq_exp_minus_1)
  hence "\<not> (bit p k \<and> k < 12)" for k by (auto simp: u64_eq_iff bit_and_iff bit_mask_iff dest!: spec [of _ k])
  hence lo: "12 \<le> k" if "bit p k" for k using that not_le by blast
  have hi: "k < 48" if "bit p k" for k using less_pow_bits [OF assms(2)] that not_le by blast
  show ?thesis unfolding u64_eq_iff stage2_config_new_def e
    by (auto simp: bit_and_iff bit_or_iff bit_not_iff bit_mask_iff bit_push_bit_iff bit_1_iff dest: hi lo)
qed

lemma heap_page_low: "heap_ok U h \<Longrightarrow> avail n h \<Longrightarrow> p \<in> U \<Longrightarrow> page_aligned p \<and> unat p < 2 ^ 48"
proof -
  assume ok: "heap_ok U h" and av: "avail n h" and p: "p \<in> U"
  obtain a where a: "h_alloc h = Some a" using av by (auto simp: avail_def)
  obtain ps where "alloc_ok U ps (h_mem h) a" using ok a by (auto simp: heap_ok_def)
  hence "unat (al_end a) \<le> 2 ^ 48" "unat (al_next a) \<le> unat (al_end a)" "pages_ok (al_next a) (set ps \<union> U)"
    by (simp_all add: alloc_ok_def word_le_nat_alt)
  moreover from this(3) p have "page_aligned p" "unat p + 4096 \<le> unat (al_next a)" by (simp_all add: pages_ok_def)
  ultimately show ?thesis by simp
qed

lemma init_memory_ok:
  assumes be: "qemu_board be" and v: "\<not> vm_memory_initialized v" "vm_id v < length (fs_per_vm_vttbr (mc_ffa m))"
    and h: "heap_ok U (fs_heap (mc_ffa m))" "avail (278 + k) (fs_heap (mc_ffa m))" and c: "layout_ok c"
  obtains v' m' U' T' where "init_memory be (gc_load_addr c) (gc_mem_size c) v m = Some (v', m')"
    "v' = v\<lparr>vm_vttbr := vm_vttbr v', vm_vtcr := vm_vtcr v', vm_memory_initialized := True\<rparr>" "mc_hv m' = mc_hv m"
    "hw_regs (mc_hw m') = hw_regs (mc_hw m)" "heap_ok U' (fs_heap (mc_ffa m'))" "avail k (fs_heap (mc_ffa m'))"
    "leaves U {} (fs_heap (mc_ffa m)) U' T' (fs_heap (mc_ffa m'))" "T' \<subseteq> U'"
    "wf_tables T' (h_mem (fs_heap (mc_ffa m'))) (fs_per_vm_vttbr (mc_ffa m') ! vm_id v)"
    "\<And>j. j \<noteq> vm_id v \<Longrightarrow> fs_per_vm_vttbr (mc_ffa m') ! j = fs_per_vm_vttbr (mc_ffa m) ! j"
    "length (fs_per_vm_vttbr (mc_ffa m')) = length (fs_per_vm_vttbr (mc_ffa m))"
    "\<And>y. unat y < 2 ^ 48 \<Longrightarrow> vm_view (vm_id v) m' y = map_option (self_desc y)
      (guest_layout (trap_pages (be_gicd_base be) (be_gicr_base be) (be_num_cpus be)) (gc_load_addr c) (gc_mem_size c) y)"
proof -
  let ?ps = "trap_pages (be_gicd_base be) (be_gicr_base be) (be_num_cpus be)"
  have tr: "traps_in_gic ?ps" and n: "length ?ps \<le> 272" using be qemu_traps by (simp_all add: qemu_board_def trap_pages_length)
  have av: "avail (length ?ps + k + 6) (fs_heap (mc_ffa m))" by (rule avail_mono [OF h(2)]) (use n in simp)
  have c': "2 ^ 21 dvd unat (gc_load_addr c)" "2 ^ 21 dvd unat (gc_mem_size c)" "unat (gc_load_addr c) + unat (gc_mem_size c) \<le> 2 ^ 32"
    using c by (simp_all add: layout_ok_def)
  obtain d h' U' T' where i: "init_memory_dynamic (be_gicd_base be) (be_gicr_base be) (be_num_cpus be) (gc_load_addr c) (gc_mem_size c)
      (fs_heap (mc_ffa m)) = Some (d, h')" "mapper_ok U' T' d h'" "avail k h'" "leaves U {} (fs_heap (mc_ffa m)) U' T' h'"
    "\<forall>y. unat y < 2 ^ 48 \<longrightarrow> s2_desc (h_mem h') (dm_l0_table d) y =
       map_option (self_desc y) (guest_layout ?ps (gc_load_addr c) (gc_mem_size c) y)"
    using init_memory_built [OF h(1) av c' tr] by blast
  have ok: "heap_ok U' h'" "T' \<subseteq> U'" "wf_tables T' (h_mem h') (dm_l0_table d)" using i(2) by (simp_all add: mapper_ok_def s2_ok_def)
  hence "page_aligned (dm_l0_table d)" "unat (dm_l0_table d) < 2 ^ 48"
    using heap_page_low [OF ok(1) i(3)] wf_tablesD(2) [OF ok(3)] by blast+
  note root = root_of_vttbr [OF this]
  let ?c = "stage2_config_new (dm_l0_table d) (of_nat (vm_id v))"
  let ?f = "(mc_ffa m)\<lparr>fs_heap := h', fs_per_vm_vttbr := (fs_per_vm_vttbr (mc_ffa m))[vm_id v := dm_l0_table d]\<rparr>"
  let ?m = "install_stage2 ?c (m\<lparr>mc_ffa := ?f\<rparr>)"
  let ?v = "v\<lparr>vm_vttbr := s2_vttbr ?c, vm_vtcr := s2_vtcr ?c, vm_memory_initialized := True\<rparr>"
  have run: "init_memory be (gc_load_addr c) (gc_mem_size c) v m = Some (?v, ?m)"
    using v(1) i(1) c c'(3) by (simp add: init_memory_def Let_def root layout_ok_def BLOCK_SIZE_2MB_def)
  have "vm_view (vm_id v) ?m y = map_option (self_desc y) (guest_layout ?ps (gc_load_addr c) (gc_mem_size c) y)" if "unat y < 2 ^ 48" for y
    using i(5) that v(2) by (simp add: vm_view_def install_stage2_def)
  with run i(3,4) ok v(2) show thesis by (intro that [of ?v ?m U' T']) (simp_all add: install_stage2_def)
qed


lemma vm_new_built:
  assumes "hv_ok qemu_virt s" "n \<le> 8" "i < MAX_VMS"
  obtains s' where "vm_new n c i s = Some (vm_record i, s')" "hv_ok qemu_virt s'" "hv_mem s' = hv_mem s"
proof -
  obtain gr where gr: "gicr_new n = Some gr" using assms(2) by (simp add: gicr_new_def GICR_MAX_VCPUS_def)
  have "i < length (hv_devices s)" using assms(1,3) by (simp add: hv_ok_def)
  then obtain s' where r: "vm_new n c i s = Some (vm_record i, s')" "hv_mem s' = hv_mem s"
    using gr by (simp add: vm_new_def Let_def set_devices_def)
  thus thesis using that vm_new_ok [OF assms(1) r(1)] by blast
qed

lemma create_first:
  assumes "v = (vm_record i)\<lparr>vm_vttbr := a, vm_vtcr := b, vm_memory_initialized := True\<rparr>" "i < MAX_VMS"
  obtains v' where "create_vcpu mpidr 0 v = Inr v'" "vm_inv v'" "vm_id v' = i" "vm_state v' = VmReady" "vm_vcpu_count v' = 1"
    "vm_vcpus v' = Some (vcpu_new mpidr 0 0 0) # replicate (MAX_VCPUS - 1) None" "vm_vttbr v' = a"
proof -
  have inv: "vm_inv v" using vm_record_inv [OF assms(2)] by (simp add: assms(1) vm_inv_def)
  obtain v' where c: "create_vcpu mpidr 0 v = Inr v'" by (simp add: create_vcpu_def assms(1) vm_record_def MAX_VCPUS_def)
  note ok = create_vcpu_inv [OF inv c]
  show thesis
    by (rule that [OF c ok]) (use c in \<open>auto simp: create_vcpu_def assms(1) vm_record_def make_ready_def MAX_VCPUS_def numeral_eq_Suc\<close>)
qed

lemma upd_vcpu0_ok:
  assumes "vm_inv v" "vm_vcpus v ! 0 = Some k" "vc_id (f k) = vc_id k" "ich_lr (vc_arch (f k)) = ich_lr (vc_arch k)"
  shows "vm_inv (upd_vcpu0 f v)"
proof -
  have "0 < MAX_VCPUS" by (simp add: MAX_VCPUS_def)
  hence "vc_id k = 0" "length (ich_lr (vc_arch k)) = 4" using assms(1,2) by (auto simp: vm_inv_def)
  thus ?thesis using put_vcpu_inv [OF assms(1), of "f k" 0] assms(2-4) by (simp add: upd_vcpu0_def)
qed

lemma guest_sp_ok: "layout_ok c \<Longrightarrow> guest_sp c = Some (gc_load_addr c + gc_mem_size c - GUEST_STACK_RESERVE)"
  by (simp add: layout_ok_def guest_sp_def GUEST_STACK_RESERVE_def word_le_nat_alt unat_add_exact)

lemma make_vm_ok:
  assumes be: "qemu_board be" and m: "machine_ok qemu_virt m" and i: "i < MAX_VMS" and len: "length (fs_per_vm_vttbr (mc_ffa m)) = MAX_VMS"
    and h: "heap_ok U (fs_heap (mc_ffa m))" "avail (278 + k) (fs_heap (mc_ffa m))" and c: "layout_ok c"
    and f: "\<And>sp k. vc_id (f sp k) = vc_id k \<and> ich_lr (vc_arch (f sp k)) = ich_lr (vc_arch k)"
  obtains v m' U' T' where "make_vm be i c f m = Some (Inr v, m')" "vm_inv v" "vm_id v = i" "vm_state v = VmReady" "vm_vcpu_count v = 1"
    "\<exists>mpidr. vm_vcpus v = Some (f (gc_load_addr c + gc_mem_size c - GUEST_STACK_RESERVE) (vcpu_new mpidr 0 0 0)) # replicate (MAX_VCPUS - 1) None"
    "machine_ok qemu_virt m'" "hv_mem (mc_hv m') = hv_mem (mc_hv m)" "heap_ok U' (fs_heap (mc_ffa m'))" "avail k (fs_heap (mc_ffa m'))"
    "leaves U {} (fs_heap (mc_ffa m)) U' T' (fs_heap (mc_ffa m'))" "T' \<subseteq> U'"
    "wf_tables T' (h_mem (fs_heap (mc_ffa m'))) (fs_per_vm_vttbr (mc_ffa m') ! i)"
    "\<And>j. j \<noteq> i \<Longrightarrow> fs_per_vm_vttbr (mc_ffa m') ! j = fs_per_vm_vttbr (mc_ffa m) ! j" "length (fs_per_vm_vttbr (mc_ffa m')) = MAX_VMS"
    "\<And>y. unat y < 2 ^ 48 \<Longrightarrow> vm_view i m' y = map_option (self_desc y)
      (guest_layout (trap_pages (be_gicd_base be) (be_gicr_base be) (be_num_cpus be)) (gc_load_addr c) (gc_mem_size c) y)"
proof -
  have hv: "hv_ok qemu_virt (mc_hv m)" "be_num_cpus be \<le> 8" using m be by (simp_all add: machine_ok_def qemu_board_def)
  obtain s where s: "vm_new (be_num_cpus be) (be_cntvct be) i (mc_hv m) = Some (vm_record i, s)" "hv_ok qemu_virt s" "hv_mem s = hv_mem (mc_hv m)"
    by (rule vm_new_built [OF hv i])
  let ?m = "m\<lparr>mc_hv := s\<rparr>" and ?v = "vm_record i"
  have v: "\<not> vm_memory_initialized ?v" "vm_id ?v < length (fs_per_vm_vttbr (mc_ffa ?m))" "heap_ok U (fs_heap (mc_ffa ?m))"
    "avail (278 + k) (fs_heap (mc_ffa ?m))" using i len h by (simp_all add: vm_record_def)
  obtain v1 m1 U' T' where r: "init_memory be (gc_load_addr c) (gc_mem_size c) ?v ?m = Some (v1, m1)"
    "v1 = ?v\<lparr>vm_vttbr := vm_vttbr v1, vm_vtcr := vm_vtcr v1, vm_memory_initialized := True\<rparr>" "mc_hv m1 = mc_hv ?m"
    "hw_regs (mc_hw m1) = hw_regs (mc_hw ?m)" "heap_ok U' (fs_heap (mc_ffa m1))" "avail k (fs_heap (mc_ffa m1))"
    "leaves U {} (fs_heap (mc_ffa ?m)) U' T' (fs_heap (mc_ffa m1))" "T' \<subseteq> U'"
    "wf_tables T' (h_mem (fs_heap (mc_ffa m1))) (fs_per_vm_vttbr (mc_ffa m1) ! vm_id ?v)"
    "\<And>j. j \<noteq> vm_id ?v \<Longrightarrow> fs_per_vm_vttbr (mc_ffa m1) ! j = fs_per_vm_vttbr (mc_ffa ?m) ! j"
    "length (fs_per_vm_vttbr (mc_ffa m1)) = length (fs_per_vm_vttbr (mc_ffa ?m))"
    "\<And>y. unat y < 2 ^ 48 \<Longrightarrow> vm_view (vm_id ?v) m1 y = map_option (self_desc y)
      (guest_layout (trap_pages (be_gicd_base be) (be_gicr_base be) (be_num_cpus be)) (gc_load_addr c) (gc_mem_size c) y)"
    by (rule init_memory_ok [OF be v c]) blast
  obtain v2 where v2: "create_vcpu (hw_mpidr (mc_hw m1)) 0 v1 = Inr v2" "vm_inv v2" "vm_id v2 = i" "vm_state v2 = VmReady" "vm_vcpu_count v2 = 1"
    "vm_vcpus v2 = Some (vcpu_new (hw_mpidr (mc_hw m1)) 0 0 0) # replicate (MAX_VCPUS - 1) None" by (rule create_first [OF r(2) i]) blast
  let ?sp = "gc_load_addr c + gc_mem_size c - GUEST_STACK_RESERVE"
  let ?u = "upd_vcpu0 (f ?sp) v2"
  have "make_vm be i c f m = Some (Inr ?u, m1)" using s(1) r(1) v2(1) guest_sp_ok [OF c] by (simp add: make_vm_def)
  moreover have "vm_inv ?u" using upd_vcpu0_ok [OF v2(2)] f v2(6) by simp
  moreover have "vm_id ?u = i" "vm_state ?u = VmReady" "vm_vcpu_count ?u = 1"
    "vm_vcpus ?u = Some (f ?sp (vcpu_new (hw_mpidr (mc_hw m1)) 0 0 0)) # replicate (MAX_VCPUS - 1) None"
    using v2(3-6) by (simp_all add: upd_vcpu0_def put_vcpu_def)
  moreover have "machine_ok qemu_virt m1" using m s(2) r(3,4) by (simp add: machine_ok_def)
  ultimately show thesis
    using r(3,5-12) s(3) len by (intro that [of ?u m1 U' T']) (auto simp: vm_record_def)
qed

lemma attach_virtio_ok: "hv_ok qemu_virt s \<Longrightarrow> i < MAX_VMS \<Longrightarrow> hv_ok qemu_virt (attach_virtio i a s)"
proof -
  assume s: "hv_ok qemu_virt s" and i: "i < MAX_VMS"
  have "dm_ok qemu_virt (attach_virtio_blk a VIRTIO_DISK_SIZE (hv_devices s ! i))"
    unfolding attach_virtio_blk_def by (intro register_device_ok hv_ok_devices [OF s i])
      (simp_all add: transport_new_def MAX_QUEUES_def virtio_slot_def)
  moreover have "dm_ok qemu_virt (fst (attach_virtio_net i dm n))" if "dm_ok qemu_virt dm" for dm n
    using that i unfolding attach_virtio_net_def fst_conv by (intro register_device_ok)
      (simp_all add: transport_new_def MAX_QUEUES_def virtio_slot_def virtio_net_new_def MAX_VMS_def MAX_PORTS_def)
  moreover have "net_ok (snd (attach_virtio_net i dm n))" if "net_ok n" for dm n
    using that by (simp add: attach_virtio_net_def net_ok_def vswitch_add_port_def vswitch_ok_def valid_slots_def)
  moreover obtain dm n where e: "attach_virtio_net i (attach_virtio_blk a VIRTIO_DISK_SIZE (hv_devices s ! i)) (hv_net s) = (dm, n)" by fastforce
  ultimately have "dm_ok qemu_virt dm" "net_ok n" using s unfolding hv_ok_def by (metis fst_conv, metis snd_conv)
  thus ?thesis using s e by (auto simp: attach_virtio_def Let_def hv_ok_def set_devices_def dest!: set_update_subset)
qed


section \<open>Booting one Linux guest\<close>

lemma boot_vcpu_keeps: "vc_id (boot_vcpu c sp k) = vc_id k \<and> ich_lr (vc_arch (boot_vcpu c sp k)) = ich_lr (vc_arch k)"
  "vc_id (multi_boot_vcpu c sp k) = vc_id k \<and> ich_lr (vc_arch (multi_boot_vcpu c sp k)) = ich_lr (vc_arch k)"
  by (simp_all add: boot_vcpu_def multi_boot_vcpu_def el1_boot_state_def Let_def)

lemma linux_layouts: "layout_ok (linux_default m)" "layout_ok (linux_vm1 m)"
  by (simp_all add: layout_ok_def linux_default_def linux_vm1_def Let_def GUEST_RAM_BASE_def GUEST_LOAD_ADDR_def LINUX_MEM_SIZE_def
      VM1_GUEST_LOAD_ADDR_def VM1_LINUX_MEM_SIZE_def BLOCK_SIZE_2MB_def BLOCK_MASK_2MB_def)

text \<open>C30: the hypervisor brings a Linux guest up to its first instruction.  From a well-formed machine with 278 free heap
  pages, whatever image was loaded, preparing the guest does not panic and does not fail: the result is a ready VM with one vCPU
  that will start at the entry point found in the image, with the address of the device tree in \<open>x0\<close>, zero in \<open>x1\<close> to \<open>x3\<close> and
  interrupts masked, as the boot protocol asks; and the VM and the machine are in the well-formed states that the run loop's
  guarantees start from.\<close>

theorem linux_guest_prepared:
  assumes "qemu_board be" "machine_ok qemu_virt (bs_machine s)" "length (fs_per_vm_vttbr (mc_ffa (bs_machine s))) = MAX_VMS"
    and "heap_ok U (fs_heap (mc_ffa (bs_machine s)))" "avail 278 (fs_heap (mc_ffa (bs_machine s)))"
  shows "\<exists>v s' k. prepare_guest be (linux_default mem) s = Some (Inr v, s') \<and> vm_inv v \<and> machine_ok qemu_virt (bs_machine s') \<and>
    vm_state v = VmReady \<and> vm_vcpus v = Some k # replicate (MAX_VCPUS - 1) None \<and>
    cx_pc (vc_context k) = linux_entry mem GUEST_LOAD_ADDR \<and> cx_gp (vc_context k) 0 = LINUX_DTB_ADDR \<and>
    (\<forall>n\<in>{1, 2, 3}. cx_gp (vc_context k) n = 0) \<and> cx_sp (vc_context k) = 0x87FFF000 \<and>
    cx_spsr_el2 (vc_context k) = SPSR_EL1H_DAIF_MASKED"
proof -
  let ?c = "linux_default mem"
  have av: "avail (278 + 0) (fs_heap (mc_ffa (bs_machine s)))" and z: "0 < MAX_VMS" using assms(5) by (simp_all add: MAX_VMS_def)
  obtain v m' where m: "make_vm be 0 ?c (boot_vcpu ?c) (bs_machine s) = Some (Inr v, m')" "vm_inv v" "vm_state v = VmReady"
    "\<exists>mpidr. vm_vcpus v = Some (boot_vcpu ?c (gc_load_addr ?c + gc_mem_size ?c - GUEST_STACK_RESERVE) (vcpu_new mpidr 0 0 0)) #
      replicate (MAX_VCPUS - 1) None" "machine_ok qemu_virt m'"
    by (rule make_vm_ok [where f = "boot_vcpu ?c", OF assms(1,2) z assms(3,4) av linux_layouts(1) [of mem] boot_vcpu_keeps(1)]) blast
  then obtain mpidr where k: "vm_vcpus v = Some (boot_vcpu ?c (gc_load_addr ?c + gc_mem_size ?c - GUEST_STACK_RESERVE) (vcpu_new mpidr 0 0 0)) #
      replicate (MAX_VCPUS - 1) None" by blast
  let ?s = "s\<lparr>bs_machine := m', bs_el2 := configure_el2 (be_midr be) (init_guest_timer (bs_el2 s))\<rparr>"
  let ?t = "upd_machine reset_exception_counters (enable_physical_uart_irq (be_uartimsc be)
              (upd_machine (upd_hv (attach_virtio 0 VIRTIO_DISK_ADDR) \<circ> clear_twe) ?s))"
  have "gc_guest_type ?c = Linux" by (simp add: linux_default_def)
  hence "prepare_guest be ?c s = Some (Inr v, ?t)" using m(1) by (simp add: prepare_guest_def Let_def)
  moreover have "machine_ok qemu_virt (bs_machine ?t)"
    using m(5) attach_virtio_ok z by (simp add: upd_machine_def machine_ok_def upd_hv_def clear_twe_def reset_exception_counters_def
        enable_physical_uart_irq_def Let_def)
  ultimately show ?thesis using m(2,3) k
    by (auto simp: boot_vcpu_def linux_default_def Let_def el1_boot_state_def vcpu_new_def context_new_def context_default_def
        GUEST_RAM_BASE_def GUEST_LOAD_ADDR_def LINUX_MEM_SIZE_def GUEST_STACK_RESERVE_def)
qed


text \<open>The machine at reset, with the heap of the board.\<close>

definition reset_machine :: machine where
  "reset_machine = (demo_machine (hv_new [dm_new, dm_new]))\<lparr>mc_ffa := (boot_ffa boot_heap)\<lparr>fs_vttbr := 0, fs_per_vm_vttbr := [0, 0]\<rparr>\<rparr>"

definition reset_state :: boot_state where
  "reset_state = \<lparr>bs_machine = reset_machine, bs_el2 = \<lparr>el_cptr = 0x33FF, el_mdcr = 0, el_vpidr = 0, el_cnthctl = 3, el_cntvoff = 0\<rparr>, bs_writes = []\<rparr>"

definition qemu_env :: boot_env where
  "qemu_env = \<lparr>be_gicd_base = 0x08000000, be_gicr_base = 0x080A0000, be_num_cpus = 4, be_cntvct = 0, be_midr = 0, be_uartimsc = 0\<rparr>"

lemma reset_ok: "qemu_board qemu_env" "machine_ok qemu_virt (bs_machine reset_state)"
  "length (fs_per_vm_vttbr (mc_ffa (bs_machine reset_state))) = MAX_VMS" "heap_ok {} (fs_heap (mc_ffa (bs_machine reset_state)))"
  "n \<le> 4096 \<Longrightarrow> avail n (fs_heap (mc_ffa (bs_machine reset_state)))"
proof -
  have "hv_ok qemu_virt (hv_new [dm_new, dm_new])" by (rule hv_new_ok) (simp_all add: MAX_VMS_def dm_new_ok)
  thus "machine_ok qemu_virt (bs_machine reset_state)"
    using demo_machine_ok by (simp add: reset_state_def reset_machine_def machine_ok_def)
qed (simp_all add: qemu_board_def qemu_env_def reset_state_def reset_machine_def MAX_VMS_def boot_ffa_def boot_heap_ok boot_avail)

theorem linux_guest_prepared_witness:
  "\<exists>v s'. prepare_guest qemu_env (linux_default (\<lambda>_. 0)) reset_state = Some (Inr v, s') \<and> vm_inv v \<and> machine_ok qemu_virt (bs_machine s')"
  using linux_guest_prepared [OF reset_ok(1-4) reset_ok(5), of "\<lambda>_. 0"] by (simp, blast)

section \<open>Two VMs\<close>

lemma view_kept:
  assumes "wf_tables T (h_mem (fs_heap (mc_ffa m))) (fs_per_vm_vttbr (mc_ffa m) ! i)" "T \<subseteq> U"
    and "leaves U {} (fs_heap (mc_ffa m)) U' T' (fs_heap (mc_ffa m'))" "fs_per_vm_vttbr (mc_ffa m') ! i = fs_per_vm_vttbr (mc_ffa m) ! i"
  shows "vm_view i m' y = vm_view i m y"
proof -
  have "h_mem (fs_heap (mc_ffa m')) x = h_mem (fs_heap (mc_ffa m)) x" if "page_of x \<in> T" for x
    using assms(2,3) that by (auto simp: leaves_def)
  from tree_same(2) [OF assms(1) this] assms(4) show ?thesis by (simp add: vm_view_def)
qed

lemma layout_normal:
  assumes "qemu_board be" "unat start \<le> unat y" "unat y < unat start + unat sz" "0x42000000 \<le> unat y \<or> unat y < 0x41000000"
    "0x09000000 \<le> unat y" "unat y < 2 ^ 32"
  shows "guest_layout (trap_pages (be_gicd_base be) (be_gicr_base be) (be_num_cpus be)) start sz y = Some AttrNormal"
proof -
  have tr: "traps_in_gic (trap_pages (be_gicd_base be) (be_gicr_base be) (be_num_cpus be))"
    using assms(1) qemu_traps by (simp add: qemu_board_def)
  have "\<not> same_page y p" if "p \<in> set (trap_pages (be_gicd_base be) (be_gicr_base be) (be_num_cpus be))" for p
  proof
    assume "same_page y p"
    moreover have p: "unat p < 0x09000000" using tr that by (simp add: traps_in_gic_def)
    ultimately have "unat y div 2 ^ 21 = unat p div 2 ^ 21" using same_block_iff [of y p] assms(6) by (simp add: same_page_def)
    moreover have "unat p div 2 ^ 21 < 72" using p by simp
    moreover have "0x09000000 div 2 ^ 21 \<le> unat y div 2 ^ 21" using assms(5) by (intro div_le_mono) simp
    ultimately show False by simp
  qed
  thus ?thesis using assms by (auto simp: guest_layout_def gic_region heap_region)
qed

text \<open>C38: the two VMs of the multi-VM build are not isolated from each other in memory, nor the hypervisor from VM 0.  Boot
  succeeds from a well-formed machine with 556 free heap pages, and afterwards every address of VM 1's memory is mapped to the
  same page, with write access, in both VMs; and VM 0 also has write access to the page at \<open>0x40200000\<close>, where the
  hypervisor's image is linked.\<close>

theorem vm_memories_overlap:
  assumes "qemu_board be" "machine_ok qemu_virt (bs_machine s)" "length (fs_per_vm_vttbr (mc_ffa (bs_machine s))) = MAX_VMS"
    and "heap_ok U (fs_heap (mc_ffa (bs_machine s)))" "avail 556 (fs_heap (mc_ffa (bs_machine s)))"
  shows "\<exists>vm0 vm1 s'. prepare_multi_vm be s = Some (Inr (vm0, vm1), s') \<and>
    (\<forall>i<2. \<forall>y. 0x60000000 \<le> unat y \<and> unat y < 0x78000000 \<longrightarrow>
      (\<exists>e. vm_view i (bs_machine s') y = Some e \<and> pte_addr e = page_of y \<and> s2ap_of e = 3)) \<and>
    (\<exists>e. vm_view 0 (bs_machine s') 0x40200000 = Some e \<and> pte_addr e = 0x40200000 \<and> s2ap_of e = 3)"
proof -
  let ?c0 = "linux_default (hv_mem (mc_hv (bs_machine s)))"
  let ?ps = "trap_pages (be_gicd_base be) (be_gicr_base be) (be_num_cpus be)"
  have av: "avail (278 + 278) (fs_heap (mc_ffa (bs_machine s)))" and i: "0 < MAX_VMS" "1 < MAX_VMS" using assms(5) by (simp_all add: MAX_VMS_def)
  obtain v0 m0 U0 T0 where m0: "make_vm be 0 ?c0 (multi_boot_vcpu ?c0) (bs_machine s) = Some (Inr v0, m0)" "machine_ok qemu_virt m0"
    "heap_ok U0 (fs_heap (mc_ffa m0))" "avail 278 (fs_heap (mc_ffa m0))" "T0 \<subseteq> U0"
    "wf_tables T0 (h_mem (fs_heap (mc_ffa m0))) (fs_per_vm_vttbr (mc_ffa m0) ! 0)" "length (fs_per_vm_vttbr (mc_ffa m0)) = MAX_VMS"
    "\<And>y. unat y < 2 ^ 48 \<Longrightarrow> vm_view 0 m0 y = map_option (self_desc y) (guest_layout ?ps (gc_load_addr ?c0) (gc_mem_size ?c0) y)"
    by (rule make_vm_ok [where f = "multi_boot_vcpu ?c0", OF assms(1,2) i(1) assms(3,4) av linux_layouts(1) boot_vcpu_keeps(2)]) blast
  let ?m0 = "upd_hv (attach_virtio 0 VIRTIO_DISK_ADDR) m0"
  let ?c1 = "linux_vm1 (hv_mem (mc_hv ?m0))"
  have f0: "mc_ffa ?m0 = mc_ffa m0" "machine_ok qemu_virt ?m0"
    using m0(2) attach_virtio_ok i(1) by (simp_all add: upd_hv_def machine_ok_def)
  have p0: "length (fs_per_vm_vttbr (mc_ffa ?m0)) = MAX_VMS" "heap_ok U0 (fs_heap (mc_ffa ?m0))" "avail (278 + 0) (fs_heap (mc_ffa ?m0))"
    using m0(3,4,7) by (simp_all add: f0)
  obtain v1 m1 U1 T1 where m1: "make_vm be 1 ?c1 (multi_boot_vcpu ?c1) ?m0 = Some (Inr v1, m1)"
    "leaves U0 {} (fs_heap (mc_ffa ?m0)) U1 T1 (fs_heap (mc_ffa m1))"
    "\<And>j. j \<noteq> 1 \<Longrightarrow> fs_per_vm_vttbr (mc_ffa m1) ! j = fs_per_vm_vttbr (mc_ffa ?m0) ! j"
    "\<And>y. unat y < 2 ^ 48 \<Longrightarrow> vm_view 1 m1 y = map_option (self_desc y) (guest_layout ?ps (gc_load_addr ?c1) (gc_mem_size ?c1) y)"
    by (rule make_vm_ok [where f = "multi_boot_vcpu ?c1", OF assms(1) f0(2) i(2) p0 linux_layouts(2) boot_vcpu_keeps(2)]) blast
  have v0: "vm_view 0 m1 y = map_option (self_desc y) (guest_layout ?ps (gc_load_addr ?c0) (gc_mem_size ?c0) y)" if "unat y < 2 ^ 48" for y
    using view_kept [OF m0(6,5), of U1 T1 m1 y] m1(2) m1(3) [of 0] m0(8) [OF that] by (simp add: f0)
  obtain s' where s': "prepare_multi_vm be s = Some (Inr (v0, v1), s')" "\<And>i y. vm_view i (bs_machine s') y = vm_view i m1 y"
    using m0(1) m1(1) by (simp add: prepare_multi_vm_def Let_def upd_machine_def reset_exception_counters_def
        enable_physical_uart_irq_def clear_twe_def upd_hv_def vm_view_def)
  note cfg = linux_default_def linux_vm1_def Let_def GUEST_RAM_BASE_def GUEST_LOAD_ADDR_def LINUX_MEM_SIZE_def VM1_GUEST_LOAD_ADDR_def
    VM1_LINUX_MEM_SIZE_def
  have n0: "vm_view 0 (bs_machine s') y = Some (self_desc y AttrNormal)"
    if "0x40000000 \<le> unat y" "unat y < 0x88000000" "0x42000000 \<le> unat y \<or> unat y < 0x41000000" for y
    using v0 [of y] that layout_normal [OF assms(1), of "gc_load_addr ?c0" y "gc_mem_size ?c0"] by (simp add: s'(2) cfg)
  have n1: "vm_view 1 (bs_machine s') y = Some (self_desc y AttrNormal)" if "0x60000000 \<le> unat y" "unat y < 0x78000000" for y
    using m1(4) [of y] that layout_normal [OF assms(1), of "gc_load_addr ?c1" y "gc_mem_size ?c1"] by (simp add: s'(2) cfg)
  have "\<exists>e. vm_view j (bs_machine s') y = Some e \<and> pte_addr e = page_of y \<and> s2ap_of e = 3"
    if "j < 2" "0x60000000 \<le> unat y" "unat y < 0x78000000" for j y
    using that n0 [of y] n1 [of y] self_desc_props [of y AttrNormal] by (cases "j = 0") (simp_all add: less_2_cases_iff)
  moreover have "\<exists>e. vm_view 0 (bs_machine s') 0x40200000 = Some e \<and> pte_addr e = 0x40200000 \<and> s2ap_of e = 3"
    using n0 [of "0x40200000"] self_desc_props [of "0x40200000" AttrNormal] by (simp add: page_of_def)
  ultimately show ?thesis using s'(1) by blast
qed

theorem vm_memories_overlap_witness:
  "\<exists>vm0 vm1 s' e0 e1. prepare_multi_vm qemu_env reset_state = Some (Inr (vm0, vm1), s') \<and>
     vm_view 0 (bs_machine s') 0x68000000 = Some e0 \<and> vm_view 1 (bs_machine s') 0x68000000 = Some e1 \<and> pte_addr e0 = pte_addr e1"
proof -
  have "avail 556 (fs_heap (mc_ffa (bs_machine reset_state)))" by (rule reset_ok(5)) simp
  from vm_memories_overlap [OF reset_ok(1-4) this] obtain vm0 vm1 s' where p: "prepare_multi_vm qemu_env reset_state = Some (Inr (vm0, vm1), s')"
    and o: "\<forall>i<2. \<forall>y. 0x60000000 \<le> unat y \<and> unat y < 0x78000000 \<longrightarrow>
      (\<exists>e. vm_view i (bs_machine s') y = Some e \<and> pte_addr e = page_of y \<and> s2ap_of e = 3)" by (elim exE conjE)
  from o [rule_format, of 0 "0x68000000"] o [rule_format, of 1 "0x68000000"] obtain e0 e1
    where "vm_view 0 (bs_machine s') 0x68000000 = Some e0" "pte_addr e0 = page_of 0x68000000"
      "vm_view 1 (bs_machine s') 0x68000000 = Some e1" "pte_addr e1 = page_of 0x68000000" by auto
  thus ?thesis using p by (intro exI conjI) (assumption | simp)+
qed

end
