(* ===== verification/Spec2Isabelle.thy ===== *)
theory Spec2Isabelle
  imports Scheduler Ffa_Call_Props Ring_Concurrent Spin_Lock Virtio_Mmio Vm Smp_Wakeup Spmc Guest_Loader
begin

text \<open>Verification of an ARM64 type-1 hypervisor, a Rust program under \<open>src/src\<close>; the paths below are relative to it.

  \<^bold>\<open>The program.\<close>  At EL2 the hypervisor runs Linux guests.  Their memory is confined by Stage-2 page tables, built from the
  hypervisor's own heap; accesses outside them trap and are served by emulated devices: the interrupt controller, a serial port, a
  clock, and virtio block and network devices joined by a learning switch.  Each VM has up to eight vCPUs, scheduled on one physical CPU
  by a run loop, or one on each of several.  Interrupts reach a vCPU through pending masks and the list registers of the virtual
  interrupt interface.  A guest's firmware calls are trapped: PSCI is emulated, and FF-A calls go through a proxy that tracks memory
  the VMs share with each other and with the Secure World.  Booted at S-EL2 instead, the same program is the Secure Partition
  Manager Core, which runs Secure Partitions on behalf of the Normal World.

  \<^bold>\<open>Conventions.\<close>  Structs are records and enums are datatypes.  Machine integers are words; where the code's arithmetic may
  overflow, the wrap-around or the panic of a checked build is written out.  A result of type \<open>'a or_panic\<close> is \<^term>\<open>None\<close> when
  the code panics; an error it returns is a value of a sum type or a status code.  Loops are structural recursion, or
  \<open>partial_function (option)\<close> when they may run forever: not returning is then the value \<^term>\<open>None\<close>.  Console output is left out.
  Code outside the repository is an argument: the guest or partition that runs between two traps, the firmware behind an SMC,
  the device-tree parser, counters and hardware registers.  No fuel bounds a theorem: where a definition counts rounds, as
  \<open>run_event_loop\<close> does, the theorem holds for every number of rounds.

  \<^bold>\<open>Theories and sources.\<close>
  \<^item> \<open>Prelude\<close>: integer types, first-match scans of tables, lemmas on words, pages and options.
  \<^item> \<open>Scheduler\<close> (\<open>scheduler.rs\<close>): the round-robin scheduler; one vCPU runs at a time, and a ready vCPU runs within eight turns.
  \<^item> \<open>Heap\<close> (\<open>mm/allocator.rs\<close>, \<open>mm/heap.rs\<close>): the page allocator never hands out a page that is in use.
  \<^item> \<open>Stage2_Tables\<close>, \<open>Stage2_Walker\<close>, \<open>Stage2_Mapper\<close>, \<open>Stage2_Vms\<close>, \<open>Stage2_Props\<close> (\<open>ffa/stage2_walker.rs\<close>,
    \<open>arch/aarch64/mm/mmu.rs\<close>): page tables in memory and the abstract translation \<open>s2_desc\<close> they denote.  The operations on
    tables refine updates of that translation, splitting a block keeps it, and the trees of several VMs on one heap stay apart.
  \<^item> \<open>Guest_Stage2\<close> (\<open>init_memory\<close> of \<open>vm.rs\<close>): exactly which addresses a booting guest can reach, and which trap.
  \<^item> \<open>Guest_Loader\<close> (\<open>guest_loader.rs\<close>): a Linux guest is brought to its first instruction; with two VMs, their memories overlap.
  \<^item> \<open>Ffa_Types\<close>, \<open>Ffa_Notifications\<close>, \<open>Ffa_Shares\<close>, \<open>Guest_Memory\<close>, \<open>Ffa_Descriptors\<close>, \<open>Ffa_Proxy\<close> (\<open>ffa/*.rs\<close>): the proxy,
    one definition per handler; \<open>Ffa_Proxy_Lemmas\<close>, \<open>Ffa_Share_Props\<close>, \<open>Ffa_Call_Props\<close>: no calls of one VM change the
    translation of another, the life cycle of a share, round trips of share and reclaim and of retrieve and relinquish, messages,
    notifications that are neither forged nor lost.
  \<^item> \<open>Ring_Buffers\<close>, \<open>Ring_Concurrent\<close>, \<open>Spin_Lock\<close> (\<open>global.rs\<close>, \<open>vswitch.rs\<close>, \<open>sync.rs\<close>): the receive rings, sequentially and as
    interleaved atomic steps of a producer and a consumer; mutual exclusion and fairness of the ticket lock.
  \<^item> \<open>Virtqueue\<close>, \<open>Virtio_Net\<close>, \<open>Virtio_Blk\<close>, \<open>Virtio_Mmio\<close>, \<open>Vswitch\<close> (\<open>devices/virtio/*.rs\<close>, \<open>vswitch.rs\<close>): queues served to
    the end, frames forwarded as a learning table says, disk writes confined to the image.
  \<^item> \<open>Register_Banks\<close>, \<open>Gic_Distributor\<close>, \<open>Gic_Redistributor\<close>, \<open>Pl011\<close>, \<open>Pl031\<close>, \<open>Devices\<close> (\<open>devices/*\<close>): the emulated registers and
    the dispatch of an access to one device of the VM, which leaves the others alone.
  \<^item> \<open>List_Registers\<close>, \<open>Vcpu_Context\<close>, \<open>Vcpu\<close> (\<open>peripherals/gicv3.rs\<close>, \<open>regs.rs\<close>, \<open>decode.rs\<close>, \<open>vcpu.rs\<close>,
    \<open>vcpu_arch_state.rs\<close>): registers in and out of the hardware, and back unchanged.
  \<^item> \<open>Hv_State\<close> (\<open>global.rs\<close>): pending interrupts, routed to the vCPU the guest chose and conserved on their way to the list registers.
  \<^item> \<open>Exceptions\<close> (\<open>hypervisor/exception.rs\<close>): the handlers keep the whole state well formed.
  \<^item> \<open>Vm\<close> (\<open>vm.rs\<close>): the run loop of one physical CPU never runs a vCPU that does not exist; it does not end after shutdown.
  \<^item> \<open>Smp_Wakeup\<close> (\<open>vm.rs\<close>, \<open>exception.rs\<close>, \<open>global.rs\<close>): interrupts between physical CPUs as interleaved atomic steps; none is lost
    and a physical SGI delivers.
  \<^item> \<open>Sp_Context\<close>, \<open>Spmc\<close> (\<open>sp_context.rs\<close>, \<open>secure_stage2.rs\<close>, \<open>spmc_handler.rs\<close>, \<open>manifest.rs\<close>, \<open>main.rs\<close>): the SPMC boots and
    serves forever, preemption of a partition is transparent to its caller, a suspended partition is left alone.

  \<^bold>\<open>Interfaces.\<close>  The locales are \<open>bounded_fifo\<close> (interpreted for the serial, network and PL011 rings), \<open>share_table\<close> (the stub
  records), \<open>page_mapper\<close>, \<open>page_writer\<close> and \<open>page_transition\<close> (the walker's operations), \<open>queue_backend\<close> (the transmit queue),
  \<open>w1_bank\<close> (three register banks of the distributor) and \<open>lr_injector\<close> (saved and hardware list registers).

  \<^bold>\<open>Assumptions.\<close>  Interleavings of atomic accesses stand for the memory model: the code pairs release stores with acquire loads.
  Barriers and TLB maintenance have no counterpart.  Theorems on a machine start from a well-formed one, shown to exist by
  their witnesses; those on booting also assume enough free heap pages (278 for one VM, 556 for two, of 4096).

  \<^bold>\<open>Not modelled.\<close>
  \<^item> \<open>rust_main\<close>, \<open>rust_main_secondary\<close>, \<open>run_vcpu\<close> and \<open>secondary_enter_guest\<close>: register set-up, console output and self tests around
    code that is modelled; of the build with several physical CPUs the shared pending masks are in \<open>Smp_Wakeup\<close>, the CPU_ON slots are not.
  \<^item> \<open>dtb.rs\<close> but for two address computations: it selects fields from what a third-party parser returns; the addresses are arguments.
  \<^item> \<open>IdentityMapper\<close> and \<open>init_memory_static\<close>: used by the unit tests only.
  \<^item> The FF-A self test in \<open>guest_loader.rs\<close>, the programs under \<open>tests\<close> and \<open>tfa\<close>: test code.
  \<^item> Assembly, accessors of system registers, physical timers, the GICv2 driver and the serial console (\<open>uart.rs\<close>, \<open>lib.rs\<close>): hardware
    accesses without logic of their own.\<close>

end
